(* ===== verification/Prelude.thy ===== *)
theory Prelude
  imports Main "HOL-Library.Word" "HOL-Library.Char_ord" "HOL-Library.List_Lexorder"
begin

text \<open>
  What every component of the model shares.

  Go's \<open>[]byte\<close> is a list of 8-bit words, its \<open>string\<close> a character list (an Isabelle
  character is one byte, so lengths and comparisons are bytewise, as Go's are), an
  \<open>int64\<close> or \<open>uint64\<close> a 64-bit word. A fallible function returns \<open>error + 'a\<close>.
  The theory holds Go's \<open>sort.Search\<close>, the list facts on sorted and deduplicated
  lists, and the byte/character conversions.
\<close>

named_theorems result_simps \<open>how a result is threaded through a sequence of steps\<close>
named_theorems key_simps \<open>facts about key tuples and their encoding\<close>

type_synonym byte = "8 word"
type_synonym bytes = "byte list"
type_synonym int64 = "64 word"

subsection \<open>Results\<close>

text \<open>Go's \<open>if err != nil { return err }\<close> between two steps.\<close>

definition bind_res :: "'e + 'a \<Rightarrow> ('a \<Rightarrow> 'e + 'b) \<Rightarrow> 'e + 'b" where
  "bind_res r k = (case r of Inl e \<Rightarrow> Inl e | Inr a \<Rightarrow> k a)"

lemma bind_res_simps [simp, result_simps]:
  "bind_res (Inl e) k = Inl e"
  "bind_res (Inr a) k = k a"
  by (simp_all add: bind_res_def)

lemma bind_res_Inr [result_simps]:
  "bind_res r k = Inr b \<longleftrightarrow> (\<exists>a. r = Inr a \<and> k a = Inr b)"
  by (cases r) auto

text \<open>Go's loop over a slice whose body may return an error.\<close>

fun fold_res :: "('a \<Rightarrow> 's \<Rightarrow> 'e + 's) \<Rightarrow> 'a list \<Rightarrow> 's \<Rightarrow> 'e + 's" where
  "fold_res f [] s = Inr s"
| "fold_res f (x # xs) s = bind_res (f x s) (fold_res f xs)"

lemma fold_res_invariant:
  assumes "fold_res f xs s = Inr s'" and "P s"
    and "\<And>x s s'. x \<in> set xs \<Longrightarrow> P s \<Longrightarrow> f x s = Inr s' \<Longrightarrow> P s'"
  shows "P s'"
  using assms by (induction xs arbitrary: s) (auto simp: bind_res_Inr)

subsection \<open>Bytes and characters\<close>

definition byte_of_char :: "char \<Rightarrow> byte" where
  "byte_of_char c = of_nat (of_char c)"

definition char_of_byte :: "byte \<Rightarrow> char" where
  "char_of_byte b = char_of (unat b)"

text \<open>Go's conversions \<open>[]byte(s)\<close> and \<open>string(b)\<close>.\<close>

definition bytes_of_string :: "string \<Rightarrow> bytes" where
  "bytes_of_string s = map byte_of_char s"

definition string_of_bytes :: "bytes \<Rightarrow> string" where
  "string_of_bytes b = map char_of_byte b"

lemma unat_byte_of_char: "unat (byte_of_char c) = of_char c"
  by (simp add: byte_of_char_def unat_of_nat take_bit_eq_mod of_char_mod_256)

lemma char_of_byte_of_char [simp]: "char_of_byte (byte_of_char c) = c"
  by (simp add: char_of_byte_def unat_byte_of_char)

lemma byte_of_char_of_byte [simp]: "byte_of_char (char_of_byte b) = b"
proof -
  have "unat b < 256" using unsigned_less [of b] by simp
  then show ?thesis
    by (simp add: char_of_byte_def byte_of_char_def)
qed

lemma byte_of_char_inj [simp]: "byte_of_char a = byte_of_char b \<longleftrightarrow> a = b"
  by (metis char_of_byte_of_char)

lemma byte_of_char_less [simp]: "byte_of_char a < byte_of_char b \<longleftrightarrow> a < b"
  by (simp add: word_less_nat_alt unat_byte_of_char less_char_def)

lemma string_of_bytes_of_string [simp]: "string_of_bytes (bytes_of_string s) = s"
  by (simp add: string_of_bytes_def bytes_of_string_def comp_def)

lemma bytes_of_string_of_bytes [simp]: "bytes_of_string (string_of_bytes b) = b"
  by (simp add: string_of_bytes_def bytes_of_string_def comp_def)

lemma length_bytes_of_string [simp]: "length (bytes_of_string s) = length s"
  by (simp add: bytes_of_string_def)

subsection \<open>Byte order\<close>

text \<open>
  \<open>differs_below x y\<close>: at the first position where they differ, both lists have a byte
  and \<open>x\<close>'s is the smaller. It is the part of the byte order that survives whatever is
  appended to either list.
\<close>

definition differs_below :: "'a::linorder list \<Rightarrow> 'a list \<Rightarrow> bool" where
  "differs_below x y \<longleftrightarrow> (\<exists>p a b r s. x = p @ a # r \<and> y = p @ b # s \<and> a < b)"

lemma differs_belowI: "a < b \<Longrightarrow> differs_below (p @ a # r) (p @ b # s)"
  by (auto simp: differs_below_def)

lemma differs_below_append: "differs_below x y \<Longrightarrow> differs_below (x @ u) (y @ v)"
  by (force simp: differs_below_def)

lemma differs_below_prefix: "differs_below x y \<Longrightarrow> differs_below (p @ x) (p @ y)"
  unfolding differs_below_def by (metis append.assoc)

lemma differs_below_less: "differs_below x y \<Longrightarrow> x < y"
  by (auto simp: differs_below_def list_less_def lexord_append_leftI)

lemma differs_below_Cons: "a < b \<Longrightarrow> differs_below (a # r) (b # s)"
  using differs_belowI [of a b "[]" r s] by simp

lemma differs_below_Cons_same: "differs_below x y \<Longrightarrow> differs_below (a # x) (a # y)"
  using differs_below_prefix [of x y "[a]"] by simp

lemma same_length_differs_below:
  "length x = length y \<Longrightarrow> x < y \<Longrightarrow> differs_below x y"
proof (induction x y rule: list_induct2)
  case Nil
  then show ?case by simp
next
  case (Cons a x b y)
  then show ?case
    by (auto intro: differs_below_Cons differs_below_Cons_same)
qed

subsection \<open>Go's binary search\<close>

text \<open>The loop of \<open>sort.Search\<close>: \<open>h := int(uint(i+j) >> 1)\<close>.\<close>

function search_loop :: "(nat \<Rightarrow> bool) \<Rightarrow> nat \<Rightarrow> nat \<Rightarrow> nat" where
  "search_loop f i j =
     (if i < j
      then let h = (i + j) div 2
           in if \<not> f h then search_loop f (Suc h) j else search_loop f i h
      else i)"
  by pat_completeness auto
termination
  by (relation "measure (\<lambda>(f, i, j). j - i)") auto

declare search_loop.simps [simp del]

definition sort_search :: "nat \<Rightarrow> (nat \<Rightarrow> bool) \<Rightarrow> nat" where
  "sort_search n f = search_loop f 0 n"

text \<open>Go's precondition on the predicate: false up to some index, true from there on.\<close>

definition up_closed :: "nat \<Rightarrow> (nat \<Rightarrow> bool) \<Rightarrow> bool" where
  "up_closed n f \<longleftrightarrow> (\<forall>a b. a \<le> b \<and> b < n \<and> f a \<longrightarrow> f b)"

lemma up_closedD: "up_closed n f \<Longrightarrow> a \<le> b \<Longrightarrow> b < n \<Longrightarrow> f a \<Longrightarrow> f b"
  by (auto simp: up_closed_def)

definition splits_at :: "nat \<Rightarrow> (nat \<Rightarrow> bool) \<Rightarrow> nat \<Rightarrow> bool" where
  "splits_at n f r \<longleftrightarrow>
     r \<le> n \<and> (\<forall>a < r. \<not> f a) \<and> (\<forall>a. r \<le> a \<and> a < n \<longrightarrow> f a)"

lemma search_loop_partition:
  assumes "i \<le> j" and "j \<le> n" and "up_closed n f"
    and "\<And>a. a < i \<Longrightarrow> \<not> f a" and "\<And>a. j \<le> a \<Longrightarrow> a < n \<Longrightarrow> f a"
  shows "splits_at n f (search_loop f i j)"
  using assms
proof (induction f i j rule: search_loop.induct)
  case (1 f i j)
  show ?case
  proof (cases "i < j")
    case False
    then have "search_loop f i j = i" by (subst search_loop.simps) simp
    with False "1.prems" show ?thesis unfolding splits_at_def by auto
  next
    case True
    define h where "h = (i + j) div 2"
    have h: "i \<le> h" "h < j" using True by (auto simp: h_def)
    show ?thesis
    proof (cases "f h")
      case fh: True
      have eq: "search_loop f i j = search_loop f i h"
        using True fh by (subst search_loop.simps) (simp add: Let_def h_def)
      have up: "f a" if "h \<le> a" "a < n" for a
        using up_closedD [OF "1.prems"(3) that fh] .
      have "splits_at n f (search_loop f i h)"
        by (rule "1.IH"(2) [OF True h_def]) (use fh h "1.prems"(2,3,4) up in auto)
      with eq show ?thesis by simp
    next
      case fh: False
      have eq: "search_loop f i j = search_loop f (Suc h) j"
        using True fh by (subst search_loop.simps) (simp add: Let_def h_def)
      have low: "\<not> f a" if "a < Suc h" for a
      proof
        assume "f a"
        have "f h"
          by (rule up_closedD [OF "1.prems"(3) _ _ \<open>f a\<close>]) (use that h "1.prems"(2) in auto)
        with fh show False by simp
      qed
      have "splits_at n f (search_loop f (Suc h) j)"
        by (rule "1.IH"(1) [OF True h_def fh _ "1.prems"(2,3) low "1.prems"(5)])
          (use h in auto)
      with eq show ?thesis by simp
    qed
  qed
qed

lemma sort_search_splits: "up_closed n f \<Longrightarrow> splits_at n f (sort_search n f)"
  unfolding sort_search_def by (rule search_loop_partition) auto

lemma splits_atD:
  assumes "splits_at n f r"
  shows "r \<le> n" and "a < r \<Longrightarrow> \<not> f a" and "r \<le> a \<Longrightarrow> a < n \<Longrightarrow> f a"
  using assms by (auto simp: splits_at_def)

text \<open>
  The way the key sets use it: in a strictly increasing list, look for the first
  position whose key is at least \<open>x\<close>, and compare that one.
\<close>

lemma sort_search_member:
  fixes x :: "'k::linorder"
  assumes "sorted_wrt (<) (map key xs)"
  shows "(let i = sort_search (length xs) (\<lambda>j. x \<le> key (xs ! j))
          in i < length xs \<and> key (xs ! i) = x)
    \<longleftrightarrow> x \<in> key ` set xs"
proof -
  let ?f = "\<lambda>j. x \<le> key (xs ! j)"
  have less: "key (xs ! a) < key (xs ! b)" if "a < b" "b < length xs" for a b
    using assms that by (simp add: sorted_wrt_iff_nth_less)
  have mono: "up_closed (length xs) ?f"
    unfolding up_closed_def
  proof (intro allI impI, elim conjE)
    fix a b assume "a \<le> b" "b < length xs" "x \<le> key (xs ! a)"
    then show "x \<le> key (xs ! b)"
      using less [of a b] by (cases "a = b") auto
  qed
  define i where "i = sort_search (length xs) ?f"
  have split: "splits_at (length xs) ?f i"
    unfolding i_def by (rule sort_search_splits [OF mono])
  have "i < length xs \<and> key (xs ! i) = x" if x: "x \<in> key ` set xs"
  proof -
    from x obtain e where "e \<in> set xs" "x = key e" by blast
    then obtain m where m: "m < length xs" "key (xs ! m) = x"
      by (auto simp: in_set_conv_nth)
    have "\<not> m < i"
      using splits_atD(2) [OF split, of m] m(2) by (metis order_refl)
    then have le: "i \<le> m" by (rule leI)
    then have lt: "i < length xs" using m(1) by (rule le_less_trans)
    have "x \<le> key (xs ! i)"
      by (rule splits_atD(3) [OF split order_refl lt])
    moreover have "key (xs ! i) \<le> key (xs ! m)"
      using less [OF _ m(1), of i] le by (metis order_le_less less_imp_le)
    ultimately have "key (xs ! i) = x"
      unfolding m(2) by (rule antisym [rotated])
    then show ?thesis using lt by blast
  qed
  moreover have "x \<in> key ` set xs" if "i < length xs \<and> key (xs ! i) = x"
    using that by (metis image_eqI nth_mem)
  ultimately show ?thesis unfolding Let_def i_def [symmetric] by (rule iffI [rotated])
qed

end
