(* ===== verification/Refs.thy ===== *)
theory Refs
  imports Prelude
begin

text \<open>
  \<open>internal/ref\<close> and the catalogue types of \<open>internal/pipeline\<close>: the two identifiers
  every package shares, with the order every iteration is taken in, and the schema
  introspection hands to the planner. \<open>TableRef\<close> and \<open>ColumnRef\<close> are instances of
  \<open>linorder\<close> through their \<open>Less\<close>, so that sorting and ordered keys of the library
  apply to them.
\<close>

subsection \<open>internal/ref\<close>

datatype table_ref = TableRef (ref_schema: string) (ref_name: string)

definition table_ref_string :: "table_ref \<Rightarrow> string" where
  "table_ref_string t = ref_schema t @ ''.'' @ ref_name t"

definition table_ref_less :: "table_ref \<Rightarrow> table_ref \<Rightarrow> bool" where
  "table_ref_less t u =
     (if ref_schema t \<noteq> ref_schema u then ref_schema t < ref_schema u
      else ref_name t < ref_name u)"

instantiation table_ref :: linorder
begin

definition less_table_ref :: "table_ref \<Rightarrow> table_ref \<Rightarrow> bool" where
  "less_table_ref = table_ref_less"

definition less_eq_table_ref :: "table_ref \<Rightarrow> table_ref \<Rightarrow> bool" where
  "less_eq_table_ref t u \<longleftrightarrow> t = u \<or> table_ref_less t u"

instance
proof
  fix x y z :: table_ref
  show "(x < y) = (x \<le> y \<and> \<not> y \<le> x)"
    by (cases x; cases y)
      (auto simp: less_table_ref_def less_eq_table_ref_def table_ref_less_def split: if_splits)
  show "x \<le> x" by (simp add: less_eq_table_ref_def)
  show "x \<le> y \<Longrightarrow> y \<le> z \<Longrightarrow> x \<le> z"
    by (cases x; cases y; cases z)
      (auto simp: less_eq_table_ref_def table_ref_less_def split: if_splits)
  show "x \<le> y \<Longrightarrow> y \<le> x \<Longrightarrow> x = y"
    by (cases x; cases y)
      (auto simp: less_eq_table_ref_def table_ref_less_def split: if_splits)
  show "x \<le> y \<or> y \<le> x"
    by (cases x; cases y)
      (auto simp: less_eq_table_ref_def table_ref_less_def)
qed

end

datatype column_ref = ColumnRef (ref_table: table_ref) (ref_column: string)

definition column_ref_string :: "column_ref \<Rightarrow> string" where
  "column_ref_string c = table_ref_string (ref_table c) @ ''.'' @ ref_column c"

definition column_ref_less :: "column_ref \<Rightarrow> column_ref \<Rightarrow> bool" where
  "column_ref_less c d =
     (if ref_table c \<noteq> ref_table d then ref_table c < ref_table d
      else ref_column c < ref_column d)"

instantiation column_ref :: linorder
begin

definition less_column_ref :: "column_ref \<Rightarrow> column_ref \<Rightarrow> bool" where
  "less_column_ref = column_ref_less"

definition less_eq_column_ref :: "column_ref \<Rightarrow> column_ref \<Rightarrow> bool" where
  "less_eq_column_ref c d \<longleftrightarrow> c = d \<or> column_ref_less c d"

instance
proof
  fix x y z :: column_ref
  show "(x < y) = (x \<le> y \<and> \<not> y \<le> x)"
    by (cases x; cases y)
      (auto simp: less_column_ref_def less_eq_column_ref_def column_ref_less_def split: if_splits)
  show "x \<le> x" by (simp add: less_eq_column_ref_def)
  show "x \<le> y \<Longrightarrow> y \<le> z \<Longrightarrow> x \<le> z"
    by (cases x; cases y; cases z)
      (auto simp: less_eq_column_ref_def column_ref_less_def split: if_splits)
  show "x \<le> y \<Longrightarrow> y \<le> x \<Longrightarrow> x = y"
    by (cases x; cases y)
      (auto simp: less_eq_column_ref_def column_ref_less_def split: if_splits)
  show "x \<le> y \<or> y \<le> x"
    by (cases x; cases y)
      (auto simp: less_eq_column_ref_def column_ref_less_def)
qed

end

text \<open>
  \<open>Less\<close> is a strict total order: the property the planner's and the emitter's
  determinism rest on, and what makes the sorts of the model well defined.
\<close>

lemma table_ref_less_iff [simp]: "table_ref_less t u \<longleftrightarrow> t < u"
  by (simp add: less_table_ref_def)

lemma column_ref_less_iff [simp]: "column_ref_less c d \<longleftrightarrow> c < d"
  by (simp add: less_column_ref_def)

subsection \<open>internal/pipeline: the introspected schema\<close>

record sequence_def =
  seq_name :: string
  seq_column :: string
  seq_start :: int64
  seq_increment :: int64
  seq_min :: int64
  seq_max :: int64
  seq_cache :: int64
  seq_cycle :: bool

record column =
  col_name :: string
  col_type_name :: string
  col_type_oid :: "32 word"
  col_typmod :: "32 word"
  col_collation :: string
  col_nullable :: bool
  col_default :: string
  col_default_original :: string
  col_generated :: string
  col_identity :: string
  col_identity_seq :: "sequence_def option"
  col_domain :: string
  col_checks :: "string list"
  col_fingerprint :: string

record index =
  idx_name :: string
  idx_columns :: "string list"
  idx_unique :: bool
  idx_partial :: bool
  idx_expression :: bool
  idx_immediate :: bool
  idx_def :: string

record constraint_def =
  con_name :: string
  con_kind :: byte
  con_def :: string

text \<open>
  \<open>Samples\<close> and \<open>SampledFrom\<close> are left out: they hold values of the source for the
  classifier and nothing modelled here reads them. \<open>tab_parent\<close> is Go's pointer, nil
  for a table that is not a partition.
\<close>

record table =
  tab_ref :: table_ref
  tab_columns :: "column list"
  tab_pk :: "string list"
  tab_indexes :: "index list"
  tab_constraints :: "constraint_def list"
  tab_sequences :: "sequence_def list"
  tab_partitioned :: bool
  tab_partition_key :: "string list"
  tab_partitions :: "table_ref list"
  tab_parent :: "table_ref option"
  tab_rls :: bool
  tab_force_rls :: bool
  tab_triggers :: int
  tab_approx_rows :: int

record named_def =
  nd_name :: string
  nd_def :: string

record foreign_key =
  fk_name :: string
  fk_child :: table_ref
  fk_child_cols :: "string list"
  fk_parent :: table_ref
  fk_parent_cols :: "string list"
  fk_match_full :: bool
  fk_validated :: bool
  fk_virtual :: bool
  fk_indexed :: bool
  fk_not_recreatable :: bool

end
