(* ===== verification/Key_Encoding.thy ===== *)
theory Key_Encoding
  imports Refs
begin

unbundle bit_operations_syntax

text \<open>
  The first half of \<open>internal/plan/keyset.go\<close>: how one identity column travels (kind,
  casts), and the order-preserving encoding of a key tuple into the byte slab, with its
  inverse. The contract of an encoding is the locale \<open>order_codec\<close>: what a decoder returns
  after an encoder, and that byte order is value order whatever follows. It is interpreted
  for one column and for a whole tuple.
\<close>

subsection \<open>Key kinds\<close>

datatype key_kind = KindInt | KindText | KindBpchar | KindUUID | KindOther

record key_type =
  kt_kind :: key_kind
  kt_array_cast :: string
  kt_type_name :: string

definition oid_int2 :: "32 word" where "oid_int2 = 21"
definition oid_int8 :: "32 word" where "oid_int8 = 20"
definition oid_int4 :: "32 word" where "oid_int4 = 23"
definition oid_text :: "32 word" where "oid_text = 25"
definition oid_bpchar :: "32 word" where "oid_bpchar = 1042"
definition oid_varchar :: "32 word" where "oid_varchar = 1043"
definition oid_uuid :: "32 word" where "oid_uuid = 2950"

text \<open>Go's \<open>strings.TrimPrefix\<close>.\<close>

definition trim_prefix :: "string \<Rightarrow> string \<Rightarrow> string" where
  "trim_prefix s p = (if take (length p) s = p then drop (length p) s else s)"

definition type_of_column :: "column \<Rightarrow> key_type" where
  "type_of_column c =
     (let oid = col_type_oid c; name = col_type_name c in
      if oid = oid_int2 \<or> oid = oid_int4 \<or> oid = oid_int8
      then \<lparr>kt_kind = KindInt, kt_array_cast = ''::int8[]'', kt_type_name = name\<rparr>
      else if oid = oid_text \<or> oid = oid_varchar
      then \<lparr>kt_kind = KindText, kt_array_cast = ''::text[]'', kt_type_name = name\<rparr>
      else if oid = oid_bpchar
      then \<lparr>kt_kind = KindBpchar, kt_array_cast = ''::text[]'', kt_type_name = name\<rparr>
      else if oid = oid_uuid
      then \<lparr>kt_kind = KindUUID, kt_array_cast = ''::uuid[]'', kt_type_name = name\<rparr>
      else if trim_prefix name ''public.'' = ''citext''
      then \<lparr>kt_kind = KindText, kt_array_cast = ''::text[]'', kt_type_name = name\<rparr>
      else \<lparr>kt_kind = KindOther, kt_array_cast = ''::text[]'', kt_type_name = name\<rparr>)"

definition text_out :: "key_type \<Rightarrow> bool" where
  "text_out t \<longleftrightarrow> kt_kind t = KindOther \<or> kt_kind t = KindBpchar"

subsection \<open>Key values\<close>

text \<open>\<open>pgtype.UUID\<close>: sixteen bytes and a validity flag.\<close>

record uuid =
  uuid_bytes :: bytes
  uuid_valid :: bool

definition uuid_zero :: uuid where
  "uuid_zero = \<lparr>uuid_bytes = replicate 16 0, uuid_valid = False\<rparr>"

text \<open>Go's struct has one field per carrier and the kind says which is live.\<close>

record key_value =
  kv_i :: int64
  kv_s :: string
  kv_u :: uuid

type_synonym key_tuple = "key_value list"

definition key_value_zero :: key_value where
  "key_value_zero = \<lparr>kv_i = 0, kv_s = [], kv_u = uuid_zero\<rparr>"

text \<open>A value of a kind carries data in the live field only.\<close>

definition kv_ok :: "key_type \<Rightarrow> key_value \<Rightarrow> bool" where
  "kv_ok ty v =
     (case kt_kind ty of
        KindInt \<Rightarrow> kv_s v = [] \<and> kv_u v = uuid_zero
      | KindUUID \<Rightarrow> kv_i v = 0 \<and> kv_s v = [] \<and> length (uuid_bytes (kv_u v)) = 16
          \<and> uuid_valid (kv_u v)
      | _ \<Rightarrow> kv_i v = 0 \<and> kv_u v = uuid_zero)"

definition tuple_ok :: "key_type list \<Rightarrow> key_tuple \<Rightarrow> bool" where
  "tuple_ok tys vs \<longleftrightarrow> list_all2 kv_ok tys vs"

text \<open>The order of one identity column's values: the order Postgres sorts the column by
  under the C collation.\<close>

definition kv_less :: "key_type \<Rightarrow> key_value \<Rightarrow> key_value \<Rightarrow> bool" where
  "kv_less ty v w =
     (case kt_kind ty of
        KindInt \<Rightarrow> sint (kv_i v) < sint (kv_i w)
      | KindUUID \<Rightarrow> uuid_bytes (kv_u v) < uuid_bytes (kv_u w)
      | _ \<Rightarrow> kv_s v < kv_s w)"

fun tuple_less :: "key_type list \<Rightarrow> key_tuple \<Rightarrow> key_tuple \<Rightarrow> bool" where
  "tuple_less (ty # tys) (v # vs) (w # ws) =
     (kv_less ty v w \<or> v = w \<and> tuple_less tys vs ws)"
| "tuple_less _ _ _ = False"

subsection \<open>Big-endian integers\<close>

fun put_be :: "nat \<Rightarrow> nat \<Rightarrow> bytes" where
  "put_be 0 v = []"
| "put_be (Suc k) v = of_nat (v div 256 ^ k) # put_be k (v mod 256 ^ k)"

fun get_be :: "nat \<Rightarrow> bytes \<Rightarrow> nat" where
  "get_be acc [] = acc"
| "get_be acc (b # bs) = get_be (acc * 256 + unat b) bs"

lemma length_put_be [simp]: "length (put_be k v) = k"
  by (induction k arbitrary: v) auto

lemma unat_of_nat_byte: "n < 256 \<Longrightarrow> unat (of_nat n :: byte) = n"
  by (simp add: unat_of_nat take_bit_eq_mod)

lemma get_put_be: "v < 256 ^ k \<Longrightarrow> get_be acc (put_be k v) = acc * 256 ^ k + v"
proof (induction k arbitrary: v acc)
  case 0
  then show ?case by simp
next
  case (Suc k)
  have d: "v div 256 ^ k < 256"
    using Suc.prems by (simp add: div_less_iff_less_mult)
  have "get_be acc (put_be (Suc k) v)
      = (acc * 256 + v div 256 ^ k) * 256 ^ k + v mod 256 ^ k"
    using Suc.IH [of "v mod 256 ^ k"] by (simp add: unat_of_nat_byte [OF d])
  also have "\<dots> = acc * 256 ^ Suc k + (v div 256 ^ k * 256 ^ k + v mod 256 ^ k)"
    by (simp add: add_mult_distrib mult.assoc)
  finally show ?case by (simp only: div_mult_mod_eq)
qed

lemma put_be_less:
  assumes "v < w" and "w < 256 ^ k"
  shows "put_be k v < put_be k w"
  using assms
proof (induction k arbitrary: v w)
  case 0
  then show ?case by simp
next
  case (Suc k)
  have dw: "w div 256 ^ k < 256" and dv: "v div 256 ^ k < 256"
    using Suc.prems by (simp_all add: div_less_iff_less_mult)
  have le: "v div 256 ^ k \<le> w div 256 ^ k"
    using Suc.prems by (simp add: div_le_mono)
  show ?case
  proof (cases "v div 256 ^ k = w div 256 ^ k")
    case True
    then have "v mod 256 ^ k < w mod 256 ^ k"
      using Suc.prems(1) by (metis add_less_cancel_left mult_div_mod_eq)
    then have "put_be k (v mod 256 ^ k) < put_be k (w mod 256 ^ k)"
      by (rule Suc.IH) simp
    with True show ?thesis by simp
  next
    case False
    with le have "v div 256 ^ k < w div 256 ^ k" by simp
    then have "(of_nat (v div 256 ^ k) :: byte) < of_nat (w div 256 ^ k)"
      using dw dv by (simp add: word_less_nat_alt unat_of_nat_byte)
    then show ?thesis by simp
  qed
qed

subsection \<open>encodeInto and decode\<close>

definition sign_bit :: int64 where
  "sign_bit = push_bit 63 1"

text \<open>The escape of one string byte: \<open>0x00\<close> becomes \<open>0x00 0xff\<close>.\<close>

definition escape_byte :: "byte \<Rightarrow> bytes" where
  "escape_byte c = (if c = 0 then [0, 0xff] else [c])"

definition encode_value :: "key_type \<Rightarrow> key_value \<Rightarrow> bytes" where
  "encode_value ty v =
     (case kt_kind ty of
        KindInt \<Rightarrow> put_be 8 (unat (kv_i v XOR sign_bit))
      | KindUUID \<Rightarrow> uuid_bytes (kv_u v)
      | _ \<Rightarrow> concat (map escape_byte (bytes_of_string (kv_s v))) @ [0, 0])"

text \<open>\<open>encodeInto(b, t)\<close> ranges over the types, so a value past the last type is not
  written and a missing one would be an index out of range.\<close>

fun encode_tuple :: "key_type list \<Rightarrow> key_tuple \<Rightarrow> bytes" where
  "encode_tuple (ty # tys) (v # vs) = encode_value ty v @ encode_tuple tys vs"
| "encode_tuple _ _ = []"

text \<open>
  The scan of \<open>decode\<close>'s default case: it stops at an unescaped terminator or one byte
  before the end, and returns the raw bytes, whether any was escaped, and what is left
  from the cursor on.
\<close>

fun scan_text :: "bytes \<Rightarrow> bytes \<times> bool \<times> bytes" where
  "scan_text (x # y # zs) =
     (if x \<noteq> 0 then (let (raw, e, rest) = scan_text (y # zs) in (x # raw, e, rest))
      else if y = 0 then ([], False, x # y # zs)
      else (let (raw, e, rest) = scan_text zs in (x # y # raw, True, rest)))"
| "scan_text b = ([], False, b)"

fun unescape :: "bytes \<Rightarrow> bytes" where
  "unescape [] = []"
| "unescape (b # bs) = (if b = 0 then 0 # unescape (drop 1 bs) else b # unescape bs)"

text \<open>
  One column of \<open>decode\<close> and the bytes after it. \<open>None\<close> is Go's slice out of range.
\<close>

definition decode_value :: "key_type \<Rightarrow> bytes \<Rightarrow> (key_value \<times> bytes) option" where
  "decode_value ty b =
     (case kt_kind ty of
        KindInt \<Rightarrow>
          (if length b < 8 then None
           else Some (key_value_zero\<lparr>kv_i := of_nat (get_be 0 (take 8 b)) XOR sign_bit\<rparr>, drop 8 b))
      | KindUUID \<Rightarrow>
          (if length b < 16 then None
           else Some (key_value_zero\<lparr>kv_u := \<lparr>uuid_bytes = take 16 b, uuid_valid = True\<rparr>\<rparr>,
                      drop 16 b))
      | _ \<Rightarrow>
          (let (raw, escaped, rest) = scan_text b
           in Some (key_value_zero\<lparr>kv_s := string_of_bytes (if escaped then unescape raw else raw)\<rparr>,
                    drop 2 rest)))"

fun decode_tuple :: "key_type list \<Rightarrow> bytes \<Rightarrow> (key_tuple \<times> bytes) option" where
  "decode_tuple [] b = Some ([], b)"
| "decode_tuple (ty # tys) b =
     (case decode_value ty b of
        None \<Rightarrow> None
      | Some (v, b') \<Rightarrow>
          (case decode_tuple tys b' of
             None \<Rightarrow> None
           | Some (vs, b'') \<Rightarrow> Some (v # vs, b'')))"

subsection \<open>The contract of an order-preserving encoding\<close>

locale order_codec =
  fixes enc :: "'v \<Rightarrow> bytes"
    and dec :: "bytes \<Rightarrow> ('v \<times> bytes) option"
    and lt :: "'v \<Rightarrow> 'v \<Rightarrow> bool"
    and ok :: "'v \<Rightarrow> bool"
  assumes dec_enc: "ok v \<Longrightarrow> dec (enc v @ rest) = Some (v, rest)"
    and enc_below: "ok v \<Longrightarrow> ok w \<Longrightarrow> lt v w \<Longrightarrow> differs_below (enc v) (enc w)"
    and lt_total: "ok v \<Longrightarrow> ok w \<Longrightarrow> lt v w \<or> v = w \<or> lt w v"
begin

lemma dec_enc_all: "ok v \<Longrightarrow> dec (enc v) = Some (v, [])"
  using dec_enc [of v "[]"] by simp

lemma enc_inj: "ok v \<Longrightarrow> ok w \<Longrightarrow> enc v = enc w \<longleftrightarrow> v = w"
  by (metis dec_enc_all option.inject prod.inject)

lemma enc_mono: "ok v \<Longrightarrow> ok w \<Longrightarrow> lt v w \<Longrightarrow> enc v < enc w"
  by (rule differs_below_less) (rule enc_below)

lemma lt_irrefl: "ok v \<Longrightarrow> \<not> lt v v"
  using enc_mono [of v v] by auto

lemma enc_less_iff: "ok v \<Longrightarrow> ok w \<Longrightarrow> enc v < enc w \<longleftrightarrow> lt v w"
  by (metis enc_mono lt_total less_asym less_irrefl)

lemma enc_no_prefix: "ok v \<Longrightarrow> ok w \<Longrightarrow> enc v @ r = enc w @ s \<Longrightarrow> v = w \<and> r = s"
  by (metis dec_enc option.inject prod.inject)

end

subsection \<open>One column\<close>

text \<open>Flipping the sign bit adds \<open>2^63\<close>, which moves signed order onto unsigned order.\<close>

lemma xor_sign_bit: "x XOR sign_bit = x + 2 ^ 63"
proof -
  have two: "- (2 ^ 63) = (2 ^ 63 :: int64)" by simp
  have "flip_bit 63 x = x + 2 ^ 63"
  proof (cases "bit x 63")
    case True
    then have "flip_bit 63 x = x + - (2 ^ 63)"
      by (simp add: flip_bit_eq_if unset_bit_eq)
    then show ?thesis unfolding two .
  next
    case False
    then show ?thesis by (simp add: flip_bit_eq_if set_bit_eq)
  qed
  then show ?thesis by (simp add: sign_bit_def flip_bit_eq_xor)
qed

lemma sint_flip: "sint (x :: int64) = uint (x XOR sign_bit) - 2 ^ 63"
proof -
  have "signed_take_bit 63 (k :: int) = (k + 2 ^ 63) mod 2 ^ 64 - 2 ^ 63" for k
    by (simp add: signed_take_bit_eq_take_bit_shift take_bit_eq_mod)
  moreover have "uint (x + 2 ^ 63) = (uint x + 2 ^ 63) mod 2 ^ 64"
    by (simp add: uint_word_ariths)
  ultimately show ?thesis by (simp add: sint_uint xor_sign_bit)
qed

lemma sint_less_flip:
  "sint (x :: int64) < sint y \<longleftrightarrow> unat (x XOR sign_bit) < unat (y XOR sign_bit)"
  by (simp add: sint_flip flip: word_less_def word_less_nat_alt)

lemma xor_sign_bit_twice [simp]: "(x XOR sign_bit) XOR sign_bit = x"
  by (simp add: xor.assoc)

lemma unat_int64_bound: "unat (x :: int64) < 256 ^ 8"
  using unsigned_less [of x] by simp

lemma int_below:
  assumes "sint (x :: int64) < sint y"
  shows "differs_below (put_be 8 (unat (x XOR sign_bit))) (put_be 8 (unat (y XOR sign_bit)))"
  by (intro same_length_differs_below put_be_less unat_int64_bound)
    (use assms in \<open>simp_all add: sint_less_flip\<close>)

lemma int_decode: "of_nat (get_be 0 (put_be 8 (unat (x XOR sign_bit)))) XOR sign_bit = (x :: int64)"
  by (simp only: get_put_be [OF unat_int64_bound]) simp

text \<open>Text: the escaped bytes and the terminator.\<close>

abbreviation escape :: "bytes \<Rightarrow> bytes" where
  "escape b \<equiv> concat (map escape_byte b)"

lemma bytes_of_string_less [simp]: "bytes_of_string s < bytes_of_string t \<longleftrightarrow> s < t"
  by (induction s t rule: list_induct2') (auto simp: bytes_of_string_def)

lemma escape_below: "b < c \<Longrightarrow> differs_below (escape b @ [0, 0]) (escape c @ [0, 0])"
proof (induction b c rule: list_induct2')
  case (3 c cs)
  show ?case
  proof (cases "c = 0")
    case True
    have "differs_below [0 :: byte, 0] (0 # 0xff # escape cs @ [0, 0])"
      by (intro differs_below_Cons_same differs_below_Cons) simp
    moreover have "escape_byte c = [0, 0xff]" using True by (simp add: escape_byte_def)
    ultimately show ?thesis by simp
  next
    case False
    then show ?thesis
      by (auto simp: escape_byte_def [of c] word_gt_0 intro!: differs_below_Cons)
  qed
next
  case (4 b bs c cs)
  show ?case
  proof (cases "b = c")
    case True
    with 4 show ?thesis
      by (auto intro!: differs_below_prefix simp: escape_byte_def differs_below_Cons_same)
  next
    case False
    with 4 have less: "b < c" by simp
    then have "c \<noteq> 0" by (metis word_not_simps(1))
    with less show ?thesis
      by (auto simp: escape_byte_def intro!: differs_below_Cons simp: word_gt_0)
  qed
qed auto

lemma scan_escape:
  "\<exists>e. scan_text (escape b @ 0 # 0 # rest) = (escape b, e, 0 # 0 # rest) \<and> (e \<longleftrightarrow> 0 \<in> set b)"
proof (induction b)
  case Nil
  show ?case by auto
next
  case (Cons x b)
  then obtain e where e: "scan_text (escape b @ 0 # 0 # rest) = (escape b, e, 0 # 0 # rest)"
    "e \<longleftrightarrow> 0 \<in> set b" by blast
  obtain y ys where ys: "escape b @ 0 # 0 # rest = y # ys"
    by (cases "escape b @ 0 # 0 # rest") auto
  show ?case
  proof (cases "x = 0")
    case True
    then have "escape_byte x = [0, 0xff]" by (simp add: escape_byte_def)
    with True show ?thesis using e(1) by auto
  next
    case False
    then have "escape (x # b) @ 0 # 0 # rest = x # y # ys"
      using ys by (simp add: escape_byte_def [of x])
    then show ?thesis
      using False e ys by (auto simp: escape_byte_def [of x])
  qed
qed

lemma unescape_escape: "unescape (escape b) = b"
  by (induction b) (auto simp: escape_byte_def)

lemma escape_no_zero: "0 \<notin> set b \<Longrightarrow> escape b = b"
  by (induction b) (auto simp: escape_byte_def)

lemma text_decode:
  "(let (raw, escaped, rest') = scan_text (escape b @ [0, 0] @ rest)
    in (if escaped then unescape raw else raw, drop 2 rest')) = (b, rest)"
  using scan_escape [of b rest]
  by (auto simp: unescape_escape escape_no_zero)

text \<open>The three carriers together are an order codec.\<close>

lemma kv_eq_iff: "(v :: key_value) = w \<longleftrightarrow> kv_i v = kv_i w \<and> kv_s v = kv_s w \<and> kv_u v = kv_u w"
  by (cases v; cases w) simp

lemma uuid_eq_iff:
  "(u :: uuid) = w \<longleftrightarrow> uuid_bytes u = uuid_bytes w \<and> uuid_valid u = uuid_valid w"
  by (cases u; cases w) simp

lemma decode_encode_value:
  assumes "kv_ok ty v"
  shows "decode_value ty (encode_value ty v @ rest) = Some (v, rest)"
proof (cases "kt_kind ty")
  case KindInt
  with assms show ?thesis
    by (simp add: decode_value_def encode_value_def int_decode kv_ok_def kv_eq_iff
        key_value_zero_def)
next
  case KindUUID
  with assms show ?thesis
    by (simp add: decode_value_def encode_value_def kv_ok_def kv_eq_iff uuid_eq_iff
        key_value_zero_def)
qed (use assms text_decode [of "bytes_of_string (kv_s v)" rest] in
      \<open>auto simp: decode_value_def encode_value_def kv_ok_def kv_eq_iff key_value_zero_def
         Let_def split: prod.splits\<close>)

lemma encode_value_below:
  assumes "kv_ok ty v" "kv_ok ty w" "kv_less ty v w"
  shows "differs_below (encode_value ty v) (encode_value ty w)"
  using assms
  by (cases "kt_kind ty")
    (auto simp: encode_value_def kv_less_def kv_ok_def int_below escape_below
      intro!: same_length_differs_below)

lemma kv_less_total:
  "kv_ok ty v \<Longrightarrow> kv_ok ty w \<Longrightarrow> kv_less ty v w \<or> v = w \<or> kv_less ty w v"
  by (cases "kt_kind ty")
    (auto simp: kv_ok_def kv_less_def kv_eq_iff uuid_eq_iff intro: signed_word_eqI)

interpretation kv_codec: order_codec "encode_value ty" "decode_value ty" "kv_less ty" "kv_ok ty"
  for ty
  by unfold_locales (fact decode_encode_value encode_value_below kv_less_total)+

subsection \<open>A whole tuple\<close>

lemma tuple_ok_simps [simp, key_simps]:
  "tuple_ok [] vs \<longleftrightarrow> vs = []"
  "tuple_ok (ty # tys) vs \<longleftrightarrow> (\<exists>v ws. vs = v # ws \<and> kv_ok ty v \<and> tuple_ok tys ws)"
  by (auto simp: tuple_ok_def list_all2_Cons1)

lemma tuple_ok_length: "tuple_ok tys vs \<Longrightarrow> length vs = length tys"
  by (auto simp: tuple_ok_def dest: list_all2_lengthD)

lemma decode_encode_tuple:
  "tuple_ok tys vs \<Longrightarrow> decode_tuple tys (encode_tuple tys vs @ rest) = Some (vs, rest)"
  by (induction tys arbitrary: vs) (auto simp: kv_codec.dec_enc)

lemma encode_tuple_below:
  "tuple_ok tys vs \<Longrightarrow> tuple_ok tys ws \<Longrightarrow> tuple_less tys vs ws \<Longrightarrow>
    differs_below (encode_tuple tys vs) (encode_tuple tys ws)"
  by (induction tys vs ws rule: tuple_less.induct)
    (auto intro: differs_below_append kv_codec.enc_below differs_below_prefix)

lemma tuple_less_total:
  "tuple_ok tys vs \<Longrightarrow> tuple_ok tys ws \<Longrightarrow> tuple_less tys vs ws \<or> vs = ws \<or> tuple_less tys ws vs"
proof (induction tys arbitrary: vs ws)
  case Nil
  then show ?case by simp
next
  case (Cons ty tys)
  then obtain v vs' w ws' where eq: "vs = v # vs'" "ws = w # ws'"
    and ok: "kv_ok ty v" "kv_ok ty w" "tuple_ok tys vs'" "tuple_ok tys ws'" by auto
  show ?case
    using kv_codec.lt_total [OF ok(1,2)] Cons.IH [OF ok(3,4)] by (auto simp: eq)
qed

interpretation tuple_codec: order_codec
  "encode_tuple tys" "decode_tuple tys" "tuple_less tys" "tuple_ok tys" for tys
  by unfold_locales (fact decode_encode_tuple encode_tuple_below tuple_less_total)+

subsection \<open>Evaluation on words\<close>

text \<open>
  The same bytes without passing through natural numbers, so that a concrete key evaluates.
\<close>

definition word_bytes :: "nat \<Rightarrow> int64 \<Rightarrow> bytes" where
  "word_bytes k w = map (\<lambda>i. ucast (drop_bit (8 * i) w)) (rev [0..<k])"

definition bytes_word :: "bytes \<Rightarrow> int64" where
  "bytes_word b = foldl (\<lambda>a c. a * 256 + ucast c) 0 b"

lemma put_be_word: "put_be k (unat (w :: int64) mod 256 ^ k) = word_bytes k w"
proof (induction k)
  case (Suc k)
  have pow: "(256 :: nat) ^ k = 2 ^ (8 * k)" by (simp add: power_mult)
  have "unat w mod 256 ^ Suc k div 256 ^ k = unat w div 256 ^ k mod 256"
    unfolding power_Suc2 by (simp add: mod_mult2_eq)
  then have "(of_nat (unat w mod 256 ^ Suc k div 256 ^ k) :: byte) = of_nat (unat w div 256 ^ k mod 256)"
    by (rule arg_cong)
  also have "\<dots> = of_nat (unat w div 256 ^ k)"
    by (simp add: word_of_nat_eq_iff take_bit_eq_mod)
  also have "\<dots> = of_nat (unat (drop_bit (8 * k) w))"
    unfolding pow unat_drop_bit_eq by (simp only: drop_bit_eq_div)
  also have "\<dots> = ucast (drop_bit (8 * k) w)" by simp
  finally have h: "(of_nat (unat w mod 256 ^ Suc k div 256 ^ k) :: byte) = ucast (drop_bit (8 * k) w)" .
  have "put_be k (unat w mod 256 ^ Suc k mod 256 ^ k) = word_bytes k w"
    using Suc by (simp add: mod_mod_cancel)
  then show ?case using h by (simp add: word_bytes_def)
qed (simp add: word_bytes_def)

lemma put_be_8: "put_be 8 (unat (w :: int64)) = word_bytes 8 w"
  using put_be_word [of 8 w] unat_int64_bound [of w] by simp

lemma get_be_word: "of_nat (get_be a b) = foldl (\<lambda>a c. a * 256 + ucast c) (of_nat a :: int64) b"
  by (induction b arbitrary: a) simp_all

lemma encode_value_code [code]:
  "encode_value ty v =
     (case kt_kind ty of
        KindInt \<Rightarrow> word_bytes 8 (kv_i v XOR sign_bit)
      | KindUUID \<Rightarrow> uuid_bytes (kv_u v)
      | _ \<Rightarrow> concat (map escape_byte (bytes_of_string (kv_s v))) @ [0, 0])"
  by (cases "kt_kind ty") (simp_all add: encode_value_def put_be_8)

lemma decode_value_code [code]:
  "decode_value ty b =
     (case kt_kind ty of
        KindInt \<Rightarrow>
          (if length b < 8 then None
           else Some (key_value_zero\<lparr>kv_i := bytes_word (take 8 b) XOR sign_bit\<rparr>, drop 8 b))
      | KindUUID \<Rightarrow>
          (if length b < 16 then None
           else Some (key_value_zero\<lparr>kv_u := \<lparr>uuid_bytes = take 16 b, uuid_valid = True\<rparr>\<rparr>,
                      drop 16 b))
      | _ \<Rightarrow>
          (let (raw, escaped, rest) = scan_text b
           in Some (key_value_zero\<lparr>kv_s := string_of_bytes (if escaped then unescape raw else raw)\<rparr>,
                    drop 2 rest)))"
  by (cases "kt_kind ty") (simp_all add: decode_value_def get_be_word bytes_word_def)

end
