(* ===== verification/Keyset.thy ===== *)
theory Keyset
  imports Key_Encoding "HOL-Library.Multiset"
begin

text \<open>
  The second half of \<open>internal/plan/keyset.go\<close>: the set of key tuples the walk
  accumulates per table. Two representations, as in the code: a list of signed integers
  for a single integer column, a byte slab with an index of spans for everything else;
  both append at the end and normalise (sort the tail, merge it into the sorted head,
  drop duplicates, compact) before every read. The Go methods normalise the receiver in
  place before reading it; here a read normalises its argument and returns the answer
  only, which later reads cannot tell apart (\<open>normalize_normalize\<close>).

  The code stores a span as two \<open>int32\<close>; here it is two natural numbers, so the model is the code's
  while a slab has at most 2 GiB, which \<open>span_fits_int32\<close> states. Past that the conversion wraps and
  the next read of the span is out of range. The code takes that for unreachable, but the memory
  budget that would stop the run before is the operator's and has no upper bound.

  The set the representation stands for is \<open>keys_set\<close>, its invariant \<open>keys_ok\<close>. The
  contract a client relies on is the locale \<open>key_store\<close>.
\<close>

subsection \<open>The contract\<close>

locale key_store =
  fixes new :: "key_type list \<Rightarrow> 's"
    and add :: "'s \<Rightarrow> key_tuple \<Rightarrow> 's"
    and has :: "'s \<Rightarrow> key_tuple \<Rightarrow> bool"
    and len :: "'s \<Rightarrow> nat"
    and tuples :: "'s \<Rightarrow> key_tuple list"
    and types :: "'s \<Rightarrow> key_type list"
    and abs :: "'s \<Rightarrow> key_tuple set"
    and ok :: "'s \<Rightarrow> bool"
  assumes new_ok: "ok (new tys)"
    and new_abs: "abs (new tys) = {}"
    and new_types: "types (new tys) = tys"
    and add_ok: "ok s \<Longrightarrow> tuple_ok (types s) t \<Longrightarrow> ok (add s t)"
    and add_abs: "ok s \<Longrightarrow> tuple_ok (types s) t \<Longrightarrow> abs (add s t) = insert t (abs s)"
    and add_types: "types (add s t) = types s"
    and has_iff: "ok s \<Longrightarrow> tuple_ok (types s) t \<Longrightarrow> has s t \<longleftrightarrow> t \<in> abs s"
    and len_card: "ok s \<Longrightarrow> len s = card (abs s)"
    and tuples_set: "ok s \<Longrightarrow> set (tuples s) = abs s"
    and tuples_sorted: "ok s \<Longrightarrow> sorted_wrt (tuple_less (types s)) (tuples s)"
    and abs_ok: "ok s \<Longrightarrow> t \<in> abs s \<Longrightarrow> tuple_ok (types s) t"
begin

lemma abs_finite: "ok s \<Longrightarrow> finite (abs s)"
  using tuples_set [of s] by (metis List.finite_set)

lemma tuples_tuple_ok: "ok s \<Longrightarrow> t \<in> set (tuples s) \<Longrightarrow> tuple_ok (types s) t"
  by (simp add: tuples_set abs_ok)

lemma len_zero_iff: "ok s \<Longrightarrow> len s = 0 \<longleftrightarrow> abs s = {}"
  by (simp add: len_card abs_finite)

text \<open>Adding a list of tuples, as \<open>forEach(have.add)\<close> does.\<close>

lemma fold_add:
  assumes "ok s" and "\<forall>t \<in> set ts. tuple_ok (types s) t"
  shows "ok (fold (\<lambda>t s. add s t) ts s)"
    and "abs (fold (\<lambda>t s. add s t) ts s) = set ts \<union> abs s"
    and "types (fold (\<lambda>t s. add s t) ts s) = types s"
  using assms by (induction ts arbitrary: s) (auto simp: add_ok add_abs add_types)

text \<open>The same behind a guard, as the filter of \<open>subtract\<close> does.\<close>

lemma fold_add_unless:
  assumes "ok s" and "\<forall>t \<in> set ts. tuple_ok (types s) t"
  shows "ok (fold (\<lambda>t s. if p t then s else add s t) ts s)"
    and "abs (fold (\<lambda>t s. if p t then s else add s t) ts s) = {t \<in> set ts. \<not> p t} \<union> abs s"
    and "types (fold (\<lambda>t s. if p t then s else add s t) ts s) = types s"
  using assms by (induction ts arbitrary: s) (auto simp: add_ok add_abs add_types)

end

subsection \<open>The representation\<close>

record keys =
  ks_types :: "key_type list"
  ks_ints :: "int64 list"
  ks_slab :: bytes
  ks_spans :: "(nat \<times> nat) list"
  ks_sorted :: nat

definition new_keys :: "key_type list \<Rightarrow> keys" where
  "new_keys tys =
     \<lparr>ks_types = tys, ks_ints = [], ks_slab = [], ks_spans = [], ks_sorted = 0\<rparr>"

fun is_int_types :: "key_type list \<Rightarrow> bool" where
  "is_int_types [ty] \<longleftrightarrow> kt_kind ty = KindInt"
| "is_int_types _ \<longleftrightarrow> False"

abbreviation is_int :: "keys \<Rightarrow> bool" where
  "is_int k \<equiv> is_int_types (ks_types k)"

definition keys_count :: "keys \<Rightarrow> nat" where
  "keys_count k = (if is_int k then length (ks_ints k) else length (ks_spans k))"

definition keys_add :: "keys \<Rightarrow> key_tuple \<Rightarrow> keys" where
  "keys_add k t =
     (if is_int k then k\<lparr>ks_ints := ks_ints k @ [kv_i (hd t)]\<rparr>
      else let start = length (ks_slab k);
               slab = ks_slab k @ encode_tuple (ks_types k) t
           in k\<lparr>ks_slab := slab, ks_spans := ks_spans k @ [(start, length slab)]\<rparr>)"

text \<open>\<open>k.slab[s[0]:s[1]]\<close>\<close>

definition span_bytes :: "bytes \<Rightarrow> nat \<times> nat \<Rightarrow> bytes" where
  "span_bytes slab s = take (snd s - fst s) (drop (fst s) slab)"

definition keys_at :: "keys \<Rightarrow> nat \<Rightarrow> bytes" where
  "keys_at k i = span_bytes (ks_slab k) (ks_spans k ! i)"

subsection \<open>normalize\<close>

text \<open>
  The merge of \<open>normalizeInts\<close> and \<open>normalizeSpans\<close>, which differ in what they compare:
  the integer itself or the bytes of the span. The flag is \<open>dropped\<close>.
\<close>

definition append_unique :: "('a \<Rightarrow> 'k) \<Rightarrow> 'a \<Rightarrow> 'a list \<times> bool \<Rightarrow> 'a list \<times> bool" where
  "append_unique key v acc =
     (if fst acc \<noteq> [] \<and> key (last (fst acc)) = key v then (fst acc, True)
      else (fst acc @ [v], snd acc))"

fun merge_unique ::
  "('a \<Rightarrow> 'k::linorder) \<Rightarrow> 'a list \<times> bool \<Rightarrow> 'a list \<Rightarrow> 'a list \<Rightarrow> 'a list \<times> bool" where
  "merge_unique key acc (h # hs) (t # ts) =
     (if key h \<le> key t then merge_unique key (append_unique key h acc) hs (t # ts)
      else merge_unique key (append_unique key t acc) (h # hs) ts)"
| "merge_unique key acc hs [] = fold (append_unique key) hs acc"
| "merge_unique key acc [] ts = fold (append_unique key) ts acc"

definition normalize_ints :: "keys \<Rightarrow> keys" where
  "normalize_ints k =
     (let tail = sort_key sint (drop (ks_sorted k) (ks_ints k));
          head = take (ks_sorted k) (ks_ints k);
          out = fst (merge_unique sint ([], False) head tail)
      in k\<lparr>ks_ints := out, ks_sorted := length out\<rparr>)"

text \<open>\<open>compact\<close> rebuilds the slab from the live spans.\<close>

definition compact_step :: "bytes \<Rightarrow> nat \<times> nat \<Rightarrow> bytes \<times> (nat \<times> nat) list \<Rightarrow> bytes \<times> (nat \<times> nat) list" where
  "compact_step old s acc =
     (let slab = fst acc @ span_bytes old s
      in (slab, snd acc @ [(length (fst acc), length slab)]))"

definition keys_compact :: "keys \<Rightarrow> keys" where
  "keys_compact k =
     (let (slab, spans) = fold (compact_step (ks_slab k)) (ks_spans k) ([], [])
      in k\<lparr>ks_slab := slab, ks_spans := spans\<rparr>)"

definition normalize_spans :: "keys \<Rightarrow> keys" where
  "normalize_spans k =
     (let key = span_bytes (ks_slab k);
          tail = sort_key key (drop (ks_sorted k) (ks_spans k));
          head = take (ks_sorted k) (ks_spans k);
          (out, dropped) = merge_unique key ([], False) head tail;
          k' = k\<lparr>ks_spans := out, ks_sorted := length out\<rparr>
      in if dropped then keys_compact k' else k')"

definition keys_normalize :: "keys \<Rightarrow> keys" where
  "keys_normalize k =
     (if ks_sorted k = keys_count k then k
      else if is_int k then normalize_ints k
      else normalize_spans k)"

subsection \<open>Reads\<close>

definition keys_has :: "keys \<Rightarrow> key_tuple \<Rightarrow> bool" where
  "keys_has k0 t =
     (let k = keys_normalize k0 in
      if is_int k
      then let x = kv_i (hd t);
               i = sort_search (length (ks_ints k)) (\<lambda>j. sint x \<le> sint (ks_ints k ! j))
           in i < length (ks_ints k) \<and> ks_ints k ! i = x
      else let b = encode_tuple (ks_types k) t;
               i = sort_search (length (ks_spans k)) (\<lambda>j. b \<le> keys_at k j)
           in i < length (ks_spans k) \<and> keys_at k i = b)"

definition keys_len :: "keys \<Rightarrow> nat" where
  "keys_len k = keys_count (keys_normalize k)"

text \<open>
  \<open>tupleAt\<close> decodes a tuple into the caller's buffer. A span the encoder did not write
  would be a slice out of range; \<open>tuple_at_ok\<close> shows that the invariant excludes it.
\<close>

definition tuple_at :: "keys \<Rightarrow> nat \<Rightarrow> key_tuple" where
  "tuple_at k i =
     (if is_int k then [key_value_zero\<lparr>kv_i := ks_ints k ! i\<rparr>]
      else case decode_tuple (ks_types k) (keys_at k i) of
             Some (t, _) \<Rightarrow> t
           | None \<Rightarrow> [])"

text \<open>The tuples \<open>forEach\<close> calls its function with, in order.\<close>

definition keys_tuples :: "keys \<Rightarrow> key_tuple list" where
  "keys_tuples k0 = (let k = keys_normalize k0 in map (tuple_at k) [0..<keys_count k])"

definition keys_bytes :: "keys \<Rightarrow> int" where
  "keys_bytes k0 =
     (let k = keys_normalize k0
      in if is_int k then int (length (ks_ints k)) * 8 * 2 else int (length (ks_slab k)) * 2)"

subsection \<open>The merge is a sorted union\<close>

fun merge_lists :: "('a \<Rightarrow> 'k::linorder) \<Rightarrow> 'a list \<Rightarrow> 'a list \<Rightarrow> 'a list" where
  "merge_lists key (h # hs) (t # ts) =
     (if key h \<le> key t then h # merge_lists key hs (t # ts)
      else t # merge_lists key (h # hs) ts)"
| "merge_lists key hs [] = hs"
| "merge_lists key [] ts = ts"

lemma merge_unique_fold:
  "merge_unique key acc hs ts = fold (append_unique key) (merge_lists key hs ts) acc"
  by (induction key acc hs ts rule: merge_unique.induct) auto

lemma mset_merge_lists: "mset (merge_lists key hs ts) = mset hs + mset ts"
  by (induction key hs ts rule: merge_lists.induct) auto

lemma set_merge_lists: "set (merge_lists key hs ts) = set hs \<union> set ts"
  using mset_merge_lists [of key hs ts] by (metis set_mset_mset set_mset_union)

lemma sorted_merge_lists:
  "sorted (map key hs) \<Longrightarrow> sorted (map key ts) \<Longrightarrow> sorted (map key (merge_lists key hs ts))"
  by (induction key hs ts rule: merge_lists.induct) (auto simp: set_merge_lists)

lemma append_unique_step:
  fixes key :: "'a \<Rightarrow> 'k::linorder"
  assumes "sorted_wrt (<) (map key (fst acc))" and "\<forall>x \<in> set (fst acc). key x \<le> key v"
  shows "sorted_wrt (<) (map key (fst (append_unique key v acc)))"
    and "\<forall>x \<in> set (fst (append_unique key v acc)). key x \<le> key v"
    and "key ` set (fst (append_unique key v acc)) = insert (key v) (key ` set (fst acc))"
proof -
  have less: "key x < key v"
    if "x \<in> set (fst acc)" "key (last (fst acc)) \<noteq> key v" for x
  proof -
    have "key (last (fst acc)) < key v"
      using assms(2) that by (metis last_in_set length_pos_if_in_set list.size(3) less_irrefl order_le_imp_less_or_eq)
    moreover have "key x \<le> key (last (fst acc))"
      using assms(1) that(1)
      by (cases "fst acc" rule: rev_cases) (auto simp: sorted_wrt_append)
    ultimately show ?thesis by simp
  qed
  show "sorted_wrt (<) (map key (fst (append_unique key v acc)))"
    using assms(1) less by (auto simp: append_unique_def sorted_wrt_append)
  show "\<forall>x \<in> set (fst (append_unique key v acc)). key x \<le> key v"
    using assms(2) by (auto simp: append_unique_def)
  show "key ` set (fst (append_unique key v acc)) = insert (key v) (key ` set (fst acc))"
    by (auto simp: append_unique_def intro: image_eqI [of _ _ "last (fst acc)"])
qed

lemma fold_append_unique:
  fixes key :: "'a \<Rightarrow> 'k::linorder"
  assumes "sorted_wrt (<) (map key (fst acc))" and "sorted (map key xs)"
    and "\<forall>x \<in> set (fst acc). \<forall>y \<in> set xs. key x \<le> key y"
  shows "sorted_wrt (<) (map key (fst (fold (append_unique key) xs acc)))
    \<and> key ` set (fst (fold (append_unique key) xs acc)) = key ` (set (fst acc) \<union> set xs)"
  using assms
proof (induction xs arbitrary: acc)
  case Nil
  then show ?case by simp
next
  case (Cons v xs)
  have le: "\<forall>x \<in> set (fst acc). key x \<le> key v" using Cons.prems by simp
  note step = append_unique_step [OF Cons.prems(1) le]
  have "\<forall>x \<in> set (fst (append_unique key v acc)). \<forall>y \<in> set xs. key x \<le> key y"
    using step(2) Cons.prems(2) by (auto intro: order_trans)
  from Cons.IH [OF step(1) _ this] Cons.prems(2) show ?case
    by (simp add: step(3) image_Un)
qed

text \<open>Nothing is dropped exactly when the result is the whole merged list.\<close>

lemma fold_append_unique_subset:
  "set (fst (fold (append_unique key) xs acc)) \<subseteq> set (fst acc) \<union> set xs"
proof (induction xs arbitrary: acc)
  case Nil
  then show ?case by simp
next
  case (Cons v xs)
  have "set (fst (append_unique key v acc)) \<subseteq> insert v (set (fst acc))"
    by (auto simp: append_unique_def)
  with Cons [of "append_unique key v acc"] show ?case by auto
qed

lemma fold_append_unique_flag: "snd acc \<Longrightarrow> snd (fold (append_unique key) xs acc)"
  by (induction xs arbitrary: acc) (auto simp: append_unique_def)

lemma fold_append_unique_kept:
  "\<not> snd (fold (append_unique key) xs acc) \<Longrightarrow>
    fst (fold (append_unique key) xs acc) = fst acc @ xs"
proof (induction xs arbitrary: acc)
  case Nil
  then show ?case by simp
next
  case (Cons v xs)
  from Cons.prems have "\<not> snd (append_unique key v acc)"
    using fold_append_unique_flag [of "append_unique key v acc" key xs] by auto
  then have "fst (append_unique key v acc) = fst acc @ [v]"
    by (auto simp: append_unique_def split: if_splits)
  with Cons.IH [of "append_unique key v acc"] Cons.prems show ?case by simp
qed

lemma merge_unique_union:
  fixes key :: "'a \<Rightarrow> 'k::linorder"
  assumes "sorted_wrt (<) (map key hs)" and "sorted (map key ts)"
  defines "r \<equiv> merge_unique key ([], False) hs ts"
  shows "sorted_wrt (<) (map key (fst r))"
    and "key ` set (fst r) = key ` (set hs \<union> set ts)"
    and "set (fst r) \<subseteq> set hs \<union> set ts"
    and "\<not> snd r \<Longrightarrow> mset (fst r) = mset hs + mset ts"
proof -
  have sorted: "sorted (map key (merge_lists key hs ts))"
    using strict_sorted_imp_sorted [OF assms(1)] assms(2) by (rule sorted_merge_lists)
  have "sorted_wrt (<) (map key (fst r))
      \<and> key ` set (fst r) = key ` (set [] \<union> set (merge_lists key hs ts))"
    using fold_append_unique [of key "([], False)" "merge_lists key hs ts"] sorted
    by (simp add: r_def merge_unique_fold)
  then show "sorted_wrt (<) (map key (fst r))"
    and "key ` set (fst r) = key ` (set hs \<union> set ts)"
    by (simp_all add: set_merge_lists)
  show "set (fst r) \<subseteq> set hs \<union> set ts"
    using fold_append_unique_subset [of key "merge_lists key hs ts" "([], False)"]
    by (simp add: r_def merge_unique_fold set_merge_lists)
  show "\<not> snd r \<Longrightarrow> mset (fst r) = mset hs + mset ts"
    using fold_append_unique_kept [of key "merge_lists key hs ts" "([], False)"]
    by (simp add: r_def merge_unique_fold mset_merge_lists)
qed

subsection \<open>Invariant and abstraction\<close>

definition span_ok :: "key_type list \<Rightarrow> bytes \<Rightarrow> nat \<times> nat \<Rightarrow> bool" where
  "span_ok tys slab s \<longleftrightarrow> fst s \<le> snd s \<and> snd s \<le> length slab
     \<and> (\<exists>t. tuple_ok tys t \<and> span_bytes slab s = encode_tuple tys t)"

definition span_len :: "nat \<times> nat \<Rightarrow> nat" where
  "span_len s = snd s - fst s"

text \<open>
  The head of the list is sorted and free of duplicates, every span holds the encoding
  of a tuple of the set's types, and every byte of the slab belongs to one span: the
  last is what makes the byte count honest.
\<close>

definition keys_ok :: "keys \<Rightarrow> bool" where
  "keys_ok k \<longleftrightarrow> ks_sorted k \<le> keys_count k \<and>
     (if is_int k
      then ks_slab k = [] \<and> ks_spans k = []
        \<and> sorted_wrt (<) (map sint (take (ks_sorted k) (ks_ints k)))
      else ks_ints k = []
        \<and> (\<forall>s \<in> set (ks_spans k). span_ok (ks_types k) (ks_slab k) s)
        \<and> length (ks_slab k) = sum_list (map span_len (ks_spans k))
        \<and> sorted_wrt (<) (map (span_bytes (ks_slab k)) (take (ks_sorted k) (ks_spans k))))"

definition int_tuple :: "int64 \<Rightarrow> key_tuple" where
  "int_tuple x = [key_value_zero\<lparr>kv_i := x\<rparr>]"

definition keys_set :: "keys \<Rightarrow> key_tuple set" where
  "keys_set k =
     (if is_int k then int_tuple ` set (ks_ints k)
      else {t. tuple_ok (ks_types k) t
             \<and> encode_tuple (ks_types k) t \<in> span_bytes (ks_slab k) ` set (ks_spans k)})"

lemma is_int_typesD: "is_int_types tys \<Longrightarrow> \<exists>ty. tys = [ty] \<and> kt_kind ty = KindInt"
  by (cases tys rule: is_int_types.cases) auto

lemma int_tuple_ok:
  assumes "is_int_types tys"
  shows "tuple_ok tys t \<longleftrightarrow> (\<exists>x. t = int_tuple x)"
proof -
  obtain ty where ty: "tys = [ty]" "kt_kind ty = KindInt"
    using is_int_typesD [OF assms] by blast
  have "kv_ok ty v \<longleftrightarrow> v = key_value_zero\<lparr>kv_i := kv_i v\<rparr>" for v
    using ty(2) by (auto simp: kv_ok_def kv_eq_iff key_value_zero_def)
  moreover have "kv_ok ty (key_value_zero\<lparr>kv_i := x\<rparr>)" for x
    using ty(2) by (simp add: kv_ok_def key_value_zero_def)
  ultimately show ?thesis by (auto simp: ty(1) int_tuple_def)
qed

lemma int_tuple_inj [simp]: "int_tuple x = int_tuple y \<longleftrightarrow> x = y"
  by (simp add: int_tuple_def kv_eq_iff key_value_zero_def)

lemma hd_int_tuple [simp]: "kv_i (hd (int_tuple x)) = x"
  by (simp add: int_tuple_def)

lemma int_tuple_less:
  "is_int_types tys \<Longrightarrow> tuple_less tys (int_tuple x) (int_tuple y) \<longleftrightarrow> sint x < sint y"
  by (auto dest!: is_int_typesD simp: int_tuple_def kv_less_def)

lemma sint_inj [simp]: "sint (x :: int64) = sint y \<longleftrightarrow> x = y"
  by (auto intro: signed_word_eqI)

subsection \<open>normalize keeps the set and sorts it\<close>

lemma keys_normalize_simps [simp]:
  "ks_types (keys_normalize k) = ks_types k"
  by (auto simp: keys_normalize_def normalize_ints_def normalize_spans_def keys_compact_def
      Let_def split: prod.splits)

lemma normalize_ints_ok:
  assumes "keys_ok k" and "is_int k"
  defines "k' \<equiv> normalize_ints k"
  shows "keys_ok k' \<and> keys_set k' = keys_set k \<and> ks_sorted k' = keys_count k'"
proof -
  define hs where "hs = take (ks_sorted k) (ks_ints k)"
  define ts where "ts = sort_key sint (drop (ks_sorted k) (ks_ints k))"
  define r where "r = merge_unique sint ([], False) hs ts"
  have hs: "sorted_wrt (<) (map sint hs)" using assms(1,2) by (simp add: keys_ok_def hs_def)
  have ts: "sorted (map sint ts)" by (simp add: ts_def)
  note m = merge_unique_union [OF hs ts, folded r_def]
  have "set hs \<union> set ts = set (ks_ints k)"
    by (simp add: hs_def ts_def flip: set_append)
  with m(2) have "sint ` set (fst r) = sint ` set (ks_ints k)" by simp
  then have "set (fst r) = set (ks_ints k)"
    by (auto simp: set_eq_iff image_iff) (metis sint_inj)+
  moreover have "k' = k\<lparr>ks_ints := fst r, ks_sorted := length (fst r)\<rparr>"
    by (simp add: k'_def normalize_ints_def r_def hs_def ts_def Let_def)
  ultimately show ?thesis
    using assms(1,2) m(1) by (simp add: keys_ok_def keys_set_def keys_count_def)
qed

lemma span_bytes_append: "snd s \<le> length slab \<Longrightarrow> span_bytes (slab @ b) s = span_bytes slab s"
  by (cases "fst s \<le> length slab") (auto simp: span_bytes_def)

lemma length_span_bytes:
  "snd s \<le> length slab \<Longrightarrow> length (span_bytes slab s) = span_len s"
  by (auto simp: span_bytes_def span_len_def)

text \<open>\<open>compact\<close> keeps every span's bytes, in order, and leaves no other byte.\<close>

lemma compact_fold:
  assumes "fold (compact_step old) ss ([], []) = (slab, spans)"
    and "\<forall>s \<in> set ss. snd s \<le> length old"
  shows "map (span_bytes slab) spans = map (span_bytes old) ss
    \<and> length slab = sum_list (map span_len spans)
    \<and> (\<forall>s \<in> set spans. fst s \<le> snd s \<and> snd s \<le> length slab)"
  using assms
proof (induction ss arbitrary: slab spans rule: rev_induct)
  case Nil
  then show ?case by simp
next
  case (snoc s ss)
  obtain slab0 spans0 where f: "fold (compact_step old) ss ([], []) = (slab0, spans0)"
    by fastforce
  with snoc.IH snoc.prems(2)
  have ih: "map (span_bytes slab0) spans0 = map (span_bytes old) ss"
    "length slab0 = sum_list (map span_len spans0)"
    "\<forall>s \<in> set spans0. fst s \<le> snd s \<and> snd s \<le> length slab0"
    by auto
  let ?new = "(length slab0, length slab0 + length (span_bytes old s))"
  have eq: "slab = slab0 @ span_bytes old s" "spans = spans0 @ [?new]"
    using snoc.prems(1) f by (auto simp: compact_step_def [of old s] Let_def)
  have "map (span_bytes slab) spans0 = map (span_bytes slab0) spans0"
    using ih(3) by (auto simp: eq(1) span_bytes_append)
  moreover have "span_bytes slab ?new = span_bytes old s"
    by (simp add: eq(1) span_bytes_def [of slab0] span_bytes_def [of _ ?new] del: length_take)
  ultimately have "map (span_bytes slab) spans = map (span_bytes old) (ss @ [s])"
    using ih(1) by (simp add: eq(2))
  moreover have "length slab = sum_list (map span_len spans)"
    using ih(2) by (simp add: eq span_len_def [of "(_, _)"])
  moreover have "\<forall>s \<in> set spans. fst s \<le> snd s \<and> snd s \<le> length slab"
    using ih(3) by (auto simp: eq)
  ultimately show ?case by blast
qed

lemma compact_ok:
  assumes "\<not> is_int k" "ks_ints k = []"
    and "\<forall>s \<in> set (ks_spans k). span_ok (ks_types k) (ks_slab k) s"
    and "sorted_wrt (<) (map (span_bytes (ks_slab k)) (ks_spans k))"
    and "ks_sorted k = length (ks_spans k)"
  shows "keys_ok (keys_compact k) \<and> keys_set (keys_compact k) = keys_set k
    \<and> ks_sorted (keys_compact k) = keys_count (keys_compact k)"
proof -
  obtain slab spans where f: "fold (compact_step (ks_slab k)) (ks_spans k) ([], []) = (slab, spans)"
    by fastforce
  have "\<forall>s \<in> set (ks_spans k). snd s \<le> length (ks_slab k)"
    using assms(3) by (auto simp: span_ok_def)
  note c = compact_fold [OF f this]
  have map_eq: "map (span_bytes slab) spans = map (span_bytes (ks_slab k)) (ks_spans k)"
    using c by blast
  then have img: "span_bytes slab ` set spans = span_bytes (ks_slab k) ` set (ks_spans k)"
    by (metis image_set)
  have len: "length spans = length (ks_spans k)" using map_eq by (metis length_map)
  have ok: "span_ok (ks_types k) slab s" if "s \<in> set spans" for s
  proof -
    have "span_bytes slab s \<in> span_bytes (ks_slab k) ` set (ks_spans k)"
      using that img by blast
    then obtain s' where "s' \<in> set (ks_spans k)" "span_bytes slab s = span_bytes (ks_slab k) s'"
      by blast
    with assms(3) c that show ?thesis by (auto simp: span_ok_def)
  qed
  have "keys_compact k = k\<lparr>ks_slab := slab, ks_spans := spans\<rparr>"
    by (simp add: keys_compact_def f)
  then show ?thesis
    using assms c ok len map_eq img
    by (simp add: keys_ok_def keys_set_def keys_count_def)
qed

lemma normalize_spans_ok:
  assumes "keys_ok k" and "\<not> is_int k"
  defines "k' \<equiv> normalize_spans k"
  shows "keys_ok k' \<and> keys_set k' = keys_set k \<and> ks_sorted k' = keys_count k'"
proof -
  define key where "key = span_bytes (ks_slab k)"
  define hs where "hs = take (ks_sorted k) (ks_spans k)"
  define ts where "ts = sort_key key (drop (ks_sorted k) (ks_spans k))"
  obtain out dropped where r: "merge_unique key ([], False) hs ts = (out, dropped)"
    by fastforce
  have hs: "sorted_wrt (<) (map key hs)"
    using assms(1,2) by (simp add: keys_ok_def hs_def key_def)
  have ts: "sorted (map key ts)" by (simp add: ts_def)
  note m = merge_unique_union [OF hs ts, unfolded r fst_conv snd_conv]
  have mset_eq: "mset hs + mset ts = mset (ks_spans k)"
    by (simp add: hs_def ts_def flip: mset_append)
  then have set_eq: "set hs \<union> set ts = set (ks_spans k)"
    by (metis set_mset_mset set_mset_union)
  have ok: "\<forall>s \<in> set out. span_ok (ks_types k) (ks_slab k) s"
    using assms(1,2) m(3) set_eq by (auto simp: keys_ok_def)
  let ?k = "k\<lparr>ks_spans := out, ks_sorted := length out\<rparr>"
  have img: "span_bytes (ks_slab k) ` set out = span_bytes (ks_slab k) ` set (ks_spans k)"
    using m(2) set_eq by (simp add: key_def)
  have k': "k' = (if dropped then keys_compact ?k else ?k)"
    using r by (simp add: k'_def normalize_spans_def Let_def hs_def ts_def key_def)
  show ?thesis
  proof (cases dropped)
    case True
    have "keys_ok (keys_compact ?k) \<and> keys_set (keys_compact ?k) = keys_set ?k
        \<and> ks_sorted (keys_compact ?k) = keys_count (keys_compact ?k)"
      by (rule compact_ok) (use assms(1,2) ok m(1) in \<open>simp_all add: keys_ok_def key_def\<close>)
    moreover have "keys_set ?k = keys_set k" using img by (simp add: keys_set_def)
    ultimately show ?thesis using True k' by simp
  next
    case False
    then have "mset out = mset (ks_spans k)" using m(4) mset_eq by simp
    then have "sum_list (map span_len out) = sum_list (map span_len (ks_spans k))"
      by (metis mset_map sum_mset_sum_list)
    then show ?thesis
      using False k' assms(1,2) ok m(1) img
      by (simp add: keys_ok_def keys_set_def keys_count_def key_def)
  qed
qed

lemma keys_normalize_ok:
  assumes "keys_ok k"
  shows "keys_ok (keys_normalize k)"
    and "keys_set (keys_normalize k) = keys_set k"
    and "ks_sorted (keys_normalize k) = keys_count (keys_normalize k)"
  using normalize_ints_ok [OF assms] normalize_spans_ok [OF assms] assms
  by (auto simp: keys_normalize_def)

lemma normalize_normalize: "keys_ok k \<Longrightarrow> keys_normalize (keys_normalize k) = keys_normalize k"
  by (subst (1) keys_normalize_def) (simp add: keys_normalize_ok(3))

subsection \<open>The operations meet the contract\<close>

lemma new_keys_ok: "keys_ok (new_keys tys) \<and> keys_set (new_keys tys) = {}"
  by (simp add: keys_ok_def keys_set_def keys_count_def new_keys_def)

lemma keys_add_ok:
  assumes "keys_ok k" and "tuple_ok (ks_types k) t"
  shows "keys_ok (keys_add k t) \<and> keys_set (keys_add k t) = insert t (keys_set k)"
proof (cases "is_int k")
  case True
  with assms(2) obtain x where "t = int_tuple x" by (auto simp: int_tuple_ok)
  with True assms(1) show ?thesis
    by (simp add: keys_ok_def keys_set_def keys_count_def keys_add_def)
next
  case False
  define b where "b = encode_tuple (ks_types k) t"
  let ?slab = "ks_slab k @ b" and ?new = "(length (ks_slab k), length (ks_slab k @ b))"
  have k': "keys_add k t = k\<lparr>ks_slab := ?slab, ks_spans := ks_spans k @ [?new]\<rparr>"
    using False by (simp add: keys_add_def Let_def b_def)
  have old: "span_bytes ?slab s = span_bytes (ks_slab k) s" if "s \<in> set (ks_spans k)" for s
    using assms(1) False that by (auto simp: keys_ok_def span_ok_def span_bytes_append)
  have new: "span_bytes ?slab ?new = b" by (simp add: span_bytes_def)
  have head: "map (span_bytes ?slab) (take (ks_sorted k) (ks_spans k))
      = map (span_bytes (ks_slab k)) (take (ks_sorted k) (ks_spans k))"
    using old by (auto dest: in_set_takeD)
  have "sorted_wrt (<) (map (span_bytes ?slab) (take (ks_sorted k) (ks_spans k)))"
    unfolding head using assms(1) False by (simp add: keys_ok_def)
  moreover have "span_ok (ks_types k) ?slab s" if "s \<in> set (ks_spans k)" for s
    using assms(1) False that old [OF that] by (auto simp: keys_ok_def span_ok_def)
  moreover have "span_ok (ks_types k) ?slab ?new"
    using assms(2) new by (auto simp: span_ok_def b_def)
  ultimately have "keys_ok (keys_add k t)"
    using assms(1) False by (auto simp: k' keys_ok_def keys_count_def span_len_def)
  moreover have "span_bytes ?slab ` set (ks_spans k @ [?new])
      = insert b (span_bytes (ks_slab k) ` set (ks_spans k))"
    using old new by auto
  then have "keys_set (keys_add k t) = insert t (keys_set k)"
    using assms(2) False by (auto simp: k' keys_set_def b_def tuple_codec.enc_inj)
  ultimately show ?thesis ..
qed

lemma normalized_sorted:
  assumes "keys_ok k" and "ks_sorted k = keys_count k"
  shows "is_int k \<Longrightarrow> sorted_wrt (<) (map sint (ks_ints k))"
    and "\<not> is_int k \<Longrightarrow> sorted_wrt (<) (map (span_bytes (ks_slab k)) (ks_spans k))"
  using assms by (auto simp: keys_ok_def keys_count_def)

lemma keys_has_iff:
  assumes "keys_ok k0" and "tuple_ok (ks_types k0) t"
  shows "keys_has k0 t \<longleftrightarrow> t \<in> keys_set k0"
proof -
  define k where "k = keys_normalize k0"
  have ok: "keys_ok k" "keys_set k = keys_set k0" "ks_sorted k = keys_count k"
    using keys_normalize_ok [OF assms(1)] by (simp_all add: k_def)
  have tys: "ks_types k = ks_types k0" by (simp add: k_def)
  show ?thesis
  proof (cases "is_int k")
    case True
    from assms(2) obtain x where x: "t = int_tuple x"
      using True tys by (auto simp: int_tuple_ok)
    have "keys_has k0 t \<longleftrightarrow> sint x \<in> sint ` set (ks_ints k)"
      using sort_search_member [OF normalized_sorted(1) [OF ok(1,3) True], of "sint x"] True
      by (simp add: keys_has_def x Let_def flip: k_def)
    also have "\<dots> \<longleftrightarrow> t \<in> keys_set k"
      using True by (auto simp: keys_set_def x)
    finally show ?thesis by (simp add: ok(2))
  next
    case False
    let ?b = "encode_tuple (ks_types k) t"
    have "keys_has k0 t \<longleftrightarrow> ?b \<in> span_bytes (ks_slab k) ` set (ks_spans k)"
      using sort_search_member [OF normalized_sorted(2) [OF ok(1,3) False], of ?b] False
      by (simp add: keys_has_def keys_at_def Let_def flip: k_def)
    also have "\<dots> \<longleftrightarrow> t \<in> keys_set k"
      using False assms(2) tys by (simp add: keys_set_def)
    finally show ?thesis by (simp add: ok(2))
  qed
qed

text \<open>Every tuple read back is one that was added: the decoder never runs off a span.\<close>

lemma tuple_at_ok:
  assumes "keys_ok k" and "i < keys_count k"
  shows "tuple_ok (ks_types k) (tuple_at k i)"
    and "\<not> is_int k \<Longrightarrow> encode_tuple (ks_types k) (tuple_at k i) = keys_at k i"
proof -
  have "tuple_ok (ks_types k) (tuple_at k i)
      \<and> (\<not> is_int k \<longrightarrow> encode_tuple (ks_types k) (tuple_at k i) = keys_at k i)"
  proof (cases "is_int k")
    case True
    then show ?thesis by (auto simp: tuple_at_def int_tuple_ok int_tuple_def)
  next
    case False
    then have "ks_spans k ! i \<in> set (ks_spans k)"
      using assms(2) by (simp add: keys_count_def)
    then obtain t where "tuple_ok (ks_types k) t" "keys_at k i = encode_tuple (ks_types k) t"
      using assms(1) False by (auto simp: keys_ok_def span_ok_def keys_at_def)
    with False show ?thesis by (simp add: tuple_at_def tuple_codec.dec_enc_all)
  qed
  then show "tuple_ok (ks_types k) (tuple_at k i)"
    and "\<not> is_int k \<Longrightarrow> encode_tuple (ks_types k) (tuple_at k i) = keys_at k i"
    by simp_all
qed

lemma keys_tuples_set:
  assumes "keys_ok k0" shows "set (keys_tuples k0) = keys_set k0"
proof -
  define k where "k = keys_normalize k0"
  have ok: "keys_ok k" "keys_set k = keys_set k0" "ks_sorted k = keys_count k"
    using keys_normalize_ok [OF assms] by (simp_all add: k_def)
  have eq: "set (keys_tuples k0) = tuple_at k ` {..<keys_count k}"
    by (auto simp: keys_tuples_def k_def [symmetric])
  show ?thesis
  proof (cases "is_int k")
    case True
    then have at: "tuple_at k = (\<lambda>i. int_tuple (ks_ints k ! i))"
      by (auto simp: tuple_at_def int_tuple_def)
    have "set (ks_ints k) = (\<lambda>i. ks_ints k ! i) ` {..<length (ks_ints k)}"
      by (auto simp: set_conv_nth)
    with True show ?thesis
      by (simp add: eq at keys_set_def [of k] keys_count_def image_image flip: ok(2))
  next
    case False
    have "t \<in> tuple_at k ` {..<keys_count k} \<longleftrightarrow> t \<in> keys_set k" for t
    proof
      assume "t \<in> tuple_at k ` {..<keys_count k}"
      then obtain i where i: "i < keys_count k" "t = tuple_at k i" by auto
      with tuple_at_ok [OF ok(1) i(1)] False show "t \<in> keys_set k"
        by (auto simp: keys_set_def keys_at_def keys_count_def)
    next
      assume "t \<in> keys_set k"
      then obtain i where i: "i < keys_count k" "encode_tuple (ks_types k) t = keys_at k i"
        and t: "tuple_ok (ks_types k) t"
        using False by (auto simp: keys_set_def in_set_conv_nth keys_at_def keys_count_def)
      then have "tuple_at k i = t"
        using tuple_at_ok [OF ok(1) i(1)] False tuple_codec.enc_inj by metis
      with i(1) show "t \<in> tuple_at k ` {..<keys_count k}" by auto
    qed
    then show ?thesis by (auto simp: eq ok(2) [symmetric])
  qed
qed

lemma keys_tuples_sorted:
  assumes "keys_ok k0"
  shows "sorted_wrt (tuple_less (ks_types k0)) (keys_tuples k0)"
proof -
  define k where "k = keys_normalize k0"
  have ok: "keys_ok k" "ks_sorted k = keys_count k"
    using keys_normalize_ok [OF assms] by (simp_all add: k_def)
  have tys: "ks_types k = ks_types k0" by (simp add: k_def)
  have "tuple_less (ks_types k) (tuple_at k i) (tuple_at k j)"
    if "i < j" "j < keys_count k" for i j
  proof (cases "is_int k")
    case True
    then show ?thesis
      using normalized_sorted(1) [OF ok True] that
      by (simp add: tuple_at_def keys_count_def sorted_wrt_iff_nth_less int_tuple_less
          flip: int_tuple_def)
  next
    case False
    then have "keys_at k i < keys_at k j"
      using normalized_sorted(2) [OF ok False] that
      by (simp add: keys_at_def keys_count_def sorted_wrt_iff_nth_less)
    then show ?thesis
      using tuple_at_ok [OF ok(1), of i] tuple_at_ok [OF ok(1), of j] that False
      by (simp flip: tuple_codec.enc_less_iff)
  qed
  then show ?thesis
    by (simp add: keys_tuples_def sorted_wrt_iff_nth_less tys flip: k_def)
qed

lemma tuple_less_irrefl: "tuple_ok tys t \<Longrightarrow> \<not> tuple_less tys t t"
  by (rule tuple_codec.lt_irrefl)

lemma keys_tuples_distinct:
  assumes "keys_ok k" shows "distinct (keys_tuples k)"
proof -
  have "tuple_ok (ks_types k) t" if "t \<in> set (keys_tuples k)" for t
    using that by (auto simp: keys_tuples_def Let_def
        intro: tuple_at_ok(1) [OF keys_normalize_ok(1) [OF assms], simplified])
  then show ?thesis
    using keys_tuples_sorted [OF assms] tuple_less_irrefl
    by (auto simp: sorted_wrt_iff_nth_less distinct_conv_nth)
      (metis nat_neq_iff nth_mem)
qed

lemma keys_len_card: "keys_ok k \<Longrightarrow> keys_len k = card (keys_set k)"
  using keys_tuples_distinct [of k] keys_tuples_set [of k]
  by (metis (no_types, lifting) distinct_card keys_len_def keys_tuples_def length_map length_upt
      minus_nat.diff_0)

lemma keys_set_ok: "keys_ok k \<Longrightarrow> t \<in> keys_set k \<Longrightarrow> tuple_ok (ks_types k) t"
  by (auto simp: keys_set_def int_tuple_ok split: if_splits)

lemma keys_add_types [simp]: "ks_types (keys_add k t) = ks_types k"
  by (simp add: keys_add_def Let_def)

lemma new_keys_types [simp]: "ks_types (new_keys tys) = tys"
  by (simp add: new_keys_def)

interpretation ks: key_store new_keys keys_add keys_has keys_len keys_tuples ks_types
  keys_set keys_ok
  by unfold_locales
    (simp_all add: new_keys_ok keys_add_ok keys_has_iff keys_len_card keys_tuples_set
      keys_tuples_sorted keys_set_ok)

text \<open>
  The byte count of a set of spans is twice the encoded size of the distinct tuples it
  holds: what \<open>checkBudgets\<close> and the printed estimate both read.
\<close>

lemma keys_bytes_honest:
  assumes "keys_ok k"
  shows "keys_bytes k =
     (if is_int k then 16 * int (card (keys_set k))
      else 2 * (\<Sum>t \<in> keys_set k. int (length (encode_tuple (ks_types k) t))))"
proof -
  define n where "n = keys_normalize k"
  have ok: "keys_ok n" "keys_set n = keys_set k" "ks_sorted n = keys_count n"
    "ks_types n = ks_types k"
    using keys_normalize_ok [OF assms] by (simp_all add: n_def)
  have tuples: "keys_tuples k = map (tuple_at n) [0..<keys_count n]"
    by (simp add: keys_tuples_def n_def Let_def)
  show ?thesis
  proof (cases "is_int k")
    case True
    then show ?thesis
      using keys_len_card [OF assms] ok(4)
      by (simp add: keys_bytes_def keys_len_def keys_count_def flip: n_def)
  next
    case False
    have "length (ks_slab n) = sum_list (map (\<lambda>i. length (keys_at n i)) [0..<keys_count n])"
    proof -
      have "map span_len (ks_spans n) = map (\<lambda>i. length (keys_at n i)) [0..<keys_count n]"
        using ok(1) False ok(4)
        by (intro nth_equalityI)
          (auto simp: keys_count_def keys_at_def keys_ok_def span_ok_def length_span_bytes)
      then show ?thesis using ok(1) False ok(4) by (simp add: keys_ok_def)
    qed
    also have "\<dots> = sum_list (map (\<lambda>t. length (encode_tuple (ks_types k) t)) (keys_tuples k))"
      using tuple_at_ok(2) [OF ok(1)] False ok(4)
      by (auto simp: tuples comp_def intro!: arg_cong [of _ _ sum_list])
    also have "\<dots> = (\<Sum>t \<in> keys_set k. length (encode_tuple (ks_types k) t))"
      using keys_tuples_distinct [OF assms] keys_tuples_set [OF assms]
      by (simp add: sum_list_distinct_conv_sum_set)
    finally show ?thesis
      using False ok(4) by (simp add: keys_bytes_def flip: n_def)
  qed
qed

subsection \<open>Chunks\<close>

text \<open>
  A chunk is one \<open>unnest\<close> argument list: a typed array per column. The Go field is
  \<open>[]any\<close> holding one of three slice types; the three are the constructors here.
\<close>

datatype chunk_column = IntCol "int64 list" | StrCol "string list" | UuidCol "uuid list"

record chunk =
  ch_types :: "key_type list"
  ch_cols :: "chunk_column list"
  ch_n :: nat

definition chunk_column_of :: "key_type \<Rightarrow> key_value list \<Rightarrow> chunk_column" where
  "chunk_column_of ty vs =
     (case kt_kind ty of
        KindInt \<Rightarrow> IntCol (map kv_i vs)
      | KindUUID \<Rightarrow> UuidCol (map kv_u vs)
      | _ \<Rightarrow> StrCol (map kv_s vs))"

definition keys_chunk :: "keys \<Rightarrow> nat \<Rightarrow> nat \<Rightarrow> chunk" where
  "keys_chunk k start stop =
     (let rows = map (tuple_at k) [start..<stop]
      in \<lparr>ch_types = ks_types k,
          ch_cols = map (\<lambda>i. chunk_column_of (ks_types k ! i) (map (\<lambda>t. t ! i) rows))
            [0..<length (ks_types k)],
          ch_n = stop - start\<rparr>)"

text \<open>The loop \<open>for start := 0; start < total; start += n\<close> of the two iterators.\<close>

function chunk_starts :: "nat \<Rightarrow> nat \<Rightarrow> nat \<Rightarrow> nat list" where
  "chunk_starts start tot n =
     (if start < tot \<and> 0 < n then start # chunk_starts (start + n) tot n else [])"
  by auto
termination by (relation "measure (\<lambda>(start, tot, n). tot - start)") auto

declare chunk_starts.simps [simp del]

definition keys_chunks :: "keys \<Rightarrow> int \<Rightarrow> chunk list" where
  "keys_chunks k0 n0 =
     (let n = (if n0 \<le> 0 then 1 else nat n0);
          k = keys_normalize k0;
          tot = keys_count k
      in map (\<lambda>start. keys_chunk k start (min (start + n) tot)) (chunk_starts 0 tot n))"

text \<open>\<open>EachChunk\<close>: the callback sees one chunk at a time and its first error stops the loop.\<close>

definition each_chunk :: "keys \<Rightarrow> int \<Rightarrow> (chunk \<Rightarrow> 's \<Rightarrow> 'e + 's) \<Rightarrow> 's \<Rightarrow> 'e + 's" where
  "each_chunk k0 n0 f s =
     (let n = (if n0 \<le> 0 then 1 else nat n0);
          k = keys_normalize k0;
          tot = keys_count k
      in fold_res (\<lambda>start. f (keys_chunk k start (min (start + n) tot)))
           (chunk_starts 0 tot n) s)"

definition first_chunk :: "keys \<Rightarrow> int \<Rightarrow> chunk option" where
  "first_chunk k0 n0 =
     (let n = (if n0 \<le> 0 then 1 else nat n0);
          k = keys_normalize k0;
          tot = keys_count k
      in if tot = 0 then None else Some (keys_chunk k 0 (min n tot)))"

text \<open>The row \<open>j\<close> of a chunk as \<open>unnest\<close> pairs the arrays up again.\<close>

definition column_value :: "chunk_column \<Rightarrow> nat \<Rightarrow> key_value" where
  "column_value col j =
     (case col of
        IntCol xs \<Rightarrow> key_value_zero\<lparr>kv_i := xs ! j\<rparr>
      | StrCol xs \<Rightarrow> key_value_zero\<lparr>kv_s := xs ! j\<rparr>
      | UuidCol xs \<Rightarrow> key_value_zero\<lparr>kv_u := xs ! j\<rparr>)"

definition chunk_rows :: "chunk \<Rightarrow> key_tuple list" where
  "chunk_rows c = map (\<lambda>j. map (\<lambda>col. column_value col j) (ch_cols c)) [0..<ch_n c]"

lemma column_value_of:
  assumes "\<forall>v \<in> set vs. kv_ok ty v" and "j < length vs"
  shows "column_value (chunk_column_of ty vs) j = vs ! j"
proof -
  have "kv_ok ty (vs ! j)" using assms by simp
  then show ?thesis
    using assms(2)
    by (auto simp: column_value_def chunk_column_of_def kv_ok_def kv_eq_iff key_value_zero_def
        split: key_kind.splits)
qed

lemma tuple_ok_nth:
  "tuple_ok tys t \<longleftrightarrow> length t = length tys \<and> (\<forall>i < length tys. kv_ok (tys ! i) (t ! i))"
  by (auto simp: tuple_ok_def list_all2_conv_all_nth)

lemma chunk_rows_keys_chunk:
  assumes "keys_ok k" and "stop \<le> keys_count k"
  shows "chunk_rows (keys_chunk k start stop) = map (tuple_at k) [start..<stop]"
proof (rule nth_equalityI)
  show "length (chunk_rows (keys_chunk k start stop)) = length (map (tuple_at k) [start..<stop])"
    by (simp add: chunk_rows_def keys_chunk_def Let_def)
next
  fix j assume "j < length (chunk_rows (keys_chunk k start stop))"
  then have j: "start + j < stop" "j < stop - start"
    by (simp_all add: chunk_rows_def keys_chunk_def Let_def)
  have ok: "tuple_ok (ks_types k) (tuple_at k m)" if "m < stop" for m
    using tuple_at_ok(1) [OF assms(1)] that assms(2) by simp
  have "column_value (chunk_column_of (ks_types k ! i) (map (\<lambda>m. tuple_at k m ! i) [start..<stop])) j
      = tuple_at k (start + j) ! i" if "i < length (ks_types k)" for i
    using ok that j by (subst column_value_of) (auto simp: tuple_ok_nth)
  then have "map (\<lambda>col. column_value col j) (ch_cols (keys_chunk k start stop))
      = tuple_at k (start + j)"
    using ok [OF j(1)] j
    by (intro nth_equalityI) (auto simp: keys_chunk_def Let_def comp_def tuple_ok_nth)
  then show "chunk_rows (keys_chunk k start stop) ! j = map (tuple_at k) [start..<stop] ! j"
    using j by (simp add: chunk_rows_def keys_chunk_def [of k start stop] Let_def less_diff_conv)
qed

lemma upt_join: "i \<le> j \<Longrightarrow> j \<le> k \<Longrightarrow> [i..<j] @ [j..<k] = [i..<k]"
  using upt_add_eq_append [of i j "k - j"] by simp

lemma chunk_starts_concat:
  assumes "0 < n"
  shows "start \<le> tot \<Longrightarrow>
    concat (map (\<lambda>i. [i..<min (i + n) tot]) (chunk_starts start tot n)) = [start..<tot]"
  using assms
proof (induction start tot n rule: chunk_starts.induct)
  case (1 start tot n)
  show ?case
  proof (cases "start < tot")
    case True
    have "concat (map (\<lambda>i. [i..<min (i + n) tot]) (chunk_starts (start + n) tot n))
        = [min (start + n) tot..<tot]"
      using 1 True by (cases "start + n \<le> tot") (auto simp: min_def chunk_starts.simps)
    then show ?thesis
      using True 1(3) by (subst chunk_starts.simps) (simp add: upt_join)
  next
    case False
    then show ?thesis by (simp add: chunk_starts.simps)
  qed
qed

lemma keys_chunks_rows:
  assumes "keys_ok k0"
  shows "concat (map chunk_rows (keys_chunks k0 n0)) = keys_tuples k0"
proof -
  define k where "k = keys_normalize k0"
  define n where "n = (if n0 \<le> 0 then 1 else nat n0)"
  have ok: "keys_ok k" using keys_normalize_ok [OF assms] by (simp add: k_def)
  have "concat (map chunk_rows (keys_chunks k0 n0))
      = concat (map (\<lambda>i. map (tuple_at k) [i..<min (i + n) (keys_count k)])
          (chunk_starts 0 (keys_count k) n))"
    using ok by (simp add: keys_chunks_def Let_def comp_def chunk_rows_keys_chunk
        flip: k_def n_def)
  also have "\<dots> = map (tuple_at k) (concat (map (\<lambda>i. [i..<min (i + n) (keys_count k)])
          (chunk_starts 0 (keys_count k) n)))"
    by (simp add: map_concat comp_def)
  also have "\<dots> = keys_tuples k0"
    by (subst chunk_starts_concat) (auto simp: n_def keys_tuples_def Let_def k_def)
  finally show ?thesis .
qed

lemma keys_chunks_size: "c \<in> set (keys_chunks k n) \<Longrightarrow> ch_n c \<le> max 1 (nat n)"
  by (auto simp: keys_chunks_def keys_chunk_def Let_def split: if_splits)

lemma chunk_starts_below: "i \<in> set (chunk_starts start tot n) \<Longrightarrow> i < tot \<and> 0 < n"
  by (induction start tot n rule: chunk_starts.induct)
    (subst (asm) (2) chunk_starts.simps, auto split: if_splits)

lemma keys_chunks_not_empty: "c \<in> set (keys_chunks k n) \<Longrightarrow> 0 < ch_n c"
  by (auto simp: keys_chunks_def keys_chunk_def Let_def dest!: chunk_starts_below)

lemma each_chunk_fold: "each_chunk k n f s = fold_res f (keys_chunks k n) s"
proof -
  have "fold_res (\<lambda>x. f (g x)) xs s = fold_res f (map g xs) s" for g :: "nat \<Rightarrow> chunk" and xs
  proof (induction xs arbitrary: s)
    case (Cons x xs)
    then show ?case by (cases "f (g x) s") simp_all
  qed simp
  then show ?thesis by (simp add: each_chunk_def keys_chunks_def Let_def)
qed

lemma first_chunk_head:
  "first_chunk k n = (case keys_chunks k n of [] \<Rightarrow> None | c # _ \<Rightarrow> Some c)"
  by (auto simp: first_chunk_def keys_chunks_def Let_def chunk_starts.simps [of 0])

subsection \<open>Spans as the code stores them\<close>

lemma span_fits_int32:
  assumes "keys_ok k" and "length (ks_slab k) < 2 ^ 31" and "s \<in> set (ks_spans k)"
  shows "sint (of_nat (fst s) :: 32 word) = int (fst s)" and "sint (of_nat (snd s) :: 32 word) = int (snd s)"
proof -
  have "\<not> is_int k" using assms(1, 3) by (auto simp: keys_ok_def)
  then have "span_ok (ks_types k) (ks_slab k) s" using assms(1, 3) by (simp add: keys_ok_def)
  then have "fst s \<le> snd s" "snd s \<le> length (ks_slab k)" by (auto simp: span_ok_def)
  with assms(2) have "fst s < 2 ^ 31" "snd s < 2 ^ 31" by linarith+
  then show "sint (of_nat (fst s) :: 32 word) = int (fst s)" "sint (of_nat (snd s) :: 32 word) = int (snd s)"
    by (simp_all add: signed_of_nat signed_take_bit_int_eq_self)
qed

end
