(* ===== verification/Sql.thy ===== *)
theory Sql
  imports Strings Key_Encoding
begin

text \<open>
  \<open>internal/plan/sql.go\<close>: every statement the planner sends to the source, as text. The
  fragments and the builders are the code's; \<open>stmt\<close> names the builders together with
  their arguments, and \<open>stmt_sql\<close> is the text a statement is sent as. The key values of a
  chunk are no part of a statement: they travel beside it as bound arrays.

  \<open>read_ident\<close> is PostgreSQL's rule for a quoted identifier, and the round trip with
  \<open>quote_ident\<close> is what makes the text safe for an arbitrary identifier.
\<close>

definition chunk_size :: int where "chunk_size = 2000"
definition count_probe_limit :: int where "count_probe_limit = 1001"
definition probe_sample_rows :: int where "probe_sample_rows = 2000"
definition probe_sample_seed :: int where "probe_sample_seed = 1"

subsection \<open>Identifiers\<close>

definition quote_ident :: "string \<Rightarrow> string" where
  "quote_ident s = [CHR 0x22] @ replace_char (CHR 0x22) [CHR 0x22, CHR 0x22] s @ [CHR 0x22]"

definition quote_table :: "table_ref \<Rightarrow> string" where
  "quote_table t = quote_ident (ref_schema t) @ ''.'' @ quote_ident (ref_name t)"

text \<open>The server's side: a quoted identifier ends at the first quote that is not doubled.\<close>

fun read_quoted :: "string \<Rightarrow> (string \<times> string) option" where
  "read_quoted [] = None"
| "read_quoted (c # s) =
     (if c = CHR 0x22
      then (case s of
              d # r \<Rightarrow> if d = CHR 0x22
                        then map_option (\<lambda>(i, t). (CHR 0x22 # i, t)) (read_quoted r)
                        else Some ([], s)
            | [] \<Rightarrow> Some ([], []))
      else map_option (\<lambda>(i, t). (c # i, t)) (read_quoted s))"

definition read_ident :: "string \<Rightarrow> (string \<times> string) option" where
  "read_ident s = (case s of c # r \<Rightarrow> if c = CHR 0x22 then read_quoted r else None | [] \<Rightarrow> None)"

definition not_quote :: "string \<Rightarrow> bool" where
  "not_quote s \<longleftrightarrow> (case s of c # _ \<Rightarrow> c \<noteq> CHR 0x22 | [] \<Rightarrow> True)"

lemma read_quoted_escaped:
  assumes "not_quote rest"
  shows "read_quoted (replace_char (CHR 0x22) [CHR 0x22, CHR 0x22] s @ CHR 0x22 # rest) = Some (s, rest)"
  using assms by (induction s) (auto simp: not_quote_def split: list.splits)

lemma read_quote_ident:
  "not_quote rest \<Longrightarrow> read_ident (quote_ident s @ rest) = Some (s, rest)"
  by (simp add: read_ident_def quote_ident_def read_quoted_escaped)

lemma quote_table_read:
  assumes "not_quote rest"
  shows "\<exists>r. read_ident (quote_table t @ rest) = Some (ref_schema t, CHR ''.'' # r)
    \<and> read_ident r = Some (ref_name t, rest)"
  using assms read_quote_ident [of "''.'' @ quote_ident (ref_name t) @ rest" "ref_schema t"]
    read_quote_ident [of rest "ref_name t"]
  by (simp add: quote_table_def not_quote_def)

lemma quote_table_inj: "quote_table t = quote_table u \<longleftrightarrow> t = u"
proof
  assume "quote_table t = quote_table u"
  then show "t = u"
    using quote_table_read [of "[]" t] quote_table_read [of "[]" u]
    by (cases t; cases u) (auto simp: not_quote_def)
qed simp

subsection \<open>Fragments\<close>

definition out_name :: "nat \<Rightarrow> string" where
  "out_name n = ''o'' @ itoa (int n + 1)"

definition out_expr :: "string \<Rightarrow> string \<Rightarrow> key_type \<Rightarrow> nat \<Rightarrow> string" where
  "out_expr alias col ty n =
     alias @ ''.'' @ quote_ident col @ (if text_out ty then ''::text'' else [])
       @ '' AS '' @ out_name n"

text \<open>The columns and the types of a key run in parallel and are read by position.\<close>

definition out_list :: "string \<Rightarrow> string list \<Rightarrow> key_type list \<Rightarrow> string" where
  "out_list alias cols types =
     join '', '' (map (\<lambda>i. out_expr alias (cols ! i) (types ! i) i) [0..<length cols])"

definition out_order :: "nat \<Rightarrow> string" where
  "out_order n = '' ORDER BY '' @ join '', '' (map out_name [0..<n])"

definition unnest_from :: "key_type list \<Rightarrow> string" where
  "unnest_from types =
     ''unnest('' @ join '', '' (map (\<lambda>i. ''$'' @ itoa (int i + 1) @ kt_array_cast (types ! i))
        [0..<length types])
     @ '') AS k('' @ join '', '' (map (\<lambda>i. ''k'' @ itoa (int i + 1)) [0..<length types]) @ '')''"

definition join_on :: "string \<Rightarrow> string list \<Rightarrow> key_type list \<Rightarrow> string" where
  "join_on alias cols types =
     join '' AND '' (map (\<lambda>i.
       alias @ ''.'' @ quote_ident (cols ! i) @ '' = '' @ ''k.'' @ ''k'' @ itoa (int i + 1)
         @ (if kt_kind (types ! i) = KindOther then ''::'' @ kt_type_name (types ! i) else []))
       [0..<length cols])"

definition not_null_all :: "string \<Rightarrow> string list \<Rightarrow> string" where
  "not_null_all alias cols =
     join '' AND '' (map (\<lambda>c. alias @ ''.'' @ quote_ident c @ '' IS NOT NULL'') cols)"

definition order_by_columns :: "string \<Rightarrow> string list \<Rightarrow> string" where
  "order_by_columns alias cols =
     '' ORDER BY '' @ join '', '' (map (\<lambda>c. alias @ ''.'' @ quote_ident c) cols)"

definition quoted_list :: "string list \<Rightarrow> string" where
  "quoted_list cols = join '', '' (map quote_ident cols)"

subsection \<open>Statements\<close>

definition seed_sql ::
  "table_ref \<Rightarrow> string list \<Rightarrow> key_type list \<Rightarrow> string \<Rightarrow> int \<Rightarrow> string" where
  "seed_sql root cols types where_text take_n =
     ''SELECT '' @ out_list ''t'' cols types
     @ '' FROM '' @ quote_table root @ '' t''
     @ (if where_text \<noteq> [] then '' WHERE ('' @ where_text @ '')'' else [])
     @ order_by_columns ''t'' cols
     @ '' LIMIT '' @ itoa take_n"

definition map_keys_sql ::
  "table_ref \<Rightarrow> string list \<Rightarrow> key_type list \<Rightarrow> string list \<Rightarrow> key_type list \<Rightarrow> string list \<Rightarrow> string"
where
  "map_keys_sql t in_cols in_types out_cols out_types not_null =
     ''SELECT DISTINCT '' @ out_list ''t'' out_cols out_types
     @ '' FROM '' @ quote_table t @ '' t''
     @ '' JOIN '' @ unnest_from in_types @ '' ON '' @ join_on ''t'' in_cols in_types
     @ (if not_null \<noteq> [] then '' WHERE '' @ not_null_all ''t'' not_null else [])
     @ out_order (length out_cols)"

definition child_keys_sql ::
  "table_ref \<Rightarrow> string list \<Rightarrow> key_type list \<Rightarrow> string list \<Rightarrow> key_type list \<Rightarrow> int \<Rightarrow> string"
where
  "child_keys_sql child child_cols parent_types ident id_types per_key =
     (let inner = map (\<lambda>i. ''t.'' @ quote_ident (ident ! i) @ '' AS c'' @ itoa (int i + 1))
            [0..<length ident]
          @ [''row_number() OVER (PARTITION BY ''
             @ join '', '' (map (\<lambda>c. ''t.'' @ quote_ident c) child_cols)
             @ order_by_columns ''t'' ident @ '') AS rn''];
        exprs = map (\<lambda>i. ''c'' @ itoa (int i + 1)) [0..<length id_types];
        outs = map (\<lambda>i. exprs ! i @ (if text_out (id_types ! i) then ''::text'' else [])
            @ '' AS '' @ out_name i) [0..<length id_types]
      in ''SELECT '' @ join '', '' outs @ '' FROM (''
         @ ''SELECT '' @ join '', '' inner
         @ '' FROM '' @ quote_table child @ '' t''
         @ '' JOIN '' @ unnest_from parent_types @ '' ON '' @ join_on ''t'' child_cols parent_types
         @ '') s WHERE s.rn <= '' @ itoa per_key
         @ '' ORDER BY '' @ join '', '' exprs)"

definition tablesample :: "int \<Rightarrow> int \<Rightarrow> string" where
  "tablesample num den =
     '' TABLESAMPLE SYSTEM ('' @ itoa num @ ''::float8 / '' @ itoa den @ '')''
     @ '' REPEATABLE ('' @ itoa probe_sample_seed @ '')''"

definition distinct_sample_sql ::
  "table_ref \<Rightarrow> string list \<Rightarrow> key_type list \<Rightarrow> int \<Rightarrow> int \<Rightarrow> int \<Rightarrow> string" where
  "distinct_sample_sql t cols types num den limit =
     ''SELECT DISTINCT '' @ out_list ''t'' cols types
     @ '' FROM (SELECT '' @ quoted_list cols @ '' FROM '' @ quote_table t
     @ tablesample num den @ '' LIMIT '' @ itoa limit @ '') t''
     @ out_order (length cols)"

definition distinct_prefix_sql ::
  "table_ref \<Rightarrow> string list \<Rightarrow> key_type list \<Rightarrow> string list \<Rightarrow> int \<Rightarrow> string" where
  "distinct_prefix_sql t cols types order limit =
     ''SELECT DISTINCT '' @ out_list ''t'' cols types
     @ '' FROM (SELECT '' @ quoted_list cols @ '' FROM '' @ quote_table t
     @ '' ORDER BY '' @ quoted_list order @ '' LIMIT '' @ itoa limit @ '') t''
     @ out_order (length cols)"

definition bounded_count_sql :: "table_ref \<Rightarrow> string" where
  "bounded_count_sql t =
     ''SELECT count(*) FROM (SELECT 1 FROM '' @ quote_table t
     @ '' LIMIT '' @ itoa count_probe_limit @ '') s''"

definition explicit_key_probe_sql :: "table_ref \<Rightarrow> string list \<Rightarrow> int \<Rightarrow> string" where
  "explicit_key_probe_sql t cols limit =
     (let lst = quoted_list cols;
          src = (if limit > 0
                 then ''(SELECT '' @ lst @ '' FROM '' @ quote_table t @ '' LIMIT '' @ itoa limit @ '')''
                 else quote_table t)
      in ''SELECT count(*) FROM (SELECT 1 FROM '' @ src @ '' p''
         @ '' GROUP BY '' @ lst @ '' HAVING count(*) > 1 LIMIT 2) s'')"

definition pseudo_key_probe_sql ::
  "table_ref \<Rightarrow> string list \<Rightarrow> bool \<Rightarrow> int \<Rightarrow> int \<Rightarrow> string" where
  "pseudo_key_probe_sql t cols bounded num den =
     (let lst = quoted_list cols;
          counts = ''count(*), count(DISTINCT ('' @ lst @ ''))''
      in if bounded
         then ''SELECT '' @ counts @ '' FROM (SELECT '' @ lst @ '' FROM '' @ quote_table t
                @ '' LIMIT '' @ itoa probe_sample_rows @ '') s''
         else ''SELECT '' @ counts @ '' FROM '' @ quote_table t @ tablesample num den)"

text \<open>Go's division truncates and its \<open>approx\<close> is positive past the first branch.\<close>

definition sample_percent :: "int \<Rightarrow> int \<times> int" where
  "sample_percent approx =
     (let den100 = 100 in
      if approx \<le> probe_sample_rows then (100 * den100, den100)
      else let num = (probe_sample_rows * 100 * den100) div approx
           in (if num < 1 then 1 else num, den100))"

definition grant_statement :: "table_ref \<Rightarrow> string \<Rightarrow> string" where
  "grant_statement t role =
     ''GRANT SELECT ON '' @ quote_table t @ '' TO '' @ quote_ident role @ '';''"

definition newline :: string where "newline = [CHR 0x0A]"

definition unreadable_leaves_sql :: string where
  "unreadable_leaves_sql =
     ''SELECT n.nspname, c.relname'' @ newline
     @ ''FROM pg_catalog.pg_class c JOIN pg_catalog.pg_namespace n ON n.oid = c.relnamespace'' @ newline
     @ ''WHERE c.relkind IN ('' @ [CHR 0x27] @ ''r'' @ [CHR 0x27] @ '', '' @ [CHR 0x27] @ ''p''
     @ [CHR 0x27] @ '') AND c.relispartition'' @ newline
     @ ''  AND left(n.nspname, 3) <> '' @ [CHR 0x27] @ ''pg_'' @ [CHR 0x27]
     @ '' AND n.nspname <> '' @ [CHR 0x27] @ ''information_schema'' @ [CHR 0x27] @ newline
     @ ''  AND NOT has_table_privilege(c.oid, '' @ [CHR 0x27] @ ''SELECT'' @ [CHR 0x27] @ '')'' @ newline
     @ ''ORDER BY n.nspname, c.relname''"

text \<open>What the planner asks of a reader, by the builder that writes it.\<close>

datatype stmt =
    SeedKeys table_ref "string list" "key_type list" string int
  | MapKeys table_ref "string list" "key_type list" "string list" "key_type list" "string list"
  | ChildKeys table_ref "string list" "key_type list" "string list" "key_type list" int
  | DistinctSample table_ref "string list" "key_type list" int int int
  | DistinctPrefix table_ref "string list" "key_type list" "string list" int
  | BoundedCount table_ref
  | ExplicitKeyProbe table_ref "string list" int
  | PseudoKeyProbe table_ref "string list" bool int int
  | UnreadableLeaves

fun stmt_sql :: "stmt \<Rightarrow> string" where
  "stmt_sql (SeedKeys t cols types w n) = seed_sql t cols types w n"
| "stmt_sql (MapKeys t ic ity oc oty nn) = map_keys_sql t ic ity oc oty nn"
| "stmt_sql (ChildKeys t cc pty idc idt n) = child_keys_sql t cc pty idc idt n"
| "stmt_sql (DistinctSample t cols types num den n) = distinct_sample_sql t cols types num den n"
| "stmt_sql (DistinctPrefix t cols types order n) = distinct_prefix_sql t cols types order n"
| "stmt_sql (BoundedCount t) = bounded_count_sql t"
| "stmt_sql (ExplicitKeyProbe t cols n) = explicit_key_probe_sql t cols n"
| "stmt_sql (PseudoKeyProbe t cols b num den) = pseudo_key_probe_sql t cols b num den"
| "stmt_sql UnreadableLeaves = unreadable_leaves_sql"

text \<open>The share of a table a sample reads is a percentage, never more than the whole.\<close>

lemma sample_percent_bounds:
  assumes "sample_percent approx = (num, den)"
  shows "den = 100 \<and> 0 < num \<and> num \<le> 100 * den"
proof -
  have "20000000 div approx \<le> 10000" if "2000 < approx"
    using zdiv_mono2 [of 20000000 2000 approx] that by simp
  then show ?thesis
    using assms by (auto simp: sample_percent_def probe_sample_rows_def Let_def split: if_splits)
qed

text \<open>Sampling that share of a table with \<open>approx\<close> rows reads about the sample size, and never more.\<close>

lemma sample_percent_size:
  assumes "sample_percent approx = (num, den)" and "0 \<le> approx" and "approx \<le> 20000000"
  shows "num * approx \<le> 100 * den * probe_sample_rows"
proof -
  have "20000000 div approx * approx \<le> 20000000" if "0 < approx"
    using that by (metis div_mult_mod_eq le_add_same_cancel1 pos_mod_sign)
  moreover have "1 \<le> 20000000 div approx" if "0 < approx"
    using zdiv_mono2 [of 20000000 approx 20000000] that assms(3) by simp
  ultimately show ?thesis
    using assms by (auto simp: sample_percent_def probe_sample_rows_def Let_def split: if_splits)
qed

end
