(* ===== verification/Root.thy ===== *)
theory Root
  imports Refs Strings Stable_Sort
begin

text \<open>
  \<open>internal/plan/root.go\<close>: which tables and edges a plan sees at all, and the ranking that
  picks the root when none is named. The lemmas show that the collapsed graph is closed
  (both ends of a kept edge are kept tables), that the ranking is a permutation of its
  candidates in the documented order, and that a root is found unless there is no table.
\<close>

definition lookup_names :: "string list" where
  "lookup_names =
     [''countries'', ''currencies'', ''migrations'', ''schema_migrations'',
      ''_prisma_migrations'', ''alembic_version'', ''__diesel_schema_migrations'',
      ''flyway_schema_history'', ''goose_db_version'', ''atlas_schema_revisions'',
      ''knex_migrations'', ''django_migrations'']"

definition preferred_root_names :: "string list" where
  "preferred_root_names =
     [''customers'', ''users'', ''accounts'', ''organizations'', ''organisations'',
      ''tenants'', ''companies'', ''clients'']"

text \<open>The regular expression \<open>_(types?|statuses|kinds|codes)$\<close>.\<close>

definition lookup_name_match :: "string \<Rightarrow> bool" where
  "lookup_name_match n \<longleftrightarrow>
     list_ex (has_suffix n) [''_type'', ''_types'', ''_statuses'', ''_kinds'', ''_codes'']"

record root_candidate =
  rc_table :: table_ref
  rc_inbound :: nat
  rc_outbound :: nat
  rc_rows :: int
  rc_preferred :: bool

definition rc_score :: "root_candidate \<Rightarrow> int" where
  "rc_score c = int (rc_inbound c) - int (rc_outbound c)"

definition rc_reason :: "root_candidate \<Rightarrow> string" where
  "rc_reason c =
     itoa (int (rc_inbound c)) @ '' inbound - '' @ itoa (int (rc_outbound c)) @ '' outbound FKs''"

definition collapse_for_ranking ::
  "table list \<Rightarrow> foreign_key list \<Rightarrow> table list \<times> foreign_key list" where
  "collapse_for_ranking tables fks =
     (let kept = filter (\<lambda>t. tab_parent t = None) tables;
          in_scope = set (map tab_ref kept)
      in (kept, filter (\<lambda>fk. fk_child fk \<in> in_scope \<and> fk_parent fk \<in> in_scope) fks))"

definition lookup_shaped :: "table \<Rightarrow> nat \<Rightarrow> bool" where
  "lookup_shaped t inbound_tables \<longleftrightarrow>
     (0 \<le> tab_approx_rows t \<and> tab_approx_rows t < 1000 \<and> inbound_tables \<le> 2)
     \<or> lookup_name_match (ref_name (tab_ref t))
     \<or> ref_name (tab_ref t) \<in> set lookup_names"

definition inbound_count :: "foreign_key list \<Rightarrow> table_ref \<Rightarrow> nat" where
  "inbound_count fks t = length (filter (\<lambda>fk. fk_parent fk = t) fks)"

definition outbound_count :: "foreign_key list \<Rightarrow> table_ref \<Rightarrow> nat" where
  "outbound_count fks t = length (filter (\<lambda>fk. fk_child fk = t) fks)"

definition inbound_tables :: "foreign_key list \<Rightarrow> table_ref \<Rightarrow> nat" where
  "inbound_tables fks t = length (remdups (map fk_child (filter (\<lambda>fk. fk_parent fk = t) fks)))"

definition candidate_of :: "foreign_key list \<Rightarrow> table \<Rightarrow> root_candidate" where
  "candidate_of fks t =
     \<lparr>rc_table = tab_ref t, rc_inbound = inbound_count fks (tab_ref t),
      rc_outbound = outbound_count fks (tab_ref t), rc_rows = tab_approx_rows t,
      rc_preferred = (ref_name (tab_ref t) \<in> set preferred_root_names)\<rparr>"

text \<open>The comparison of \<open>RankRoots\<close>.\<close>

definition rank_less :: "root_candidate \<Rightarrow> root_candidate \<Rightarrow> bool" where
  "rank_less x y =
     (if rc_score x \<noteq> rc_score y then rc_score y < rc_score x
      else if rc_preferred x \<noteq> rc_preferred y then rc_preferred x
      else if rc_rows x \<noteq> rc_rows y then rc_rows y < rc_rows x
      else rc_table x < rc_table y)"

definition rank_roots :: "table list \<Rightarrow> foreign_key list \<Rightarrow> root_candidate list" where
  "rank_roots tables fks =
     (let all = map (candidate_of fks) tables;
          kept = map (candidate_of fks)
            (filter (\<lambda>t. \<not> lookup_shaped t (inbound_tables fks (tab_ref t))) tables)
      in sort_by rank_less (if kept = [] then all else kept))"

definition default_root ::
  "table list \<Rightarrow> foreign_key list \<Rightarrow> (table_ref \<times> string) option" where
  "default_root tables fks =
     (case rank_roots tables fks of
        [] \<Rightarrow> None
      | best # rest \<Rightarrow>
          Some (rc_table best,
            rc_reason best
            @ (case rest of
                 second # _ \<Rightarrow>
                   if rc_preferred best \<and> rc_score second = rc_score best
                   then ''; name preference'' else []
               | [] \<Rightarrow> [])))"

subsection \<open>The order is a strict weak order\<close>

lemma rank_less_irrefl [simp]: "\<not> rank_less x x"
  by (simp add: rank_less_def)

lemma rank_less_trans: "rank_less x y \<Longrightarrow> rank_less y z \<Longrightarrow> rank_less x z"
  by (auto simp: rank_less_def split: if_splits)

lemma rank_less_total:
  "rc_table x \<noteq> rc_table y \<Longrightarrow> rank_less x y \<or> rank_less y x"
  by (auto simp: rank_less_def)

lemma rank_less_weak: "rank_less x z \<Longrightarrow> rank_less x y \<or> rank_less y z"
  by (auto simp: rank_less_def split: if_splits)

lemma rank_roots_sorted: "sorted_wrt (\<lambda>a b. \<not> rank_less b a) (rank_roots tables fks)"
  unfolding rank_roots_def Let_def
  by (rule sort_by_sorted [OF rank_less_weak]) (auto dest: rank_less_trans)

lemma rank_roots_Nil [simp]: "rank_roots tables fks = [] \<longleftrightarrow> tables = []"
  by (cases tables) (simp_all add: rank_roots_def Let_def)

lemma rank_roots_subset: "set (rank_roots tables fks) \<subseteq> candidate_of fks ` set tables"
  by (auto simp: rank_roots_def Let_def split: if_splits)

lemma candidate_table [simp]: "rc_table (candidate_of fks t) = tab_ref t"
  by (simp add: candidate_of_def)

lemma collapse_closed:
  assumes "collapse_for_ranking tables fks = (kept, kept_fks)"
    and "fk \<in> set kept_fks"
  shows "fk_child fk \<in> tab_ref ` set kept \<and> fk_parent fk \<in> tab_ref ` set kept"
  using assms by (auto simp: collapse_for_ranking_def Let_def)

lemma collapse_no_leaf:
  "collapse_for_ranking tables fks = (kept, kept_fks) \<Longrightarrow> t \<in> set kept \<Longrightarrow> tab_parent t = None"
  by (auto simp: collapse_for_ranking_def Let_def)

lemma default_root_table:
  assumes "default_root tables fks = Some (root, reason)"
  shows "root \<in> tab_ref ` set tables"
proof -
  obtain best rest where "rank_roots tables fks = best # rest" "root = rc_table best"
    using assms by (auto simp: default_root_def split: list.splits)
  then have "best \<in> candidate_of fks ` set tables"
    using rank_roots_subset [of tables fks] by auto
  with \<open>root = rc_table best\<close> show ?thesis by auto
qed

lemma default_root_None [simp]: "default_root tables fks = None \<longleftrightarrow> tables = []"
  using rank_roots_Nil [of tables fks]
  by (auto simp: default_root_def split: list.splits simp del: rank_roots_Nil)

text \<open>The tables the root is chosen from.\<close>

definition ranked_among :: "table list \<Rightarrow> foreign_key list \<Rightarrow> table \<Rightarrow> bool" where
  "ranked_among tables fks t \<longleftrightarrow>
     \<not> lookup_shaped t (inbound_tables fks (tab_ref t))
     \<or> (\<forall>u \<in> set tables. lookup_shaped u (inbound_tables fks (tab_ref u)))"

lemma rank_roots_set:
  "set (rank_roots tables fks) = candidate_of fks ` {t \<in> set tables. ranked_among tables fks t}"
  by (auto simp: rank_roots_def Let_def ranked_among_def filter_empty_conv image_iff)

lemma default_root_best:
  assumes "default_root tables fks = Some (root, reason)"
  shows "\<exists>r \<in> set tables. tab_ref r = root \<and> ranked_among tables fks r
    \<and> (\<forall>t \<in> set tables. ranked_among tables fks t \<longrightarrow>
         \<not> rank_less (candidate_of fks t) (candidate_of fks r))"
proof -
  obtain best rest where b: "rank_roots tables fks = best # rest" "root = rc_table best"
    using assms by (auto simp: default_root_def split: list.splits)
  then have "best \<in> set (rank_roots tables fks)" by simp
  then obtain r where r: "r \<in> set tables" "ranked_among tables fks r" "best = candidate_of fks r"
    unfolding rank_roots_set by blast
  have "\<not> rank_less (candidate_of fks t) best" if "t \<in> set tables" "ranked_among tables fks t" for t
  proof -
    have "candidate_of fks t \<in> set (rank_roots tables fks)" using that unfolding rank_roots_set by blast
    then show ?thesis using rank_roots_sorted [of tables fks] b(1) by auto
  qed
  with r b(2) show ?thesis by auto
qed

end
