(* ===== verification/Run.thy ===== *)
theory Run
  imports Keyset Sql Root "HOL-Library.AList"
begin

text \<open>
  The state of one planning run and what it is built from: the request, the
  classifier's decisions, refusals, and the reads. The types are \<open>internal/pipeline\<close>'s
  (\<open>plan.go\<close>, \<open>classify.go\<close>) and the run is \<open>internal/plan/plan.go\<close>'s; the reads are
  \<open>internal/plan/query.go\<close>'s and \<open>identity.go\<close>'s column look-ups.

  The source is a parameter: a \<open>reader\<close> answers a statement and its bound arrays with rows
  of cells or with an error. One run reads one snapshot, so a reader is a function.
\<close>

subsection \<open>Decisions\<close>

datatype category =
    CatNone | CatPersonName | CatEmail | CatPhone | CatAddress | CatGeo | CatPersonDate
  | CatNationalID | CatFinancial | CatNetworkID | CatOnlineID | CatCredential | CatFreeText
  | CatSpecial | CatBinary | CatSemiStruct | CatDerivedText

datatype confidence = ConfNone | ConfLow | ConfPossible | ConfLikely | ConfCertain

fun conf_rank :: "confidence \<Rightarrow> nat" where
  "conf_rank ConfNone = 0"
| "conf_rank ConfLow = 1"
| "conf_rank ConfPossible = 2"
| "conf_rank ConfLikely = 3"
| "conf_rank ConfCertain = 4"

datatype decision_source =
  ByClassifier | ByYmlUnmask | ByFlagUnmask | ByYmlRaise | ByFKPropagation | ByNeighbour

text \<open>The fields of a decision the planner reads.\<close>

record decision =
  dc_category :: category
  dc_confidence :: confidence
  dc_masker :: string
  dc_masked :: bool
  dc_role :: string
  dc_source :: decision_source
  dc_unique_index :: bool
  dc_refused :: string
  dc_refused_partner :: column_ref

type_synonym classification = "column_ref \<Rightarrow> decision option"

text \<open>A map look-up of a key that is not there yields Go's zero value; the empty category, which every
  test treats as \<open>CatNone\<close> is treated, is \<open>CatNone\<close>.\<close>

definition decision_zero :: decision where
  "decision_zero =
     \<lparr>dc_category = CatNone, dc_confidence = ConfNone, dc_masker = [], dc_masked = False,
      dc_role = [], dc_source = ByClassifier, dc_unique_index = False, dc_refused = [],
      dc_refused_partner = ColumnRef (TableRef [] []) []\<rparr>"

subsection \<open>Refusals\<close>

datatype plan_code =
    CodeNoRoot | CodeKeyColumn | CodeWhereSyntax | CodeKeyNotUnique | CodeNoIdentity
  | CodeUnreadable | CodeSkipParent | CodeRowBudget | CodeMemoryBudget | CodeUnwritable
  | CodeUniqueDomain | CodeEqualityGroup | CodeFKPair | CodeDDLLiteral
  | CodeLiteralNotRewritable | CodeTypeLiteral | CodeNotRecreatable

definition exit_usage :: nat where "exit_usage = 2"
definition exit_budget :: nat where "exit_budget = 11"
definition exit_plan :: nat where "exit_plan = 12"
definition exit_schema :: nat where "exit_schema = 13"

text \<open>\<open>Args\<close> and \<open>Message\<close> are rendered for an operator and nothing branches on them.\<close>

record refusal =
  rf_code :: plan_code
  rf_exit :: nat
  rf_table :: table_ref
  rf_column :: string

definition refuse :: "plan_code \<Rightarrow> nat \<Rightarrow> table_ref \<Rightarrow> refusal" where
  "refuse code ex t = \<lparr>rf_code = code, rf_exit = ex, rf_table = t, rf_column = []\<rparr>"

text \<open>
  What a stage can return instead of a result: a refusal, a list of collected refusals, a
  failed read with its context, a column a table does not have, or a nil table
  dereferenced (a panic, which \<open>plan_no_panic\<close> excludes).
\<close>

datatype plan_error =
    Refused refusal
  | RefusedAll "refusal list"
  | ReadFailed string string
  | NoColumn table_ref string
  | NilTable

subsection \<open>Requests\<close>

record plan_request =
  rq_root :: "table_ref option"
  rq_take :: int
  rq_where :: string
  rq_cap :: int
  rq_table_caps :: "table_ref \<Rightarrow> int option"
  rq_depth :: int
  rq_row_budget :: int
  rq_memory_budget :: int
  rq_keys :: "table_ref \<Rightarrow> string list option"
  rq_skip :: "table_ref list"
  rq_unreadable :: "table_ref list"

definition default_take :: int where "default_take = 500"
definition default_cap :: int where "default_cap = 100"
definition default_depth :: int where "default_depth = 3"
definition default_row_budget :: int where "default_row_budget = 1000000"
definition default_memory_budget :: int where "default_memory_budget = 256 * 2 ^ 20"

text \<open>Zero is unset and takes the default, a negative number is the explicit zero.\<close>

definition default_or_zero :: "int \<Rightarrow> int \<Rightarrow> int" where
  "default_or_zero d n = (let m = (if n = 0 then d else n) in if m < 0 then 0 else m)"

definition with_defaults :: "plan_request \<Rightarrow> plan_request" where
  "with_defaults req =
     req\<lparr>rq_take := default_or_zero default_take (rq_take req),
         rq_cap := default_or_zero default_cap (rq_cap req),
         rq_depth := default_or_zero default_depth (rq_depth req),
         rq_row_budget :=
           (if rq_row_budget req = 0 then default_row_budget else rq_row_budget req),
         rq_memory_budget :=
           (if rq_memory_budget req = 0 then default_memory_budget else rq_memory_budget req)\<rparr>"

lemma default_or_zero_nonneg: "0 \<le> d \<Longrightarrow> 0 \<le> default_or_zero d n"
  by (simp add: default_or_zero_def)

lemma with_defaults_bounds:
  "0 \<le> rq_take (with_defaults req) \<and> 0 \<le> rq_cap (with_defaults req)
    \<and> 0 \<le> rq_depth (with_defaults req)"
  by (simp add: with_defaults_def default_or_zero_nonneg default_take_def default_cap_def
      default_depth_def)

subsection \<open>Identities and inferred pairs\<close>

datatype identity_kind = IdentityPK | IdentityUnique | IdentityPseudo

record identity =
  id_kind :: identity_kind
  id_columns :: "string list"
  id_types :: "key_type list"

definition identity_zero :: identity where
  "identity_zero = \<lparr>id_kind = IdentityPK, id_columns = [], id_types = []\<rparr>"

record polymorphic_pair =
  pl_table :: table_ref
  pl_type_col :: string
  pl_id_col :: string
  pl_object_col :: bool

record virtual_edge =
  ve_value :: string
  ve_fk :: foreign_key
  ve_types :: "key_type list"

record pair_plan =
  pp_pair :: polymorphic_pair
  pp_type_type :: key_type
  pp_id_type :: key_type
  pp_edges :: "virtual_edge list"
  pp_sampled :: "string set"

text \<open>\<open>unknownValues\<close>: the values met in the walk, and whether more came past the cap.\<close>

record unknown_values =
  uv_values :: "string set"
  uv_more :: bool

definition polymorphic_value_cap :: nat where "polymorphic_value_cap = 50"

subsection \<open>The run\<close>

datatype mode = ChildOK | ParentOnly | LookupMode | SchemaOnly

record emitting_column =
  em_vocabulary :: int
  em_array :: bool

text \<open>
  \<open>schema\<close> is what the planner and the masking stage read of \<open>pipeline.Schema\<close>: the enum types with
  their labels, in the order a range over Go's map takes, the domains and composites, the tables and
  the foreign keys.

  A Go map is a partial function; a map whose missing keys are read as the zero value is a
  total one (\<open>rn_ids\<close>, \<open>rn_cells_per_row\<close>, \<open>rn_emitting\<close>, \<open>rn_cap_of\<close>, \<open>rn_inferred\<close>);
  a \<open>map[k]bool\<close> is a set. \<open>outgoing\<close> and \<open>incoming\<close> are functions of the edge list they
  are built from. Go's counters are \<open>int64\<close>s bounded by the row budget and are integers
  here.
\<close>

record schema =
  sch_enums :: "(string \<times> string list) list"
  sch_domains :: "named_def list"
  sch_composites :: "named_def list"
  sch_tables :: "table list"
  sch_fks :: "foreign_key list"

record run =
  rn_schema :: schema
  rn_req :: plan_request
  rn_cls :: "classification option"
  rn_tables :: "table list"
  rn_by_ref :: "table_ref \<Rightarrow> table option"
  rn_in_scope :: "table_ref set"
  rn_fks :: "foreign_key list"
  rn_root_of :: "table_ref \<Rightarrow> table_ref option"
  rn_ids :: "table_ref \<Rightarrow> identity"
  rn_lookups :: "table_ref set"
  rn_lookup_rows :: "table_ref \<Rightarrow> int"
  rn_cells_per_row :: "table_ref \<Rightarrow> int"
  rn_emitting :: "table_ref \<Rightarrow> emitting_column list"
  rn_selected :: "table_ref \<Rightarrow> keys option"
  rn_label :: "table_ref \<Rightarrow> mode option"
  rn_why :: "table_ref \<Rightarrow> string option"
  rn_depth :: "table_ref \<Rightarrow> int option"
  rn_cap_of :: "table_ref \<Rightarrow> int"
  rn_skipped :: "table_ref list"
  rn_unreadable :: "table_ref list"
  rn_selected_row :: int
  rn_root_seed_count :: int
  rn_inferred :: "table_ref \<Rightarrow> pair_plan list"
  rn_virtual :: "foreign_key list"
  rn_polymorphic :: "string list"
  rn_unmapped :: "string list"
  rn_unknown_types :: "(polymorphic_pair \<times> unknown_values) list"
  rn_django :: "(int \<Rightarrow> (string \<times> string) option) option"
  rn_refusals :: "refusal list"

definition outgoing :: "run \<Rightarrow> table_ref \<Rightarrow> foreign_key list" where
  "outgoing p t = filter (\<lambda>fk. fk_child fk = t) (rn_fks p)"

definition incoming :: "run \<Rightarrow> table_ref \<Rightarrow> foreign_key list" where
  "incoming p t = filter (\<lambda>fk. fk_parent fk = t) (rn_fks p)"

definition follows_as_parent :: "foreign_key \<Rightarrow> bool" where
  "follows_as_parent fk \<longleftrightarrow> fk_validated fk \<and> \<not> fk_virtual fk"

definition follows_as_child :: "foreign_key \<Rightarrow> bool" where
  "follows_as_child fk \<longleftrightarrow> \<not> fk_virtual fk"

definition collect :: "run \<Rightarrow> refusal \<Rightarrow> run" where
  "collect p r = p\<lparr>rn_refusals := rn_refusals p @ [r]\<rparr>"

text \<open>\<open>fail\<close>: an earlier collected refusal is not lost to a later fail-fast one.\<close>

definition fail :: "run \<Rightarrow> plan_error \<Rightarrow> plan_error" where
  "fail p err =
     (if rn_refusals p = [] then err
      else case err of
             Refused r \<Rightarrow> RefusedAll (rn_refusals p @ [r])
           | _ \<Rightarrow> err)"

subsection \<open>Columns\<close>

text \<open>
  \<open>columnsByName\<close> fills a map in column order, so the last of two columns of one name wins.
\<close>

definition columns_by_name :: "table \<Rightarrow> string \<Rightarrow> column option" where
  "columns_by_name tbl = map_of (rev (map (\<lambda>c. (col_name c, c)) (tab_columns tbl)))"

fun types_of_columns :: "table \<Rightarrow> string list \<Rightarrow> plan_error + key_type list" where
  "types_of_columns tbl [] = Inr []"
| "types_of_columns tbl (c # cs) =
     (case columns_by_name tbl c of
        None \<Rightarrow> Inl (NoColumn (tab_ref tbl) c)
      | Some col \<Rightarrow> bind_res (types_of_columns tbl cs) (\<lambda>tys. Inr (type_of_column col # tys)))"

text \<open>\<open>typesFor\<close>, on the pointer a \<open>byRef\<close> look-up gives.\<close>

definition types_for :: "table option \<Rightarrow> string list \<Rightarrow> plan_error + key_type list" where
  "types_for tbl cols = (case tbl of None \<Rightarrow> Inl NilTable | Some t \<Rightarrow> types_of_columns t cols)"

fun same_columns :: "string list \<Rightarrow> string list \<Rightarrow> bool" where
  "same_columns [] [] = True"
| "same_columns (a # as) (b # bs) = (a = b \<and> same_columns as bs)"
| "same_columns _ _ = False"

lemma same_columns_eq [simp]: "same_columns as bs \<longleftrightarrow> as = bs"
  by (induction as bs rule: same_columns.induct) auto

definition join_cols :: "string list \<Rightarrow> string" where
  "join_cols cols = join '','' cols"

lemma types_of_columns_length:
  "types_of_columns tbl cols = Inr tys \<Longrightarrow> length tys = length cols"
  by (induction cols arbitrary: tys) (auto simp: result_simps split: option.splits)

subsection \<open>Reads\<close>

datatype cell = IntCell int64 | TextCell string | UuidCell bytes

type_synonym cell_row = "cell option list"

type_synonym reader = "stmt \<Rightarrow> chunk_column list \<Rightarrow> string + cell_row list"

text \<open>
  \<open>rows.Scan\<close> into the carrier of the column's kind. The outer option is a scan error, the
  inner one a NULL.
\<close>

definition scan_cell :: "key_type \<Rightarrow> cell option \<Rightarrow> key_value option option" where
  "scan_cell ty c =
     (case c of
        None \<Rightarrow> Some None
      | Some d \<Rightarrow>
          (case kt_kind ty of
             KindInt \<Rightarrow> (case d of IntCell i \<Rightarrow> Some (Some (key_value_zero\<lparr>kv_i := i\<rparr>)) | _ \<Rightarrow> None)
           | KindUUID \<Rightarrow>
               (case d of
                  UuidCell b \<Rightarrow>
                    if length b = 16
                    then Some (Some (key_value_zero\<lparr>kv_u := \<lparr>uuid_bytes = b, uuid_valid = True\<rparr>\<rparr>))
                    else None
                | _ \<Rightarrow> None)
           | _ \<Rightarrow> (case d of TextCell s \<Rightarrow> Some (Some (key_value_zero\<lparr>kv_s := s\<rparr>)) | _ \<Rightarrow> None)))"

fun scan_row :: "key_type list \<Rightarrow> cell_row \<Rightarrow> key_tuple option option" where
  "scan_row [] [] = Some (Some [])"
| "scan_row (ty # tys) (c # cs) =
     (case scan_cell ty c of
        None \<Rightarrow> None
      | Some v \<Rightarrow>
          (case scan_row tys cs of
             None \<Rightarrow> None
           | Some vs \<Rightarrow>
               Some (case v of None \<Rightarrow> None | Some x \<Rightarrow>
                 (case vs of None \<Rightarrow> None | Some xs \<Rightarrow> Some (x # xs)))))"
| "scan_row _ _ = None"

fun collect_rows :: "key_type list \<Rightarrow> cell_row list \<Rightarrow> keys \<Rightarrow> string + keys" where
  "collect_rows types [] out = Inr out"
| "collect_rows types (r # rs) out =
     (case scan_row types r of
        None \<Rightarrow> Inl ''scan''
      | Some None \<Rightarrow> collect_rows types rs out
      | Some (Some t) \<Rightarrow> collect_rows types rs (keys_add out t))"

definition read_keys :: "reader \<Rightarrow> stmt \<Rightarrow> key_type list \<Rightarrow> chunk_column list \<Rightarrow> string + keys" where
  "read_keys rd st types args =
     bind_res (rd st args) (\<lambda>rows. collect_rows types rows (new_keys types))"

text \<open>The wrapping of a read's error in its context.\<close>

definition wrap :: "string \<Rightarrow> string + 'a \<Rightarrow> plan_error + 'a" where
  "wrap ctx r = (case r of Inl e \<Rightarrow> Inl (ReadFailed ctx e) | Inr a \<Rightarrow> Inr a)"

lemma wrap_simps [simp, result_simps]:
  "wrap ctx (Inr a) = Inr a"
  "wrap ctx r = Inr a \<longleftrightarrow> r = Inr a"
  by (auto simp: wrap_def split: sum.splits)

text \<open>\<open>chunkArgs\<close>: the first \<open>n\<close> columns of a chunk, as arguments.\<close>

definition chunk_args :: "chunk \<Rightarrow> nat \<Rightarrow> chunk_column list" where
  "chunk_args c n = map (\<lambda>i. ch_cols c ! i) [0..<n]"

subsection \<open>What the reads keep\<close>

lemma scan_cell_ok: "scan_cell ty c = Some (Some v) \<Longrightarrow> kv_ok ty v"
  by (auto simp: scan_cell_def kv_ok_def key_value_zero_def uuid_zero_def
      split: option.splits cell.splits key_kind.splits if_splits)

lemma scan_row_ok: "scan_row types r = Some (Some t) \<Longrightarrow> tuple_ok types t"
  by (induction types r arbitrary: t rule: scan_row.induct)
    (auto intro: scan_cell_ok split: option.splits)

text \<open>The tuples of the rows that carry no NULL.\<close>

definition row_tuples :: "key_type list \<Rightarrow> cell_row list \<Rightarrow> key_tuple set" where
  "row_tuples types rows = {t. \<exists>r \<in> set rows. scan_row types r = Some (Some t)}"

lemma collect_rows_ok:
  assumes "collect_rows types rows out = Inr ks" and "keys_ok out" and "ks_types out = types"
  shows "keys_ok ks \<and> ks_types ks = types \<and> keys_set ks = keys_set out \<union> row_tuples types rows"
  using assms
proof (induction types rows out rule: collect_rows.induct)
  case (1 types out)
  then show ?case by (simp add: row_tuples_def)
next
  case (2 types r rs out)
  consider (null) "scan_row types r = Some None"
    | (tuple) t where "scan_row types r = Some (Some t)"
    using 2 by (auto split: option.splits)
  then show ?case
  proof cases
    case null
    then have "row_tuples types (r # rs) = row_tuples types rs"
      by (auto simp: row_tuples_def)
    with null 2 show ?thesis by simp
  next
    case (tuple t)
    then have "tuple_ok (ks_types out) t" using 2 by (auto intro: scan_row_ok)
    moreover have "row_tuples types (r # rs) = insert t (row_tuples types rs)"
      using tuple by (auto simp: row_tuples_def)
    ultimately show ?thesis using tuple 2 by (simp add: ks.add_ok ks.add_abs)
  qed
qed

lemma read_keys_ok:
  assumes "read_keys rd st types args = Inr ks"
  shows "\<exists>rows. rd st args = Inr rows \<and> keys_ok ks \<and> ks_types ks = types
    \<and> keys_set ks = row_tuples types rows"
  using assms collect_rows_ok [of types _ "new_keys types" ks] ks.new_ok ks.new_abs
  by (auto simp: read_keys_def result_simps)

end
