(* ===== verification/Identity.thy ===== *)
theory Identity
  imports Run
begin

text \<open>
  \<open>internal/plan/identity.go\<close>: the row-identity ladder. \<open>resolve_identity\<close> walks the rungs (an
  explicit key, the primary key, a unique index over NOT NULL columns, a probed pseudo-key)
  and ends in a refusal; \<open>resolve_identities\<close> resolves every table in scope, dropping and
  collecting the ones without. The lemmas: an identity is never of no column, its types are
  its columns' types in order, and no rung yields a system column.
\<close>

definition explicit_key_probe_rows :: int where "explicit_key_probe_rows = 100000"
definition oid_bool :: "32 word" where "oid_bool = 16"

definition system_columns :: "string list" where
  "system_columns = [''ctid'', ''xmin'', ''xmax'', ''cmin'', ''cmax'', ''tableoid'', ''oid'']"

text \<open>One row of \<open>n\<close> integers: \<open>scalar\<close> with \<open>int64\<close> destinations.\<close>

definition scalar_ints :: "reader \<Rightarrow> stmt \<Rightarrow> nat \<Rightarrow> string + int64 list" where
  "scalar_ints rd st n =
     bind_res (rd st []) (\<lambda>rows.
       case rows of
         [] \<Rightarrow> Inl ''returned no row''
       | r # _ \<Rightarrow>
           if length r = n \<and> list_all (\<lambda>c. case c of Some (IntCell _) \<Rightarrow> True | _ \<Rightarrow> False) r
           then Inr (map (\<lambda>c. case c of Some (IntCell i) \<Rightarrow> i | _ \<Rightarrow> 0) r)
           else Inl ''scan'')"

definition bounded_count :: "reader \<Rightarrow> table_ref \<Rightarrow> plan_error + int" where
  "bounded_count rd t =
     bind_res (wrap (''plan: counting '' @ table_ref_string t) (scalar_ints rd (BoundedCount t) 1))
       (\<lambda>xs. Inr (sint (xs ! 0)))"

definition identity_over :: "table \<Rightarrow> string list \<Rightarrow> identity_kind \<Rightarrow> plan_error + identity" where
  "identity_over tbl cols kind =
     bind_res (types_of_columns tbl cols)
       (\<lambda>types. Inr \<lparr>id_kind = kind, id_columns = cols, id_types = types\<rparr>)"

subsection \<open>The unique-index rung\<close>

definition index_usable :: "table \<Rightarrow> index \<Rightarrow> bool" where
  "index_usable tbl idx \<longleftrightarrow>
     idx_unique idx \<and> \<not> idx_partial idx \<and> \<not> idx_expression idx \<and> idx_columns idx \<noteq> []
     \<and> list_all (\<lambda>c. case columns_by_name tbl c of None \<Rightarrow> False | Some col \<Rightarrow> \<not> col_nullable col)
         (idx_columns idx)"

definition index_before :: "index \<Rightarrow> index \<Rightarrow> bool" where
  "index_before x y =
     (if length (idx_columns x) \<noteq> length (idx_columns y)
      then length (idx_columns x) < length (idx_columns y)
      else idx_name x < idx_name y)"

definition unique_index_columns :: "table \<Rightarrow> string list option" where
  "unique_index_columns tbl =
     (case sort_by index_before (filter (index_usable tbl) (tab_indexes tbl)) of
        [] \<Rightarrow> None
      | idx # _ \<Rightarrow> Some (idx_columns idx))"

subsection \<open>The pseudo-key rung\<close>

text \<open>The regular expression \<open>(^|_)(types?|status|statuses|kinds?|states?|codes?)$\<close>.\<close>

definition discriminator_name_match :: "string \<Rightarrow> bool" where
  "discriminator_name_match n \<longleftrightarrow>
     list_ex (\<lambda>w. n = w \<or> has_suffix n (''_'' @ w))
       [''type'', ''types'', ''status'', ''statuses'', ''kind'', ''kinds'', ''state'', ''states'',
        ''code'', ''codes'']"

text \<open>A schema-qualified enum name and the part after its last dot.\<close>

definition enum_type_names :: "schema \<Rightarrow> string list" where
  "enum_type_names s =
     concat (map (\<lambda>n. case last_index n ''.'' of None \<Rightarrow> [n] | Some i \<Rightarrow> [n, drop (i + 1) n])
       (map fst (sch_enums s)))"

definition comparable_type :: "column \<Rightarrow> string list \<Rightarrow> bool" where
  "comparable_type c enums \<longleftrightarrow>
     col_type_oid c = oid_bool \<or> col_type_name c \<in> set enums
     \<or> kt_kind (type_of_column c) \<noteq> KindOther"

definition is_discriminator :: "column \<Rightarrow> string list \<Rightarrow> bool" where
  "is_discriminator c enums \<longleftrightarrow>
     col_type_oid c = oid_bool \<or> col_type_name c \<in> set enums
     \<or> discriminator_name_match (col_name c) \<and> comparable_type c enums"

definition pseudo_key_columns :: "run \<Rightarrow> table \<Rightarrow> string list" where
  "pseudo_key_columns p tbl =
     (let fk_cols = concat (map fk_child_cols (outgoing p (tab_ref tbl)));
          enums = enum_type_names (rn_schema p)
      in map col_name
           (filter (\<lambda>c. col_generated c = [] \<and> \<not> col_nullable c
              \<and> (col_name c \<in> set fk_cols \<or> is_discriminator c enums)) (tab_columns tbl)))"

definition probe_pseudo_key :: "reader \<Rightarrow> table \<Rightarrow> string list \<Rightarrow> plan_error + bool" where
  "probe_pseudo_key rd tbl cols =
     (let bounded = (tab_partitioned tbl \<or> tab_approx_rows tbl \<le> 0);
          (num, den) = sample_percent (tab_approx_rows tbl)
      in bind_res
           (wrap (''plan: probing a pseudo-key on '' @ table_ref_string (tab_ref tbl))
             (scalar_ints rd (PseudoKeyProbe (tab_ref tbl) cols bounded num den) 2))
           (\<lambda>xs. Inr (0 < sint (xs ! 0) \<and> xs ! 0 = xs ! 1)))"

subsection \<open>The explicit rung\<close>

definition probe_explicit_key :: "reader \<Rightarrow> table \<Rightarrow> string list \<Rightarrow> plan_error + bool \<times> bool" where
  "probe_explicit_key rd tbl cols =
     (let limit = (if tab_approx_rows tbl < 0 \<or> explicit_key_probe_rows < tab_approx_rows tbl
                   then explicit_key_probe_rows else 0)
      in bind_res
           (wrap (''plan: probing --key on '' @ table_ref_string (tab_ref tbl))
             (scalar_ints rd (ExplicitKeyProbe (tab_ref tbl) cols limit) 1))
           (\<lambda>xs. Inr (0 < sint (xs ! 0), 0 < limit)))"

fun check_key_columns :: "table \<Rightarrow> string list \<Rightarrow> plan_error + unit" where
  "check_key_columns tbl [] = Inr ()"
| "check_key_columns tbl (c # cs) =
     (if c \<in> set system_columns then Inl (Refused (refuse CodeKeyColumn exit_usage (tab_ref tbl)))
      else if columns_by_name tbl c = None
      then Inl (Refused (refuse CodeKeyColumn exit_usage (tab_ref tbl)))
      else check_key_columns tbl cs)"

definition explicit_identity :: "reader \<Rightarrow> table \<Rightarrow> string list \<Rightarrow> plan_error + identity" where
  "explicit_identity rd tbl cols =
     bind_res (check_key_columns tbl cols) (\<lambda>_.
       bind_res (probe_explicit_key rd tbl cols) (\<lambda>(dup, sampled).
         if dup then Inl (Refused (refuse CodeKeyNotUnique exit_plan (tab_ref tbl)))
         else identity_over tbl cols (if sampled then IdentityPseudo else IdentityUnique)))"

subsection \<open>The ladder\<close>

text \<open>The rungs below the first: a rung whose columns the table does not have is passed over.\<close>

definition try_identity :: "table \<Rightarrow> string list \<Rightarrow> identity_kind \<Rightarrow> identity option" where
  "try_identity tbl cols kind =
     (case identity_over tbl cols kind of Inr idn \<Rightarrow> Some idn | Inl _ \<Rightarrow> None)"

definition pseudo_rung :: "reader \<Rightarrow> run \<Rightarrow> table \<Rightarrow> plan_error + identity" where
  "pseudo_rung rd p tbl =
     (let cols = pseudo_key_columns p tbl;
          refusal = Inl (Refused (refuse CodeNoIdentity exit_plan (tab_ref tbl)))
      in if cols = [] then refusal
         else bind_res (probe_pseudo_key rd tbl cols) (\<lambda>ok.
           if ok then identity_over tbl cols IdentityPseudo else refusal))"

definition unique_rung :: "reader \<Rightarrow> run \<Rightarrow> table \<Rightarrow> plan_error + identity" where
  "unique_rung rd p tbl =
     (case unique_index_columns tbl of
        None \<Rightarrow> pseudo_rung rd p tbl
      | Some cols \<Rightarrow>
          (case try_identity tbl cols IdentityUnique of
             Some idn \<Rightarrow> Inr idn
           | None \<Rightarrow> pseudo_rung rd p tbl))"

definition resolve_identity :: "reader \<Rightarrow> run \<Rightarrow> table \<Rightarrow> plan_error + identity" where
  "resolve_identity rd p tbl =
     (case rq_keys (rn_req p) (tab_ref tbl) of
        Some (c # cs) \<Rightarrow> explicit_identity rd tbl (c # cs)
      | _ \<Rightarrow>
          if tab_pk tbl \<noteq> []
          then (case try_identity tbl (tab_pk tbl) IdentityPK of
                  Some idn \<Rightarrow> Inr idn
                | None \<Rightarrow> unique_rung rd p tbl)
          else unique_rung rd p tbl)"

definition drop_table :: "run \<Rightarrow> table_ref \<Rightarrow> run" where
  "drop_table p t = p\<lparr>rn_in_scope := rn_in_scope p - {t}\<rparr>"

text \<open>
  One table of \<open>resolveIdentities\<close>: a table with no identity is collected and dropped. The
  \<open>fail\<close> that \<open>plan\<close> wraps an error of this stage in is applied here, where the refusals
  collected so far are at hand.
\<close>

definition resolve_step :: "reader \<Rightarrow> table \<Rightarrow> run \<Rightarrow> plan_error + run" where
  "resolve_step rd t p =
     (if tab_ref t \<notin> rn_in_scope p then Inr p
      else case resolve_identity rd p t of
             Inr idn \<Rightarrow> Inr (p\<lparr>rn_ids := (rn_ids p)(tab_ref t := idn)\<rparr>)
           | Inl (Refused r) \<Rightarrow>
               if rf_code r = CodeNoIdentity
               then (let p' = drop_table (collect p r) (tab_ref t)
                     in Inr (p'\<lparr>rn_why := (rn_why p')(tab_ref t \<mapsto> ''no identity'')\<rparr>))
               else Inl (fail p (Refused r))
           | Inl e \<Rightarrow> Inl (fail p e))"

definition resolve_identities :: "reader \<Rightarrow> run \<Rightarrow> plan_error + run" where
  "resolve_identities rd p = fold_res (resolve_step rd) (rn_tables p) p"

subsection \<open>What an identity is\<close>

text \<open>A table's identity fits it: some columns, all of the table, typed as they are.\<close>

definition identity_fits :: "table \<Rightarrow> identity \<Rightarrow> bool" where
  "identity_fits tbl idn \<longleftrightarrow>
     id_columns idn \<noteq> [] \<and> types_of_columns tbl (id_columns idn) = Inr (id_types idn)"

lemma identity_over_fits:
  "identity_over tbl cols kind = Inr idn \<Longrightarrow> cols \<noteq> [] \<Longrightarrow> identity_fits tbl idn"
  by (auto simp: identity_over_def identity_fits_def result_simps)

lemma identity_over_kind:
  "identity_over tbl cols kind = Inr idn \<Longrightarrow> id_kind idn = kind \<and> id_columns idn = cols"
  by (auto simp: identity_over_def result_simps)

lemma unique_index_columnsD:
  assumes "unique_index_columns tbl = Some cols"
  shows "\<exists>idx \<in> set (tab_indexes tbl). index_usable tbl idx \<and> idx_columns idx = cols"
proof -
  obtain idx rest where s: "sort_by index_before (filter (index_usable tbl) (tab_indexes tbl)) = idx # rest"
    "cols = idx_columns idx"
    using assms by (auto simp: unique_index_columns_def split: list.splits)
  then have "idx \<in> set (filter (index_usable tbl) (tab_indexes tbl))"
    by (metis list.set_intros(1) set_sort_by)
  with s(2) show ?thesis by auto
qed

lemma unique_index_columns_not_Nil: "unique_index_columns tbl = Some cols \<Longrightarrow> cols \<noteq> []"
  using unique_index_columnsD [of tbl cols] by (auto simp: index_usable_def)

lemma pseudo_rung_fits: "pseudo_rung rd p tbl = Inr idn \<Longrightarrow> identity_fits tbl idn"
  by (auto simp: pseudo_rung_def Let_def result_simps split: if_splits intro: identity_over_fits)

lemma unique_rung_fits: "unique_rung rd p tbl = Inr idn \<Longrightarrow> identity_fits tbl idn"
  by (auto simp: unique_rung_def try_identity_def split: option.splits sum.splits
      intro: pseudo_rung_fits identity_over_fits dest: unique_index_columns_not_Nil)

lemma explicit_identity_fits:
  "explicit_identity rd tbl cols = Inr idn \<Longrightarrow> cols \<noteq> [] \<Longrightarrow> identity_fits tbl idn"
  by (auto simp: explicit_identity_def result_simps split: if_splits intro: identity_over_fits)

lemma resolve_identity_fits: "resolve_identity rd p tbl = Inr idn \<Longrightarrow> identity_fits tbl idn"
  by (auto simp: resolve_identity_def try_identity_def
      split: option.splits list.splits sum.splits if_splits
      intro: explicit_identity_fits unique_rung_fits identity_over_fits)

text \<open>Where an identity comes from, rung by rung.\<close>

definition explicit_key :: "run \<Rightarrow> table \<Rightarrow> bool" where
  "explicit_key p tbl \<longleftrightarrow>
     (case rq_keys (rn_req p) (tab_ref tbl) of Some (_ # _) \<Rightarrow> True | _ \<Rightarrow> False)"

lemma check_key_columns_system:
  "check_key_columns tbl cols = Inr u \<Longrightarrow> set cols \<inter> set system_columns = {}"
  by (induction tbl cols rule: check_key_columns.induct) (auto split: if_splits)

lemma explicit_identity_justified:
  assumes "explicit_identity rd tbl cols = Inr idn"
  shows "id_columns idn = cols \<and> set cols \<inter> set system_columns = {}
    \<and> (\<exists>sampled. probe_explicit_key rd tbl cols = Inr (False, sampled)
         \<and> id_kind idn = (if sampled then IdentityPseudo else IdentityUnique))"
  using assms check_key_columns_system
  by (auto simp: explicit_identity_def result_simps split: if_splits dest!: identity_over_kind)

definition rung_ok :: "reader \<Rightarrow> run \<Rightarrow> table \<Rightarrow> identity \<Rightarrow> bool" where
  "rung_ok rd p tbl idn \<longleftrightarrow>
     (case id_kind idn of
        IdentityPK \<Rightarrow> id_columns idn = tab_pk tbl
      | IdentityUnique \<Rightarrow>
          (\<exists>idx \<in> set (tab_indexes tbl). index_usable tbl idx \<and> idx_columns idx = id_columns idn)
      | IdentityPseudo \<Rightarrow>
          id_columns idn = pseudo_key_columns p tbl
          \<and> probe_pseudo_key rd tbl (id_columns idn) = Inr True)"

lemma pseudo_rung_ok: "pseudo_rung rd p tbl = Inr idn \<Longrightarrow> rung_ok rd p tbl idn"
  by (auto simp: pseudo_rung_def Let_def result_simps rung_ok_def split: if_splits
      dest!: identity_over_kind)

lemma try_identity_kind:
  "try_identity tbl cols kind = Some idn \<Longrightarrow> id_kind idn = kind \<and> id_columns idn = cols"
  by (auto simp: try_identity_def split: sum.splits dest: identity_over_kind)

lemma unique_rung_ok:
  assumes "unique_rung rd p tbl = Inr idn" shows "rung_ok rd p tbl idn"
proof (cases "pseudo_rung rd p tbl = Inr idn")
  case False
  then obtain cols where "unique_index_columns tbl = Some cols"
    "try_identity tbl cols IdentityUnique = Some idn"
    using assms by (auto simp: unique_rung_def split: option.splits)
  then show ?thesis
    using try_identity_kind unique_index_columnsD by (fastforce simp: rung_ok_def)
qed (rule pseudo_rung_ok)

lemma resolve_identity_justified:
  assumes "resolve_identity rd p tbl = Inr idn"
  shows "if explicit_key p tbl then
       rq_keys (rn_req p) (tab_ref tbl) = Some (id_columns idn)
       \<and> set (id_columns idn) \<inter> set system_columns = {}
       \<and> (\<exists>sampled. probe_explicit_key rd tbl (id_columns idn) = Inr (False, sampled)
            \<and> id_kind idn = (if sampled then IdentityPseudo else IdentityUnique))
     else rung_ok rd p tbl idn"
proof (cases "explicit_key p tbl")
  case True
  then obtain c cs where "rq_keys (rn_req p) (tab_ref tbl) = Some (c # cs)"
    by (auto simp: explicit_key_def split: option.splits list.splits)
  with assms True explicit_identity_justified [of rd tbl "c # cs" idn] show ?thesis
    by (auto simp: resolve_identity_def)
next
  case False
  then have "unique_rung rd p tbl = Inr idn \<or> try_identity tbl (tab_pk tbl) IdentityPK = Some idn"
    using assms
    by (auto simp: resolve_identity_def explicit_key_def split: option.splits list.splits if_splits)
  then have "rung_ok rd p tbl idn"
    using unique_rung_ok try_identity_kind by (auto simp: rung_ok_def)
  with False show ?thesis by simp
qed

text \<open>No column of an identity below the explicit rung is nullable, unless it is the primary key's.\<close>

lemma check_key_columns_ok:
  "check_key_columns tbl cols = Inr u \<Longrightarrow> c \<in> set cols \<Longrightarrow> c \<notin> set system_columns"
  by (induction tbl cols rule: check_key_columns.induct) (auto split: if_splits)

lemma explicit_identity_columns:
  "explicit_identity rd tbl cols = Inr idn \<Longrightarrow> id_columns idn = cols \<and> c \<in> set cols \<Longrightarrow>
    c \<notin> set system_columns"
  by (auto simp: explicit_identity_def result_simps dest: check_key_columns_ok)

subsection \<open>resolveIdentities\<close>

definition resolved :: "run \<Rightarrow> table \<Rightarrow> bool" where
  "resolved p t \<longleftrightarrow> tab_ref t \<notin> rn_in_scope p \<or> identity_fits t (rn_ids p (tab_ref t))"

lemma resolve_step_shape:
  assumes "resolve_step rd t p = Inr p'"
  shows "rn_in_scope p' \<subseteq> rn_in_scope p \<and> rn_in_scope p - {tab_ref t} \<subseteq> rn_in_scope p'
    \<and> (\<forall>u. u \<noteq> tab_ref t \<longrightarrow> rn_ids p' u = rn_ids p u) \<and> resolved p' t
    \<and> rn_tables p' = rn_tables p \<and> rn_by_ref p' = rn_by_ref p \<and> rn_fks p' = rn_fks p
    \<and> rn_selected p' = rn_selected p"
  using assms resolve_identity_fits
  by (auto simp: resolve_step_def resolved_def drop_table_def collect_def Let_def
      split: if_splits sum.splits plan_error.splits)

lemma resolve_identities_ok:
  assumes "resolve_identities rd p = Inr p'" and "distinct (map tab_ref (rn_tables p))"
  shows "\<forall>t \<in> set (rn_tables p). resolved p' t"
    and "rn_in_scope p' \<subseteq> rn_in_scope p"
    and "rn_tables p' = rn_tables p \<and> rn_by_ref p' = rn_by_ref p \<and> rn_fks p' = rn_fks p
      \<and> rn_selected p' = rn_selected p"
proof -
  have "(\<forall>t \<in> set ts. resolved p' t) \<and> (\<forall>u. u \<notin> tab_ref ` set ts \<longrightarrow> rn_ids p' u = rn_ids p u)
      \<and> rn_in_scope p' \<subseteq> rn_in_scope p
      \<and> rn_tables p' = rn_tables p \<and> rn_by_ref p' = rn_by_ref p \<and> rn_fks p' = rn_fks p
      \<and> rn_selected p' = rn_selected p"
    if "fold_res (resolve_step rd) ts p = Inr p'" "distinct (map tab_ref ts)" for ts p
    using that
  proof (induction ts arbitrary: p)
    case (Cons t ts)
    obtain p1 where p1: "resolve_step rd t p = Inr p1" "fold_res (resolve_step rd) ts p1 = Inr p'"
      using Cons.prems(1) by (auto simp: result_simps)
    note step = resolve_step_shape [OF p1(1)]
    have ih: "(\<forall>t \<in> set ts. resolved p' t) \<and> (\<forall>u. u \<notin> tab_ref ` set ts \<longrightarrow> rn_ids p' u = rn_ids p1 u)
      \<and> rn_in_scope p' \<subseteq> rn_in_scope p1
      \<and> rn_tables p' = rn_tables p1 \<and> rn_by_ref p' = rn_by_ref p1 \<and> rn_fks p' = rn_fks p1
      \<and> rn_selected p' = rn_selected p1"
      using Cons.IH [OF p1(2)] Cons.prems(2) by simp
    have "tab_ref t \<notin> tab_ref ` set ts" using Cons.prems(2) by simp
    then have "resolved p' t" using step ih by (auto simp: resolved_def)
    with step ih show ?case by auto
  qed simp
  from this [OF assms(1) [unfolded resolve_identities_def] assms(2)]
  show "\<forall>t \<in> set (rn_tables p). resolved p' t" "rn_in_scope p' \<subseteq> rn_in_scope p"
    "rn_tables p' = rn_tables p \<and> rn_by_ref p' = rn_by_ref p \<and> rn_fks p' = rn_fks p
      \<and> rn_selected p' = rn_selected p"
    by blast+
qed

end
