(* ===== verification/Walk.thy ===== *)
theory Walk
  imports Run
begin

text \<open>
  The worklist of \<open>internal/plan/plan.go\<close> (\<open>walk\<close>, \<open>parents\<close>, \<open>children\<close> and what they
  call) and its polymorphic half in \<open>polymorphic.go\<close> (\<open>virtualParents\<close>, \<open>pushVirtual\<close>).
  One iteration is \<open>walk_step\<close>; the loop is \<open>walk_loop\<close>, a partial function whose value is
  \<open>None\<close> when the Go loop would not return. That it returns is proved in
  \<open>Walk_Correct\<close>, with what the result holds.
\<close>

record item =
  it_table :: table_ref
  it_keys :: keys
  it_mode :: mode
  it_depth :: int

subsection \<open>Bookkeeping\<close>

definition subtract :: "run \<Rightarrow> table_ref \<Rightarrow> keys \<Rightarrow> keys" where
  "subtract p t ks =
     (case rn_selected p t of
        None \<Rightarrow> ks
      | Some have_ks \<Rightarrow>
          fold (\<lambda>tuple out. if keys_has have_ks tuple then out else keys_add out tuple)
            (keys_tuples ks) (new_keys (ks_types ks)))"

definition absorb :: "run \<Rightarrow> table_ref \<Rightarrow> keys \<Rightarrow> run" where
  "absorb p t ks =
     (let have_ks = (case rn_selected p t of None \<Rightarrow> new_keys (ks_types ks) | Some h \<Rightarrow> h);
          before = keys_len have_ks;
          after = fold (\<lambda>tuple h. keys_add h tuple) (keys_tuples ks) have_ks
      in p\<lparr>rn_selected := (rn_selected p)(t \<mapsto> after),
           rn_selected_row := rn_selected_row p + (int (keys_len after) - int before)\<rparr>)"

definition note_why :: "run \<Rightarrow> table_ref \<Rightarrow> string \<Rightarrow> run" where
  "note_why p t why =
     (if rn_why p t = None then p\<lparr>rn_why := (rn_why p)(t \<mapsto> why)\<rparr> else p)"

subsection \<open>Budgets\<close>

definition residual_bits_per_cell :: int where "residual_bits_per_cell = 29"
definition emitted_bytes_per_value :: int where "emitted_bytes_per_value = 16"

definition key_memory :: "run \<Rightarrow> int" where
  "key_memory p =
     sum_list (map (\<lambda>t. case rn_selected p (tab_ref t) of None \<Rightarrow> 0 | Some ks \<Rightarrow> keys_bytes ks)
       (rn_tables p))"

definition filter_memory :: "run \<Rightarrow> int" where
  "filter_memory p =
     (sum_list (map (\<lambda>t. case rn_selected p (tab_ref t) of
          None \<Rightarrow> 0
        | Some ks \<Rightarrow> int (keys_len ks) * rn_cells_per_row p (tab_ref t)) (rn_tables p))
      * residual_bits_per_cell) div 8"

definition emitted_values :: "int \<Rightarrow> emitting_column \<Rightarrow> int" where
  "emitted_values rows c =
     (if \<not> em_array c \<and> rows < em_vocabulary c then rows else em_vocabulary c)"

definition emitted_memory :: "run \<Rightarrow> int" where
  "emitted_memory p =
     sum_list (map (\<lambda>t. case rn_selected p (tab_ref t) of
          None \<Rightarrow> 0
        | Some ks \<Rightarrow>
            sum_list (map (\<lambda>c. emitted_values (int (keys_len ks)) c * emitted_bytes_per_value)
              (rn_emitting p (tab_ref t)))) (rn_tables p))"

definition check_budgets :: "run \<Rightarrow> table_ref \<Rightarrow> refusal option" where
  "check_budgets p t =
     (if rn_selected_row p > rq_row_budget (rn_req p)
      then Some (refuse CodeRowBudget exit_budget t)
      else if key_memory p + filter_memory p + emitted_memory p > rq_memory_budget (rn_req p)
      then Some (refuse CodeMemoryBudget exit_budget t)
      else None)"

subsection \<open>Key spaces\<close>

text \<open>One read per chunk, every row of every answer into one set: the loop of \<open>referencedKeys\<close>,
  \<open>identityKeys\<close> and \<open>virtualIdentityKeys\<close>.\<close>

definition translate_keys ::
  "reader \<Rightarrow> string \<Rightarrow> table_ref \<Rightarrow> string list \<Rightarrow> key_type list \<Rightarrow> string list \<Rightarrow> key_type list
    \<Rightarrow> keys \<Rightarrow> plan_error + keys" where
  "translate_keys rd ctx t in_cols in_types out_cols out_types from_ks =
     fold_res (\<lambda>ch out.
         bind_res
           (wrap ctx (read_keys rd (MapKeys t in_cols in_types out_cols out_types [])
              out_types (chunk_args ch (length in_types))))
           (\<lambda>got. Inr (fold (\<lambda>tuple h. keys_add h tuple) (keys_tuples got) out)))
       (keys_chunks from_ks chunk_size) (new_keys out_types)"

definition translating :: "table_ref \<Rightarrow> string" where
  "translating t = ''plan: translating '' @ table_ref_string t @ '' keys''"

definition referenced_keys ::
  "reader \<Rightarrow> run \<Rightarrow> table_ref \<Rightarrow> string list \<Rightarrow> key_type list \<Rightarrow> keys \<Rightarrow> plan_error + keys" where
  "referenced_keys rd p t cols types from_ks =
     (let idn = rn_ids p t in
      if same_columns (id_columns idn) cols then Inr from_ks
      else translate_keys rd (translating t) t (id_columns idn) (id_types idn) cols types from_ks)"

definition identity_keys ::
  "reader \<Rightarrow> run \<Rightarrow> table_ref \<Rightarrow> string list \<Rightarrow> key_type list \<Rightarrow> keys \<Rightarrow> plan_error + keys" where
  "identity_keys rd p parent cols types refs =
     (let idn = rn_ids p parent in
      if same_columns (id_columns idn) cols then Inr refs
      else translate_keys rd (translating parent) parent cols types (id_columns idn)
        (id_types idn) refs)"

definition virtual_identity_keys ::
  "reader \<Rightarrow> run \<Rightarrow> table_ref \<Rightarrow> string list \<Rightarrow> key_type list \<Rightarrow> keys \<Rightarrow> plan_error + keys" where
  "virtual_identity_keys rd p parent cols types refs =
     (let idn = rn_ids p parent in
      translate_keys rd (translating parent @ '' behind a virtual edge'') parent cols types
        (id_columns idn) (id_types idn) refs)"

definition seed_keys :: "reader \<Rightarrow> run \<Rightarrow> table_ref \<Rightarrow> plan_error + keys" where
  "seed_keys rd p root =
     (let idn = rn_ids p root in
      wrap (''plan: reading the root's keys from '' @ table_ref_string root)
        (read_keys rd
          (SeedKeys root (id_columns idn) (id_types idn) (rq_where (rn_req p)) (rq_take (rn_req p)))
          (id_types idn) []))"

subsection \<open>The parent step\<close>

text \<open>The body of the inner loop of \<open>parents\<close>: one chunk of one edge.\<close>

definition parent_chunk ::
  "reader \<Rightarrow> item \<Rightarrow> foreign_key \<Rightarrow> key_type list \<Rightarrow> chunk \<Rightarrow> run \<times> item list
    \<Rightarrow> plan_error + run \<times> item list" where
  "parent_chunk rd it fk ref_types ch s =
     (let (p, out) = s; idn = rn_ids p (it_table it) in
      bind_res
        (wrap (''plan: reading '' @ fk_name fk @ '' from '' @ table_ref_string (it_table it))
          (read_keys rd
            (MapKeys (it_table it) (id_columns idn) (id_types idn) (fk_child_cols fk) ref_types
              (fk_child_cols fk))
            ref_types (chunk_args ch (length (id_types idn)))))
        (\<lambda>refs.
          if keys_len refs = 0 then Inr (p, out)
          else bind_res (identity_keys rd p (fk_parent fk) (fk_parent_cols fk) ref_types refs)
            (\<lambda>pk.
              let pending = subtract p (fk_parent fk) pk in
              if keys_len pending = 0 then Inr (p, out)
              else Inr
                (note_why p (fk_parent fk)
                   (''parent of '' @ table_ref_string (it_table it) @ '' via ''
                    @ table_ref_string (it_table it) @ ''.'' @ join_cols (fk_child_cols fk)),
                 out @ [\<lparr>it_table = fk_parent fk, it_keys = pending, it_mode = ParentOnly,
                          it_depth = it_depth it\<rparr>]))))"

definition parent_edge ::
  "reader \<Rightarrow> item \<Rightarrow> keys \<Rightarrow> foreign_key \<Rightarrow> run \<times> item list \<Rightarrow> plan_error + run \<times> item list" where
  "parent_edge rd it fresh fk s =
     (let p = fst s in
      if \<not> follows_as_parent fk then Inr s
      else if fk_parent fk \<notin> rn_in_scope p \<or> fk_parent fk \<in> rn_lookups p then Inr s
      else bind_res (types_for (rn_by_ref p (fk_parent fk)) (fk_parent_cols fk))
        (\<lambda>ref_types. fold_res (parent_chunk rd it fk ref_types) (keys_chunks fresh chunk_size) s))"

subsection \<open>Inferred parents\<close>

definition render_type_value :: "key_type \<Rightarrow> key_value \<Rightarrow> string option" where
  "render_type_value ty v =
     (case kt_kind ty of
        KindInt \<Rightarrow> Some (itoa (sint (kv_i v)))
      | KindUUID \<Rightarrow> None
      | _ \<Rightarrow> Some (kv_s v))"

definition note_unknown_type :: "run \<Rightarrow> polymorphic_pair \<Rightarrow> string \<Rightarrow> run" where
  "note_unknown_type p pair v =
     (let u = (case map_of (rn_unknown_types p) pair of
                 None \<Rightarrow> \<lparr>uv_values = {}, uv_more = False\<rparr> | Some u \<Rightarrow> u);
          u' = (if v \<in> uv_values u then u
                else if card (uv_values u) \<ge> polymorphic_value_cap then u\<lparr>uv_more := True\<rparr>
                else u\<lparr>uv_values := insert v (uv_values u)\<rparr>)
      in p\<lparr>rn_unknown_types := AList.update pair u' (rn_unknown_types p)\<rparr>)"

definition by_value_new :: "virtual_edge list \<Rightarrow> string \<Rightarrow> keys option" where
  "by_value_new edges =
     fold (\<lambda>e m. m(ve_value e \<mapsto> new_keys (ve_types e))) edges Map.empty"

text \<open>What \<open>got.forEach\<close> does with one \<open>(type, id)\<close> tuple: \<open>tuple[1:2]\<close> goes to its value's set.\<close>

definition split_value ::
  "pair_plan \<Rightarrow> key_tuple \<Rightarrow> run \<times> (string \<Rightarrow> keys option) \<Rightarrow> run \<times> (string \<Rightarrow> keys option)" where
  "split_value pp tuple s =
     (let (p, m) = s in
      case render_type_value (pp_type_type pp) (tuple ! 0) of
        None \<Rightarrow> (p, m)
      | Some v \<Rightarrow>
          (case m v of
             Some ks \<Rightarrow> (p, m(v \<mapsto> keys_add ks [tuple ! 1]))
           | None \<Rightarrow>
               if v \<in> pp_sampled pp then (p, m)
               else (note_unknown_type p (pp_pair pp) v, m)))"

definition pair_string :: "polymorphic_pair \<Rightarrow> string" where
  "pair_string pair =
     table_ref_string (pl_table pair) @ '' ('' @ pl_type_col pair @ '', '' @ pl_id_col pair @ '')''"

definition push_edge ::
  "reader \<Rightarrow> item \<Rightarrow> pair_plan \<Rightarrow> (string \<Rightarrow> keys option) \<Rightarrow> virtual_edge \<Rightarrow> run \<times> item list
    \<Rightarrow> plan_error + run \<times> item list" where
  "push_edge rd it pp by_value e s =
     (let (p, out) = s; parent = fk_parent (ve_fk e) in
      case by_value (ve_value e) of
        None \<Rightarrow> Inr s
      | Some refs \<Rightarrow>
          if keys_len refs = 0 then Inr s
          else if parent \<notin> rn_in_scope p \<or> parent \<in> rn_lookups p then Inr s
          else bind_res
            (virtual_identity_keys rd p parent (fk_parent_cols (ve_fk e)) (ve_types e) refs)
            (\<lambda>pk.
              let pending = subtract p parent pk in
              if keys_len pending = 0 then Inr s
              else Inr
                (note_why p parent
                   (''parent of '' @ table_ref_string (it_table it)
                    @ '' via the polymorphic pair '' @ pair_string (pp_pair pp)),
                 out @ [\<lparr>it_table = parent, it_keys = pending, it_mode = ParentOnly,
                          it_depth = it_depth it\<rparr>])))"

definition virtual_chunk ::
  "reader \<Rightarrow> item \<Rightarrow> pair_plan \<Rightarrow> chunk \<Rightarrow> run \<times> item list \<Rightarrow> plan_error + run \<times> item list" where
  "virtual_chunk rd it pp ch s =
     (let (p, out) = s;
          idn = rn_ids p (it_table it);
          out_cols = [pl_type_col (pp_pair pp), pl_id_col (pp_pair pp)];
          out_types = [pp_type_type pp, pp_id_type pp]
      in bind_res
           (wrap (''plan: reading the polymorphic pair '' @ pair_string (pp_pair pp))
             (read_keys rd
               (MapKeys (it_table it) (id_columns idn) (id_types idn) out_cols out_types out_cols)
               out_types (chunk_args ch (length (id_types idn)))))
           (\<lambda>got.
             if keys_len got = 0 then Inr (p, out)
             else let (p', by_value) = fold (split_value pp) (keys_tuples got)
                        (p, by_value_new (pp_edges pp))
                  in fold_res (push_edge rd it pp by_value) (pp_edges pp) (p', out)))"

definition virtual_parents ::
  "reader \<Rightarrow> item \<Rightarrow> keys \<Rightarrow> run \<times> item list \<Rightarrow> plan_error + run \<times> item list" where
  "virtual_parents rd it fresh s =
     fold_res (\<lambda>pp. fold_res (virtual_chunk rd it pp) (keys_chunks fresh chunk_size))
       (rn_inferred (fst s) (it_table it)) s"

definition parents :: "reader \<Rightarrow> run \<Rightarrow> item \<Rightarrow> keys \<Rightarrow> plan_error + run \<times> item list" where
  "parents rd p it fresh =
     bind_res (fold_res (parent_edge rd it fresh) (outgoing p (it_table it)) (p, []))
       (virtual_parents rd it fresh)"

subsection \<open>The child step\<close>

definition child_chunk ::
  "reader \<Rightarrow> item \<Rightarrow> foreign_key \<Rightarrow> key_type list \<Rightarrow> int \<Rightarrow> chunk \<Rightarrow> run \<times> item list
    \<Rightarrow> plan_error + run \<times> item list" where
  "child_chunk rd it fk ref_types per_key ch s =
     (let (p, out) = s; child_id = rn_ids p (fk_child fk) in
      bind_res
        (wrap (''plan: reading children of '' @ table_ref_string (it_table it) @ '' over ''
            @ fk_name fk)
          (read_keys rd
            (ChildKeys (fk_child fk) (fk_child_cols fk) ref_types (id_columns child_id)
              (id_types child_id) per_key)
            (id_types child_id) (chunk_args ch (length ref_types))))
        (\<lambda>ck.
          let pending = subtract p (fk_child fk) ck in
          if keys_len pending = 0 then Inr (p, out)
          else Inr
            (note_why (p\<lparr>rn_cap_of := (rn_cap_of p)(fk_child fk := per_key)\<rparr>) (fk_child fk)
               (''child of '' @ table_ref_string (it_table it) @ '' via ''
                @ table_ref_string (fk_child fk) @ ''.'' @ join_cols (fk_child_cols fk)),
             out @ [\<lparr>it_table = fk_child fk, it_keys = pending, it_mode = ChildOK,
                      it_depth = it_depth it + 1\<rparr>])))"

definition per_key_cap :: "run \<Rightarrow> foreign_key \<Rightarrow> int" where
  "per_key_cap p fk =
     (case rq_table_caps (rn_req p) (fk_child fk) of Some c \<Rightarrow> c | None \<Rightarrow> rq_cap (rn_req p))"

definition child_edge ::
  "reader \<Rightarrow> item \<Rightarrow> keys \<Rightarrow> foreign_key \<Rightarrow> run \<times> item list \<Rightarrow> plan_error + run \<times> item list" where
  "child_edge rd it fresh fk s =
     (let p = fst s in
      if \<not> follows_as_child fk \<or> fk_child fk \<notin> rn_in_scope p \<or> fk_child fk \<in> rn_lookups p
      then Inr s
      else bind_res (types_for (rn_by_ref p (it_table it)) (fk_parent_cols fk))
        (\<lambda>ref_types.
          bind_res (referenced_keys rd p (it_table it) (fk_parent_cols fk) ref_types fresh)
            (\<lambda>ref_ks. fold_res (child_chunk rd it fk ref_types (per_key_cap p fk))
              (keys_chunks ref_ks chunk_size) s)))"

definition children :: "reader \<Rightarrow> run \<Rightarrow> item \<Rightarrow> keys \<Rightarrow> plan_error + run \<times> item list" where
  "children rd p it fresh =
     fold_res (child_edge rd it fresh) (incoming p (it_table it)) (p, [])"

subsection \<open>The loop\<close>

text \<open>The label and the depth a popped item leaves on its table.\<close>

definition mark :: "run \<Rightarrow> item \<Rightarrow> run" where
  "mark p it =
     p\<lparr>rn_label :=
         (if it_mode it = ChildOK then (rn_label p)(it_table it \<mapsto> ChildOK)
          else if rn_label p (it_table it) = None then (rn_label p)(it_table it \<mapsto> ParentOnly)
          else rn_label p),
       rn_depth :=
         (if rn_depth p (it_table it) = None then (rn_depth p)(it_table it \<mapsto> it_depth it)
          else rn_depth p)\<rparr>"

text \<open>One iteration: what is left of the run and the queue after \<open>it\<close> is popped off \<open>rest\<close>.\<close>

definition walk_step :: "reader \<Rightarrow> run \<Rightarrow> item \<Rightarrow> item list \<Rightarrow> plan_error + run \<times> item list" where
  "walk_step rd p it rest =
     (let fresh = subtract p (it_table it) (it_keys it) in
      if keys_len fresh = 0 then Inr (p, rest)
      else
        let p1 = mark (absorb p (it_table it) fresh) it in
        case check_budgets p1 (it_table it) of
          Some r \<Rightarrow> Inl (Refused r)
        | None \<Rightarrow>
            bind_res (parents rd p1 it fresh) (\<lambda>(p2, up).
              if it_mode it = ChildOK \<and> it_depth it < rq_depth (rn_req p2)
              then bind_res (children rd p2 it fresh) (\<lambda>(p3, down). Inr (p3, rest @ up @ down))
              else Inr (p2, rest @ up)))"

partial_function (option) walk_loop ::
  "reader \<Rightarrow> run \<Rightarrow> item list \<Rightarrow> (plan_error + run) option" where
  "walk_loop rd p queue =
     (case queue of
        [] \<Rightarrow> Some (Inr p)
      | it # rest \<Rightarrow>
          (case walk_step rd p it rest of
             Inl e \<Rightarrow> Some (Inl e)
           | Inr (p', queue') \<Rightarrow> walk_loop rd p' queue'))"

declare walk_loop.simps [code]

definition walk :: "reader \<Rightarrow> run \<Rightarrow> table_ref \<Rightarrow> (plan_error + run) option" where
  "walk rd p root =
     (case seed_keys rd p root of
        Inl e \<Rightarrow> Some (Inl e)
      | Inr seed \<Rightarrow>
          walk_loop rd
            (p\<lparr>rn_why := (rn_why p)(root \<mapsto> ''root''), rn_root_seed_count := int (keys_len seed)\<rparr>)
            [\<lparr>it_table = root, it_keys = seed, it_mode = ChildOK, it_depth = 0\<rparr>])"

text \<open>The run that sends its statements as text, as the Go reader does.\<close>

definition walk_sql ::
  "(string \<Rightarrow> chunk_column list \<Rightarrow> string + cell_row list) \<Rightarrow> run \<Rightarrow> table_ref
    \<Rightarrow> (plan_error + run) option" where
  "walk_sql query = walk (\<lambda>st args. query (stmt_sql st) args)"

end
