(* ===== verification/Planner.thy ===== *)
theory Planner
  imports Identity Walk
begin

text \<open>
  The stages of \<open>plan.go\<close> around the walk: the indexes of \<open>build\<close>, the root, the tables a
  request skips and a role cannot read, the lookup tables, and the text of the reasons. Two
  figures \<open>build\<close> takes from the masking package and from the samples (cells per row, and the
  columns with a vocabulary) are functions it is given.
\<close>

definition lookup_row_ceiling :: int where "lookup_row_ceiling = 1000"
definition lookup_approx_ceiling :: int where "lookup_approx_ceiling = 10000"

subsection \<open>Indexes\<close>

definition fk_before :: "foreign_key \<Rightarrow> foreign_key \<Rightarrow> bool" where
  "fk_before x y \<longleftrightarrow> fk_name x < fk_name y"

definition table_before :: "table \<Rightarrow> table \<Rightarrow> bool" where
  "table_before x y \<longleftrightarrow> tab_ref x < tab_ref y"

definition check_recreatable :: "schema \<Rightarrow> plan_error + unit" where
  "check_recreatable s =
     (case filter fk_not_recreatable (sort_by fk_before (sch_fks s)) of
        [] \<Rightarrow> Inr ()
      | fk # _ \<Rightarrow> Inl (Refused (refuse CodeNotRecreatable exit_schema (fk_child fk))))"

text \<open>A map filled in a loop: the last entry for a key stays.\<close>

definition index_tables :: "table list \<Rightarrow> table_ref \<Rightarrow> table option" where
  "index_tables ts =
     map_of (rev (map (\<lambda>t. (tab_ref t, t)) (filter (\<lambda>t. tab_parent t = None) ts)))"

definition index_roots :: "table list \<Rightarrow> table_ref \<Rightarrow> table_ref option" where
  "index_roots ts =
     map_of (rev (concat (map (\<lambda>t. case tab_parent t of None \<Rightarrow> [] | Some r \<Rightarrow> [(tab_ref t, r)]) ts)))"

definition build ::
  "(table \<Rightarrow> int) \<Rightarrow> (table \<Rightarrow> emitting_column list) \<Rightarrow> schema \<Rightarrow> classification option
    \<Rightarrow> plan_request \<Rightarrow> run" where
  "build cells emitting s cls req =
     (let (kept, fks) = collapse_for_ranking (sch_tables s) (sort_by fk_before (sch_fks s));
          tables = sort_by table_before kept
      in \<lparr>rn_schema = s, rn_req = req, rn_cls = cls, rn_tables = tables,
          rn_by_ref = index_tables (sch_tables s), rn_in_scope = set (map tab_ref tables),
          rn_fks = fks, rn_root_of = index_roots (sch_tables s), rn_ids = (\<lambda>_. identity_zero),
          rn_lookups = {}, rn_lookup_rows = (\<lambda>_. 0),
          rn_cells_per_row = (\<lambda>t. case find (\<lambda>x. tab_ref x = t) tables of
             None \<Rightarrow> 0 | Some x \<Rightarrow> cells x),
          rn_emitting = (\<lambda>t. case find (\<lambda>x. tab_ref x = t) tables of
             None \<Rightarrow> [] | Some x \<Rightarrow> emitting x),
          rn_selected = Map.empty, rn_label = Map.empty, rn_why = Map.empty,
          rn_depth = Map.empty, rn_cap_of = (\<lambda>_. 0), rn_skipped = [], rn_unreadable = [],
          rn_selected_row = 0, rn_root_seed_count = 0, rn_inferred = (\<lambda>_. []),
          rn_virtual = [], rn_polymorphic = [], rn_unmapped = [],
          rn_unknown_types = [], rn_django = None, rn_refusals = []\<rparr>)"

definition choose_root :: "run \<Rightarrow> plan_error + table_ref \<times> string" where
  "choose_root p =
     (case rq_root (rn_req p) of
        Some root \<Rightarrow>
          if root \<notin> rn_in_scope p then Inl (Refused (refuse CodeNoRoot exit_usage root))
          else Inr (root, ''named by --root'')
      | None \<Rightarrow>
          (case default_root (rn_tables p) (rn_fks p) of
             None \<Rightarrow> Inl (Refused (refuse CodeNoRoot exit_usage (TableRef [] [])))
           | Some (root, reason) \<Rightarrow> Inr (root, reason)))"

subsection \<open>Static reach\<close>

type_synonym reach_node = "table_ref \<times> mode"

record reach =
  re_as_parent :: "table_ref set"
  re_best :: "reach_node \<Rightarrow> int option"
  re_queue :: "(reach_node \<times> int) list"

text \<open>\<open>push\<close>: a node is queued when its depth improves on the best one known.\<close>

definition reach_push :: "reach_node \<Rightarrow> int \<Rightarrow> reach \<Rightarrow> reach" where
  "reach_push n d s =
     (case re_best s n of
        Some old \<Rightarrow>
          if old \<le> d then s
          else s\<lparr>re_best := (re_best s)(n \<mapsto> d), re_queue := re_queue s @ [(n, d)]\<rparr>
      | None \<Rightarrow> s\<lparr>re_best := (re_best s)(n \<mapsto> d), re_queue := re_queue s @ [(n, d)]\<rparr>)"

definition reach_parent :: "int \<Rightarrow> foreign_key \<Rightarrow> reach \<Rightarrow> reach" where
  "reach_parent d fk s =
     (if \<not> follows_as_parent fk then s
      else reach_push (fk_parent fk, ParentOnly) d
        (s\<lparr>re_as_parent := insert (fk_parent fk) (re_as_parent s)\<rparr>))"

definition reach_child :: "int \<Rightarrow> foreign_key \<Rightarrow> reach \<Rightarrow> reach" where
  "reach_child d fk s =
     (if \<not> follows_as_child fk then s else reach_push (fk_child fk, ChildOK) (d + 1) s)"

text \<open>One iteration, after \<open>cur\<close> is popped.\<close>

definition reach_step :: "run \<Rightarrow> reach_node \<times> int \<Rightarrow> reach \<Rightarrow> reach" where
  "reach_step p cur s =
     (let ((t, m), d) = cur in
      if (case re_best s (t, m) of Some b \<Rightarrow> b < d | None \<Rightarrow> False) then s
      else
        let s1 = fold (reach_parent d) (outgoing p t) s
        in if m = ChildOK \<and> d < rq_depth (rn_req p)
           then fold (reach_child d) (incoming p t) s1 else s1)"

partial_function (option) reach_loop :: "run \<Rightarrow> reach \<Rightarrow> table_ref set option" where
  "reach_loop p s =
     (case re_queue s of
        [] \<Rightarrow> Some (re_as_parent s)
      | cur # rest \<Rightarrow> reach_loop p (reach_step p cur (s\<lparr>re_queue := rest\<rparr>)))"

declare reach_loop.simps [code]

definition static_reach :: "run \<Rightarrow> table_ref \<Rightarrow> table_ref set option" where
  "static_reach p root =
     reach_loop p \<lparr>re_as_parent = {}, re_best = [(root, ChildOK) \<mapsto> 0],
       re_queue = [((root, ChildOK), 0)]\<rparr>"

subsection \<open>Skipped and unreadable tables\<close>

text \<open>One \<open>--skip-table\<close>, in (schema, name) order.\<close>

definition skip_step :: "table_ref \<Rightarrow> table_ref set \<Rightarrow> table_ref \<Rightarrow> run \<Rightarrow> run" where
  "skip_step root as_parent t p =
     (if t \<notin> rn_in_scope p then p
      else if t = root then collect p (refuse CodeSkipParent exit_plan t)
      else if t \<in> as_parent then collect p (refuse CodeSkipParent exit_plan t)
      else let p' = drop_table p t
           in p'\<lparr>rn_skipped := rn_skipped p' @ [t], rn_why := (rn_why p')(t \<mapsto> ''skipped'')\<rparr>)"

text \<open>The unreadable relations and the planned table each belongs to.\<close>

definition text_pair :: "cell_row \<Rightarrow> table_ref option" where
  "text_pair r =
     (case r of [Some (TextCell a), Some (TextCell b)] \<Rightarrow> Some (TableRef a b) | _ \<Rightarrow> None)"

fun scan_refs :: "cell_row list \<Rightarrow> string + table_ref list" where
  "scan_refs [] = Inr []"
| "scan_refs (r # rs) =
     (case text_pair r of
        None \<Rightarrow> Inl ''scan''
      | Some t \<Rightarrow> bind_res (scan_refs rs) (\<lambda>ts. Inr (t # ts)))"

definition unreadable_relations :: "reader \<Rightarrow> run \<Rightarrow> plan_error + (table_ref \<times> table_ref) list" where
  "unreadable_relations rd p =
     bind_res (wrap ''plan: reading partition privileges''
         (bind_res (rd UnreadableLeaves []) scan_refs))
       (\<lambda>leaves.
         Inr (map (\<lambda>rel. (case rn_root_of p rel of Some r \<Rightarrow> r | None \<Rightarrow> rel, rel))
           (remdups_adj (sort (rq_unreadable (rn_req p) @ leaves)))))"

definition unreadable_step ::
  "table_ref \<Rightarrow> table_ref set \<Rightarrow> table_ref \<times> table_ref \<Rightarrow> run \<Rightarrow> plan_error + run" where
  "unreadable_step root as_parent u p =
     (let t = fst u in
      if t \<notin> rn_in_scope p then Inr p
      else if t = root \<or> t \<in> as_parent then Inl (fail p (Refused (refuse CodeUnreadable exit_plan t)))
      else let p' = drop_table p t
           in Inr (p'\<lparr>rn_unreadable := rn_unreadable p' @ [t],
                      rn_why := (rn_why p')(t \<mapsto> ''unreadable'')\<rparr>))"

text \<open>
  Go's \<open>seen\<close> set is the tables this loop has dropped, which are no longer in scope: the
  scope test above covers both. \<open>fail\<close> is \<open>plan\<close>'s wrapping of this stage's errors.
\<close>

definition apply_skip_and_privileges ::
  "reader \<Rightarrow> run \<Rightarrow> table_ref \<Rightarrow> (plan_error + run) option" where
  "apply_skip_and_privileges rd p root =
     (case static_reach p root of
        None \<Rightarrow> None
      | Some as_parent \<Rightarrow>
          let p1 = fold (skip_step root as_parent) (sort (rq_skip (rn_req p))) p
          in Some (case unreadable_relations rd p1 of
                     Inl e \<Rightarrow> Inl (fail p1 e)
                   | Inr us \<Rightarrow> fold_res (unreadable_step root as_parent) us p1))"

subsection \<open>Lookup tables\<close>

definition framework_metadata_tables :: "string list" where
  "framework_metadata_tables =
     [''schema_migrations'', ''ar_internal_metadata'', ''flyway_schema_history'',
      ''django_migrations'', ''alembic_version'', ''knex_migrations'', ''goose_db_version'',
      ''__efmigrationshistory'', ''atlas_schema_revisions'', ''_prisma_migrations'',
      ''sequelizemeta'', ''databasechangelog'', ''databasechangeloglock'']"

definition is_framework_metadata_table :: "string \<Rightarrow> bool" where
  "is_framework_metadata_table name \<longleftrightarrow> to_lower name \<in> set framework_metadata_tables"

text \<open>The names of the last column spelled \<open>key\<close> and of the last spelled \<open>value\<close>, if both are there.\<close>

definition ar_environment_columns :: "table \<Rightarrow> (string \<times> string) option" where
  "ar_environment_columns t =
     (let last_named = (\<lambda>n. fold (\<lambda>c acc. if to_lower (col_name c) = n then col_name c else acc)
            (tab_columns t) []);
          k = last_named ''key''; v = last_named ''value''
      in if k \<noteq> [] \<and> v \<noteq> [] then Some (k, v) else None)"

definition has_masked_column :: "run \<Rightarrow> table \<Rightarrow> bool" where
  "has_masked_column p t =
     (case rn_cls p of
        None \<Rightarrow> True
      | Some cls \<Rightarrow>
          list_ex (\<lambda>c. case cls (ColumnRef (tab_ref t) (col_name c)) of
              None \<Rightarrow> False
            | Some d \<Rightarrow> conf_rank ConfPossible \<le> conf_rank (dc_confidence d)) (tab_columns t))"

definition framework_metadata_why :: "table \<Rightarrow> int \<Rightarrow> string" where
  "framework_metadata_why t n =
     (if n > lookup_row_ceiling
      then ''framework metadata table, has more than '' @ itoa lookup_row_ceiling
           @ '' rows -- only the first '' @ itoa lookup_row_ceiling
           @ '' (ordered by identity) are copied; T-0347 tracks copying it in full''
      else ''framework metadata table, copied whole regardless of reachability'')
     @ (if to_lower (ref_name (tab_ref t)) = ''ar_internal_metadata''
           \<and> ar_environment_columns t \<noteq> None
        then ''; environment rewritten to development'' else [])"

definition lookup_step :: "reader \<Rightarrow> table_ref \<Rightarrow> table \<Rightarrow> run \<Rightarrow> plan_error + run" where
  "lookup_step rd root t p =
     (let u = tab_ref t;
          copy = (\<lambda>n why. p\<lparr>rn_lookups := insert u (rn_lookups p),
                            rn_lookup_rows := (rn_lookup_rows p)(u := n),
                            rn_why := (rn_why p)(u \<mapsto> why)\<rparr>)
      in if u \<notin> rn_in_scope p \<or> u = root then Inr p
         else if is_framework_metadata_table (ref_name u)
         then bind_res (bounded_count rd u) (\<lambda>n. Inr (copy n (framework_metadata_why t n)))
         else if outgoing p u \<noteq> [] \<or> incoming p u = [] then Inr p
         else if has_masked_column p t then Inr p
         else if tab_approx_rows t > lookup_approx_ceiling then Inr p
         else bind_res (bounded_count rd u) (\<lambda>n.
           if n > lookup_row_ceiling then Inr p else Inr (copy n ''copied whole'')))"

definition find_lookups :: "reader \<Rightarrow> table_ref \<Rightarrow> run \<Rightarrow> plan_error + run" where
  "find_lookups rd root p = fold_res (lookup_step rd root) (rn_tables p) p"

text \<open>What makes a table a lookup, and what the stage leaves alone.\<close>

definition lookup_ok :: "run \<Rightarrow> table_ref \<Rightarrow> run \<Rightarrow> table_ref \<Rightarrow> bool" where
  "lookup_ok p root p' u \<longleftrightarrow> u \<in> rn_in_scope p \<and> u \<noteq> root
     \<and> (is_framework_metadata_table (ref_name u)
        \<or> outgoing p u = [] \<and> incoming p u \<noteq> [] \<and> rn_lookup_rows p' u \<le> lookup_row_ceiling
          \<and> (\<exists>t \<in> set (rn_tables p). tab_ref t = u \<and> \<not> has_masked_column p t
               \<and> tab_approx_rows t \<le> lookup_approx_ceiling))"

definition lookup_frame :: "run \<Rightarrow> run \<Rightarrow> bool" where
  "lookup_frame p p' \<longleftrightarrow>
     rn_in_scope p' = rn_in_scope p \<and> rn_fks p' = rn_fks p \<and> rn_cls p' = rn_cls p
     \<and> rn_tables p' = rn_tables p"

lemma lookup_step_cases:
  assumes "lookup_step rd root t q = Inr q'"
  obtains (same) "q' = q"
    | (copied) n why where "q' = q\<lparr>rn_lookups := insert (tab_ref t) (rn_lookups q),
        rn_lookup_rows := (rn_lookup_rows q)(tab_ref t := n),
        rn_why := (rn_why q)(tab_ref t \<mapsto> why)\<rparr>"
      and "tab_ref t \<in> rn_in_scope q" and "tab_ref t \<noteq> root"
      and "is_framework_metadata_table (ref_name (tab_ref t))
        \<or> outgoing q (tab_ref t) = [] \<and> incoming q (tab_ref t) \<noteq> []
          \<and> \<not> has_masked_column q t \<and> tab_approx_rows t \<le> lookup_approx_ceiling
          \<and> n \<le> lookup_row_ceiling"
proof (cases "tab_ref t \<in> rn_in_scope q \<and> tab_ref t \<noteq> root")
  case False
  then show thesis using assms same by (auto simp: lookup_step_def)
next
  case scope: True
  show thesis
  proof (cases "is_framework_metadata_table (ref_name (tab_ref t))")
    case True
    then obtain n where "q' = q\<lparr>rn_lookups := insert (tab_ref t) (rn_lookups q),
        rn_lookup_rows := (rn_lookup_rows q)(tab_ref t := n),
        rn_why := (rn_why q)(tab_ref t \<mapsto> framework_metadata_why t n)\<rparr>"
      using assms scope by (auto simp: lookup_step_def Let_def result_simps)
    with scope True show thesis by (intro copied) simp_all
  next
    case False
    show thesis
    proof (cases "q' = q")
      case changed: False
      then obtain n where "bounded_count rd (tab_ref t) = Inr n" "n \<le> lookup_row_ceiling"
        "q' = q\<lparr>rn_lookups := insert (tab_ref t) (rn_lookups q),
           rn_lookup_rows := (rn_lookup_rows q)(tab_ref t := n),
           rn_why := (rn_why q)(tab_ref t \<mapsto> ''copied whole'')\<rparr>"
        using assms scope False
        by (fastforce simp: lookup_step_def Let_def result_simps not_less split: if_splits)
      moreover have "outgoing q (tab_ref t) = []" "incoming q (tab_ref t) \<noteq> []"
        "\<not> has_masked_column q t" "tab_approx_rows t \<le> lookup_approx_ceiling"
        using assms scope False changed by (auto simp: lookup_step_def Let_def split: if_splits)
      ultimately show thesis using scope by (intro copied [where n = n and why = "''copied whole''"]) blast+
    qed (rule same)
  qed
qed

lemma lookup_step_ok:
  assumes "lookup_step rd root t q = Inr q'" and "lookup_frame p q" and "t \<in> set (rn_tables p)"
    and "\<forall>u \<in> rn_lookups q. lookup_ok p root q u"
  shows "lookup_frame p q' \<and> (\<forall>u \<in> rn_lookups q'. lookup_ok p root q' u)"
proof -
  have f: "outgoing q = outgoing p" "incoming q = incoming p" "rn_in_scope q = rn_in_scope p"
    "has_masked_column q = has_masked_column p"
    using assms(2) by (auto simp: lookup_frame_def outgoing_def incoming_def has_masked_column_def)
  have kept: "lookup_ok p root q'' u"
    if "rn_lookup_rows q'' u = rn_lookup_rows q u" "u \<in> rn_lookups q" for q'' u
    using assms(4) that by (auto simp: lookup_ok_def)
  from assms(1) show ?thesis
  proof (cases rule: lookup_step_cases)
    case same
    with assms(2,4) show ?thesis by simp
  next
    case (copied n why)
    have "lookup_ok p root q' u" if "u \<in> rn_lookups q'" for u
      using copied that kept assms(3) by (cases "u = tab_ref t") (auto simp: lookup_ok_def f)
    with copied(1) assms(2) show ?thesis by (auto simp: lookup_frame_def)
  qed
qed

lemma find_lookups_ok:
  assumes "find_lookups rd root p = Inr p'" and "rn_lookups p = {}"
  shows "lookup_frame p p' \<and> (\<forall>u \<in> rn_lookups p'. lookup_ok p root p' u)"
proof -
  have "lookup_frame p q' \<and> (\<forall>u \<in> rn_lookups q'. lookup_ok p root q' u)"
    if "fold_res (lookup_step rd root) ts q = Inr q'" "set ts \<subseteq> set (rn_tables p)"
      "lookup_frame p q" "\<forall>u \<in> rn_lookups q. lookup_ok p root q u" for ts q q'
    using that
  proof (induction ts arbitrary: q)
    case (Cons t ts)
    obtain q1 where q1: "lookup_step rd root t q = Inr q1"
      "fold_res (lookup_step rd root) ts q1 = Inr q'"
      using Cons.prems(1) by (auto simp: result_simps)
    with lookup_step_ok [OF q1(1) Cons.prems(3) _ Cons.prems(4)] Cons.prems(2) Cons.IH
    show ?case by simp
  qed simp
  from this [OF assms(1) [unfolded find_lookups_def]] assms(2) show ?thesis
    by (simp add: lookup_frame_def)
qed

definition plan_rows :: "run \<Rightarrow> table_ref \<Rightarrow> int" where
  "plan_rows p t =
     (if rn_lookup_rows p t > lookup_row_ceiling then lookup_row_ceiling else rn_lookup_rows p t)"

subsection \<open>The row count packed into a reason\<close>

definition lookup_why_with_rows :: "string \<Rightarrow> int \<Rightarrow> string" where
  "lookup_why_with_rows why n = why @ '' ('' @ itoa n @ '' rows)''"

definition parse_lookup_rows :: "string \<Rightarrow> (string \<times> int) option" where
  "parse_lookup_rows why =
     (if \<not> has_suffix why '' rows)'' then None
      else case last_index why '' ('' of
             None \<Rightarrow> None
           | Some i \<Rightarrow>
               (case parse_int64 (drop (i + 2) (take (length why - length '' rows)'') why)) of
                  None \<Rightarrow> None
                | Some n \<Rightarrow> Some (take i why, n)))"

definition root_why :: "run \<Rightarrow> table_ref \<Rightarrow> table_ref \<Rightarrow> int \<Rightarrow> string" where
  "root_why p t root n =
     (let why = (case rn_why p t of None \<Rightarrow> [] | Some w \<Rightarrow> w);
          pulled_in = n - rn_root_seed_count p
      in if t \<noteq> root then why
         else if pulled_in \<le> 0 then why
         else ''root: '' @ itoa (rn_root_seed_count p) @ '' chosen, '' @ itoa pulled_in
              @ '' pulled in by references'')"

lemma last_index_none: "p = CHR '' '' # CHR ''('' # [] \<Longrightarrow> CHR ''('' \<notin> set t \<Longrightarrow> last_index t p = None"
proof (induction t)
  case (Cons c t)
  then have "last_index t p = None" by simp
  moreover have "\<not> has_prefix (c # t) p"
    using Cons.prems by (cases t) (auto simp: has_prefix_def)
  ultimately show ?case by (simp add: last_index.simps)
qed simp

lemma digits_no_paren: "CHR ''('' \<notin> set (nat_digits n)"
  using nat_digits_digits [of n] by (auto simp: list_all_iff is_digit_iff)

lemma parse_lookup_rows_inverse:
  assumes "0 \<le> n" and "in_int64 n"
  shows "parse_lookup_rows (lookup_why_with_rows why n) = Some (why, n)"
proof -
  let ?d = "itoa n" and ?s = "'' rows)''"
  have d: "?d = nat_digits (nat n)" using assms(1) by (simp add: itoa_def)
  have "last_index (CHR ''('' # ?d @ ?s) '' (''  = None"
    using last_index_none [of "'' (''" "?d @ ?s"] digits_no_paren [of "nat n"]
    by (simp add: d last_index.simps [of "_ # _"] has_prefix_def)
  then have "last_index ('' ('' @ ?d @ ?s) '' ('' = Some 0"
    by (simp add: last_index.simps [of "CHR '' '' # _"] has_prefix_def)
  then have i: "last_index (lookup_why_with_rows why n) '' ('' = Some (length why)"
    using last_index_append [of "'' (''" "?d @ ?s" why] by (simp add: lookup_why_with_rows_def)
  have "has_suffix (lookup_why_with_rows why n) ?s"
    using has_suffix_append [of "why @ '' ('' @ ?d" ?s] by (simp add: lookup_why_with_rows_def)
  moreover have "take (length (lookup_why_with_rows why n) - length ?s) (lookup_why_with_rows why n)
      = why @ '' ('' @ ?d"
    by (simp add: lookup_why_with_rows_def)
  ultimately show ?thesis
    using parse_itoa [OF assms(2)] i
    by (simp add: parse_lookup_rows_def del: take_append)
      (simp add: lookup_why_with_rows_def)
qed

end
