(* ===== verification/Reach.thy ===== *)
theory Reach
  imports Planner
begin

text \<open>
  \<open>staticReach\<close> returns, and over-approximates the walk along the declared edges:
  \<open>table_reach\<close> is reachability of tables by the walk's own rules, and every parent edge
  out of a reached table has its parent in the answer. Inferred edges are not part of the
  declared graph and are not covered.
\<close>

subsection \<open>Potential\<close>

definition reach_nodes :: "run \<Rightarrow> table_ref \<Rightarrow> reach_node set" where
  "reach_nodes p root = insert (root, ChildOK)
     ((\<lambda>fk. (fk_parent fk, ParentOnly)) ` set (rn_fks p)
      \<union> (\<lambda>fk. (fk_child fk, ChildOK)) ` set (rn_fks p))"

definition reach_value :: "int \<Rightarrow> int option \<Rightarrow> nat" where
  "reach_value D b = (case b of None \<Rightarrow> nat D + 1 | Some d \<Rightarrow> nat d)"

definition potential :: "run \<Rightarrow> table_ref \<Rightarrow> reach \<Rightarrow> nat" where
  "potential p root s =
     (\<Sum>n \<in> reach_nodes p root. reach_value (rq_depth (rn_req p)) (re_best s n))"

definition reach_ok :: "run \<Rightarrow> table_ref \<Rightarrow> reach \<Rightarrow> bool" where
  "reach_ok p root s \<longleftrightarrow>
     (\<forall>x \<in> set (re_queue s). fst x \<in> reach_nodes p root \<and> 0 \<le> snd x
        \<and> snd x \<le> rq_depth (rn_req p))
     \<and> (\<forall>n b. re_best s n = Some b \<longrightarrow> 0 \<le> b \<and> b \<le> rq_depth (rn_req p))"

lemma finite_reach_nodes [simp]: "finite (reach_nodes p root)"
  by (simp add: reach_nodes_def)

text \<open>What a push does to a state: nothing, or a strictly better depth for one node.\<close>

definition improves :: "run \<Rightarrow> table_ref \<Rightarrow> reach \<Rightarrow> reach \<Rightarrow> bool" where
  "improves p root s s' \<longleftrightarrow> reach_ok p root s'
     \<and> re_as_parent s \<subseteq> re_as_parent s'
     \<and> (\<forall>n b. re_best s n = Some b \<longrightarrow> (\<exists>b'. re_best s' n = Some b' \<and> b' \<le> b))
     \<and> (\<forall>n b. re_best s' n = Some b \<longrightarrow> re_best s n = Some b \<or> (n, b) \<in> set (re_queue s'))
     \<and> (\<exists>new. re_queue s' = re_queue s @ new)
     \<and> (re_queue s' = re_queue s \<and> potential p root s' = potential p root s
        \<or> potential p root s' < potential p root s)"

lemma improves_refl: "reach_ok p root s \<Longrightarrow> improves p root s s"
  by (auto simp: improves_def)

lemma improves_trans:
  assumes "improves p root s s'" and "improves p root s' s''" shows "improves p root s s''"
proof -
  have "re_best s n = Some b \<or> (n, b) \<in> set (re_queue s'')" if "re_best s'' n = Some b" for n b
    using assms that unfolding improves_def by (metis UnI1 set_append)
  moreover have "\<exists>b'. re_best s'' n = Some b' \<and> b' \<le> b" if "re_best s n = Some b" for n b
    using assms that unfolding improves_def by (meson order_trans)
  moreover have "re_queue s'' = re_queue s \<and> potential p root s'' = potential p root s
      \<or> potential p root s'' < potential p root s"
    using assms unfolding improves_def by auto
  ultimately show ?thesis using assms unfolding improves_def by (auto intro: order_trans)
qed

lemma reach_push_improves:
  assumes "reach_ok p root s" and "n \<in> reach_nodes p root" and "0 \<le> d"
    and "d \<le> rq_depth (rn_req p)"
  shows "improves p root s (reach_push n d s)
    \<and> (\<exists>b. re_best (reach_push n d s) n = Some b \<and> b \<le> d)"
proof (cases "\<exists>old. re_best s n = Some old \<and> old \<le> d")
  case True
  then show ?thesis using improves_refl [OF assms(1)] by (auto simp: reach_push_def)
next
  case False
  then have eq: "reach_push n d s
      = s\<lparr>re_best := (re_best s)(n \<mapsto> d), re_queue := re_queue s @ [(n, d)]\<rparr>"
    by (auto simp: reach_push_def split: option.splits)
  let ?D = "rq_depth (rn_req p)"
  have lt: "reach_value ?D (Some d) < reach_value ?D (re_best s n)"
    using False assms(3,4) by (auto simp: reach_value_def split: option.splits)
  have "potential p root (reach_push n d s)
      = reach_value ?D (Some d) + (\<Sum>m \<in> reach_nodes p root - {n}. reach_value ?D (re_best s m))"
    using assms(2) by (simp add: potential_def eq sum.remove [of _ n])
  moreover have "potential p root s
      = reach_value ?D (re_best s n) + (\<Sum>m \<in> reach_nodes p root - {n}. reach_value ?D (re_best s m))"
    using assms(2) by (simp add: potential_def sum.remove [of _ n])
  ultimately have "potential p root (reach_push n d s) < potential p root s" using lt by simp
  moreover have "reach_ok p root (reach_push n d s)"
    using assms by (auto simp: eq reach_ok_def)
  ultimately show ?thesis
    using False by (auto simp: improves_def eq)
qed

lemma reach_ok_as_parent [simp]: "reach_ok p root (s\<lparr>re_as_parent := a\<rparr>) \<longleftrightarrow> reach_ok p root s"
  by (simp add: reach_ok_def)

definition parent_relaxed :: "int \<Rightarrow> reach \<Rightarrow> foreign_key \<Rightarrow> bool" where
  "parent_relaxed d s fk \<longleftrightarrow> follows_as_parent fk \<longrightarrow> fk_parent fk \<in> re_as_parent s
     \<and> (\<exists>b. re_best s (fk_parent fk, ParentOnly) = Some b \<and> b \<le> d)"

definition child_relaxed :: "int \<Rightarrow> reach \<Rightarrow> foreign_key \<Rightarrow> bool" where
  "child_relaxed d s fk \<longleftrightarrow> follows_as_child fk \<longrightarrow>
     (\<exists>b. re_best s (fk_child fk, ChildOK) = Some b \<and> b \<le> d + 1)"

lemma relaxed_improves:
  assumes "improves p root s s'"
  shows "parent_relaxed d s fk \<Longrightarrow> parent_relaxed d s' fk"
    and "child_relaxed d s fk \<Longrightarrow> child_relaxed d s' fk"
  using assms unfolding improves_def parent_relaxed_def child_relaxed_def
  by (meson in_mono order_trans)+

lemma reach_parent_improves:
  assumes "reach_ok p root s" and "fk \<in> set (rn_fks p)" and "0 \<le> d" and "d \<le> rq_depth (rn_req p)"
  shows "improves p root s (reach_parent d fk s) \<and> parent_relaxed d (reach_parent d fk s) fk"
proof (cases "follows_as_parent fk")
  case True
  let ?s = "s\<lparr>re_as_parent := insert (fk_parent fk) (re_as_parent s)\<rparr>"
  have n: "(fk_parent fk, ParentOnly) \<in> reach_nodes p root"
    using assms(2) by (auto simp: reach_nodes_def)
  have "improves p root s ?s"
    using assms(1) by (auto simp: improves_def potential_def)
  moreover note push = reach_push_improves [of p root ?s, OF _ n assms(3,4)]
  ultimately have "improves p root s (reach_parent d fk s)"
    using True assms(1) by (auto simp: reach_parent_def intro: improves_trans)
  moreover have "fk_parent fk \<in> re_as_parent (reach_push (fk_parent fk, ParentOnly) d ?s)"
    using push assms(1) by (auto simp: improves_def)
  ultimately show ?thesis using push assms(1) True by (auto simp: reach_parent_def parent_relaxed_def)
next
  case False
  then show ?thesis using improves_refl [OF assms(1)] by (simp add: reach_parent_def parent_relaxed_def)
qed

lemma reach_child_improves:
  assumes "reach_ok p root s" and "fk \<in> set (rn_fks p)" and "0 \<le> d" and "d < rq_depth (rn_req p)"
  shows "improves p root s (reach_child d fk s) \<and> child_relaxed d (reach_child d fk s) fk"
proof (cases "follows_as_child fk")
  case True
  have n: "(fk_child fk, ChildOK) \<in> reach_nodes p root"
    using assms(2) by (auto simp: reach_nodes_def)
  show ?thesis
    using reach_push_improves [OF assms(1) n, of "d + 1"] assms(3,4) True
    by (simp add: reach_child_def child_relaxed_def)
next
  case False
  then show ?thesis using improves_refl [OF assms(1)] by (simp add: reach_child_def child_relaxed_def)
qed

lemma fold_improves:
  assumes "reach_ok p root s" and "\<forall>x \<in> set xs. P x"
    and step: "\<And>s x. reach_ok p root s \<Longrightarrow> P x \<Longrightarrow> improves p root s (f x s) \<and> R (f x s) x"
    and mono: "\<And>s s' x. improves p root s s' \<Longrightarrow> R s x \<Longrightarrow> R s' x"
  shows "improves p root s (fold f xs s) \<and> (\<forall>x \<in> set xs. R (fold f xs s) x)"
  using assms(1,2)
proof (induction xs arbitrary: s)
  case Nil
  then show ?case by (simp add: improves_refl)
next
  case (Cons x xs)
  have 1: "improves p root s (f x s)" "R (f x s) x" using step Cons.prems by auto
  then have "reach_ok p root (f x s)" by (simp add: improves_def)
  from Cons.IH [OF this] Cons.prems(2)
  have 2: "improves p root (f x s) (fold f xs (f x s))" "\<forall>y \<in> set xs. R (fold f xs (f x s)) y"
    by auto
  then show ?case using 1 improves_trans [OF 1(1) 2(1)] mono [OF 2(1) 1(2)] by simp
qed

subsection \<open>One iteration\<close>

definition relaxed :: "run \<Rightarrow> reach \<Rightarrow> reach_node \<Rightarrow> int \<Rightarrow> bool" where
  "relaxed p s n d \<longleftrightarrow> (\<forall>fk \<in> set (outgoing p (fst n)). parent_relaxed d s fk)
     \<and> (snd n = ChildOK \<and> d < rq_depth (rn_req p) \<longrightarrow>
          (\<forall>fk \<in> set (incoming p (fst n)). child_relaxed d s fk))"

lemma relaxed_mono: "improves p root s s' \<Longrightarrow> relaxed p s n d \<Longrightarrow> relaxed p s' n d"
  using relaxed_improves [of p root s s'] by (auto simp: relaxed_def)

lemma reach_step_improves:
  assumes ok: "reach_ok p root s" and d: "0 \<le> d" "d \<le> rq_depth (rn_req p)"
  shows "improves p root s (reach_step p (n, d) s)
    \<and> (re_best s n = Some d \<longrightarrow> relaxed p (reach_step p (n, d) s) n d)"
proof (cases "case re_best s n of Some b \<Rightarrow> b < d | None \<Rightarrow> False")
  case True
  then have "reach_step p (n, d) s = s" by (cases n) (auto simp: reach_step_def split: option.splits)
  then show ?thesis using improves_refl [OF ok] True by (auto split: option.splits)
next
  case False
  let ?s1 = "fold (reach_parent d) (outgoing p (fst n)) s"
  have out: "\<forall>fk \<in> set (outgoing p (fst n)). fk \<in> set (rn_fks p)" by (auto simp: outgoing_def)
  have in': "\<forall>fk \<in> set (incoming p (fst n)). fk \<in> set (rn_fks p)" by (auto simp: incoming_def)
  have 1: "improves p root s ?s1 \<and> (\<forall>fk \<in> set (outgoing p (fst n)). parent_relaxed d ?s1 fk)"
    by (rule fold_improves [OF ok out]) (use reach_parent_improves d relaxed_improves in blast)+
  then have ok1: "reach_ok p root ?s1" by (simp add: improves_def)
  show ?thesis
  proof (cases "snd n = ChildOK \<and> d < rq_depth (rn_req p)")
    case True
    let ?s2 = "fold (reach_child d) (incoming p (fst n)) ?s1"
    have "improves p root ?s1 ?s2 \<and> (\<forall>fk \<in> set (incoming p (fst n)). child_relaxed d ?s2 fk)"
      by (rule fold_improves [OF ok1 in']) (use reach_child_improves True d relaxed_improves in blast)+
    moreover have "reach_step p (n, d) s = ?s2"
      using False True by (cases n) (auto simp: reach_step_def Let_def split: option.splits)
    ultimately show ?thesis
      using 1 improves_trans relaxed_improves(1) unfolding relaxed_def by metis
  next
    case False': False
    have "reach_step p (n, d) s = ?s1"
      using False False' by (cases n) (auto simp: reach_step_def Let_def split: option.splits)
    then show ?thesis using 1 False' by (auto simp: relaxed_def)
  qed
qed

text \<open>The loop invariant: a node's best depth is still queued or its edges are relaxed.\<close>

definition reach_inv :: "run \<Rightarrow> table_ref \<Rightarrow> reach \<Rightarrow> bool" where
  "reach_inv p root s \<longleftrightarrow> reach_ok p root s
     \<and> (\<exists>b. re_best s (root, ChildOK) = Some b \<and> b \<le> 0)
     \<and> (\<forall>n b. re_best s n = Some b \<longrightarrow> (n, b) \<in> set (re_queue s) \<or> relaxed p s n b)"

lemma reach_inv_step:
  assumes inv: "reach_inv p root s" and q: "re_queue s = cur # rest"
  defines "s' \<equiv> reach_step p cur (s\<lparr>re_queue := rest\<rparr>)"
  shows "reach_inv p root s'"
    and "potential p root s' < potential p root s
      \<or> potential p root s' = potential p root s \<and> length (re_queue s') < length (re_queue s)"
proof -
  obtain n d where cur: "cur = (n, d)" by (cases cur)
  let ?s0 = "s\<lparr>re_queue := rest\<rparr>"
  have ok: "reach_ok p root ?s0" "0 \<le> d" "d \<le> rq_depth (rn_req p)"
    using inv q cur by (auto simp: reach_inv_def reach_ok_def)
  have imp: "improves p root ?s0 s'" and rel: "re_best s n = Some d \<longrightarrow> relaxed p s' n d"
    using reach_step_improves [OF ok, of n] by (simp_all add: s'_def cur)
  obtain new where new: "re_queue s' = rest @ new" using imp by (auto simp: improves_def)
  have rel0: "relaxed p s m b \<longleftrightarrow> relaxed p ?s0 m b" for m b
    by (simp add: relaxed_def parent_relaxed_def child_relaxed_def)
  have "(m, b) \<in> set (re_queue s') \<or> relaxed p s' m b" if b: "re_best s' m = Some b" for m b
  proof (cases "re_best s m = Some b")
    case True
    show ?thesis
    proof (cases "(m, b) \<in> set rest \<or> relaxed p s m b")
      case True
      then show ?thesis
      proof
        assume "relaxed p s m b"
        then show ?thesis using relaxed_mono [OF imp] rel0 by blast
      qed (simp add: new)
    next
      case False
      then have "(m, b) = cur" using inv True q unfolding reach_inv_def by (metis set_ConsD)
      then show ?thesis using rel cur True by auto
    qed
  next
    case False
    moreover have "re_best ?s0 m = Some b \<or> (m, b) \<in> set (re_queue s')"
      using imp b unfolding improves_def by blast
    ultimately show ?thesis by simp
  qed
  moreover have "\<exists>b. re_best s' (root, ChildOK) = Some b \<and> b \<le> 0"
    using imp inv unfolding reach_inv_def improves_def by (metis order_trans reach.select_convs(2)
      reach.surjective reach.update_convs(3))
  moreover have "reach_ok p root s'" using imp by (simp add: improves_def)
  ultimately show "reach_inv p root s'" unfolding reach_inv_def by blast
  have "potential p root ?s0 = potential p root s" by (simp add: potential_def)
  then show "potential p root s' < potential p root s
      \<or> potential p root s' = potential p root s \<and> length (re_queue s') < length (re_queue s)"
    using imp q unfolding improves_def by auto
qed

subsection \<open>The loop returns, and what its answer holds\<close>

lemma reach_loop_returns:
  assumes "reach_inv p root s"
  shows "\<exists>s'. reach_loop p s = Some (re_as_parent s') \<and> reach_inv p root s' \<and> re_queue s' = []"
  using assms
proof (induction s rule: wf_induct_rule
    [OF wf_measures [of "[potential p root, length \<circ> re_queue]"]])
  case (1 s)
  show ?case
  proof (cases "re_queue s")
    case Nil
    then show ?thesis using 1(2) by (subst reach_loop.simps) auto
  next
    case (Cons cur rest)
    let ?s' = "reach_step p cur (s\<lparr>re_queue := rest\<rparr>)"
    have "(?s', s) \<in> measures [potential p root, length \<circ> re_queue]"
      using reach_inv_step(2) [OF 1(2) Cons] by auto
    then show ?thesis
      using 1(1) reach_inv_step(1) [OF 1(2) Cons] Cons by (subst reach_loop.simps) simp
  qed
qed

inductive table_reach :: "run \<Rightarrow> table_ref \<Rightarrow> table_ref \<Rightarrow> mode \<Rightarrow> int \<Rightarrow> bool" for p root where
  root: "table_reach p root root ChildOK 0"
| parent: "table_reach p root (fk_child fk) m d \<Longrightarrow> fk \<in> set (rn_fks p) \<Longrightarrow> follows_as_parent fk \<Longrightarrow>
    table_reach p root (fk_parent fk) ParentOnly d"
| child: "table_reach p root (fk_parent fk) ChildOK d \<Longrightarrow> d < rq_depth (rn_req p) \<Longrightarrow>
    fk \<in> set (rn_fks p) \<Longrightarrow> follows_as_child fk \<Longrightarrow> table_reach p root (fk_child fk) ChildOK (d + 1)"

lemma table_reach_best:
  assumes "reach_inv p root s" and "re_queue s = []" and "table_reach p root t m d"
  shows "\<exists>b. re_best s (t, m) = Some b \<and> b \<le> d"
  using assms(3)
proof induction
  case root
  then show ?case using assms(1) by (auto simp: reach_inv_def)
next
  case (parent fk m d)
  then obtain b where "re_best s (fk_child fk, m) = Some b" "b \<le> d" by blast
  then have "relaxed p s (fk_child fk, m) b" using assms(1,2) by (simp add: reach_inv_def)
  then have "parent_relaxed b s fk" using parent.hyps by (simp add: relaxed_def outgoing_def)
  then show ?case using parent.hyps \<open>b \<le> d\<close> by (auto simp: parent_relaxed_def intro: order_trans)
next
  case (child fk d)
  then obtain b where b: "re_best s (fk_parent fk, ChildOK) = Some b" "b \<le> d" by blast
  then have "relaxed p s (fk_parent fk, ChildOK) b" using assms(1,2) by (simp add: reach_inv_def)
  then have "child_relaxed b s fk"
    using child.hyps b(2) by (simp add: relaxed_def incoming_def)
  then show ?case using child.hyps b(2) by (auto simp: child_relaxed_def)
qed

lemma static_reach_covers:
  assumes "0 \<le> rq_depth (rn_req p)"
  shows "\<exists>as. static_reach p root = Some as
    \<and> (\<forall>fk m d. table_reach p root (fk_child fk) m d \<and> fk \<in> set (rn_fks p)
        \<and> follows_as_parent fk \<longrightarrow> fk_parent fk \<in> as)"
proof -
  let ?s = "\<lparr>re_as_parent = {}, re_best = [(root, ChildOK) \<mapsto> 0], re_queue = [((root, ChildOK), 0)]\<rparr>"
  have "reach_inv p root ?s"
    using assms by (auto simp: reach_inv_def reach_ok_def reach_nodes_def)
  then obtain s' where s': "reach_loop p ?s = Some (re_as_parent s')" "reach_inv p root s'"
    "re_queue s' = []" using reach_loop_returns by blast
  have "fk_parent fk \<in> re_as_parent s'"
    if r: "table_reach p root (fk_child fk) m d" and fk: "fk \<in> set (rn_fks p)" "follows_as_parent fk"
    for fk m d
  proof -
    obtain b where "re_best s' (fk_child fk, m) = Some b"
      using table_reach_best [OF s'(2,3) r] by blast
    then have "relaxed p s' (fk_child fk, m) b" using s'(2,3) by (simp add: reach_inv_def)
    then show ?thesis using fk by (simp add: relaxed_def outgoing_def parent_relaxed_def)
  qed
  with s'(1) show ?thesis by (auto simp: static_reach_def)
qed

end
