(* ===== verification/Source.thy ===== *)
theory Source
  imports Walk
begin

text \<open>
  What a reader of a PostgreSQL snapshot is relied on for. A database is a list of rows per
  table; equality of the key columns is a parameter \<open>eq\<close>, because a join compares values
  under the column's own type and not under its text form. \<open>answers\<close> states the documented
  meaning of the planner's three statements, and the locale \<open>snapshot\<close> is the contract the
  walk is proved against. \<open>db_reader\<close> evaluates the statements over a concrete database, and
  the locale is interpreted on it.
\<close>

type_synonym row = "string \<Rightarrow> cell option"
type_synonym database = "table_ref \<Rightarrow> row list"
type_synonym key_eq = "key_type list \<Rightarrow> key_tuple \<Rightarrow> key_tuple \<Rightarrow> bool"

text \<open>The key a row has under a list of columns: none when a component is NULL.\<close>

definition row_key :: "key_type list \<Rightarrow> string list \<Rightarrow> row \<Rightarrow> key_tuple option" where
  "row_key types cols r =
     (case scan_row types (map r cols) of Some (Some t) \<Rightarrow> Some t | _ \<Rightarrow> None)"

text \<open>\<open>unnest\<close>: the parallel arrays of an argument list, paired up row by row.\<close>

definition column_length :: "chunk_column \<Rightarrow> nat" where
  "column_length c =
     (case c of IntCol xs \<Rightarrow> length xs | StrCol xs \<Rightarrow> length xs | UuidCol xs \<Rightarrow> length xs)"

definition arg_rows :: "chunk_column list \<Rightarrow> key_tuple list" where
  "arg_rows args =
     (case args of
        [] \<Rightarrow> []
      | a # _ \<Rightarrow> map (\<lambda>j. map (\<lambda>c. column_value c j) args) [0..<column_length a])"

text \<open>The rows of a table a chunk's keys join with.\<close>

definition joins :: "key_eq \<Rightarrow> key_type list \<Rightarrow> string list \<Rightarrow> chunk_column list \<Rightarrow> row \<Rightarrow> bool" where
  "joins eq types cols args r \<longleftrightarrow>
     (case row_key types cols r of
        None \<Rightarrow> False
      | Some kr \<Rightarrow> list_ex (\<lambda>k. eq types k kr) (arg_rows args))"

definition map_rows ::
  "database \<Rightarrow> key_eq \<Rightarrow> table_ref \<Rightarrow> string list \<Rightarrow> key_type list \<Rightarrow> string list \<Rightarrow> string list
    \<Rightarrow> chunk_column list \<Rightarrow> cell_row list" where
  "map_rows db eq t in_cols in_types out_cols not_null args =
     map (\<lambda>r. map r out_cols)
       (filter (\<lambda>r. joins eq in_types in_cols args r \<and> list_all (\<lambda>c. r c \<noteq> None) not_null) (db t))"

definition child_rows ::
  "database \<Rightarrow> key_eq \<Rightarrow> table_ref \<Rightarrow> string list \<Rightarrow> key_type list \<Rightarrow> string list
    \<Rightarrow> chunk_column list \<Rightarrow> cell_row list" where
  "child_rows db eq t child_cols types ident args =
     map (\<lambda>r. map r ident) (filter (joins eq types child_cols args) (db t))"

text \<open>
  A reader may fail; when it answers, a \<open>MapKeys\<close> read returns the projections of exactly the
  rows that join, a \<open>ChildKeys\<close> read only rows that join (its cap drops some), and a
  \<open>SeedKeys\<close> read at most as many rows as its limit, all of the table.
\<close>

definition map_answers :: "reader \<Rightarrow> database \<Rightarrow> key_eq \<Rightarrow> bool" where
  "map_answers rd db eq \<longleftrightarrow>
     (\<forall>t ic ity oc oty nn args rows.
        rd (MapKeys t ic ity oc oty nn) args = Inr rows \<longrightarrow>
        set rows = set (map_rows db eq t ic ity oc nn args))"

definition child_answers :: "reader \<Rightarrow> database \<Rightarrow> key_eq \<Rightarrow> bool" where
  "child_answers rd db eq \<longleftrightarrow>
     (\<forall>t cc ty idc idt n args rows.
        rd (ChildKeys t cc ty idc idt n) args = Inr rows \<longrightarrow>
        set rows \<subseteq> set (child_rows db eq t cc ty idc args))"

definition seed_answers :: "reader \<Rightarrow> database \<Rightarrow> bool" where
  "seed_answers rd db \<longleftrightarrow>
     (\<forall>t cols types w n args rows.
        rd (SeedKeys t cols types w n) args = Inr rows \<longrightarrow>
        int (length rows) \<le> n \<and> set rows \<subseteq> set (map (\<lambda>r. map r cols) (db t)))"

text \<open>Equality of a column's type holds between a value and itself.\<close>

definition key_eq_refl :: "key_eq \<Rightarrow> bool" where
  "key_eq_refl eq \<longleftrightarrow> (\<forall>types k. tuple_ok types k \<longrightarrow> eq types k k)"

locale snapshot =
  fixes rd :: reader and db :: database and eq :: key_eq
  assumes map_answer: "rd (MapKeys t ic ity oc oty nn) args = Inr rows \<Longrightarrow>
      set rows = set (map_rows db eq t ic ity oc nn args)"
    and child_answer: "rd (ChildKeys t cc ty idc idt n) args = Inr rows \<Longrightarrow>
      set rows \<subseteq> set (child_rows db eq t cc ty idc args)"
    and seed_answer: "rd (SeedKeys t cols types w m) args = Inr rows \<Longrightarrow>
      int (length rows) \<le> m \<and> set rows \<subseteq> set (map (\<lambda>r. map r cols) (db t))"
    and eq_refl: "tuple_ok types k \<Longrightarrow> eq types k k"

definition answers :: "reader \<Rightarrow> database \<Rightarrow> key_eq \<Rightarrow> bool" where
  "answers rd db eq \<longleftrightarrow>
     map_answers rd db eq \<and> child_answers rd db eq \<and> seed_answers rd db \<and> key_eq_refl eq"

lemma snapshotI:
  assumes "answers rd db eq" shows "snapshot rd db eq"
proof -
  have m: "map_answers rd db eq" and c: "child_answers rd db eq" and s: "seed_answers rd db"
    and e: "key_eq_refl eq"
    using assms by (simp_all add: answers_def)
  show ?thesis
  proof
    fix t ic ity oc oty nn args rows
    assume "rd (MapKeys t ic ity oc oty nn) args = Inr rows"
    then show "set rows = set (map_rows db eq t ic ity oc nn args)"
      using m unfolding map_answers_def by blast
  next
    fix t cc ty idc idt n args rows
    assume "rd (ChildKeys t cc ty idc idt n) args = Inr rows"
    then show "set rows \<subseteq> set (child_rows db eq t cc ty idc args)"
      using c unfolding child_answers_def by blast
  next
    fix t cols types w m args rows
    assume "rd (SeedKeys t cols types w m) args = Inr rows"
    then show "int (length rows) \<le> m \<and> set rows \<subseteq> set (map (\<lambda>r. map r cols) (db t))"
      using s unfolding seed_answers_def by blast
  next
    fix types k
    assume "tuple_ok types k"
    then show "eq types k k" using e unfolding key_eq_refl_def by blast
  qed
qed

subsection \<open>A reader that evaluates\<close>

text \<open>
  Rows are read in order; a \<open>ChildKeys\<close> read keeps the first \<open>n\<close> rows of each value of the
  child columns, which is what \<open>row_number\<close> does over rows in identity order. No leaf is
  unreadable, a sample is the first rows; the counting and probing statements are not evaluated.
\<close>

fun cap_rows :: "int \<Rightarrow> (row \<Rightarrow> cell_row) \<Rightarrow> (cell_row \<Rightarrow> int) \<Rightarrow> row list \<Rightarrow> row list" where
  "cap_rows n key seen [] = []"
| "cap_rows n key seen (r # rs) =
     (let k = key r in
      if seen k < n then r # cap_rows n key (seen(k := seen k + 1)) rs
      else cap_rows n key seen rs)"

definition db_reader :: "database \<Rightarrow> key_eq \<Rightarrow> reader" where
  "db_reader db eq st args =
     (case st of
        MapKeys t ic ity oc oty nn \<Rightarrow> Inr (map_rows db eq t ic ity oc nn args)
      | ChildKeys t cc ty idc idt n \<Rightarrow>
          Inr (map (\<lambda>r. map r idc)
            (cap_rows n (\<lambda>r. map r cc) (\<lambda>_. 0) (filter (joins eq ty cc args) (db t))))
      | SeedKeys t cols types w n \<Rightarrow>
          if n < 0 then Inl ''LIMIT must not be negative''
          else Inr (map (\<lambda>r. map r cols) (take (nat n) (db t)))
      | DistinctSample t cols types num den n \<Rightarrow> Inr (map (\<lambda>r. map r cols) (take (nat n) (db t)))
      | DistinctPrefix t cols types ord n \<Rightarrow> Inr (map (\<lambda>r. map r cols) (take (nat n) (db t)))
      | UnreadableLeaves \<Rightarrow> Inr []
      | _ \<Rightarrow> Inl ''unsupported'')"

lemma set_cap_rows: "set (cap_rows n key seen rs) \<subseteq> set rs"
proof (induction rs arbitrary: seen)
  case (Cons r rs)
  show ?case by (auto simp: Let_def dest: subsetD [OF Cons])
qed simp

lemma db_reader_answers:
  assumes "key_eq_refl eq" shows "answers (db_reader db eq) db eq"
  unfolding answers_def
proof (intro conjI)
  show "map_answers (db_reader db eq) db eq"
    by (simp add: map_answers_def db_reader_def)
  show "child_answers (db_reader db eq) db eq"
    using set_cap_rows by (fastforce simp: child_answers_def db_reader_def child_rows_def)
  show "seed_answers (db_reader db eq) db"
    by (auto simp: seed_answers_def db_reader_def dest: in_set_takeD split: if_splits)
qed (rule assms)

definition exact_eq :: key_eq where
  "exact_eq types k l \<longleftrightarrow> k = l"

lemma exact_eq_refl: "key_eq_refl exact_eq"
  by (simp add: key_eq_refl_def exact_eq_def)

interpretation pg: snapshot "db_reader db exact_eq" db exact_eq for db
  by (rule snapshotI) (rule db_reader_answers [OF exact_eq_refl])

subsection \<open>Bound arrays\<close>

lemma column_length_chunk: "column_length (chunk_column_of ty vs) = length vs"
  by (cases "kt_kind ty") (simp_all add: column_length_def chunk_column_of_def)

lemma arg_rows_chunk:
  assumes "c \<in> set (keys_chunks ks n)" and "ks_types ks \<noteq> []"
  shows "arg_rows (chunk_args c (length (ks_types ks))) = chunk_rows c"
proof -
  define k where "k = keys_normalize ks"
  have tys: "ks_types k = ks_types ks" by (simp add: k_def)
  obtain start stop where c: "c = keys_chunk k start stop"
    using assms(1) by (auto simp: keys_chunks_def Let_def k_def)
  have len: "length (ch_cols c) = length (ks_types ks)"
    by (simp add: c keys_chunk_def Let_def tys)
  then have args: "chunk_args c (length (ks_types ks)) = ch_cols c"
    using map_nth [of "ch_cols c"] by (simp add: chunk_args_def)
  have cols: "column_length col = ch_n c" if "col \<in> set (ch_cols c)" for col
  proof -
    from that have "col \<in> (\<lambda>i. chunk_column_of (ks_types k ! i)
        (map (\<lambda>t. t ! i) (map (tuple_at k) [start..<stop]))) ` set [0..<length (ks_types k)]"
      unfolding c keys_chunk_def Let_def by simp
    then obtain i where "col = chunk_column_of (ks_types k ! i)
        (map (\<lambda>t. t ! i) (map (tuple_at k) [start..<stop]))" by blast
    then show ?thesis
      by (simp add: column_length_chunk) (simp add: c keys_chunk_def Let_def)
  qed
  obtain a as where a: "ch_cols c = a # as"
    using len assms(2) by (cases "ch_cols c") auto
  then have "column_length a = ch_n c" by (intro cols) simp
  then show ?thesis
    unfolding args arg_rows_def chunk_rows_def a by simp
qed

lemma keys_chunks_cover:
  assumes "keys_ok ks" and "ks_types ks \<noteq> []"
  shows "(\<Union>c \<in> set (keys_chunks ks n). set (arg_rows (chunk_args c (length (ks_types ks)))))
    = keys_set ks"
proof -
  have "(\<Union>c \<in> set (keys_chunks ks n). set (arg_rows (chunk_args c (length (ks_types ks)))))
      = (\<Union>c \<in> set (keys_chunks ks n). set (chunk_rows c))"
    using arg_rows_chunk [OF _ assms(2)] by simp
  also have "\<dots> = set (concat (map chunk_rows (keys_chunks ks n)))" by auto
  also have "\<dots> = keys_set ks" using assms(1) by (simp add: keys_chunks_rows ks.tuples_set)
  finally show ?thesis .
qed

end
