(* ===== verification/Walk_Invariant.thy ===== *)
theory Walk_Invariant
  imports Source
begin

text \<open>
  Why the walk is right. \<open>run_ok\<close> is the invariant of a run and \<open>item_ok\<close> of a queue item;
  every iteration keeps them, whatever the reader answers. From them: the walk returns
  (\<open>walk_returns\<close>), the row count it checks against the budget is the number of distinct
  rows selected, and, when the reader is a snapshot's, the selected rows are closed under
  the edges the walk follows (\<open>complete\<close>) and each has a justification (\<open>included\<close>).
\<close>

subsection \<open>Folds whose steps each establish a fact that later steps keep\<close>

lemma fold_res_all:
  assumes "fold_res f xs s = Inr s'" and "I s"
    and step: "\<And>x s s'. x \<in> set xs \<Longrightarrow> I s \<Longrightarrow> f x s = Inr s' \<Longrightarrow>
      I s' \<and> F x s' \<and> (\<forall>y. F y s \<longrightarrow> F y s')"
  shows "I s' \<and> (\<forall>x \<in> set xs. F x s') \<and> (\<forall>y. F y s \<longrightarrow> F y s')"
  using assms
proof (induction xs arbitrary: s)
  case Nil
  then show ?case by simp
next
  case (Cons x xs)
  obtain s1 where s1: "f x s = Inr s1" "fold_res f xs s1 = Inr s'"
    using Cons.prems(1) by (auto simp: result_simps)
  have 1: "I s1" "F x s1" "\<forall>y. F y s \<longrightarrow> F y s1"
    using Cons.prems(3) [of x s s1] Cons.prems(2) s1(1) by auto
  have "I s' \<and> (\<forall>y \<in> set xs. F y s') \<and> (\<forall>y. F y s1 \<longrightarrow> F y s')"
    by (rule Cons.IH [OF s1(2) 1(1)]) (use Cons.prems(3) in auto)
  with 1 show ?case by auto
qed

subsection \<open>What a step leaves alone\<close>

text \<open>\<open>same_plan\<close>: everything decided before the walk. \<open>notes_only\<close>: all but the reasons.\<close>

definition same_plan :: "run \<Rightarrow> run \<Rightarrow> bool" where
  "same_plan p q \<longleftrightarrow>
     rn_req q = rn_req p \<and> rn_tables q = rn_tables p \<and> rn_by_ref q = rn_by_ref p
     \<and> rn_in_scope q = rn_in_scope p \<and> rn_fks q = rn_fks p \<and> rn_ids q = rn_ids p
     \<and> rn_lookups q = rn_lookups p \<and> rn_inferred q = rn_inferred p
     \<and> rn_cells_per_row q = rn_cells_per_row p \<and> rn_emitting q = rn_emitting p"

definition notes_only :: "run \<Rightarrow> run \<Rightarrow> bool" where
  "notes_only p q \<longleftrightarrow>
     same_plan p q \<and> rn_selected q = rn_selected p \<and> rn_selected_row q = rn_selected_row p
     \<and> rn_label q = rn_label p \<and> rn_depth q = rn_depth p
     \<and> rn_root_seed_count q = rn_root_seed_count p"

lemma same_plan_refl [simp]: "same_plan p p"
  by (simp add: same_plan_def)

lemma same_plan_trans: "same_plan p q \<Longrightarrow> same_plan q r \<Longrightarrow> same_plan p r"
  by (simp add: same_plan_def)

lemma same_planD:
  assumes "same_plan p q"
  shows "rn_req q = rn_req p" "rn_by_ref q = rn_by_ref p" "rn_in_scope q = rn_in_scope p"
    "rn_ids q = rn_ids p" "rn_lookups q = rn_lookups p" "rn_inferred q = rn_inferred p"
    "outgoing q = outgoing p" "incoming q = incoming p" "rn_fks q = rn_fks p"
  using assms by (auto simp: same_plan_def outgoing_def incoming_def)

lemma notes_only_refl [simp]: "notes_only p p"
  by (simp add: notes_only_def)

lemma notes_only_trans: "notes_only p q \<Longrightarrow> notes_only q r \<Longrightarrow> notes_only p r"
  by (auto simp: notes_only_def intro: same_plan_trans)

lemma notes_only_plan: "notes_only p q \<Longrightarrow> same_plan p q"
  by (simp add: notes_only_def)

lemma notes_only_selected: "notes_only p q \<Longrightarrow> rn_selected q = rn_selected p"
  by (simp add: notes_only_def)

lemma notes_only_note_why [simp]: "notes_only p (note_why p t why)"
  by (simp add: notes_only_def same_plan_def note_why_def)

lemma notes_only_note_unknown [simp]: "notes_only p (note_unknown_type p pair v)"
  by (simp add: notes_only_def same_plan_def note_unknown_type_def Let_def)

lemma notes_only_cap [simp]: "notes_only p (p\<lparr>rn_cap_of := c\<rparr>)"
  by (simp add: notes_only_def same_plan_def)

lemma notes_only_cap_note [simp]: "notes_only p (note_why (p\<lparr>rn_cap_of := c\<rparr>) t why)"
  by (rule notes_only_trans [OF notes_only_cap notes_only_note_why])

lemma notes_only_split_value: "notes_only (fst s) (fst (split_value pp tuple s))"
  by (cases s) (auto simp: split_value_def split: option.splits)

subsection \<open>The invariant of a run\<close>

definition sel :: "run \<Rightarrow> table_ref \<Rightarrow> key_tuple set" where
  "sel p t = (case rn_selected p t of None \<Rightarrow> {} | Some ks \<Rightarrow> keys_set ks)"

text \<open>A table in scope has an identity of at least one column, typed as its columns are.\<close>

definition ids_ok :: "run \<Rightarrow> bool" where
  "ids_ok p \<longleftrightarrow>
     (\<forall>t \<in> rn_in_scope p. id_columns (rn_ids p t) \<noteq> []
        \<and> types_for (rn_by_ref p t) (id_columns (rn_ids p t)) = Inr (id_types (rn_ids p t)))"

definition fks_ok :: "run \<Rightarrow> bool" where
  "fks_ok p \<longleftrightarrow> (\<forall>fk \<in> set (rn_fks p). fk_parent_cols fk \<noteq> [])"

text \<open>An inferred edge references one column that travels as the pair's id column does.\<close>

definition edge_ok :: "run \<Rightarrow> pair_plan \<Rightarrow> virtual_edge \<Rightarrow> bool" where
  "edge_ok p pp e \<longleftrightarrow>
     (\<exists>ty. ve_types e = [ty] \<and> kt_kind ty = kt_kind (pp_id_type pp)
       \<and> types_for (rn_by_ref p (fk_parent (ve_fk e))) (fk_parent_cols (ve_fk e)) = Inr [ty])"

definition inferred_ok :: "run \<Rightarrow> bool" where
  "inferred_ok p \<longleftrightarrow>
     (\<forall>t. \<forall>pp \<in> set (rn_inferred p t). distinct (map ve_value (pp_edges pp))
        \<and> (\<forall>e \<in> set (pp_edges pp). edge_ok p pp e))"

definition plan_ok :: "run \<Rightarrow> bool" where
  "plan_ok p \<longleftrightarrow> ids_ok p \<and> fks_ok p \<and> inferred_ok p"

definition run_ok :: "run \<Rightarrow> bool" where
  "run_ok p \<longleftrightarrow> plan_ok p \<and> finite (dom (rn_selected p))
     \<and> (\<forall>t ks. rn_selected p t = Some ks \<longrightarrow>
          t \<in> rn_in_scope p \<and> keys_ok ks \<and> ks_types ks = id_types (rn_ids p t))
     \<and> rn_selected_row p = int (\<Sum>t \<in> dom (rn_selected p). card (sel p t))"

definition item_ok :: "run \<Rightarrow> item \<Rightarrow> bool" where
  "item_ok p it \<longleftrightarrow> it_table it \<in> rn_in_scope p \<and> keys_ok (it_keys it)
     \<and> ks_types (it_keys it) = id_types (rn_ids p (it_table it))"

lemma item_ok_same: "same_plan p q \<Longrightarrow> item_ok q it \<longleftrightarrow> item_ok p it"
  by (simp add: item_ok_def same_planD)

lemma plan_ok_same: "same_plan p q \<Longrightarrow> plan_ok q \<longleftrightarrow> plan_ok p"
  by (simp add: plan_ok_def ids_ok_def fks_ok_def inferred_ok_def edge_ok_def same_planD)

lemma run_ok_notes: "notes_only p q \<Longrightarrow> run_ok q \<longleftrightarrow> run_ok p"
  using plan_ok_same [OF notes_only_plan, of p q] same_planD [OF notes_only_plan, of p q]
  by (simp add: run_ok_def notes_only_def sel_def)

lemma id_types_not_Nil:
  assumes "plan_ok p" and "t \<in> rn_in_scope p" shows "id_types (rn_ids p t) \<noteq> []"
proof -
  have "id_columns (rn_ids p t) \<noteq> []"
    and ty: "types_for (rn_by_ref p t) (id_columns (rn_ids p t)) = Inr (id_types (rn_ids p t))"
    using assms by (auto simp: plan_ok_def ids_ok_def)
  moreover have "length (id_types (rn_ids p t)) = length (id_columns (rn_ids p t))"
    using ty by (auto simp: types_for_def types_of_columns_length split: option.splits)
  ultimately show ?thesis by auto
qed

subsection \<open>subtract and absorb\<close>

lemma subtract_ok:
  assumes "run_ok p" and "t \<in> rn_in_scope p" and "keys_ok ks"
    and "ks_types ks = id_types (rn_ids p t)"
  shows "keys_ok (subtract p t ks)" and "ks_types (subtract p t ks) = id_types (rn_ids p t)"
    and "keys_set (subtract p t ks) = keys_set ks - sel p t"
proof -
  have "keys_ok (subtract p t ks) \<and> ks_types (subtract p t ks) = id_types (rn_ids p t)
      \<and> keys_set (subtract p t ks) = keys_set ks - sel p t"
  proof (cases "rn_selected p t")
    case None
    then show ?thesis using assms(3,4) by (simp add: subtract_def sel_def)
  next
    case (Some h)
    with assms(1) have h: "keys_ok h" "ks_types h = id_types (rn_ids p t)"
      by (auto simp: run_ok_def)
    have ts: "\<forall>x \<in> set (keys_tuples ks). tuple_ok (ks_types (new_keys (ks_types ks))) x"
      using assms(3) ks.tuples_tuple_ok by simp
    note f = ks.fold_add_unless [OF ks.new_ok ts, where p = "keys_has h"]
    have "keys_has h x \<longleftrightarrow> x \<in> keys_set h" if "x \<in> keys_set ks" for x
      using ks.has_iff [OF h(1)] ks.abs_ok [OF assms(3) that] assms(4) h(2) by simp
    then have "{x \<in> set (keys_tuples ks). \<not> keys_has h x} = keys_set ks - keys_set h"
      using assms(3) by (auto simp: ks.tuples_set)
    with f show ?thesis
      using Some assms(4) by (simp add: subtract_def sel_def ks.new_abs)
  qed
  then show "keys_ok (subtract p t ks)" "ks_types (subtract p t ks) = id_types (rn_ids p t)"
    "keys_set (subtract p t ks) = keys_set ks - sel p t"
    by simp_all
qed

lemma absorb_same_plan [simp]: "same_plan p (absorb p t ks)"
  by (simp add: absorb_def same_plan_def Let_def)

lemma mark_same_plan [simp]: "same_plan p (mark p it)"
  by (simp add: mark_def same_plan_def)

lemma mark_simps [simp]:
  "rn_selected (mark p it) = rn_selected p"
  "rn_selected_row (mark p it) = rn_selected_row p"
  by (simp_all add: mark_def)

lemma sel_mark [simp]: "sel (mark p it) = sel p"
  by (simp add: sel_def fun_eq_iff)

lemma run_ok_mark [simp]: "run_ok (mark p it) \<longleftrightarrow> run_ok p"
  using plan_ok_same [OF mark_same_plan, of p it] same_planD [OF mark_same_plan, of p it]
  by (simp add: run_ok_def)

text \<open>
  Absorbing a set the table does not hold yet: the selection grows by exactly that set and
  the row count by its size.
\<close>

lemma absorb_ok:
  assumes "run_ok p" and "t \<in> rn_in_scope p" and "keys_ok ks"
    and "ks_types ks = id_types (rn_ids p t)"
  shows "run_ok (absorb p t ks)"
    and "sel (absorb p t ks) = (sel p)(t := sel p t \<union> keys_set ks)"
    and "keys_set ks \<inter> sel p t = {} \<Longrightarrow>
      rn_selected_row (absorb p t ks) = rn_selected_row p + int (keys_len ks)"
proof -
  define h where "h = (case rn_selected p t of None \<Rightarrow> new_keys (ks_types ks) | Some h \<Rightarrow> h)"
  define after where "after = fold (\<lambda>tuple h. keys_add h tuple) (keys_tuples ks) h"
  have h: "keys_ok h" "ks_types h = id_types (rn_ids p t)" "keys_set h = sel p t"
    using assms(1,4) by (auto simp: h_def run_ok_def sel_def ks.new_ok ks.new_abs split: option.splits)
  have ts: "\<forall>x \<in> set (keys_tuples ks). tuple_ok (ks_types h) x"
    using ks.tuples_tuple_ok [OF assms(3)] assms(4) h(2) by simp
  have after: "keys_ok after" "ks_types after = id_types (rn_ids p t)"
    "keys_set after = sel p t \<union> keys_set ks"
    using ks.fold_add [OF h(1) ts] assms(3) h by (auto simp: after_def ks.tuples_set)
  have eq: "absorb p t ks = p\<lparr>rn_selected := (rn_selected p)(t \<mapsto> after),
      rn_selected_row := rn_selected_row p + (int (keys_len after) - int (keys_len h))\<rparr>"
    by (simp add: absorb_def h_def after_def Let_def)
  show sel: "sel (absorb p t ks) = (sel p)(t := sel p t \<union> keys_set ks)"
    by (auto simp: eq sel_def after(3) [unfolded sel_def] fun_eq_iff)
  have fin: "finite (dom (rn_selected p))" using assms(1) by (simp add: run_ok_def)
  let ?D = "dom (rn_selected p)"
  have lens: "keys_len h = card (sel p t)" "keys_len after = card (sel p t \<union> keys_set ks)"
    using h after by (simp_all add: ks.len_card)
  have "(\<Sum>u \<in> insert t ?D. card (sel (absorb p t ks) u))
      = card (sel p t \<union> keys_set ks) + (\<Sum>u \<in> ?D - {t}. card (sel p u))"
    using fin by (simp add: sel sum.insert_remove)
  moreover have "(\<Sum>u \<in> ?D. card (sel p u)) = card (sel p t) + (\<Sum>u \<in> ?D - {t}. card (sel p u))"
  proof (cases "t \<in> ?D")
    case True
    then show ?thesis using fin by (simp add: sum.remove)
  next
    case False
    then show ?thesis by (auto simp: sel_def domIff)
  qed
  ultimately have count: "rn_selected_row (absorb p t ks)
      = int (\<Sum>u \<in> insert t ?D. card (sel (absorb p t ks) u))"
    using assms(1) lens by (simp add: eq run_ok_def)
  have "plan_ok (absorb p t ks)"
    using assms(1) plan_ok_same [OF absorb_same_plan] by (simp add: run_ok_def)
  then show "run_ok (absorb p t ks)"
    using assms(1,2) fin after count unfolding run_ok_def
    by (auto simp: eq)
  assume "keys_set ks \<inter> sel p t = {}"
  then have "card (sel p t \<union> keys_set ks) = card (sel p t) + card (keys_set ks)"
    using ks.abs_finite [OF h(1)] ks.abs_finite [OF assms(3)] h(3)
    by (simp add: card_Un_disjoint Int_commute)
  then show "rn_selected_row (absorb p t ks) = rn_selected_row p + int (keys_len ks)"
    using lens assms(3) by (simp add: eq ks.len_card)
qed

end
