(* ===== verification/Walk_Correct.thy ===== *)
theory Walk_Correct
  imports Walk_Invariant
begin

text \<open>
  Every step of the walk against the invariants of \<open>Walk_Invariant\<close>: what a read yields, what
  an inner loop pushes, and that the walk returns with the row count within its budget,
  whatever the reader answers.
\<close>

subsection \<open>Answers as key sets\<close>

text \<open>The keys of an answer; none when the reader failed.\<close>

definition answer_keys :: "reader \<Rightarrow> stmt \<Rightarrow> key_type list \<Rightarrow> chunk_column list \<Rightarrow> key_tuple set" where
  "answer_keys rd st types args =
     (case rd st args of Inl _ \<Rightarrow> {} | Inr rows \<Rightarrow> row_tuples types rows)"

definition answered :: "reader \<Rightarrow> stmt \<Rightarrow> chunk_column list \<Rightarrow> bool" where
  "answered rd st args \<longleftrightarrow> (\<exists>rows. rd st args = Inr rows)"

lemma read_keys_answer:
  assumes "read_keys rd st types args = Inr ks"
  shows "keys_ok ks" "ks_types ks = types" "keys_set ks = answer_keys rd st types args"
    "answered rd st args"
proof -
  obtain rows where rows: "rd st args = Inr rows" "keys_ok ks" "ks_types ks = types"
    "keys_set ks = row_tuples types rows"
    using read_keys_ok [OF assms] by blast
  show "keys_ok ks" "ks_types ks = types" by (rule rows)+
  show "keys_set ks = answer_keys rd st types args"
    unfolding answer_keys_def rows(1) sum.case by (rule rows(4))
  show "answered rd st args" unfolding answered_def using rows(1) by (rule exI)
qed

lemma fold_add_keys:
  assumes "keys_ok out" and "keys_ok got" and "ks_types got = ks_types out"
  defines "r \<equiv> fold (\<lambda>tuple h. keys_add h tuple) (keys_tuples got) out"
  shows "keys_ok r" "ks_types r = ks_types out" "keys_set r = keys_set out \<union> keys_set got"
proof -
  have ts: "\<forall>x \<in> set (keys_tuples got). tuple_ok (ks_types out) x"
    using ks.tuples_tuple_ok [OF assms(2)] assms(3) by simp
  show "keys_ok r" "ks_types r = ks_types out" "keys_set r = keys_set out \<union> keys_set got"
    using ks.fold_add [OF assms(1) ts] assms(2) by (auto simp: r_def ks.tuples_set)
qed

lemma translate_fold:
  assumes "fold_res (\<lambda>ch out.
        bind_res (wrap ctx (read_keys rd st oty (chunk_args ch n)))
          (\<lambda>got. Inr (fold (\<lambda>tuple h. keys_add h tuple) (keys_tuples got) out))) chs out0 = Inr out"
    and "keys_ok out0" and "ks_types out0 = oty"
  shows "keys_ok out \<and> ks_types out = oty
    \<and> keys_set out = keys_set out0 \<union> (\<Union>ch \<in> set chs. answer_keys rd st oty (chunk_args ch n))
    \<and> (\<forall>ch \<in> set chs. answered rd st (chunk_args ch n))"
  using assms
proof (induction chs arbitrary: out0)
  case Nil
  then show ?case by simp
next
  case (Cons ch chs)
  obtain got where got: "read_keys rd st oty (chunk_args ch n) = Inr got"
    using Cons.prems(1) by (auto simp: result_simps)
  note a = read_keys_answer [OF got]
  note f = fold_add_keys [OF Cons.prems(2) a(1)]
  have "keys_ok out \<and> ks_types out = oty
    \<and> keys_set out = (keys_set out0 \<union> keys_set got)
        \<union> (\<Union>ch \<in> set chs. answer_keys rd st oty (chunk_args ch n))
    \<and> (\<forall>ch \<in> set chs. answered rd st (chunk_args ch n))"
    using Cons.IH [of "fold (\<lambda>tuple h. keys_add h tuple) (keys_tuples got) out0"]
      Cons.prems f a got by (simp add: result_simps)
  with a show ?case by auto
qed

lemma translate_keys_ok:
  assumes "translate_keys rd ctx t ic ity oc oty ks = Inr out"
  shows "keys_ok out" "ks_types out = oty"
    "keys_set out = (\<Union>ch \<in> set (keys_chunks ks chunk_size).
        answer_keys rd (MapKeys t ic ity oc oty []) oty (chunk_args ch (length ity)))"
    "\<forall>ch \<in> set (keys_chunks ks chunk_size).
        answered rd (MapKeys t ic ity oc oty []) (chunk_args ch (length ity))"
  using translate_fold [OF assms [unfolded translate_keys_def]]
  by (simp_all add: ks.new_ok ks.new_abs)

text \<open>\<open>identityKeys\<close> yields keys of the parent's identity, given keys of the referenced columns.\<close>

lemma identity_keys_ok:
  assumes "identity_keys rd p t cols types refs = Inr pk" and "plan_ok p" and "t \<in> rn_in_scope p"
    and "types_for (rn_by_ref p t) cols = Inr types" and "keys_ok refs" and "ks_types refs = types"
  shows "keys_ok pk" "ks_types pk = id_types (rn_ids p t)"
proof -
  have "keys_ok pk \<and> ks_types pk = id_types (rn_ids p t)"
  proof (cases "id_columns (rn_ids p t) = cols")
    case True
    then have "types = id_types (rn_ids p t)"
      using assms(2,3,4) by (auto simp: plan_ok_def ids_ok_def)
    then show ?thesis using assms True by (simp add: identity_keys_def Let_def)
  next
    case False
    then show ?thesis
      using translate_keys_ok(1,2) assms(1) by (auto simp: identity_keys_def Let_def)
  qed
  then show "keys_ok pk" "ks_types pk = id_types (rn_ids p t)" by simp_all
qed

subsection \<open>Pushing what is pending\<close>

definition queued :: "item list \<Rightarrow> table_ref \<Rightarrow> key_tuple set" where
  "queued q t = (\<Union>it \<in> {it \<in> set q. it_table it = t}. keys_set (it_keys it))"

definition covered :: "run \<Rightarrow> item list \<Rightarrow> table_ref \<Rightarrow> key_tuple set" where
  "covered p q t = sel p t \<union> queued q t"

lemma queued_append: "queued (q @ r) t = queued q t \<union> queued r t"
  by (auto simp: queued_def)

lemma queued_Cons:
  "queued (it # q) t = (if it_table it = t then keys_set (it_keys it) else {}) \<union> queued q t"
  by (auto simp: queued_def)

lemma queued_Nil [simp]: "queued [] t = {}"
  by (simp add: queued_def)

text \<open>The last three lines every inner loop ends in.\<close>

definition pushes ::
  "run \<Rightarrow> run \<times> item list \<Rightarrow> run \<times> item list \<Rightarrow> table_ref \<Rightarrow> keys \<Rightarrow> mode \<Rightarrow> int \<Rightarrow> bool" where
  "pushes p s s' t pk m d \<longleftrightarrow>
     notes_only (fst s) (fst s') \<and>
     snd s' = snd s @ (let pending = subtract p t pk in
       if keys_len pending = 0 then []
       else [\<lparr>it_table = t, it_keys = pending, it_mode = m, it_depth = d\<rparr>])"

lemma pushes_ok:
  assumes "pushes p s s' t pk m d" and "run_ok p" and "t \<in> rn_in_scope p"
    and "keys_ok pk" and "ks_types pk = id_types (rn_ids p t)"
  shows "notes_only (fst s) (fst s')"
    and "\<exists>new. snd s' = snd s @ new \<and> (\<forall>it \<in> set new. item_ok p it \<and> it_table it = t
      \<and> it_mode it = m \<and> it_depth it = d \<and> keys_set (it_keys it) \<subseteq> keys_set pk)"
    and "keys_set pk \<subseteq> covered p (snd s') t"
proof -
  note sub = subtract_ok [OF assms(2-5)]
  let ?pending = "subtract p t pk"
  show "notes_only (fst s) (fst s')" using assms(1) by (simp add: pushes_def)
  show "\<exists>new. snd s' = snd s @ new \<and> (\<forall>it \<in> set new. item_ok p it \<and> it_table it = t
      \<and> it_mode it = m \<and> it_depth it = d \<and> keys_set (it_keys it) \<subseteq> keys_set pk)"
    using assms(1,3) sub by (auto simp: pushes_def item_ok_def Let_def)
  show "keys_set pk \<subseteq> covered p (snd s') t"
  proof (cases "keys_len ?pending = 0")
    case True
    then have "keys_set pk - sel p t = {}" using sub ks.len_zero_iff by metis
    then show ?thesis by (auto simp: covered_def)
  next
    case False
    then show ?thesis
      using assms(1) sub(3) by (auto simp: pushes_def covered_def Let_def queued_append queued_Cons)
  qed
qed

lemma pushes_nothing: "s' = s \<Longrightarrow> pushes p s s' t (new_keys tys) m d" if "run_ok p" "t \<in> rn_in_scope p"
  "tys = id_types (rn_ids p t)"
proof -
  have "keys_set (subtract p t (new_keys tys)) = {}"
    using subtract_ok(3) [OF that(1,2) ks.new_ok, of tys] that(3) by (simp add: ks.new_abs)
  moreover have "keys_ok (subtract p t (new_keys tys))"
    using subtract_ok(1) [OF that(1,2) ks.new_ok, of tys] that(3) by simp
  ultimately have "keys_len (subtract p t (new_keys tys)) = 0"
    by (simp add: ks.len_zero_iff)
  then show "s' = s \<Longrightarrow> pushes p s s' t (new_keys tys) m d" by (simp add: pushes_def)
qed

subsection \<open>One chunk of each step\<close>

text \<open>What the keys a chunk pushes are: the reads they come from, edge by edge.\<close>

definition parent_pk ::
  "reader \<Rightarrow> run \<Rightarrow> table_ref \<Rightarrow> foreign_key \<Rightarrow> key_type list \<Rightarrow> chunk \<Rightarrow> keys \<Rightarrow> bool" where
  "parent_pk rd p t fk types ch pk \<longleftrightarrow>
     (let st = MapKeys t (id_columns (rn_ids p t)) (id_types (rn_ids p t)) (fk_child_cols fk) types
            (fk_child_cols fk);
          args = chunk_args ch (length (id_types (rn_ids p t)))
      in \<exists>refs. keys_ok refs \<and> ks_types refs = types \<and> answered rd st args
           \<and> keys_set refs = answer_keys rd st types args
           \<and> (identity_keys rd p (fk_parent fk) (fk_parent_cols fk) types refs = Inr pk
              \<or> keys_set refs = {} \<and> keys_set pk = {}))"

lemma subtract_cong: "notes_only p q \<Longrightarrow> subtract q = subtract p"
  by (simp add: subtract_def fun_eq_iff notes_only_selected)

lemma identity_keys_cong: "notes_only p q \<Longrightarrow> identity_keys rd q = identity_keys rd p"
  by (simp add: identity_keys_def fun_eq_iff same_planD(4) [OF notes_only_plan])

lemma virtual_identity_keys_cong:
  "notes_only p q \<Longrightarrow> virtual_identity_keys rd q = virtual_identity_keys rd p"
  by (simp add: virtual_identity_keys_def fun_eq_iff same_planD(4) [OF notes_only_plan])

lemma parent_chunk_pushes:
  assumes step: "parent_chunk rd it fk types ch s = Inr s'"
    and p: "run_ok p" "notes_only p (fst s)" "fk_parent fk \<in> rn_in_scope p"
    and ty: "types_for (rn_by_ref p (fk_parent fk)) (fk_parent_cols fk) = Inr types"
  obtains pk where "pushes p s s' (fk_parent fk) pk ParentOnly (it_depth it)"
    and "keys_ok pk" "ks_types pk = id_types (rn_ids p (fk_parent fk))"
    and "parent_pk rd p (it_table it) fk types ch pk"
proof -
  obtain q out where s: "s = (q, out)" by (cases s)
  have n: "notes_only p q" using p(2) by (simp add: s)
  note ids = same_planD(4) [OF notes_only_plan [OF n]]
  let ?idn = "rn_ids p (it_table it)"
  let ?st = "MapKeys (it_table it) (id_columns ?idn) (id_types ?idn) (fk_child_cols fk) types
    (fk_child_cols fk)"
  let ?args = "chunk_args ch (length (id_types ?idn))"
  obtain refs where refs: "read_keys rd ?st types ?args = Inr refs"
    using step by (auto simp: parent_chunk_def s ids Let_def result_simps)
  note a = read_keys_answer [OF refs]
  show thesis
  proof (cases "keys_len refs = 0")
    case True
    then have "s' = s" using step refs by (simp add: parent_chunk_def s ids Let_def)
    moreover have "keys_set refs = {}" using True a(1) by (simp add: ks.len_zero_iff)
    ultimately show thesis
      using that [of "new_keys (id_types (rn_ids p (fk_parent fk)))"] a
        pushes_nothing [OF p(1,3) refl]
      by (auto simp: parent_pk_def Let_def ks.new_ok ks.new_abs)
  next
    case False
    then obtain pk where pk: "identity_keys rd p (fk_parent fk) (fk_parent_cols fk) types refs = Inr pk"
      using step refs
      by (auto simp: parent_chunk_def s ids Let_def result_simps identity_keys_cong [OF n])
    have "pushes p s s' (fk_parent fk) pk ParentOnly (it_depth it)"
      using step refs False pk
      by (auto simp: parent_chunk_def s ids Let_def identity_keys_cong [OF n] subtract_cong [OF n]
          pushes_def split: if_splits)
    then show thesis
      using that [of pk] a pk
        identity_keys_ok [OF pk _ p(3) ty a(1,2)] p(1)
      by (auto simp: parent_pk_def Let_def run_ok_def)
  qed
qed

definition child_ck ::
  "reader \<Rightarrow> run \<Rightarrow> foreign_key \<Rightarrow> key_type list \<Rightarrow> int \<Rightarrow> chunk \<Rightarrow> keys \<Rightarrow> bool" where
  "child_ck rd p fk types n ch ck \<longleftrightarrow>
     (let idn = rn_ids p (fk_child fk) in
      keys_set ck = answer_keys rd
        (ChildKeys (fk_child fk) (fk_child_cols fk) types (id_columns idn) (id_types idn) n)
        (id_types idn) (chunk_args ch (length types)))"

lemma child_chunk_pushes:
  assumes step: "child_chunk rd it fk types n ch s = Inr s'"
    and p: "notes_only p (fst s)"
  obtains ck where "pushes p s s' (fk_child fk) ck ChildOK (it_depth it + 1)"
    and "keys_ok ck" "ks_types ck = id_types (rn_ids p (fk_child fk))"
    and "child_ck rd p fk types n ch ck"
proof -
  obtain q out where s: "s = (q, out)" by (cases s)
  have n: "notes_only p q" using p by (simp add: s)
  note ids = same_planD(4) [OF notes_only_plan [OF n]]
  let ?idn = "rn_ids p (fk_child fk)"
  obtain ck where ck: "read_keys rd (ChildKeys (fk_child fk) (fk_child_cols fk) types
      (id_columns ?idn) (id_types ?idn) n) (id_types ?idn) (chunk_args ch (length types)) = Inr ck"
    using step by (auto simp: child_chunk_def s ids Let_def result_simps)
  note a = read_keys_answer [OF ck]
  have "notes_only q (fst s')"
    using step ck
    by (auto simp: child_chunk_def s ids Let_def split: if_splits)
  then have "pushes p s s' (fk_child fk) ck ChildOK (it_depth it + 1)"
    using step ck
    by (auto simp: child_chunk_def s ids Let_def subtract_cong [OF n] pushes_def split: if_splits)
  with a show thesis by (intro that) (auto simp: child_ck_def Let_def)
qed

subsection \<open>A polymorphic pair's values\<close>

lemma kv_ok_kind: "kt_kind a = kt_kind b \<Longrightarrow> kv_ok a v \<longleftrightarrow> kv_ok b v"
  by (simp add: kv_ok_def)

lemma by_value_new_Some:
  assumes "distinct (map ve_value es)"
  shows "by_value_new es v =
    (case find (\<lambda>e. ve_value e = v) es of None \<Rightarrow> None | Some e \<Rightarrow> Some (new_keys (ve_types e)))"
proof -
  have "fold (\<lambda>e m. m(ve_value e \<mapsto> new_keys (ve_types e))) es m v =
      (case find (\<lambda>e. ve_value e = v) es of None \<Rightarrow> m v | Some e \<Rightarrow> Some (new_keys (ve_types e)))" for m
    using assms
  proof (induction es arbitrary: m)
    case (Cons e es)
    have "find (\<lambda>x. ve_value x = v) es = None" if "ve_value e = v"
      unfolding find_None_iff using Cons.prems that by (metis distinct.simps(2) image_eqI list.map(2) set_map)
    then show ?case using Cons by (auto split: option.splits)
  qed simp
  then show ?thesis by (simp add: by_value_new_def)
qed

text \<open>The set one value of the pair has collected, once the tuples \<open>ts\<close> are split.\<close>

definition value_keys :: "pair_plan \<Rightarrow> virtual_edge \<Rightarrow> key_tuple set \<Rightarrow> key_tuple set" where
  "value_keys pp e ts =
     {[t ! 1] |t. t \<in> ts \<and> render_type_value (pp_type_type pp) (t ! 0) = Some (ve_value e)}"

lemma split_fold:
  assumes "\<forall>t \<in> set ts. tuple_ok [pp_type_type pp, pp_id_type pp] t"
    and "e \<in> set (pp_edges pp)" and "ve_types e = [ty]" and "kt_kind ty = kt_kind (pp_id_type pp)"
    and "m (ve_value e) = Some ks" and "keys_ok ks" and "ks_types ks = [ty]"
  shows "notes_only q (fst (fold (split_value pp) ts (q, m)))
    \<and> (\<exists>ks'. snd (fold (split_value pp) ts (q, m)) (ve_value e) = Some ks' \<and> keys_ok ks'
      \<and> ks_types ks' = [ty] \<and> keys_set ks' = keys_set ks \<union> value_keys pp e (set ts))"
  using assms(1,5,6,7)
proof (induction ts arbitrary: q m ks)
  case Nil
  then show ?case by (simp add: value_keys_def)
next
  case (Cons t ts)
  obtain q1 m1 where s1: "split_value pp t (q, m) = (q1, m1)" by fastforce
  have n1: "notes_only q q1" using notes_only_split_value [of "(q, m)" pp t] by (simp add: s1)
  have "tuple_ok [ty] [t ! 1]"
    using Cons.prems(1) kv_ok_kind [OF assms(4)] by auto
  with Cons.prems have "\<exists>ks1. m1 (ve_value e) = Some ks1 \<and> keys_ok ks1 \<and> ks_types ks1 = [ty]
      \<and> keys_set ks1 = keys_set ks \<union> value_keys pp e {t}"
    using s1
    by (auto simp: split_value_def value_keys_def ks.add_ok ks.add_abs split: option.splits if_splits)
  then obtain ks1 where ks1: "m1 (ve_value e) = Some ks1" "keys_ok ks1" "ks_types ks1 = [ty]"
    "keys_set ks1 = keys_set ks \<union> value_keys pp e {t}" by blast
  have "\<forall>t \<in> set ts. tuple_ok [pp_type_type pp, pp_id_type pp] t" using Cons.prems(1) by simp
  note ih = Cons.IH [where q = q1 and m = m1 and ks = ks1, OF this ks1(1-3)]
  have "value_keys pp e (set (t # ts)) = value_keys pp e {t} \<union> value_keys pp e (set ts)"
    by (auto simp: value_keys_def)
  with ih n1 ks1(4) show ?case
    by (auto simp: s1 intro: notes_only_trans)
qed

lemma push_edge_pushes:
  assumes step: "push_edge rd it pp m e s = Inr s'"
    and p: "run_ok p" "notes_only p (fst s)"
    and scope: "fk_parent (ve_fk e) \<in> rn_in_scope p" "fk_parent (ve_fk e) \<notin> rn_lookups p"
    and m: "m (ve_value e) = Some refs" "keys_ok refs"
  obtains pk where "pushes p s s' (fk_parent (ve_fk e)) pk ParentOnly (it_depth it)"
    and "keys_ok pk" "ks_types pk = id_types (rn_ids p (fk_parent (ve_fk e)))"
    and "virtual_identity_keys rd p (fk_parent (ve_fk e)) (fk_parent_cols (ve_fk e)) (ve_types e) refs
        = Inr pk \<or> keys_set refs = {} \<and> keys_set pk = {}"
proof -
  obtain q out where s: "s = (q, out)" by (cases s)
  have n: "notes_only p q" using p(2) by (simp add: s)
  note st = same_planD [OF notes_only_plan [OF n]]
  let ?u = "fk_parent (ve_fk e)"
  show thesis
  proof (cases "keys_len refs = 0")
    case True
    then have "s' = s" using step m(1) by (simp add: push_edge_def s Let_def)
    moreover have "keys_set refs = {}" using True m(2) by (simp add: ks.len_zero_iff)
    ultimately show thesis
      using that [of "new_keys (id_types (rn_ids p ?u))"] pushes_nothing [OF p(1) scope(1) refl]
      by (auto simp: ks.new_ok ks.new_abs)
  next
    case False
    then obtain pk where pk: "virtual_identity_keys rd p ?u (fk_parent_cols (ve_fk e)) (ve_types e) refs
        = Inr pk"
      using step m(1) scope
      by (auto simp: push_edge_def s st Let_def result_simps virtual_identity_keys_cong [OF n])
    have "pushes p s s' ?u pk ParentOnly (it_depth it)"
      using step m(1) False pk scope
      by (auto simp: push_edge_def s st Let_def virtual_identity_keys_cong [OF n]
          subtract_cong [OF n] pushes_def split: if_splits)
    then show thesis
      using that [of pk] pk translate_keys_ok(1,2)
      by (auto simp: virtual_identity_keys_def Let_def)
  qed
qed

definition virtual_pk ::
  "reader \<Rightarrow> run \<Rightarrow> table_ref \<Rightarrow> pair_plan \<Rightarrow> virtual_edge \<Rightarrow> chunk \<Rightarrow> keys \<Rightarrow> bool" where
  "virtual_pk rd p t pp e ch pk \<longleftrightarrow>
     (let cols = [pl_type_col (pp_pair pp), pl_id_col (pp_pair pp)];
          types = [pp_type_type pp, pp_id_type pp];
          st = MapKeys t (id_columns (rn_ids p t)) (id_types (rn_ids p t)) cols types cols;
          args = chunk_args ch (length (id_types (rn_ids p t)))
      in \<exists>refs. keys_ok refs \<and> ks_types refs = ve_types e \<and> answered rd st args
           \<and> keys_set refs = value_keys pp e (answer_keys rd st types args)
           \<and> (virtual_identity_keys rd p (fk_parent (ve_fk e)) (fk_parent_cols (ve_fk e))
                (ve_types e) refs = Inr pk
              \<or> keys_set refs = {} \<and> keys_set pk = {}))"

subsection \<open>Growth of the queue\<close>

text \<open>
  \<open>J t k m d\<close> is why a key may be in an item of table \<open>t\<close>, mode \<open>m\<close> and depth \<open>d\<close>; \<open>met\<close>
  says that each wanted row of \<open>N\<close> has a key, selected or queued.
\<close>

type_synonym justification = "table_ref \<Rightarrow> key_tuple \<Rightarrow> mode \<Rightarrow> int \<Rightarrow> bool"

definition justified :: "justification \<Rightarrow> item \<Rightarrow> bool" where
  "justified J it \<longleftrightarrow> (\<forall>k \<in> keys_set (it_keys it). J (it_table it) k (it_mode it) (it_depth it))"

definition grows :: "run \<Rightarrow> justification \<Rightarrow> run \<times> item list \<Rightarrow> run \<times> item list \<Rightarrow> bool" where
  "grows p J s s' \<longleftrightarrow> notes_only (fst s) (fst s')
     \<and> (\<exists>new. snd s' = snd s @ new \<and> (\<forall>it \<in> set new. item_ok p it \<and> justified J it))"

definition met ::
  "run \<Rightarrow> (table_ref \<Rightarrow> key_tuple \<Rightarrow> 'r \<Rightarrow> bool) \<Rightarrow> (table_ref \<times> 'r) set \<Rightarrow> item list \<Rightarrow> bool" where
  "met p H N q \<longleftrightarrow> (\<forall>x \<in> N. \<exists>k \<in> covered p q (fst x). H (fst x) k (snd x))"

lemma grows_refl [simp]: "grows p J s s"
  by (simp add: grows_def)

lemma grows_trans: "grows p J s s' \<Longrightarrow> grows p J s' s'' \<Longrightarrow> grows p J s s''"
  unfolding grows_def by (auto intro: notes_only_trans)

lemma grows_notes: "grows p J s s' \<Longrightarrow> notes_only p (fst s) \<Longrightarrow> notes_only p (fst s')"
  by (auto simp: grows_def intro: notes_only_trans)

lemma met_empty [simp]: "met p H {} q"
  by (simp add: met_def)

lemma met_Un [simp]: "met p H (M \<union> N) q \<longleftrightarrow> met p H M q \<and> met p H N q"
  by (auto simp: met_def)

lemma met_UN [simp]: "met p H (\<Union>x \<in> X. N x) q \<longleftrightarrow> (\<forall>x \<in> X. met p H (N x) q)"
  by (auto simp: met_def)

lemma met_grows: "met p H N (snd s) \<Longrightarrow> grows p J s s' \<Longrightarrow> met p H N (snd s')"
  unfolding met_def grows_def covered_def
  by (elim conjE exE) (simp add: queued_append, blast)

lemma pushes_grows:
  assumes "pushes p s s' t pk m d" and "run_ok p" and "t \<in> rn_in_scope p"
    and "keys_ok pk" and "ks_types pk = id_types (rn_ids p t)"
    and "\<forall>k \<in> keys_set pk. J t k m d"
    and "\<forall>x \<in> N. fst x = t \<and> (\<exists>k \<in> keys_set pk. H t k (snd x))"
  shows "grows p J s s' \<and> met p H N (snd s')"
proof -
  note push = pushes_ok [OF assms(1-5)]
  have "grows p J s s'"
    using push(1,2) assms(6) unfolding grows_def justified_def by fast
  moreover have "met p H N (snd s')"
    using push(3) assms(7) unfolding met_def by fastforce
  ultimately show ?thesis ..
qed

lemma fold_grows:
  assumes "fold_res f xs s = Inr s'" and "notes_only p (fst s)"
    and step: "\<And>x s s'. x \<in> set xs \<Longrightarrow> notes_only p (fst s) \<Longrightarrow> f x s = Inr s' \<Longrightarrow>
      grows p J s s' \<and> met p H (N x) (snd s')"
  shows "grows p J s s' \<and> met p H (\<Union>x \<in> set xs. N x) (snd s')"
  using assms
proof (induction xs arbitrary: s)
  case Nil
  then show ?case by simp
next
  case (Cons x xs)
  obtain s1 where s1: "f x s = Inr s1" "fold_res f xs s1 = Inr s'"
    using Cons.prems(1) by (auto simp: result_simps)
  have 1: "grows p J s s1" "met p H (N x) (snd s1)"
    using Cons.prems(3) [OF _ Cons.prems(2) s1(1)] by auto
  have 2: "grows p J s1 s' \<and> met p H (\<Union>x \<in> set xs. N x) (snd s')"
    by (rule Cons.IH [OF s1(2) grows_notes [OF 1(1) Cons.prems(2)]])
      (rule Cons.prems(3), simp_all)
  then show ?case
    using 1 grows_trans [of p J s s1 s'] met_grows [of p H "N x" s1 J s'] by auto
qed

subsection \<open>Whole steps\<close>

text \<open>
  What has to be shown of each chunk's keys (a justification, and the rows they meet) for a
  whole step to have it. The three predicates leave open what \<open>J\<close>, \<open>H\<close> and \<open>N\<close> are.
\<close>

definition enters :: "run \<Rightarrow> foreign_key \<Rightarrow> bool" where
  "enters p fk \<longleftrightarrow> fk_parent fk \<in> rn_in_scope p \<and> fk_parent fk \<notin> rn_lookups p"

definition sound_parents ::
  "reader \<Rightarrow> run \<Rightarrow> item \<Rightarrow> keys \<Rightarrow> justification \<Rightarrow> (table_ref \<Rightarrow> key_tuple \<Rightarrow> 'r \<Rightarrow> bool)
    \<Rightarrow> (foreign_key \<Rightarrow> chunk \<Rightarrow> (table_ref \<times> 'r) set) \<Rightarrow> bool" where
  "sound_parents rd p it fresh J H N \<longleftrightarrow>
     (\<forall>fk types ch pk.
        fk \<in> set (outgoing p (it_table it)) \<longrightarrow> follows_as_parent fk \<longrightarrow> enters p fk \<longrightarrow>
        types_for (rn_by_ref p (fk_parent fk)) (fk_parent_cols fk) = Inr types \<longrightarrow>
        ch \<in> set (keys_chunks fresh chunk_size) \<longrightarrow> parent_pk rd p (it_table it) fk types ch pk \<longrightarrow>
        (\<forall>k \<in> keys_set pk. J (fk_parent fk) k ParentOnly (it_depth it))
        \<and> (\<forall>x \<in> N fk ch. fst x = fk_parent fk \<and> (\<exists>k \<in> keys_set pk. H (fk_parent fk) k (snd x))))"

definition sound_virtual ::
  "reader \<Rightarrow> run \<Rightarrow> item \<Rightarrow> keys \<Rightarrow> justification \<Rightarrow> (table_ref \<Rightarrow> key_tuple \<Rightarrow> 'r \<Rightarrow> bool)
    \<Rightarrow> (pair_plan \<Rightarrow> virtual_edge \<Rightarrow> chunk \<Rightarrow> (table_ref \<times> 'r) set) \<Rightarrow> bool" where
  "sound_virtual rd p it fresh J H N \<longleftrightarrow>
     (\<forall>pp e ch pk.
        pp \<in> set (rn_inferred p (it_table it)) \<longrightarrow> e \<in> set (pp_edges pp) \<longrightarrow> enters p (ve_fk e) \<longrightarrow>
        ch \<in> set (keys_chunks fresh chunk_size) \<longrightarrow> virtual_pk rd p (it_table it) pp e ch pk \<longrightarrow>
        (\<forall>k \<in> keys_set pk. J (fk_parent (ve_fk e)) k ParentOnly (it_depth it))
        \<and> (\<forall>x \<in> N pp e ch. fst x = fk_parent (ve_fk e)
             \<and> (\<exists>k \<in> keys_set pk. H (fk_parent (ve_fk e)) k (snd x))))"

definition sound_children ::
  "reader \<Rightarrow> run \<Rightarrow> item \<Rightarrow> keys \<Rightarrow> justification \<Rightarrow> bool" where
  "sound_children rd p it fresh J \<longleftrightarrow>
     (\<forall>fk types refk ch ck.
        fk \<in> set (incoming p (it_table it)) \<longrightarrow> follows_as_child fk \<longrightarrow>
        fk_child fk \<in> rn_in_scope p \<longrightarrow> fk_child fk \<notin> rn_lookups p \<longrightarrow>
        types_for (rn_by_ref p (it_table it)) (fk_parent_cols fk) = Inr types \<longrightarrow>
        referenced_keys rd p (it_table it) (fk_parent_cols fk) types fresh = Inr refk \<longrightarrow>
        ch \<in> set (keys_chunks refk chunk_size) \<longrightarrow>
        child_ck rd p fk types (per_key_cap p fk) ch ck \<longrightarrow>
        (\<forall>k \<in> keys_set ck. J (fk_child fk) k ChildOK (it_depth it + 1)))"

lemma parent_edge_grows:
  assumes sound: "sound_parents rd p it fresh J H N" and "run_ok p" and "notes_only p (fst s)"
    and fk: "fk \<in> set (outgoing p (it_table it))" and "parent_edge rd it fresh fk s = Inr s'"
  shows "grows p J s s' \<and> met p H (if follows_as_parent fk \<and> enters p fk
      then \<Union>ch \<in> set (keys_chunks fresh chunk_size). N fk ch else {}) (snd s')"
proof (cases "follows_as_parent fk \<and> enters p fk")
  case False
  then have "s' = s"
    using assms(5) same_planD [OF notes_only_plan [OF assms(3)]]
    by (auto simp: parent_edge_def enters_def Let_def split: if_splits)
  moreover have "(if follows_as_parent fk \<and> enters p fk
      then \<Union>ch \<in> set (keys_chunks fresh chunk_size). N fk ch else {}) = {}"
    by (rule if_not_P [OF False])
  ultimately show ?thesis by (simp only: grows_refl met_empty)
next
  case True
  obtain types where types: "types_for (rn_by_ref p (fk_parent fk)) (fk_parent_cols fk) = Inr types"
    "fold_res (parent_chunk rd it fk types) (keys_chunks fresh chunk_size) s = Inr s'"
    using True assms(3,5) same_planD [OF notes_only_plan [OF assms(3)]]
    by (auto simp: parent_edge_def enters_def Let_def result_simps)
  have "grows p J s s' \<and> met p H (\<Union>ch \<in> set (keys_chunks fresh chunk_size). N fk ch) (snd s')"
  proof (rule fold_grows [OF types(2) assms(3)])
    fix ch s s'
    assume ch: "ch \<in> set (keys_chunks fresh chunk_size)" and n: "notes_only p (fst s)"
      and step: "parent_chunk rd it fk types ch s = Inr s'"
    have scope: "fk_parent fk \<in> rn_in_scope p" using True by (simp add: enters_def)
    obtain pk where pk: "pushes p s s' (fk_parent fk) pk ParentOnly (it_depth it)"
      "keys_ok pk" "ks_types pk = id_types (rn_ids p (fk_parent fk))"
      "parent_pk rd p (it_table it) fk types ch pk"
      using parent_chunk_pushes [OF step assms(2) n scope types(1)] by blast
    have "(\<forall>k \<in> keys_set pk. J (fk_parent fk) k ParentOnly (it_depth it))
        \<and> (\<forall>x \<in> N fk ch. fst x = fk_parent fk \<and> (\<exists>k \<in> keys_set pk. H (fk_parent fk) k (snd x)))"
      using sound fk True types(1) ch pk(4) unfolding sound_parents_def by blast
    then show "grows p J s s' \<and> met p H (N fk ch) (snd s')"
      using pushes_grows [OF pk(1) assms(2) scope pk(2,3)] by blast
  qed
  with True show ?thesis by simp
qed

lemma by_value_new_edge:
  "distinct (map ve_value es) \<Longrightarrow> e \<in> set es \<Longrightarrow>
    by_value_new es (ve_value e) = Some (new_keys (ve_types e))"
proof -
  assume d: "distinct (map ve_value es)" and e: "e \<in> set es"
  obtain e' where f: "find (\<lambda>x. ve_value x = ve_value e) es = Some e'"
    using e by (cases "find (\<lambda>x. ve_value x = ve_value e) es") (auto simp: find_None_iff)
  then have "e' \<in> set es" "ve_value e' = ve_value e"
    by (auto simp: find_Some_iff)
  then have "e' = e" using d e by (auto simp: distinct_map inj_on_def)
  with f show ?thesis by (simp add: by_value_new_Some [OF d])
qed

lemma notes_only_split_fold: "notes_only (fst s) (fst (fold (split_value pp) ts s))"
proof (induction ts arbitrary: s)
  case (Cons t ts)
  then show ?case
    using notes_only_trans [OF notes_only_split_value [of s pp t]] by simp
qed simp

text \<open>The set of every edge's value, after an answer has been split.\<close>

lemma split_answer:
  assumes "run_ok p" and pp: "pp \<in> set (rn_inferred p t)" and e: "e \<in> set (pp_edges pp)"
    and got: "keys_ok got" "ks_types got = [pp_type_type pp, pp_id_type pp]"
    and split: "fold (split_value pp) (keys_tuples got) (q, by_value_new (pp_edges pp)) = (q', m)"
  shows "\<exists>refs. m (ve_value e) = Some refs \<and> keys_ok refs
    \<and> ks_types refs = ve_types e \<and> keys_set refs = value_keys pp e (keys_set got)"
proof -
  have inf: "distinct (map ve_value (pp_edges pp))" "edge_ok p pp e"
    using assms(1) pp e by (auto simp: run_ok_def plan_ok_def inferred_ok_def)
  then obtain ty where ty: "ve_types e = [ty]" "kt_kind ty = kt_kind (pp_id_type pp)"
    by (auto simp: edge_ok_def)
  have tuples: "\<forall>t \<in> set (keys_tuples got). tuple_ok [pp_type_type pp, pp_id_type pp] t"
    using ks.tuples_tuple_ok [OF got(1)] got(2) by simp
  show ?thesis
    using split_fold [OF tuples e ty, of "by_value_new (pp_edges pp)" "new_keys (ve_types e)" q]
      by_value_new_edge [OF inf(1) e] split ty(1) got(1)
    by (auto simp: ks.new_ok ks.new_abs ks.tuples_set)
qed

text \<open>One edge of a pair, whose collected set is what \<open>virtual_pk\<close> says.\<close>

lemma push_edge_grows:
  assumes step: "push_edge rd it pp m e s = Inr s'" and "run_ok p" and n: "notes_only p (fst s)"
    and refs: "m (ve_value e) = Some refs" "keys_ok refs"
    and sound: "\<And>pk. enters p (ve_fk e) \<Longrightarrow>
        virtual_identity_keys rd p (fk_parent (ve_fk e)) (fk_parent_cols (ve_fk e)) (ve_types e) refs
          = Inr pk \<or> keys_set refs = {} \<and> keys_set pk = {} \<Longrightarrow>
        (\<forall>k \<in> keys_set pk. J (fk_parent (ve_fk e)) k ParentOnly (it_depth it))
        \<and> (\<forall>x \<in> N. fst x = fk_parent (ve_fk e)
             \<and> (\<exists>k \<in> keys_set pk. H (fk_parent (ve_fk e)) k (snd x)))"
  shows "grows p J s s' \<and> met p H (if enters p (ve_fk e) then N else {}) (snd s')"
proof (cases "enters p (ve_fk e)")
  case False
  then have "s' = s"
    using step refs(1) same_planD [OF notes_only_plan [OF n]]
    by (cases s) (auto simp: push_edge_def enters_def Let_def split: if_splits)
  with False show ?thesis by simp
next
  case True
  then have scope: "fk_parent (ve_fk e) \<in> rn_in_scope p" "fk_parent (ve_fk e) \<notin> rn_lookups p"
    by (simp_all add: enters_def)
  obtain pk where pk: "pushes p s s' (fk_parent (ve_fk e)) pk ParentOnly (it_depth it)"
    "keys_ok pk" "ks_types pk = id_types (rn_ids p (fk_parent (ve_fk e)))"
    "virtual_identity_keys rd p (fk_parent (ve_fk e)) (fk_parent_cols (ve_fk e))
       (ve_types e) refs = Inr pk \<or> keys_set refs = {} \<and> keys_set pk = {}"
    using push_edge_pushes [OF step assms(2) n scope refs] by blast
  note sound [OF True pk(4)]
  then show ?thesis
    unfolding if_P [OF True] by (intro pushes_grows [OF pk(1) assms(2) scope(1) pk(2,3)]) blast+
qed

lemma virtual_chunk_grows:
  assumes sound: "sound_virtual rd p it fresh J H N" and "run_ok p" and n: "notes_only p (fst s)"
    and pp: "pp \<in> set (rn_inferred p (it_table it))"
    and ch: "ch \<in> set (keys_chunks fresh chunk_size)"
    and step: "virtual_chunk rd it pp ch s = Inr s'"
  shows "grows p J s s'
    \<and> met p H (\<Union>e \<in> set (pp_edges pp). if enters p (ve_fk e) then N pp e ch else {}) (snd s')"
proof -
  obtain q out where s: "s = (q, out)" by (cases s)
  have nq: "notes_only p q" using n by (simp add: s)
  note ids = same_planD(4) [OF notes_only_plan [OF nq]]
  let ?idn = "rn_ids p (it_table it)"
  let ?cols = "[pl_type_col (pp_pair pp), pl_id_col (pp_pair pp)]"
  let ?types = "[pp_type_type pp, pp_id_type pp]"
  let ?st = "MapKeys (it_table it) (id_columns ?idn) (id_types ?idn) ?cols ?types ?cols"
  obtain got where got: "read_keys rd ?st ?types (chunk_args ch (length (id_types ?idn))) = Inr got"
    using step by (auto simp: virtual_chunk_def s ids Let_def result_simps)
  note a = read_keys_answer [OF got]
  have pk: "virtual_pk rd p (it_table it) pp e ch pk"
    if "keys_ok refs" "ks_types refs = ve_types e" "keys_set refs = value_keys pp e (keys_set got)"
      "virtual_identity_keys rd p (fk_parent (ve_fk e)) (fk_parent_cols (ve_fk e)) (ve_types e) refs
        = Inr pk \<or> keys_set refs = {} \<and> keys_set pk = {}" for refs e pk
    unfolding virtual_pk_def Let_def using that a by (intro exI [of _ refs]) simp
  note wanted = sound [unfolded sound_virtual_def, rule_format, OF pp _ _ ch]
  show ?thesis
  proof (cases "keys_len got = 0")
    case True
    then have none: "keys_set got = {}" "s' = s"
      using step got a(1) by (simp_all add: virtual_chunk_def s ids Let_def ks.len_zero_iff)
    have "N pp e ch = {}" if "e \<in> set (pp_edges pp)" "enters p (ve_fk e)" for e
      using wanted [OF that pk [of "new_keys (ve_types e)" e "new_keys []"]] none(1)
      by (auto simp: ks.new_ok ks.new_abs value_keys_def)
    with none(2) show ?thesis by simp
  next
    case False
    obtain q' m where split: "fold (split_value pp) (keys_tuples got) (q, by_value_new (pp_edges pp))
        = (q', m)" by fastforce
    have fold: "fold_res (push_edge rd it pp m) (pp_edges pp) (q', out) = Inr s'"
      using step got False split by (simp add: virtual_chunk_def s ids Let_def)
    have qq': "notes_only q q'"
      using notes_only_split_fold [of "(q, by_value_new (pp_edges pp))" pp "keys_tuples got"]
      by (simp add: split)
    have "grows p J (q', out) s' \<and> met p H (\<Union>e \<in> set (pp_edges pp).
        if enters p (ve_fk e) then N pp e ch else {}) (snd s')"
    proof (rule fold_grows [OF fold])
      show "notes_only p (fst (q', out))" using notes_only_trans [OF nq qq'] by simp
    next
      fix e s s'
      assume e: "e \<in> set (pp_edges pp)" and ns: "notes_only p (fst s)"
        and step: "push_edge rd it pp m e s = Inr s'"
      obtain refs where refs: "m (ve_value e) = Some refs" "keys_ok refs"
        "ks_types refs = ve_types e" "keys_set refs = value_keys pp e (keys_set got)"
        using split_answer [OF assms(2) pp e a(1,2) split] by blast
      show "grows p J s s' \<and> met p H (if enters p (ve_fk e) then N pp e ch else {}) (snd s')"
        by (rule push_edge_grows [OF step assms(2) ns refs(1,2)])
          (rule wanted [OF e _ pk [OF refs(2-4)]])
    qed
    moreover have "grows p J s (q', out)" using qq' by (simp add: s grows_def)
    ultimately show ?thesis using grows_trans by blast
  qed
qed

text \<open>The rows a whole item wants: through its edges and through its pairs.\<close>

definition wanted_parents ::
  "run \<Rightarrow> item \<Rightarrow> keys \<Rightarrow> (foreign_key \<Rightarrow> chunk \<Rightarrow> 'x set) \<Rightarrow> 'x set" where
  "wanted_parents p it fresh N =
     (\<Union>fk \<in> set (outgoing p (it_table it)).
        if follows_as_parent fk \<and> enters p fk
        then \<Union>ch \<in> set (keys_chunks fresh chunk_size). N fk ch else {})"

definition wanted_virtual ::
  "run \<Rightarrow> item \<Rightarrow> keys \<Rightarrow> (pair_plan \<Rightarrow> virtual_edge \<Rightarrow> chunk \<Rightarrow> 'x set) \<Rightarrow> 'x set" where
  "wanted_virtual p it fresh N =
     (\<Union>pp \<in> set (rn_inferred p (it_table it)). \<Union>ch \<in> set (keys_chunks fresh chunk_size).
        \<Union>e \<in> set (pp_edges pp). if enters p (ve_fk e) then N pp e ch else {})"

lemma parents_grows:
  assumes "sound_parents rd p it fresh J H N" and "sound_virtual rd p it fresh J H N'"
    and "run_ok p" and "parents rd p it fresh = Inr s'"
  shows "grows p J (p, []) s'
    \<and> met p H (wanted_parents p it fresh N \<union> wanted_virtual p it fresh N') (snd s')"
proof -
  obtain s1 where s1: "fold_res (parent_edge rd it fresh) (outgoing p (it_table it)) (p, []) = Inr s1"
    "virtual_parents rd it fresh s1 = Inr s'"
    using assms(4) by (auto simp: parents_def result_simps)
  have 1: "grows p J (p, []) s1 \<and> met p H (wanted_parents p it fresh N) (snd s1)"
    unfolding wanted_parents_def
    by (rule fold_grows [OF s1(1)]) (simp, rule parent_edge_grows [OF assms(1,3)])
  then have n1: "notes_only p (fst s1)" using grows_notes by fastforce
  have "fold_res (\<lambda>pp. fold_res (virtual_chunk rd it pp) (keys_chunks fresh chunk_size))
      (rn_inferred p (it_table it)) s1 = Inr s'"
    using s1(2) same_planD(6) [OF notes_only_plan [OF n1]] by (simp add: virtual_parents_def)
  then have "grows p J s1 s' \<and> met p H (wanted_virtual p it fresh N') (snd s')"
    unfolding wanted_virtual_def
  proof (rule fold_grows [OF _ n1])
    fix pp s s'
    assume pp: "pp \<in> set (rn_inferred p (it_table it))" and n: "notes_only p (fst s)"
      and step: "fold_res (virtual_chunk rd it pp) (keys_chunks fresh chunk_size) s = Inr s'"
    show "grows p J s s' \<and> met p H (\<Union>ch \<in> set (keys_chunks fresh chunk_size).
        \<Union>e \<in> set (pp_edges pp). if enters p (ve_fk e) then N' pp e ch else {}) (snd s')"
      by (rule fold_grows [OF step n]) (rule virtual_chunk_grows [OF assms(2,3) _ pp])
  qed
  with 1 show ?thesis using grows_trans met_grows by (metis met_Un)
qed

lemma child_edge_grows:
  assumes sound: "sound_children rd p it fresh J" and "run_ok p" and n: "notes_only p (fst s)"
    and fk: "fk \<in> set (incoming p (it_table it))" and step: "child_edge rd it fresh fk s = Inr s'"
  shows "grows p J s s'"
proof (cases "follows_as_child fk \<and> fk_child fk \<in> rn_in_scope p \<and> fk_child fk \<notin> rn_lookups p")
  case False
  then have "s' = s"
    using step same_planD [OF notes_only_plan [OF n]]
    by (auto simp: child_edge_def Let_def split: if_splits)
  then show ?thesis by simp
next
  case True
  have cong: "referenced_keys rd (fst s) = referenced_keys rd p"
    using same_planD(4) [OF notes_only_plan [OF n]] by (simp add: referenced_keys_def fun_eq_iff)
  have cap: "per_key_cap (fst s) fk = per_key_cap p fk"
    using same_planD(1) [OF notes_only_plan [OF n]] by (simp add: per_key_cap_def split: option.split)
  obtain types refk where r: "types_for (rn_by_ref p (it_table it)) (fk_parent_cols fk) = Inr types"
    "referenced_keys rd p (it_table it) (fk_parent_cols fk) types fresh = Inr refk"
    "fold_res (child_chunk rd it fk types (per_key_cap p fk)) (keys_chunks refk chunk_size) s = Inr s'"
    using step True same_planD [OF notes_only_plan [OF n]] cong cap
    by (auto simp: child_edge_def Let_def result_simps)
  have "grows p J s s' \<and> met p (\<lambda>_ _ _. True) (\<Union>ch \<in> set (keys_chunks refk chunk_size). {}) (snd s')"
  proof (rule fold_grows [OF r(3) n])
    fix ch s s'
    assume ch: "ch \<in> set (keys_chunks refk chunk_size)" and ns: "notes_only p (fst s)"
      and step: "child_chunk rd it fk types (per_key_cap p fk) ch s = Inr s'"
    obtain ck where ck: "pushes p s s' (fk_child fk) ck ChildOK (it_depth it + 1)"
      "keys_ok ck" "ks_types ck = id_types (rn_ids p (fk_child fk))"
      "child_ck rd p fk types (per_key_cap p fk) ch ck"
      using child_chunk_pushes [OF step ns] by blast
    have "\<forall>k \<in> keys_set ck. J (fk_child fk) k ChildOK (it_depth it + 1)"
      using sound fk True r(1,2) ch ck(4) unfolding sound_children_def by blast
    then show "grows p J s s' \<and> met p (\<lambda>_ _ _. True) {} (snd s')"
      using pushes_grows [OF ck(1) assms(2) _ ck(2,3), where N = "{}"] True by blast
  qed
  then show ?thesis ..
qed

lemma children_grows:
  assumes "sound_children rd p it fresh J" and "run_ok p" and "notes_only p q"
    and "children rd q it fresh = Inr s'"
  shows "grows p J (q, []) s'"
proof -
  have f: "fold_res (child_edge rd it fresh) (incoming p (it_table it)) (q, []) = Inr s'"
    using assms(4) same_planD(8) [OF notes_only_plan [OF assms(3)]] by (simp add: children_def)
  have "grows p J (q, []) s'
      \<and> met p (\<lambda>_ _ _. True) (\<Union>fk \<in> set (incoming p (it_table it)). {}) (snd s')"
    by (rule fold_grows [OF f])
      (use assms(3) child_edge_grows [OF assms(1,2)] in auto)
  then show ?thesis ..
qed

end
