(* ===== verification/Walk_Returns.thy ===== *)
theory Walk_Returns
  imports Walk_Correct
begin

text \<open>
  The loop: one iteration either drops an item that adds nothing or selects at least one new
  row and is refused past the row budget, so the walk returns on every reader, with an error
  or with a run whose row count is the number of distinct rows selected and within budget.
\<close>

subsection \<open>One iteration\<close>

text \<open>\<open>stale\<close>: nothing new. \<open>taken\<close>: the run after \<open>absorb\<close> and the marks, before any push.\<close>

definition taken :: "run \<Rightarrow> item \<Rightarrow> run" where
  "taken p it = mark (absorb p (it_table it) (subtract p (it_table it) (it_keys it))) it"

abbreviation fresh_keys :: "run \<Rightarrow> item \<Rightarrow> keys" where
  "fresh_keys p it \<equiv> subtract p (it_table it) (it_keys it)"

lemma taken_same_plan [simp]: "same_plan p (taken p it)"
  unfolding taken_def by (rule same_plan_trans [OF absorb_same_plan mark_same_plan])

lemma taken_ok:
  assumes "run_ok p" and "item_ok p it"
  shows "run_ok (taken p it)"
    and "sel (taken p it) = (sel p)(it_table it := sel p (it_table it) \<union> keys_set (it_keys it))"
    and "rn_selected_row (taken p it) = rn_selected_row p + int (keys_len (fresh_keys p it))"
proof -
  have it: "it_table it \<in> rn_in_scope p" "keys_ok (it_keys it)"
    "ks_types (it_keys it) = id_types (rn_ids p (it_table it))"
    using assms(2) by (simp_all add: item_ok_def)
  note sub = subtract_ok [OF assms(1) it]
  note abs = absorb_ok [OF assms(1) it(1) sub(1,2)]
  show "run_ok (taken p it)" by (simp add: taken_def abs(1))
  show "sel (taken p it) = (sel p)(it_table it := sel p (it_table it) \<union> keys_set (it_keys it))"
    by (simp add: taken_def abs(2) sub(3))
  show "rn_selected_row (taken p it) = rn_selected_row p + int (keys_len (fresh_keys p it))"
    using abs(3) sub(3) by (simp add: taken_def) blast
qed

lemma walk_step_cases:
  assumes "walk_step rd p it rest = Inr (p', q')" and "run_ok p" and "item_ok p it"
    and "sound_parents rd (taken p it) it (fresh_keys p it) J H N"
    and "sound_virtual rd (taken p it) it (fresh_keys p it) J H N'"
    and "it_mode it = ChildOK \<and> it_depth it < rq_depth (rn_req p) \<longrightarrow>
      sound_children rd (taken p it) it (fresh_keys p it) J"
  obtains (stale) "p' = p" "q' = rest" "keys_set (it_keys it) \<subseteq> sel p (it_table it)"
  | (fresh) "0 < keys_len (fresh_keys p it)" "check_budgets (taken p it) (it_table it) = None"
      "grows (taken p it) J (taken p it, rest) (p', q')"
      "met (taken p it) H (wanted_parents (taken p it) it (fresh_keys p it) N
         \<union> wanted_virtual (taken p it) it (fresh_keys p it) N') q'"
proof (cases "keys_len (fresh_keys p it) = 0")
  case True
  have it: "it_table it \<in> rn_in_scope p" "keys_ok (it_keys it)"
    "ks_types (it_keys it) = id_types (rn_ids p (it_table it))"
    using assms(3) by (simp_all add: item_ok_def)
  note sub = subtract_ok [OF assms(2) it]
  have "keys_set (it_keys it) \<subseteq> sel p (it_table it)"
    using True sub(1,3) by (simp add: ks.len_zero_iff)
  then show thesis
    using True assms(1) by (intro stale) (simp_all add: walk_step_def Let_def)
next
  case False
  let ?p1 = "taken p it" and ?fresh = "fresh_keys p it"
  note ok = taken_ok(1) [OF assms(2,3)]
  have budget: "check_budgets ?p1 (it_table it) = None"
    using assms(1) False by (simp add: walk_step_def taken_def Let_def split: option.splits)
  obtain p2 up where up: "parents rd ?p1 it ?fresh = Inr (p2, up)"
    using assms(1) False budget by (auto simp: walk_step_def taken_def Let_def result_simps)
  have g1: "grows ?p1 J (?p1, []) (p2, up)"
    and m1: "met ?p1 H (wanted_parents ?p1 it ?fresh N \<union> wanted_virtual ?p1 it ?fresh N') up"
    using parents_grows [OF assms(4,5) ok up] by simp_all
  have n2: "notes_only ?p1 p2" using g1 by (simp add: grows_def)
  have req: "rn_req p2 = rn_req p"
    using same_planD(1) [OF notes_only_plan [OF n2]] same_planD(1) [OF taken_same_plan, of p it] by simp
  have "grows ?p1 J (?p1, rest) (p', q') \<and> (\<exists>down. q' = rest @ up @ down)"
  proof (cases "it_mode it = ChildOK \<and> it_depth it < rq_depth (rn_req p)")
    case True
    then obtain p3 down where down: "children rd p2 it ?fresh = Inr (p3, down)"
      "p' = p3" "q' = rest @ up @ down"
      using assms(1) False budget up req
      by (auto simp: walk_step_def taken_def Let_def result_simps)
    have "grows ?p1 J (p2, []) (p3, down)"
      using children_grows [OF _ ok n2 down(1)] assms(6) True by blast
    with g1 down(2,3) show ?thesis
      by (auto simp: grows_def intro: notes_only_trans)
  next
    case False': False
    then have "p' = p2" "q' = rest @ up"
      using assms(1) False budget up req
      by (auto simp: walk_step_def taken_def Let_def result_simps)
    with g1 show ?thesis by (auto simp: grows_def)
  qed
  moreover have "met ?p1 H (wanted_parents ?p1 it ?fresh N \<union> wanted_virtual ?p1 it ?fresh N') q'"
    if "q' = rest @ up @ down" for down
    using m1 that unfolding met_def covered_def by (simp only: queued_append) blast
  ultimately show thesis using False budget by (intro fresh) auto
qed

subsection \<open>The loop returns\<close>

lemma sound_trivial:
  "sound_parents rd p it fresh (\<lambda>_ _ _ _. True) H (\<lambda>_ _. {})"
  "sound_virtual rd p it fresh (\<lambda>_ _ _ _. True) H (\<lambda>_ _ _. {})"
  "sound_children rd p it fresh (\<lambda>_ _ _ _. True)"
  by (simp_all add: sound_parents_def sound_virtual_def sound_children_def)

definition queue_ok :: "run \<Rightarrow> item list \<Rightarrow> bool" where
  "queue_ok p q \<longleftrightarrow> (\<forall>it \<in> set q. item_ok p it)"

lemma grows_queue_ok:
  assumes "grows p J (p, rest) (p', q')" and "queue_ok p rest"
  shows "queue_ok p' q'"
proof -
  have "same_plan p p'" using assms(1) by (simp add: grows_def notes_only_plan)
  with assms show ?thesis by (auto simp: grows_def queue_ok_def item_ok_same)
qed

lemma queue_ok_same: "same_plan p q \<Longrightarrow> queue_ok q its \<longleftrightarrow> queue_ok p its"
  by (simp add: queue_ok_def item_ok_same)

definition within_budget :: "run \<Rightarrow> bool" where
  "within_budget p \<longleftrightarrow> rn_selected_row p \<le> rq_row_budget (rn_req p)
     \<and> key_memory p + filter_memory p + emitted_memory p \<le> rq_memory_budget (rn_req p)"

lemma check_budgets_None: "check_budgets p t = None \<longleftrightarrow> within_budget p"
  by (auto simp: check_budgets_def within_budget_def)

lemma within_budget_notes: "notes_only p q \<Longrightarrow> within_budget q \<longleftrightarrow> within_budget p"
  by (simp add: within_budget_def key_memory_def filter_memory_def emitted_memory_def
      notes_only_def same_plan_def cong: option.case_cong)

lemma walk_step_progress:
  assumes "walk_step rd p it rest = Inr (p', q')" and "run_ok p" and "queue_ok p (it # rest)"
  shows "run_ok p' \<and> queue_ok p' q' \<and> same_plan p p'
    \<and> (p' = p \<and> q' = rest
       \<or> rn_selected_row p < rn_selected_row p' \<and> within_budget p')"
proof -
  have it: "item_ok p it" and rest: "queue_ok p rest" using assms(3) by (auto simp: queue_ok_def)
  let ?J = "\<lambda>_ _ _ _. True" and ?H = "\<lambda>_ _ (_ :: unit). True"
  have "sound_parents rd (taken p it) it (fresh_keys p it) ?J ?H (\<lambda>_ _. {})"
    "sound_virtual rd (taken p it) it (fresh_keys p it) ?J ?H (\<lambda>_ _ _. {})"
    "sound_children rd (taken p it) it (fresh_keys p it) ?J"
    by (rule sound_trivial)+
  then have snd: "sound_parents rd (taken p it) it (fresh_keys p it) ?J ?H (\<lambda>_ _. {})"
    "sound_virtual rd (taken p it) it (fresh_keys p it) ?J ?H (\<lambda>_ _ _. {})"
    "it_mode it = ChildOK \<and> it_depth it < rq_depth (rn_req p) \<longrightarrow>
      sound_children rd (taken p it) it (fresh_keys p it) ?J" by simp_all
  show ?thesis
    using assms(1,2) it snd
  proof (cases rule: walk_step_cases)
    case stale
    then show ?thesis using assms(2) rest by simp
  next
    case fresh
    have n: "notes_only (taken p it) p'" using fresh(3) by (simp add: grows_def)
    have "run_ok p'" using taken_ok(1) [OF assms(2) it] run_ok_notes [OF n] by simp
    moreover have "queue_ok p' q'"
      using grows_queue_ok [OF fresh(3)] rest queue_ok_same [OF taken_same_plan] by blast
    moreover have "same_plan p p'"
      using same_plan_trans [OF taken_same_plan notes_only_plan [OF n]] .
    moreover have "rn_selected_row p < rn_selected_row p'"
      using fresh(1) taken_ok(3) [OF assms(2) it] n by (simp add: notes_only_def)
    moreover have "within_budget p'"
      using fresh(2) check_budgets_None within_budget_notes [OF n] by blast
    ultimately show ?thesis by blast
  qed
qed

definition walk_measure :: "(run \<times> item list) rel" where
  "walk_measure = measures
     [\<lambda>(p, q). nat (rq_row_budget (rn_req p) + 1 - rn_selected_row p), \<lambda>(p, q). length q]"

lemma wf_walk_measure: "wf walk_measure"
  by (simp add: walk_measure_def)

lemma walk_loop_returns:
  assumes "run_ok p" and "queue_ok p q"
  shows "\<exists>r. walk_loop rd p q = Some r"
  using assms
proof (induction "(p, q)" arbitrary: p q rule: wf_induct_rule [OF wf_walk_measure])
  case (1 p q)
  show ?case
  proof (cases q)
    case Nil
    then show ?thesis by (simp add: walk_loop.simps)
  next
    case (Cons it rest)
    show ?thesis
    proof (cases "walk_step rd p it rest")
      case (Inl e)
      with Cons show ?thesis by (simp add: walk_loop.simps)
    next
      case (Inr s)
      then obtain p' q' where step: "walk_step rd p it rest = Inr (p', q')" by (cases s) auto
      have prog: "run_ok p'" "queue_ok p' q'" "same_plan p p'"
        "p' = p \<and> q' = rest \<or> rn_selected_row p < rn_selected_row p' \<and> within_budget p'"
        using walk_step_progress [OF step] 1(2,3) Cons by blast+
      have "((p', q'), (p, q)) \<in> walk_measure"
        using prog(4) Cons same_planD(1) [OF prog(3)]
        by (auto simp: walk_measure_def within_budget_def)
      then obtain r where "walk_loop rd p' q' = Some r" using 1(1) prog(1,2) by blast
      with Cons step show ?thesis by (subst walk_loop.simps) simp
    qed
  qed
qed

text \<open>What holds before a step and is kept by it holds of the run the loop returns.\<close>

lemma walk_loop_invariant:
  assumes "walk_loop rd p q = Some (Inr p')" and "I p q"
    and step: "\<And>p it rest p' q'. I p (it # rest) \<Longrightarrow> walk_step rd p it rest = Inr (p', q') \<Longrightarrow> I p' q'"
  shows "I p' []"
proof -
  have "rd = rd \<longrightarrow> Inr p' = (Inr p' :: plan_error + run) \<longrightarrow> I p q \<longrightarrow> I p' []"
    using assms(1)
  proof (rule walk_loop.raw_induct
      [rotated, where P = "\<lambda>rd' p q r. rd' = rd \<longrightarrow> r = Inr p' \<longrightarrow> I p q \<longrightarrow> I p' []"])
    fix loop rd1 p q r
    assume ih: "\<And>rd' p q r. loop rd' p q = Some r \<Longrightarrow>
        rd' = rd \<longrightarrow> r = Inr p' \<longrightarrow> I p q \<longrightarrow> I p' []"
      and body: "(case q of [] \<Rightarrow> Some (Inr p)
        | it # rest \<Rightarrow> (case walk_step rd1 p it rest of Inl e \<Rightarrow> Some (Inl e)
            | Inr (p', q') \<Rightarrow> loop rd1 p' q')) = Some r"
    show "rd1 = rd \<longrightarrow> r = Inr p' \<longrightarrow> I p q \<longrightarrow> I p' []"
      using body ih step
      by (cases q) (auto split: sum.splits)
  qed
  with assms(2) show ?thesis by simp
qed

end
