(* ===== verification/Walk_Snapshot.thy ===== *)
theory Walk_Snapshot
  imports Walk_Returns
begin

text \<open>
  The walk on a reader that answers as a snapshot does (the locale \<open>snapshot\<close>). Two
  invariants of the loop: every row a selected row references along a followed edge is
  selected or queued (\<open>wants\<close>, \<open>met\<close>), and every key selected or queued is there by the
  rules of \<open>included\<close>.
\<close>

subsection \<open>Rows, keys and references\<close>

definition has_key :: "key_eq \<Rightarrow> run \<Rightarrow> table_ref \<Rightarrow> key_tuple \<Rightarrow> row \<Rightarrow> bool" where
  "has_key eq p t k r \<longleftrightarrow>
     (\<exists>kr. row_key (id_types (rn_ids p t)) (id_columns (rn_ids p t)) r = Some kr
       \<and> eq (id_types (rn_ids p t)) k kr)"

definition has_identity :: "run \<Rightarrow> table_ref \<Rightarrow> row \<Rightarrow> bool" where
  "has_identity p t r \<longleftrightarrow> row_key (id_types (rn_ids p t)) (id_columns (rn_ids p t)) r \<noteq> None"

text \<open>The foreign key's meaning: both sides non-NULL, equal under the referenced columns' types.\<close>

definition references :: "key_eq \<Rightarrow> run \<Rightarrow> foreign_key \<Rightarrow> row \<Rightarrow> row \<Rightarrow> bool" where
  "references eq p fk r r' \<longleftrightarrow>
     (\<exists>types v v'. types_for (rn_by_ref p (fk_parent fk)) (fk_parent_cols fk) = Inr types
       \<and> row_key types (fk_child_cols fk) r = Some v
       \<and> row_key types (fk_parent_cols fk) r' = Some v' \<and> eq types v v')"

definition pair_references :: "key_eq \<Rightarrow> pair_plan \<Rightarrow> virtual_edge \<Rightarrow> row \<Rightarrow> row \<Rightarrow> bool" where
  "pair_references eq pp e r r' \<longleftrightarrow>
     (\<exists>a b v'. row_key [pp_type_type pp, pp_id_type pp] [pl_type_col (pp_pair pp), pl_id_col (pp_pair pp)] r
         = Some [a, b]
       \<and> render_type_value (pp_type_type pp) a = Some (ve_value e)
       \<and> row_key (ve_types e) (fk_parent_cols (ve_fk e)) r' = Some v' \<and> eq (ve_types e) [b] v')"

definition fk_wants ::
  "database \<Rightarrow> key_eq \<Rightarrow> run \<Rightarrow> foreign_key \<Rightarrow> key_tuple \<Rightarrow> (table_ref \<times> row) set" where
  "fk_wants db eq p fk k =
     {(fk_parent fk, r') | r r'. r \<in> set (db (fk_child fk)) \<and> has_key eq p (fk_child fk) k r
        \<and> r' \<in> set (db (fk_parent fk)) \<and> references eq p fk r r'
        \<and> has_identity p (fk_parent fk) r'}"

definition pair_wants ::
  "database \<Rightarrow> key_eq \<Rightarrow> run \<Rightarrow> table_ref \<Rightarrow> pair_plan \<Rightarrow> virtual_edge \<Rightarrow> key_tuple
    \<Rightarrow> (table_ref \<times> row) set" where
  "pair_wants db eq p t pp e k =
     {(fk_parent (ve_fk e), r') | r r'. r \<in> set (db t) \<and> has_key eq p t k r
        \<and> r' \<in> set (db (fk_parent (ve_fk e))) \<and> pair_references eq pp e r r'
        \<and> has_identity p (fk_parent (ve_fk e)) r'}"

text \<open>The parent rows one selected key calls for.\<close>

definition key_wants ::
  "database \<Rightarrow> key_eq \<Rightarrow> run \<Rightarrow> table_ref \<Rightarrow> key_tuple \<Rightarrow> (table_ref \<times> row) set" where
  "key_wants db eq p t k =
     (\<Union>fk \<in> set (outgoing p t). if follows_as_parent fk \<and> enters p fk
        then fk_wants db eq p fk k else {})
     \<union> (\<Union>pp \<in> set (rn_inferred p t). \<Union>e \<in> set (pp_edges pp). if enters p (ve_fk e)
        then pair_wants db eq p t pp e k else {})"

definition wants ::
  "database \<Rightarrow> key_eq \<Rightarrow> run \<Rightarrow> (table_ref \<Rightarrow> key_tuple set) \<Rightarrow> (table_ref \<times> row) set" where
  "wants db eq p K = (\<Union>t. \<Union>k \<in> K t. key_wants db eq p t k)"

lemma plan_same_preds:
  assumes "same_plan p q"
  shows "has_key eq q = has_key eq p" "has_identity q = has_identity p"
    "references eq q = references eq p" "enters q = enters p"
  using same_planD [OF assms]
  by (simp_all add: has_key_def has_identity_def references_def enters_def fun_eq_iff)

lemma fk_wants_same:
  assumes "same_plan p q"
  shows "fk_wants db eq q = fk_wants db eq p" "pair_wants db eq q = pair_wants db eq p"
  by (simp_all add: fk_wants_def pair_wants_def fun_eq_iff plan_same_preds [OF assms])

lemma wants_same: "same_plan p q \<Longrightarrow> wants db eq q = wants db eq p"
  by (simp add: wants_def key_wants_def fun_eq_iff same_planD plan_same_preds fk_wants_same)

lemma wants_grow:
  "wants db eq p (K(t := K t \<union> F)) = wants db eq p K \<union> (\<Union>k \<in> F. key_wants db eq p t k)"
proof -
  have "(\<Union>k \<in> (K(t := K t \<union> F)) u. key_wants db eq p u k)
      = (\<Union>k \<in> K u. key_wants db eq p u k)
        \<union> (if u = t then \<Union>k \<in> F. key_wants db eq p t k else {})" for u
    by auto
  then show ?thesis by (simp add: wants_def UN_Un_distrib)
qed

subsection \<open>What the reads say\<close>

lemma row_key_scan: "row_key types cols r = Some t \<longleftrightarrow> scan_row types (map r cols) = Some (Some t)"
  by (auto simp: row_key_def split: option.splits)

lemma row_key_ok: "row_key types cols r = Some t \<Longrightarrow> tuple_ok types t"
  by (auto simp: row_key_scan intro: scan_row_ok)

lemma scan_row_not_null: "scan_row types cs = Some (Some t) \<Longrightarrow> c \<in> set cs \<Longrightarrow> c \<noteq> None"
  by (induction types cs arbitrary: t rule: scan_row.induct)
    (auto simp: scan_cell_def split: option.splits)

lemma row_key_not_null: "row_key types cols r = Some t \<Longrightarrow> c \<in> set cols \<Longrightarrow> r c \<noteq> None"
  using scan_row_not_null [of types "map r cols" t "r c"] by (simp add: row_key_scan)

lemma joins_iff:
  "joins eq types cols args r \<longleftrightarrow>
    (\<exists>k \<in> set (arg_rows args). \<exists>kr. row_key types cols r = Some kr \<and> eq types k kr)"
  by (auto simp: joins_def list_ex_iff split: option.splits)

context snapshot begin

lemma map_keys_answer:
  assumes "answered rd (MapKeys t ic ity oc oty nn) args"
  shows "answer_keys rd (MapKeys t ic ity oc oty nn) oty args
    = {k. \<exists>r \<in> set (db t). joins eq ity ic args r \<and> (\<forall>c \<in> set nn. r c \<noteq> None)
        \<and> row_key oty oc r = Some k}"
proof -
  obtain rows where rows: "rd (MapKeys t ic ity oc oty nn) args = Inr rows"
    using assms by (auto simp: answered_def)
  show ?thesis
    using map_answer [OF rows]
    by (auto simp: answer_keys_def rows row_tuples_def map_rows_def row_key_scan list_all_iff)
qed

lemma child_keys_answer:
  assumes "k \<in> answer_keys rd (ChildKeys t cc ty idc idt n) idt args"
  shows "\<exists>r \<in> set (db t). joins eq ty cc args r \<and> row_key idt idc r = Some k"
proof -
  obtain rows where rows: "rd (ChildKeys t cc ty idc idt n) args = Inr rows"
    and k: "k \<in> row_tuples idt rows"
    using assms by (auto simp: answer_keys_def split: sum.splits)
  show ?thesis
    using child_answer [OF rows] k
    by (auto simp: row_tuples_def child_rows_def row_key_scan)
qed

text \<open>A translation reads the rows the given keys name, all of them and no other.\<close>

lemma translate_keys_snapshot:
  assumes "translate_keys rd ctx t ic ity oc oty from_ks = Inr out"
    and "keys_ok from_ks" and "ks_types from_ks = ity" and "ity \<noteq> []"
  shows "keys_set out = {k. \<exists>r \<in> set (db t).
      (\<exists>v \<in> keys_set from_ks. \<exists>kr. row_key ity ic r = Some kr \<and> eq ity v kr)
      \<and> row_key oty oc r = Some k}"
proof -
  note tr = translate_keys_ok [OF assms(1)]
  let ?args = "\<lambda>ch. chunk_args ch (length ity)"
  have "keys_set out = (\<Union>ch \<in> set (keys_chunks from_ks chunk_size).
      {k. \<exists>r \<in> set (db t). joins eq ity ic (?args ch) r \<and> row_key oty oc r = Some k})"
    using tr(3,4) map_keys_answer [of t ic ity oc oty "[]"] by simp
  also have "\<dots> = {k. \<exists>r \<in> set (db t).
      (\<exists>v \<in> (\<Union>ch \<in> set (keys_chunks from_ks chunk_size). set (arg_rows (?args ch))).
        \<exists>kr. row_key ity ic r = Some kr \<and> eq ity v kr) \<and> row_key oty oc r = Some k}"
    unfolding joins_iff by blast
  finally show ?thesis
    unfolding keys_chunks_cover [OF assms(2), of chunk_size, unfolded assms(3), OF assms(4)] .
qed

text \<open>The keys a parent chunk pushes meet every row that the chunk's keys reference.\<close>

lemma parent_pk_meets:
  assumes pk: "parent_pk rd p (fk_child fk) fk types ch pk" and "plan_ok p" and "enters p fk"
    and fk: "fk \<in> set (rn_fks p)"
    and ty: "types_for (rn_by_ref p (fk_parent fk)) (fk_parent_cols fk) = Inr types"
    and k: "k \<in> set (arg_rows (chunk_args ch (length (id_types (rn_ids p (fk_child fk))))))"
    and r: "r \<in> set (db (fk_child fk))" "has_key eq p (fk_child fk) k r"
    and r': "r' \<in> set (db (fk_parent fk))" "references eq p fk r r'" "has_identity p (fk_parent fk) r'"
  shows "\<exists>k' \<in> keys_set pk. has_key eq p (fk_parent fk) k' r'"
proof -
  let ?t = "fk_child fk" and ?u = "fk_parent fk"
  let ?st = "MapKeys ?t (id_columns (rn_ids p ?t)) (id_types (rn_ids p ?t)) (fk_child_cols fk) types
    (fk_child_cols fk)"
  let ?args = "chunk_args ch (length (id_types (rn_ids p ?t)))"
  obtain refs where refs: "keys_ok refs" "ks_types refs = types" "answered rd ?st ?args"
    "keys_set refs = answer_keys rd ?st types ?args"
    "identity_keys rd p ?u (fk_parent_cols fk) types refs = Inr pk
       \<or> keys_set refs = {} \<and> keys_set pk = {}"
    using pk by (auto simp: parent_pk_def Let_def)
  obtain v v' where v: "row_key types (fk_child_cols fk) r = Some v"
    "row_key types (fk_parent_cols fk) r' = Some v'" "eq types v v'"
    using r'(2) ty by (auto simp: references_def)
  have "joins eq (id_types (rn_ids p ?t)) (id_columns (rn_ids p ?t)) ?args r"
    using k r(2) unfolding joins_iff has_key_def by blast
  then have "v \<in> keys_set refs"
    using r(1) v(1) row_key_not_null [OF v(1)]
    unfolding refs(4) map_keys_answer [OF refs(3)] by blast
  then have idk: "identity_keys rd p ?u (fk_parent_cols fk) types refs = Inr pk" using refs(5) by blast
  obtain kr where kr: "row_key (id_types (rn_ids p ?u)) (id_columns (rn_ids p ?u)) r' = Some kr"
    using r'(3) by (auto simp: has_identity_def)
  show ?thesis
  proof (cases "id_columns (rn_ids p ?u) = fk_parent_cols fk")
    case True
    then have "pk = refs" using idk by (simp add: identity_keys_def Let_def)
    moreover have "types = id_types (rn_ids p ?u)"
      using True ty assms(2,3) by (auto simp: plan_ok_def ids_ok_def enters_def)
    ultimately show ?thesis using \<open>v \<in> keys_set refs\<close> v(2,3) True by (auto simp: has_key_def)
  next
    case False
    have "types \<noteq> []"
      using ty fk assms(2) types_of_columns_length
      by (fastforce simp: types_for_def plan_ok_def fks_ok_def split: option.splits)
    from False idk have "translate_keys rd (translating ?u) ?u (fk_parent_cols fk) types
        (id_columns (rn_ids p ?u)) (id_types (rn_ids p ?u)) refs = Inr pk"
      by (simp add: identity_keys_def Let_def)
    then have "kr \<in> keys_set pk"
      using translate_keys_snapshot [OF _ refs(1,2) \<open>types \<noteq> []\<close>] \<open>v \<in> keys_set refs\<close> v(2,3) r'(1) kr
      by blast
    then show ?thesis using kr eq_refl [OF row_key_ok [OF kr]] by (auto simp: has_key_def)
  qed
qed

lemma virtual_pk_meets:
  assumes pk: "virtual_pk rd p t pp e ch pk" and "plan_ok p"
    and pp: "pp \<in> set (rn_inferred p t)" "e \<in> set (pp_edges pp)"
    and k: "k \<in> set (arg_rows (chunk_args ch (length (id_types (rn_ids p t)))))"
    and r: "r \<in> set (db t)" "has_key eq p t k r"
    and r': "r' \<in> set (db (fk_parent (ve_fk e)))" "pair_references eq pp e r r'"
      "has_identity p (fk_parent (ve_fk e)) r'"
  shows "\<exists>k' \<in> keys_set pk. has_key eq p (fk_parent (ve_fk e)) k' r'"
proof -
  let ?u = "fk_parent (ve_fk e)"
  let ?cols = "[pl_type_col (pp_pair pp), pl_id_col (pp_pair pp)]"
  let ?types = "[pp_type_type pp, pp_id_type pp]"
  let ?st = "MapKeys t (id_columns (rn_ids p t)) (id_types (rn_ids p t)) ?cols ?types ?cols"
  let ?args = "chunk_args ch (length (id_types (rn_ids p t)))"
  obtain refs where refs: "keys_ok refs" "ks_types refs = ve_types e" "answered rd ?st ?args"
    "keys_set refs = value_keys pp e (answer_keys rd ?st ?types ?args)"
    "virtual_identity_keys rd p ?u (fk_parent_cols (ve_fk e)) (ve_types e) refs = Inr pk
       \<or> keys_set refs = {} \<and> keys_set pk = {}"
    using pk by (auto simp: virtual_pk_def Let_def)
  obtain a b v' where v: "row_key ?types ?cols r = Some [a, b]"
    "render_type_value (pp_type_type pp) a = Some (ve_value e)"
    "row_key (ve_types e) (fk_parent_cols (ve_fk e)) r' = Some v'" "eq (ve_types e) [b] v'"
    using r'(2) by (auto simp: pair_references_def)
  have "joins eq (id_types (rn_ids p t)) (id_columns (rn_ids p t)) ?args r"
    using k r(2) unfolding joins_iff has_key_def by blast
  then have "[a, b] \<in> answer_keys rd ?st ?types ?args"
    using r(1) v(1) row_key_not_null [OF v(1)]
    unfolding map_keys_answer [OF refs(3)] by blast
  then have b: "[b] \<in> keys_set refs"
    using v(2) unfolding refs(4) value_keys_def by force
  then have "virtual_identity_keys rd p ?u (fk_parent_cols (ve_fk e)) (ve_types e) refs = Inr pk"
    using refs(5) by blast
  then have tr: "translate_keys rd (translating ?u @ '' behind a virtual edge'') ?u
      (fk_parent_cols (ve_fk e)) (ve_types e) (id_columns (rn_ids p ?u)) (id_types (rn_ids p ?u)) refs
    = Inr pk"
    by (simp add: virtual_identity_keys_def Let_def)
  have "ve_types e \<noteq> []"
    using assms(2) pp unfolding plan_ok_def inferred_ok_def edge_ok_def by fastforce
  moreover obtain kr where kr: "row_key (id_types (rn_ids p ?u)) (id_columns (rn_ids p ?u)) r' = Some kr"
    using r'(3) by (auto simp: has_identity_def)
  ultimately have "kr \<in> keys_set pk"
    using translate_keys_snapshot [OF tr refs(1,2)] b v(3,4) r'(1) by blast
  then show ?thesis using kr eq_refl [OF row_key_ok [OF kr]] by (auto simp: has_key_def)
qed

end

end
