(* ===== verification/Walk_Theorems.thy ===== *)
theory Walk_Theorems
  imports Walk_Snapshot
begin

text \<open>
  Why a key may be in the slice (\<open>included\<close>: the seed, a parent of an included key, or a
  child of a key included in mode \<open>ChildOK\<close> above the depth limit), and the theorems of the
  walk: it returns, what it returns is complete, justified, counted and within budget.
\<close>

subsection \<open>Provenance\<close>

definition parent_key ::
  "database \<Rightarrow> key_eq \<Rightarrow> run \<Rightarrow> foreign_key \<Rightarrow> key_tuple \<Rightarrow> key_tuple \<Rightarrow> bool" where
  "parent_key db eq p fk k pk \<longleftrightarrow>
     (let u = fk_parent fk in
      \<exists>r \<in> set (db (fk_child fk)). \<exists>types v. has_key eq p (fk_child fk) k r
       \<and> types_for (rn_by_ref p u) (fk_parent_cols fk) = Inr types
       \<and> row_key types (fk_child_cols fk) r = Some v
       \<and> (if id_columns (rn_ids p u) = fk_parent_cols fk then pk = v
          else \<exists>r' \<in> set (db u). \<exists>v'. row_key types (fk_parent_cols fk) r' = Some v' \<and> eq types v v'
            \<and> row_key (id_types (rn_ids p u)) (id_columns (rn_ids p u)) r' = Some pk))"

definition pair_key ::
  "database \<Rightarrow> key_eq \<Rightarrow> run \<Rightarrow> table_ref \<Rightarrow> pair_plan \<Rightarrow> virtual_edge \<Rightarrow> key_tuple \<Rightarrow> key_tuple
    \<Rightarrow> bool" where
  "pair_key db eq p t pp e k pk \<longleftrightarrow>
     (let u = fk_parent (ve_fk e) in
      \<exists>r \<in> set (db t). \<exists>r' \<in> set (db u). has_key eq p t k r \<and> pair_references eq pp e r r'
       \<and> row_key (id_types (rn_ids p u)) (id_columns (rn_ids p u)) r' = Some pk)"

text \<open>The value a key of the parent has in the referenced columns.\<close>

definition referenced_value ::
  "database \<Rightarrow> key_eq \<Rightarrow> run \<Rightarrow> foreign_key \<Rightarrow> key_type list \<Rightarrow> key_tuple \<Rightarrow> key_tuple \<Rightarrow> bool" where
  "referenced_value db eq p fk types k v \<longleftrightarrow>
     (if id_columns (rn_ids p (fk_parent fk)) = fk_parent_cols fk then v = k
      else \<exists>r \<in> set (db (fk_parent fk)). has_key eq p (fk_parent fk) k r
        \<and> row_key types (fk_parent_cols fk) r = Some v)"

definition child_key ::
  "database \<Rightarrow> key_eq \<Rightarrow> run \<Rightarrow> foreign_key \<Rightarrow> key_tuple \<Rightarrow> key_tuple \<Rightarrow> bool" where
  "child_key db eq p fk k ck \<longleftrightarrow>
     (\<exists>types v kr. \<exists>r \<in> set (db (fk_child fk)).
        types_for (rn_by_ref p (fk_parent fk)) (fk_parent_cols fk) = Inr types
        \<and> referenced_value db eq p fk types k v
        \<and> row_key types (fk_child_cols fk) r = Some kr \<and> eq types v kr
        \<and> row_key (id_types (rn_ids p (fk_child fk))) (id_columns (rn_ids p (fk_child fk))) r = Some ck)"

definition enters_child :: "run \<Rightarrow> foreign_key \<Rightarrow> bool" where
  "enters_child p fk \<longleftrightarrow> fk_child fk \<in> rn_in_scope p \<and> fk_child fk \<notin> rn_lookups p"

inductive included ::
  "database \<Rightarrow> key_eq \<Rightarrow> run \<Rightarrow> table_ref \<Rightarrow> key_tuple set \<Rightarrow> table_ref \<Rightarrow> key_tuple \<Rightarrow> mode \<Rightarrow> int
    \<Rightarrow> bool" for db eq p root seed where
  seed: "k \<in> seed \<Longrightarrow> included db eq p root seed root k ChildOK 0"
| parent: "included db eq p root seed (fk_child fk) k m d \<Longrightarrow> fk \<in> set (rn_fks p) \<Longrightarrow>
    follows_as_parent fk \<Longrightarrow> enters p fk \<Longrightarrow> parent_key db eq p fk k pk \<Longrightarrow>
    included db eq p root seed (fk_parent fk) pk ParentOnly d"
| pair: "included db eq p root seed t k m d \<Longrightarrow> pp \<in> set (rn_inferred p t) \<Longrightarrow>
    e \<in> set (pp_edges pp) \<Longrightarrow> enters p (ve_fk e) \<Longrightarrow> pair_key db eq p t pp e k pk \<Longrightarrow>
    included db eq p root seed (fk_parent (ve_fk e)) pk ParentOnly d"
| child: "included db eq p root seed (fk_parent fk) k ChildOK d \<Longrightarrow> d < rq_depth (rn_req p) \<Longrightarrow>
    fk \<in> set (rn_fks p) \<Longrightarrow> follows_as_child fk \<Longrightarrow> enters_child p fk \<Longrightarrow>
    child_key db eq p fk k ck \<Longrightarrow>
    included db eq p root seed (fk_child fk) ck ChildOK (d + 1)"

inductive_cases included_ChildOKE: "included db eq p root seed t k ChildOK d"
inductive_cases included_ParentOnlyE: "included db eq p root seed t k ParentOnly d"

lemma included_depth:
  "included db eq p root seed t k m d \<Longrightarrow> 0 \<le> rq_depth (rn_req p) \<Longrightarrow>
    0 \<le> d \<and> d \<le> rq_depth (rn_req p)"
  by (induction rule: included.induct) auto

lemma included_mode: "included db eq p root seed t k m d \<Longrightarrow> m = ChildOK \<or> m = ParentOnly"
  by (induction rule: included.induct) auto

lemma included_table:
  "included db eq p root seed t k m d \<Longrightarrow> t \<noteq> root \<Longrightarrow> t \<in> rn_in_scope p \<and> t \<notin> rn_lookups p"
  by (induction rule: included.induct) (auto simp: enters_def enters_child_def)

lemma keys_same:
  assumes "same_plan p q"
  shows "parent_key db eq q = parent_key db eq p" "pair_key db eq q = pair_key db eq p"
    "child_key db eq q = child_key db eq p" "enters_child q = enters_child p"
  using same_planD [OF assms] plan_same_preds [OF assms]
  by (simp_all add: parent_key_def pair_key_def child_key_def referenced_value_def enters_child_def
      fun_eq_iff)

lemma included_same_imp:
  assumes "included db eq p root seed t k m d" and "same_plan p q"
  shows "included db eq q root seed t k m d"
  using assms(1)
proof induction
  case (seed k)
  then show ?case by (rule included.seed)
next
  case (parent fk k m d pk)
  then show ?case
    using assms(2) by (intro included.parent [of db eq q root seed fk k m])
      (simp_all add: same_planD keys_same plan_same_preds)
next
  case (pair t k m d pp e pk)
  then show ?case
    using assms(2) by (intro included.pair [of db eq q root seed t k m d pp])
      (simp_all add: same_planD keys_same plan_same_preds)
next
  case (child fk k d ck)
  then show ?case
    using assms(2) by (intro included.child [of db eq q root seed fk k])
      (simp_all add: same_planD keys_same)
qed

lemma same_plan_sym: "same_plan p q \<Longrightarrow> same_plan q p"
  by (simp add: same_plan_def)

lemma included_same: "same_plan p q \<Longrightarrow> included db eq q = included db eq p"
  using included_same_imp same_plan_sym by (intro ext) blast

subsection \<open>Each chunk's keys are included\<close>

context snapshot begin

abbreviation J where "J p root seed \<equiv> included db eq p root seed"

lemma fresh_chunk_keys:
  assumes "keys_ok fresh" and "ks_types fresh = types" and "types \<noteq> []"
    and "ch \<in> set (keys_chunks fresh chunk_size)"
    and "k \<in> set (arg_rows (chunk_args ch (length types)))"
  shows "k \<in> keys_set fresh"
  using keys_chunks_cover [OF assms(1), of chunk_size] assms(2-5) by auto

lemma parent_pk_included:
  assumes pk: "parent_pk rd p (fk_child fk) fk types ch pk" and "plan_ok p" and "enters p fk"
    and fk: "fk \<in> set (rn_fks p)"
    and ty: "types_for (rn_by_ref p (fk_parent fk)) (fk_parent_cols fk) = Inr types"
    and k': "k' \<in> keys_set pk"
  shows "\<exists>k \<in> set (arg_rows (chunk_args ch (length (id_types (rn_ids p (fk_child fk)))))).
    parent_key db eq p fk k k'"
proof -
  let ?t = "fk_child fk" and ?u = "fk_parent fk"
  let ?st = "MapKeys ?t (id_columns (rn_ids p ?t)) (id_types (rn_ids p ?t)) (fk_child_cols fk) types
    (fk_child_cols fk)"
  let ?args = "chunk_args ch (length (id_types (rn_ids p ?t)))"
  obtain refs where refs: "keys_ok refs" "ks_types refs = types" "answered rd ?st ?args"
    "keys_set refs = answer_keys rd ?st types ?args"
    "identity_keys rd p ?u (fk_parent_cols fk) types refs = Inr pk"
    using pk k' by (auto simp: parent_pk_def Let_def)
  have from_refs: "\<exists>k \<in> set (arg_rows ?args). \<exists>r \<in> set (db ?t). has_key eq p ?t k r
      \<and> row_key types (fk_child_cols fk) r = Some v" if "v \<in> keys_set refs" for v
    using that unfolding refs(4) map_keys_answer [OF refs(3)] joins_iff has_key_def by blast
  show ?thesis
  proof (cases "id_columns (rn_ids p ?u) = fk_parent_cols fk")
    case True
    then have "k' \<in> keys_set refs" using refs(5) k' by (simp add: identity_keys_def Let_def)
    from from_refs [OF this] show ?thesis using True ty by (auto simp: parent_key_def Let_def)
  next
    case False
    have "types \<noteq> []"
      using ty fk assms(2) types_of_columns_length
      by (fastforce simp: types_for_def plan_ok_def fks_ok_def split: option.splits)
    from False refs(5) have "translate_keys rd (translating ?u) ?u (fk_parent_cols fk) types
        (id_columns (rn_ids p ?u)) (id_types (rn_ids p ?u)) refs = Inr pk"
      by (simp add: identity_keys_def Let_def)
    from translate_keys_snapshot [OF this refs(1,2) \<open>types \<noteq> []\<close>] k'
    obtain r' v v' where r': "r' \<in> set (db ?u)" "v \<in> keys_set refs"
      "row_key types (fk_parent_cols fk) r' = Some v'" "eq types v v'"
      "row_key (id_types (rn_ids p ?u)) (id_columns (rn_ids p ?u)) r' = Some k'" by blast
    from from_refs [OF r'(2)] obtain k r where k: "k \<in> set (arg_rows ?args)"
      "r \<in> set (db ?t)" "has_key eq p ?t k r" "row_key types (fk_child_cols fk) r = Some v" by blast
    then have "parent_key db eq p fk k k'"
      unfolding parent_key_def Let_def if_not_P [OF False] using r' ty by blast
    with k(1) show ?thesis by blast
  qed
qed

lemma virtual_pk_included:
  assumes pk: "virtual_pk rd p t pp e ch pk" and "plan_ok p"
    and pp: "pp \<in> set (rn_inferred p t)" "e \<in> set (pp_edges pp)"
    and k': "k' \<in> keys_set pk"
  shows "\<exists>k \<in> set (arg_rows (chunk_args ch (length (id_types (rn_ids p t))))).
    pair_key db eq p t pp e k k'"
proof -
  let ?u = "fk_parent (ve_fk e)"
  let ?cols = "[pl_type_col (pp_pair pp), pl_id_col (pp_pair pp)]"
  let ?types = "[pp_type_type pp, pp_id_type pp]"
  let ?st = "MapKeys t (id_columns (rn_ids p t)) (id_types (rn_ids p t)) ?cols ?types ?cols"
  let ?args = "chunk_args ch (length (id_types (rn_ids p t)))"
  obtain refs where refs: "keys_ok refs" "ks_types refs = ve_types e" "answered rd ?st ?args"
    "keys_set refs = value_keys pp e (answer_keys rd ?st ?types ?args)"
    "virtual_identity_keys rd p ?u (fk_parent_cols (ve_fk e)) (ve_types e) refs = Inr pk"
    using pk k' by (auto simp: virtual_pk_def Let_def)
  have ne: "ve_types e \<noteq> []"
    using assms(2) pp unfolding plan_ok_def inferred_ok_def edge_ok_def by fastforce
  have tr: "translate_keys rd (translating ?u @ '' behind a virtual edge'') ?u
      (fk_parent_cols (ve_fk e)) (ve_types e) (id_columns (rn_ids p ?u)) (id_types (rn_ids p ?u)) refs
    = Inr pk"
    using refs(5) by (simp add: virtual_identity_keys_def Let_def)
  from translate_keys_snapshot [OF tr refs(1,2) ne] k'
  obtain r' v v' where r': "r' \<in> set (db ?u)" "v \<in> keys_set refs"
    "row_key (ve_types e) (fk_parent_cols (ve_fk e)) r' = Some v'" "eq (ve_types e) v v'"
    "row_key (id_types (rn_ids p ?u)) (id_columns (rn_ids p ?u)) r' = Some k'" by blast
  then obtain ab where ab: "ab \<in> answer_keys rd ?st ?types ?args" "v = [ab ! 1]"
    "render_type_value (pp_type_type pp) (ab ! 0) = Some (ve_value e)"
    unfolding refs(4) value_keys_def by blast
  then obtain r k where r: "r \<in> set (db t)" "k \<in> set (arg_rows ?args)" "has_key eq p t k r"
    "row_key ?types ?cols r = Some ab"
    unfolding map_keys_answer [OF refs(3)] joins_iff has_key_def by blast
  obtain a b where "ab = [a, b]" using row_key_ok [OF r(4)] by auto
  then have "pair_references eq pp e r r'"
    using r(4) ab(2,3) r'(3,4) by (auto simp: pair_references_def)
  with r r' show ?thesis unfolding pair_key_def Let_def by blast
qed

lemma child_ck_included:
  assumes ck: "child_ck rd p fk types n ch ck" and "plan_ok p" and fk: "fk \<in> set (rn_fks p)"
    and scope: "fk_parent fk \<in> rn_in_scope p"
    and ty: "types_for (rn_by_ref p (fk_parent fk)) (fk_parent_cols fk) = Inr types"
    and refk: "referenced_keys rd p (fk_parent fk) (fk_parent_cols fk) types fresh = Inr refk"
    and fresh: "keys_ok fresh" "ks_types fresh = id_types (rn_ids p (fk_parent fk))"
    and ch: "ch \<in> set (keys_chunks refk chunk_size)" and c: "c \<in> keys_set ck"
  shows "\<exists>k \<in> keys_set fresh. child_key db eq p fk k c"
proof -
  let ?u = "fk_parent fk"
  have ne: "types \<noteq> []"
    using ty fk assms(2) types_of_columns_length
    by (fastforce simp: types_for_def plan_ok_def fks_ok_def split: option.splits)
  have "keys_ok refk \<and> ks_types refk = types
      \<and> (\<forall>v \<in> keys_set refk. \<exists>k \<in> keys_set fresh. referenced_value db eq p fk types k v)"
  proof (cases "id_columns (rn_ids p ?u) = fk_parent_cols fk")
    case True
    then have "types = id_types (rn_ids p ?u)"
      using ty assms(2) scope by (auto simp: plan_ok_def ids_ok_def)
    with True refk fresh show ?thesis by (simp add: referenced_keys_def Let_def referenced_value_def)
  next
    case False
    then have tr: "translate_keys rd (translating ?u) ?u (id_columns (rn_ids p ?u))
        (id_types (rn_ids p ?u)) (fk_parent_cols fk) types fresh = Inr refk"
      using refk by (simp add: referenced_keys_def Let_def)
    show ?thesis
      using translate_keys_ok(1,2) [OF tr] False
        translate_keys_snapshot [OF tr fresh id_types_not_Nil [OF assms(2) scope]]
      by (auto simp: referenced_value_def has_key_def)
  qed
  moreover obtain r where r: "r \<in> set (db (fk_child fk))"
    "joins eq types (fk_child_cols fk) (chunk_args ch (length types)) r"
    "row_key (id_types (rn_ids p (fk_child fk))) (id_columns (rn_ids p (fk_child fk))) r = Some c"
    using child_keys_answer c ck unfolding child_ck_def Let_def by blast
  moreover from r(2) obtain v kr where v: "v \<in> set (arg_rows (chunk_args ch (length types)))"
    "row_key types (fk_child_cols fk) r = Some kr" "eq types v kr"
    unfolding joins_iff by blast
  ultimately show ?thesis
    using fresh_chunk_keys [OF _ _ ne ch v(1)] ty unfolding child_key_def by blast
qed

subsection \<open>Every step is sound\<close>

text \<open>What the keys of a chunk want, edge by edge.\<close>

definition chunk_wants_fk where
  "chunk_wants_fk p t fk ch =
     (\<Union>k \<in> set (arg_rows (chunk_args ch (length (id_types (rn_ids p t))))). fk_wants db eq p fk k)"

definition chunk_wants_pair where
  "chunk_wants_pair p t pp e ch =
     (\<Union>k \<in> set (arg_rows (chunk_args ch (length (id_types (rn_ids p t))))).
        pair_wants db eq p t pp e k)"

lemma sound_parents_snapshot:
  assumes "plan_ok p" and it: "it_table it \<in> rn_in_scope p"
    and fresh: "keys_ok fresh" "ks_types fresh = id_types (rn_ids p (it_table it))"
    and inc: "\<forall>k \<in> keys_set fresh. J p root seed (it_table it) k (it_mode it) (it_depth it)"
  shows "sound_parents rd p it fresh (J p root seed) (has_key eq p) (chunk_wants_fk p (it_table it))"
  unfolding sound_parents_def
proof (intro allI impI)
  fix fk types ch pk
  assume fk: "fk \<in> set (outgoing p (it_table it))" and f: "follows_as_parent fk" "enters p fk"
    and ty: "types_for (rn_by_ref p (fk_parent fk)) (fk_parent_cols fk) = Inr types"
    and ch: "ch \<in> set (keys_chunks fresh chunk_size)"
    and pk: "parent_pk rd p (it_table it) fk types ch pk"
  have t: "it_table it = fk_child fk" and fks: "fk \<in> set (rn_fks p)"
    using fk by (auto simp: outgoing_def)
  note pk' = pk [unfolded t]
  have "J p root seed (fk_parent fk) k' ParentOnly (it_depth it)" if k': "k' \<in> keys_set pk" for k'
  proof -
    obtain k where k: "k \<in> set (arg_rows (chunk_args ch (length (id_types (rn_ids p (fk_child fk))))))"
      "parent_key db eq p fk k k'"
      using parent_pk_included [OF pk' assms(1) f(2) fks ty k'] by blast
    have "k \<in> keys_set fresh"
      using fresh_chunk_keys [OF fresh id_types_not_Nil [OF assms(1) it] ch] k(1) t by simp
    then have "J p root seed (fk_child fk) k (it_mode it) (it_depth it)" using inc t by simp
    then show ?thesis by (rule included.parent [OF _ fks f k(2)])
  qed
  moreover have "fst x = fk_parent fk \<and> (\<exists>k \<in> keys_set pk. has_key eq p (fk_parent fk) k (snd x))"
    if "x \<in> chunk_wants_fk p (it_table it) fk ch" for x
    using that parent_pk_meets [OF pk' assms(1) f(2) fks ty] t
    unfolding chunk_wants_fk_def fk_wants_def by auto
  ultimately show "(\<forall>k \<in> keys_set pk. J p root seed (fk_parent fk) k ParentOnly (it_depth it))
      \<and> (\<forall>x \<in> chunk_wants_fk p (it_table it) fk ch. fst x = fk_parent fk
           \<and> (\<exists>k \<in> keys_set pk. has_key eq p (fk_parent fk) k (snd x)))" by blast
qed

lemma sound_virtual_snapshot:
  assumes "plan_ok p" and it: "it_table it \<in> rn_in_scope p"
    and fresh: "keys_ok fresh" "ks_types fresh = id_types (rn_ids p (it_table it))"
    and inc: "\<forall>k \<in> keys_set fresh. J p root seed (it_table it) k (it_mode it) (it_depth it)"
  shows "sound_virtual rd p it fresh (J p root seed) (has_key eq p) (chunk_wants_pair p (it_table it))"
  unfolding sound_virtual_def
proof (intro allI impI)
  fix pp e ch pk
  assume pp: "pp \<in> set (rn_inferred p (it_table it))" "e \<in> set (pp_edges pp)"
    and f: "enters p (ve_fk e)" and ch: "ch \<in> set (keys_chunks fresh chunk_size)"
    and pk: "virtual_pk rd p (it_table it) pp e ch pk"
  have "J p root seed (fk_parent (ve_fk e)) k' ParentOnly (it_depth it)" if k': "k' \<in> keys_set pk" for k'
  proof -
    obtain k where k: "k \<in> set (arg_rows (chunk_args ch (length (id_types (rn_ids p (it_table it))))))"
      "pair_key db eq p (it_table it) pp e k k'"
      using virtual_pk_included [OF pk assms(1) pp k'] by blast
    have "k \<in> keys_set fresh"
      using fresh_chunk_keys [OF fresh id_types_not_Nil [OF assms(1) it] ch] k(1) by simp
    then have "J p root seed (it_table it) k (it_mode it) (it_depth it)" using inc by simp
    then show ?thesis by (rule included.pair [OF _ pp f k(2)])
  qed
  moreover have "fst x = fk_parent (ve_fk e)
      \<and> (\<exists>k \<in> keys_set pk. has_key eq p (fk_parent (ve_fk e)) k (snd x))"
    if "x \<in> chunk_wants_pair p (it_table it) pp e ch" for x
    using that virtual_pk_meets [OF pk assms(1) pp]
    unfolding chunk_wants_pair_def pair_wants_def by auto
  ultimately show "(\<forall>k \<in> keys_set pk. J p root seed (fk_parent (ve_fk e)) k ParentOnly (it_depth it))
      \<and> (\<forall>x \<in> chunk_wants_pair p (it_table it) pp e ch. fst x = fk_parent (ve_fk e)
           \<and> (\<exists>k \<in> keys_set pk. has_key eq p (fk_parent (ve_fk e)) k (snd x)))" by blast
qed

lemma sound_children_snapshot:
  assumes "plan_ok p" and it: "it_table it \<in> rn_in_scope p"
    and fresh: "keys_ok fresh" "ks_types fresh = id_types (rn_ids p (it_table it))"
    and inc: "\<forall>k \<in> keys_set fresh. J p root seed (it_table it) k (it_mode it) (it_depth it)"
    and mode: "it_mode it = ChildOK" and depth: "it_depth it < rq_depth (rn_req p)"
  shows "sound_children rd p it fresh (J p root seed)"
  unfolding sound_children_def
proof (intro allI impI ballI)
  fix fk types refk ch ck k'
  assume fk: "fk \<in> set (incoming p (it_table it))" and f: "follows_as_child fk"
    and scope: "fk_child fk \<in> rn_in_scope p" "fk_child fk \<notin> rn_lookups p"
    and ty: "types_for (rn_by_ref p (it_table it)) (fk_parent_cols fk) = Inr types"
    and refk: "referenced_keys rd p (it_table it) (fk_parent_cols fk) types fresh = Inr refk"
    and ch: "ch \<in> set (keys_chunks refk chunk_size)"
    and ck: "child_ck rd p fk types (per_key_cap p fk) ch ck" and k': "k' \<in> keys_set ck"
  have t: "it_table it = fk_parent fk" and fks: "fk \<in> set (rn_fks p)"
    using fk by (auto simp: incoming_def)
  obtain k where k: "k \<in> keys_set fresh" "child_key db eq p fk k k'"
    using child_ck_included [OF ck assms(1) fks it [unfolded t] ty [unfolded t] refk [unfolded t]
        fresh [unfolded t] ch k'] by blast
  then show "J p root seed (fk_child fk) k' ChildOK (it_depth it + 1)"
    using inc t mode depth scope included.child [OF _ _ fks f _ k(2)]
    by (simp add: enters_child_def)
qed

lemma UN_guard_swap:
  "(\<Union>x \<in> X. if c x then \<Union>y \<in> Y. \<Union>k \<in> A y. W x k else {})
    = (\<Union>k \<in> (\<Union>y \<in> Y. A y). \<Union>x \<in> X. if c x then W x k else {})"
  by (intro set_eqI) (simp, blast)

lemma UN_pair_swap:
  "(\<Union>z \<in> Z. \<Union>y \<in> Y. \<Union>x \<in> X z. if c x then \<Union>k \<in> A y. W z x k else {})
    = (\<Union>k \<in> (\<Union>y \<in> Y. A y). \<Union>z \<in> Z. \<Union>x \<in> X z. if c x then W z x k else {})"
  by (intro set_eqI) (simp, blast)

lemma wanted_key_wants:
  assumes "plan_ok p" and it: "it_table it \<in> rn_in_scope p"
    and fresh: "keys_ok fresh" "ks_types fresh = id_types (rn_ids p (it_table it))"
  shows "wanted_parents p it fresh (chunk_wants_fk p (it_table it))
      \<union> wanted_virtual p it fresh (chunk_wants_pair p (it_table it))
    = (\<Union>k \<in> keys_set fresh. key_wants db eq p (it_table it) k)"
proof -
  have cover: "keys_set fresh = (\<Union>ch \<in> set (keys_chunks fresh chunk_size).
      set (arg_rows (chunk_args ch (length (id_types (rn_ids p (it_table it)))))))"
    using keys_chunks_cover [OF fresh(1), of chunk_size] fresh(2) id_types_not_Nil [OF assms(1) it]
    by simp
  show ?thesis
    unfolding wanted_parents_def wanted_virtual_def key_wants_def chunk_wants_fk_def
      chunk_wants_pair_def cover UN_guard_swap UN_pair_swap UN_Un_distrib ..
qed

subsection \<open>The invariant of the loop\<close>

definition walk_inv :: "run \<Rightarrow> table_ref \<Rightarrow> key_tuple set \<Rightarrow> run \<Rightarrow> item list \<Rightarrow> bool" where
  "walk_inv p0 root seed p q \<longleftrightarrow> run_ok p \<and> queue_ok p q \<and> same_plan p0 p
     \<and> (\<forall>t. \<forall>k \<in> sel p t. \<exists>m d. J p0 root seed t k m d)
     \<and> (\<forall>it \<in> set q. justified (J p0 root seed) it)
     \<and> met p (has_key eq p0) (wants db eq p0 (sel p)) q
     \<and> seed \<subseteq> covered p q root
     \<and> (within_budget p \<or> rn_selected p = rn_selected p0)"

lemma sel_notes: "notes_only p q \<Longrightarrow> sel q = sel p"
  by (simp add: sel_def notes_only_selected fun_eq_iff)

lemma covered_notes: "notes_only p q \<Longrightarrow> covered q = covered p"
  by (simp add: covered_def sel_notes fun_eq_iff)

text \<open>Popping an item moves its keys from the queue into the selection.\<close>

lemma covered_taken:
  assumes "run_ok p" and "item_ok p it"
  shows "covered p (it # rest) t \<subseteq> covered (taken p it) (rest @ new) t"
  unfolding covered_def queued_Cons queued_append taken_ok(2) [OF assms] by auto

lemma met_mono:
  assumes "met p H N q" and "\<And>t. covered p q t \<subseteq> covered p' q' t" shows "met p' H N q'"
  using assms unfolding met_def by blast

lemma walk_inv_step:
  assumes inv: "walk_inv p0 root seed p (it # rest)"
    and step: "walk_step rd p it rest = Inr (p', q')"
  shows "walk_inv p0 root seed p' q'"
proof -
  have ok: "run_ok p" "queue_ok p (it # rest)" "item_ok p it" "same_plan p0 p"
    using inv by (auto simp: walk_inv_def queue_ok_def)
  have it: "it_table it \<in> rn_in_scope p" "keys_ok (it_keys it)"
    "ks_types (it_keys it) = id_types (rn_ids p (it_table it))"
    using ok(3) by (simp_all add: item_ok_def)
  note sub = subtract_ok [OF ok(1) it]
  let ?p1 = "taken p it" and ?fresh = "fresh_keys p it"
  have s1: "same_plan p0 ?p1" by (rule same_plan_trans [OF ok(4) taken_same_plan])
  note J1 = included_same [OF s1] and H1 = plan_same_preds(1) [OF s1]
    and W1 = wants_same [OF s1]
  note same1 = same_planD [OF taken_same_plan, of p it]
  have plan1: "plan_ok ?p1" using taken_ok(1) [OF ok(1,3)] by (simp add: run_ok_def)
  have it1: "it_table it \<in> rn_in_scope ?p1" "ks_types ?fresh = id_types (rn_ids ?p1 (it_table it))"
    using it(1) sub(2) same1 by simp_all
  have inc: "\<forall>k \<in> keys_set ?fresh. J ?p1 root seed (it_table it) k (it_mode it) (it_depth it)"
    using inv sub(3) unfolding J1 walk_inv_def justified_def by auto
  note prog = walk_step_progress [OF step ok(1,2)]
  have "it_mode it = ChildOK \<and> it_depth it < rq_depth (rn_req p) \<longrightarrow>
      sound_children rd ?p1 it ?fresh (J ?p1 root seed)"
    using sound_children_snapshot [OF plan1 it1(1) sub(1) it1(2) inc] same1(1) by simp
  with step ok(1,3) sound_parents_snapshot [OF plan1 it1(1) sub(1) it1(2) inc]
    sound_virtual_snapshot [OF plan1 it1(1) sub(1) it1(2) inc]
  show ?thesis
  proof (cases rule: walk_step_cases)
    case stale
    have cov: "covered p (it # rest) t \<subseteq> covered p rest t" for t
      using stale by (auto simp: covered_def queued_Cons)
    have "met p (has_key eq p0) (wants db eq p0 (sel p)) rest"
      by (rule met_mono [OF _ cov]) (use inv in \<open>simp add: walk_inv_def\<close>)
    moreover have "seed \<subseteq> covered p rest root" using inv cov [of root] unfolding walk_inv_def by blast
    ultimately show ?thesis
      using inv prog stale unfolding walk_inv_def by auto
  next
    case fresh
    then obtain new where new: "q' = rest @ new" "\<forall>i \<in> set new. justified (J ?p1 root seed) i"
      and n: "notes_only ?p1 p'" by (auto simp: grows_def)
    have sel': "sel p' = (sel p)(it_table it := sel p (it_table it) \<union> keys_set ?fresh)"
      using sel_notes [OF n] taken_ok(2) [OF ok(1,3)] sub(3) by (simp add: fun_eq_iff)
    have cov: "covered p (it # rest) t \<subseteq> covered p' q' t" for t
      using covered_taken [OF ok(1,3)] covered_notes [OF n] new(1) by metis
    have "met p' (has_key eq p0) (wants db eq p0 (sel p)) q'"
      by (rule met_mono [OF _ cov]) (use inv in \<open>simp add: walk_inv_def\<close>)
    moreover have "met p' (has_key eq p0) (\<Union>k \<in> keys_set ?fresh. key_wants db eq ?p1 (it_table it) k) q'"
      using fresh(4) covered_notes [OF n]
      unfolding wanted_key_wants [OF plan1 it1(1) sub(1) it1(2)] H1 met_def by simp
    ultimately have "met p' (has_key eq p0) (wants db eq p0 (sel p')) q'"
      unfolding sel' wants_grow W1 [symmetric] by simp
    moreover have "\<forall>t. \<forall>k \<in> sel p' t. \<exists>m d. J p0 root seed t k m d"
      using inv inc unfolding sel' J1 walk_inv_def by auto
    moreover have "\<forall>i \<in> set q'. justified (J p0 root seed) i"
      using inv new unfolding J1 walk_inv_def by auto
    moreover have "seed \<subseteq> covered p' q' root" using inv cov [of root] unfolding walk_inv_def by blast
    moreover have "within_budget p'"
      using fresh(2) check_budgets_None within_budget_notes [OF n] by blast
    ultimately show ?thesis
      using prog same_plan_trans [OF ok(4)] unfolding walk_inv_def by blast
  qed
qed

lemma walk_result:
  assumes run: "walk rd p root = Some (Inr p')" and "run_ok p" and root: "root \<in> rn_in_scope p"
    and none: "rn_selected p = Map.empty"
  obtains seed where "seed_keys rd p root = Inr seed"
    and "walk_inv (p\<lparr>rn_why := (rn_why p)(root \<mapsto> ''root''),
           rn_root_seed_count := int (keys_len seed)\<rparr>) root (keys_set seed) p' []"
proof -
  obtain seed where seed: "seed_keys rd p root = Inr seed"
    using run by (auto simp: walk_def split: sum.splits)
  define p0 where "p0 = p\<lparr>rn_why := (rn_why p)(root \<mapsto> ''root''),
    rn_root_seed_count := int (keys_len seed)\<rparr>"
  let ?it = "\<lparr>it_table = root, it_keys = seed, it_mode = ChildOK, it_depth = 0\<rparr>"
  have same: "same_plan p p0" by (simp add: same_plan_def p0_def)
  have seed_ok: "keys_ok seed" "ks_types seed = id_types (rn_ids p root)"
    using seed read_keys_answer by (auto simp: seed_keys_def Let_def)
  have sel0: "sel p0 t = {}" for t using none by (simp add: sel_def p0_def)
  have "run_ok p0"
    using assms(2) plan_ok_same [OF same] same_planD [OF same] none
    by (simp add: run_ok_def p0_def)
  moreover have "item_ok p0 ?it"
    using seed_ok root same_planD [OF same] by (simp add: item_ok_def)
  moreover have "justified (J p0 root (keys_set seed)) ?it"
    by (auto simp: justified_def intro: included.seed)
  ultimately have "walk_inv p0 root (keys_set seed) p0 [?it]"
    unfolding walk_inv_def by (simp add: queue_ok_def sel0 wants_def covered_def queued_Cons)
  moreover have "walk_loop rd p0 [?it] = Some (Inr p')"
    using run seed by (simp add: walk_def p0_def)
  ultimately have "walk_inv p0 root (keys_set seed) p' []"
    using walk_loop_invariant [of rd p0 "[?it]" p' "walk_inv p0 root (keys_set seed)"]
      walk_inv_step by blast
  with seed that show thesis by (simp add: p0_def)
qed

end

end
