(* ===== verification/Plan_Start.thy ===== *)
theory Plan_Start
  imports Reach Walk_Theorems
begin

text \<open>
  The run the walk starts from: \<open>build\<close> over a schema and \<open>resolve_identities\<close> establish the
  invariant \<open>run_ok\<close>, so the walk's theorems hold for every schema whose tables have distinct
  names and whose foreign keys have columns.
\<close>

definition schema_ok :: "schema \<Rightarrow> bool" where
  "schema_ok s \<longleftrightarrow>
     distinct (map tab_ref (sch_tables s)) \<and> (\<forall>fk \<in> set (sch_fks s). fk_parent_cols fk \<noteq> [])"

lemma index_tables_Some:
  assumes "distinct (map tab_ref ts)" and "t \<in> set ts" and "tab_parent t = None"
  shows "index_tables ts (tab_ref t) = Some t"
proof -
  let ?xs = "map (\<lambda>t. (tab_ref t, t)) (filter (\<lambda>t. tab_parent t = None) ts)"
  have "map fst ?xs = map tab_ref (filter (\<lambda>t. tab_parent t = None) ts)" by (simp add: comp_def)
  then have "distinct (map fst (rev ?xs))"
    using distinct_map_filter [OF assms(1)] by (simp add: rev_map [symmetric] del: map_map)
  moreover have "(tab_ref t, t) \<in> set (rev ?xs)" using assms(2,3) by auto
  ultimately show ?thesis unfolding index_tables_def by (rule map_of_is_SomeI)
qed

lemma resolve_step_frame:
  assumes "resolve_step rd t p = Inr p'"
  shows "rn_selected p' = rn_selected p \<and> rn_selected_row p' = rn_selected_row p
    \<and> rn_inferred p' = rn_inferred p \<and> rn_req p' = rn_req p \<and> rn_lookups p' = rn_lookups p
    \<and> rn_fks p' = rn_fks p \<and> rn_by_ref p' = rn_by_ref p \<and> rn_tables p' = rn_tables p"
  using assms
  by (auto simp: resolve_step_def drop_table_def collect_def Let_def
      split: if_splits sum.splits plan_error.splits)

lemma resolve_identities_frame:
  assumes "resolve_identities rd p = Inr p'"
  shows "rn_selected p' = rn_selected p" "rn_selected_row p' = rn_selected_row p"
    "rn_inferred p' = rn_inferred p" "rn_req p' = rn_req p" "rn_lookups p' = rn_lookups p"
    "rn_fks p' = rn_fks p" "rn_by_ref p' = rn_by_ref p" "rn_tables p' = rn_tables p"
proof -
  let ?F = "\<lambda>p. (rn_selected p, rn_selected_row p, rn_inferred p, rn_req p, rn_lookups p,
    rn_fks p, rn_by_ref p, rn_tables p)"
  have "fold_res (resolve_step rd) ts q = Inr q' \<Longrightarrow> ?F q' = ?F q" for ts q q'
  proof (induction ts arbitrary: q)
    case (Cons t ts)
    obtain q1 where q1: "resolve_step rd t q = Inr q1" "fold_res (resolve_step rd) ts q1 = Inr q'"
      using Cons.prems by (auto simp: result_simps)
    from resolve_step_frame [OF q1(1)] Cons.IH [OF q1(2)] show ?case by auto
  qed simp
  with assms have "?F p' = ?F p" unfolding resolve_identities_def by blast
  then show "rn_selected p' = rn_selected p" "rn_selected_row p' = rn_selected_row p"
    "rn_inferred p' = rn_inferred p" "rn_req p' = rn_req p" "rn_lookups p' = rn_lookups p"
    "rn_fks p' = rn_fks p" "rn_by_ref p' = rn_by_ref p" "rn_tables p' = rn_tables p"
    by simp_all
qed

lemma build_simps:
  "rn_selected (build cells emitting s cls req) = Map.empty"
  "rn_selected_row (build cells emitting s cls req) = 0"
  "rn_inferred (build cells emitting s cls req) = (\<lambda>_. [])"
  "rn_req (build cells emitting s cls req) = req"
  "rn_lookups (build cells emitting s cls req) = {}"
  "rn_by_ref (build cells emitting s cls req) = index_tables (sch_tables s)"
  "rn_tables (build cells emitting s cls req)
     = sort_by table_before (filter (\<lambda>t. tab_parent t = None) (sch_tables s))"
  "rn_in_scope (build cells emitting s cls req)
     = tab_ref ` {t \<in> set (sch_tables s). tab_parent t = None}"
  by (simp_all add: build_def collapse_for_ranking_def Let_def set_sort_by)

lemma build_fks:
  "set (rn_fks (build cells emitting s cls req)) \<subseteq> set (sch_fks s)"
  by (auto simp: build_def collapse_for_ranking_def Let_def set_sort_by)

lemma resolved_fits:
  assumes "resolve_identities rd (build cells emitting s cls req) = Inr p" and "schema_ok s"
    and "u \<in> rn_in_scope p"
  shows "\<exists>t \<in> set (sch_tables s). tab_ref t = u \<and> tab_parent t = None
    \<and> identity_fits t (rn_ids p u)"
proof -
  let ?b = "build cells emitting s cls req"
  have "distinct (map tab_ref (rn_tables ?b))"
    using assms(2) by (simp add: schema_ok_def build_simps distinct_map_sort_by distinct_map_filter)
  note res = resolve_identities_ok [OF assms(1) this]
  then obtain t where t: "t \<in> set (sch_tables s)" "tab_parent t = None" "u = tab_ref t"
    using assms(3) by (auto simp: build_simps)
  then have "resolved p t" using res(1) by (simp add: build_simps set_sort_by)
  with t assms(3) show ?thesis by (auto simp: resolved_def)
qed

lemma resolved_run:
  assumes "resolve_identities rd (build cells emitting s cls req) = Inr p" and "schema_ok s"
  shows "run_ok p" and "rn_selected p = Map.empty"
    and "rn_in_scope p \<subseteq> tab_ref ` {t \<in> set (sch_tables s). tab_parent t = None}"
proof -
  let ?b = "build cells emitting s cls req"
  note fr = resolve_identities_frame [OF assms(1)]
  have d: "distinct (map tab_ref (sch_tables s))" using assms(2) by (simp add: schema_ok_def)
  then have "distinct (map tab_ref (rn_tables ?b))"
    by (simp add: build_simps distinct_map_sort_by distinct_map_filter)
  note res = resolve_identities_ok [OF assms(1) this]
  show scope: "rn_in_scope p \<subseteq> tab_ref ` {t \<in> set (sch_tables s). tab_parent t = None}"
    using res(2) by (simp add: build_simps)
  show none: "rn_selected p = Map.empty" by (simp add: fr build_simps)
  have "ids_ok p"
    unfolding ids_ok_def
  proof
    fix u assume u: "u \<in> rn_in_scope p"
    then obtain t where t: "t \<in> set (sch_tables s)" "tab_parent t = None" "u = tab_ref t"
      "identity_fits t (rn_ids p u)"
      using resolved_fits [OF assms] by blast
    have "rn_by_ref p u = Some t"
      using index_tables_Some [OF d t(1,2)] t(3) by (simp add: fr build_simps)
    with t(4) show "id_columns (rn_ids p u) \<noteq> []
        \<and> types_for (rn_by_ref p u) (id_columns (rn_ids p u)) = Inr (id_types (rn_ids p u))"
      by (simp add: identity_fits_def types_for_def)
  qed
  moreover have "fks_ok p"
    using build_fks [of cells emitting s cls req] assms(2)
    by (auto simp: fks_ok_def fr schema_ok_def)
  moreover have "inferred_ok p" by (simp add: inferred_ok_def fr build_simps)
  ultimately show "run_ok p"
    by (simp add: run_ok_def plan_ok_def none fr build_simps)
qed

text \<open>\<open>ready\<close>: what \<open>walk\<close> is handed.\<close>

definition ready :: "run \<Rightarrow> table_ref \<Rightarrow> bool" where
  "ready p root \<longleftrightarrow> run_ok p \<and> root \<in> rn_in_scope p \<and> rn_selected p = Map.empty"

lemma resolved_ready:
  "resolve_identities rd (build cells emitting s cls req) = Inr p \<Longrightarrow> schema_ok s \<Longrightarrow>
    root \<in> rn_in_scope p \<Longrightarrow> ready p root"
  using resolved_run by (simp add: ready_def)

text \<open>What a finished walk leaves, in the terms of the run it was given.\<close>

lemma walk_facts:
  assumes "answers rd db eq" and "ready p root" and "walk rd p root = Some (Inr p')"
  obtains seed where "seed_keys rd p root = Inr seed" and "run_ok p'" and "same_plan p p'"
    and "\<And>t k. k \<in> sel p' t \<Longrightarrow> \<exists>m d. included db eq p root (keys_set seed) t k m d"
    and "\<And>u r. (u, r) \<in> wants db eq p (sel p') \<Longrightarrow> \<exists>k \<in> sel p' u. has_key eq p u k r"
    and "keys_set seed \<subseteq> sel p' root" and "within_budget p' \<or> rn_selected p' = Map.empty"
proof -
  have ok: "run_ok p" "root \<in> rn_in_scope p" "rn_selected p = Map.empty"
    using assms(2) by (simp_all add: ready_def)
  note snap = snapshotI [OF assms(1)]
  obtain seed where seed: "seed_keys rd p root = Inr seed"
    and inv: "snapshot.walk_inv db eq (p\<lparr>rn_why := (rn_why p)(root \<mapsto> ''root''),
           rn_root_seed_count := int (keys_len seed)\<rparr>) root (keys_set seed) p' []"
    using snapshot.walk_result [OF snap assms(3) ok] by blast
  define p0 where "p0 = p\<lparr>rn_why := (rn_why p)(root \<mapsto> ''root''),
    rn_root_seed_count := int (keys_len seed)\<rparr>"
  have same: "same_plan p p0" by (simp add: same_plan_def p0_def)
  have sel0: "rn_selected p0 = Map.empty" using ok(3) by (simp add: p0_def)
  note inv' = inv [folded p0_def, unfolded snapshot.walk_inv_def [OF snap]]
  note conv = included_same [OF same] wants_same [OF same] plan_same_preds(1) [OF same]
  show thesis
  proof (rule that [OF seed])
    show "run_ok p'" "same_plan p p'"
      using inv' same_plan_trans [OF same] by blast+
    show "\<exists>m d. included db eq p root (keys_set seed) t k m d" if "k \<in> sel p' t" for t k
      using inv' that unfolding conv by blast
    show "\<exists>k \<in> sel p' u. has_key eq p u k r" if "(u, r) \<in> wants db eq p (sel p')" for u r
      using inv' that unfolding conv met_def covered_def by fastforce
    show "keys_set seed \<subseteq> sel p' root" using inv' by (simp add: covered_def)
    show "within_budget p' \<or> rn_selected p' = Map.empty" using inv' sel0 by simp
  qed
qed

text \<open>The seed: keys of rows of the root, no more than the request takes.\<close>

lemma card_row_tuples: "card (row_tuples types rows) \<le> length rows"
proof -
  have "row_tuples types rows \<subseteq> (\<lambda>r. the (the (scan_row types r))) ` set rows"
    by (force simp: row_tuples_def)
  then have "card (row_tuples types rows) \<le> card (set rows)"
    by (meson List.finite_set card_image_le card_mono finite_imageI le_trans)
  then show ?thesis using card_length le_trans by blast
qed

lemma seed_keys_rows:
  assumes "answers rd db eq" and "seed_keys rd p root = Inr seed"
  shows "int (card (keys_set seed)) \<le> rq_take (rn_req p)"
    and "\<forall>k \<in> keys_set seed. \<exists>r \<in> set (db root). has_key eq p root k r"
proof -
  let ?st = "SeedKeys root (id_columns (rn_ids p root)) (id_types (rn_ids p root))
    (rq_where (rn_req p)) (rq_take (rn_req p))"
  obtain rows where rows: "rd ?st [] = Inr rows"
    "keys_set seed = row_tuples (id_types (rn_ids p root)) rows"
    using assms(2) read_keys_ok [of rd ?st "id_types (rn_ids p root)" "[]" seed]
    by (auto simp: seed_keys_def Let_def)
  have s: "int (length rows) \<le> rq_take (rn_req p)"
    "set rows \<subseteq> set (map (\<lambda>r. map r (id_columns (rn_ids p root))) (db root))"
    using snapshot.seed_answer [OF snapshotI [OF assms(1)] rows(1)] by simp_all
  then show "int (card (keys_set seed)) \<le> rq_take (rn_req p)"
    using card_row_tuples [of "id_types (rn_ids p root)" rows] unfolding rows(2) by linarith
  show "\<forall>k \<in> keys_set seed. \<exists>r \<in> set (db root). has_key eq p root k r"
  proof
    fix k assume "k \<in> keys_set seed"
    then obtain r where r: "r \<in> set (db root)"
      "row_key (id_types (rn_ids p root)) (id_columns (rn_ids p root)) r = Some k"
      using rows(2) s(2) by (fastforce simp: row_tuples_def row_key_scan)
    then have "eq (id_types (rn_ids p root)) k k"
      using snapshot.eq_refl [OF snapshotI [OF assms(1)] row_key_ok] by blast
    with r show "\<exists>r \<in> set (db root). has_key eq p root k r" by (auto simp: has_key_def)
  qed
qed

end
