(* ===== verification/Skip.thy ===== *)
theory Skip
  imports Plan_Start
begin

text \<open>
  \<open>--skip-table\<close> and the tables a role cannot read: a table is only dropped when
  \<open>staticReach\<close> did not find it, so, over the declared foreign keys, no parent of a selected
  row's table is ever dropped.
\<close>

lemma skip_step_keeps:
  "rn_fks (skip_step root reached t p) = rn_fks p \<and> rn_req (skip_step root reached t p) = rn_req p
   \<and> rn_in_scope (skip_step root reached t p) \<subseteq> rn_in_scope p
   \<and> (u \<in> insert root reached \<longrightarrow>
        (u \<in> rn_in_scope (skip_step root reached t p) \<longleftrightarrow> u \<in> rn_in_scope p))"
  by (auto simp: skip_step_def collect_def drop_table_def Let_def)

lemma skip_steps_keep:
  "rn_fks (fold (skip_step root reached) ts p) = rn_fks p
   \<and> rn_req (fold (skip_step root reached) ts p) = rn_req p
   \<and> rn_in_scope (fold (skip_step root reached) ts p) \<subseteq> rn_in_scope p
   \<and> (u \<in> insert root reached \<longrightarrow>
        (u \<in> rn_in_scope (fold (skip_step root reached) ts p) \<longleftrightarrow> u \<in> rn_in_scope p))"
proof (induction ts arbitrary: p)
  case (Cons t ts)
  from Cons.IH [of "skip_step root reached t p"] skip_step_keeps [of root reached t p u]
  show ?case by auto
qed simp

lemma unreadable_step_keeps:
  assumes "unreadable_step root reached x p = Inr p'"
  shows "rn_fks p' = rn_fks p \<and> rn_req p' = rn_req p \<and> rn_in_scope p' \<subseteq> rn_in_scope p
    \<and> (u \<in> insert root reached \<longrightarrow> (u \<in> rn_in_scope p' \<longleftrightarrow> u \<in> rn_in_scope p))"
  using assms by (auto simp: unreadable_step_def drop_table_def Let_def split: if_splits)

lemma unreadable_steps_keep:
  "fold_res (unreadable_step root reached) xs p = Inr p' \<Longrightarrow>
    rn_fks p' = rn_fks p \<and> rn_req p' = rn_req p \<and> rn_in_scope p' \<subseteq> rn_in_scope p
    \<and> (u \<in> insert root reached \<longrightarrow> (u \<in> rn_in_scope p' \<longleftrightarrow> u \<in> rn_in_scope p))"
proof (induction xs arbitrary: p)
  case (Cons x xs)
  obtain p1 where "unreadable_step root reached x p = Inr p1"
    "fold_res (unreadable_step root reached) xs p1 = Inr p'"
    using Cons.prems by (auto simp: result_simps)
  with Cons.IH [of p1] unreadable_step_keeps [of root reached x p p1 u] show ?case by auto
qed simp

lemma apply_skip_keeps:
  assumes "apply_skip_and_privileges rd p root = Some (Inr p')"
  obtains reached where "static_reach p root = Some reached"
    and "rn_fks p' = rn_fks p" and "rn_req p' = rn_req p" and "rn_in_scope p' \<subseteq> rn_in_scope p"
    and "\<And>u. u \<in> insert root reached \<Longrightarrow> u \<in> rn_in_scope p' \<longleftrightarrow> u \<in> rn_in_scope p"
proof -
  obtain reached where r: "static_reach p root = Some reached"
    using assms by (auto simp: apply_skip_and_privileges_def split: option.splits)
  define p1 where "p1 = fold (skip_step root reached) (sort (rq_skip (rn_req p))) p"
  obtain us where us: "fold_res (unreadable_step root reached) us p1 = Inr p'"
    using assms r
    by (auto simp: apply_skip_and_privileges_def p1_def Let_def split: sum.splits)
  have k: "rn_fks p' = rn_fks p1 \<and> rn_req p' = rn_req p1 \<and> rn_in_scope p' \<subseteq> rn_in_scope p1
      \<and> (u \<in> insert root reached \<longrightarrow> (u \<in> rn_in_scope p' \<longleftrightarrow> u \<in> rn_in_scope p1))" for u
    by (rule unreadable_steps_keep [OF us])
  have l: "rn_fks p1 = rn_fks p \<and> rn_req p1 = rn_req p \<and> rn_in_scope p1 \<subseteq> rn_in_scope p
      \<and> (u \<in> insert root reached \<longrightarrow> (u \<in> rn_in_scope p1 \<longleftrightarrow> u \<in> rn_in_scope p))" for u
    unfolding p1_def by (rule skip_steps_keep)
  show thesis
  proof (rule that [OF r])
    show "rn_fks p' = rn_fks p" "rn_req p' = rn_req p" "rn_in_scope p' \<subseteq> rn_in_scope p"
      using k l by (simp_all add: order_trans [of _ "rn_in_scope p1"])
    show "u \<in> rn_in_scope p' \<longleftrightarrow> u \<in> rn_in_scope p" if "u \<in> insert root reached" for u
      using k [of u] l [of u] that by auto
  qed
qed

text \<open>Over declared edges, what the walk includes the static walk reaches.\<close>

lemma included_reach:
  assumes "included db eq p root seed t k m d" and "rn_inferred p = (\<lambda>_. [])"
  shows "table_reach p root t m d"
  using assms(1)
proof induction
  case (seed k)
  show ?case by (rule table_reach.root)
next
  case (parent fk k m d pk)
  show ?case by (rule table_reach.parent [OF parent.IH parent.hyps(2,3)])
next
  case (pair t k m d pp e pk)
  then show ?case using assms(2) by simp
next
  case (child fk k d ck)
  show ?case by (rule table_reach.child [OF child.IH child.hyps(2-4)])
qed

lemma table_reach_same_imp:
  assumes "table_reach p root t m d" and "rn_fks q = rn_fks p" and "rq_depth (rn_req q) = rq_depth (rn_req p)"
  shows "table_reach q root t m d"
  using assms(1)
proof induction
  case root
  show ?case by (rule table_reach.root)
next
  case (parent fk m d)
  then show ?case using assms(2) by (intro table_reach.parent) simp_all
next
  case (child fk d)
  then show ?case using assms(2,3) by (intro table_reach.child) simp_all
qed

lemma selected_parent_reached:
  assumes "static_reach p0 root = Some reached" and "0 \<le> rq_depth (rn_req p0)"
    and "answers rd db eq" and "ready p root" and "walk rd p root = Some (Inr p')"
    and "rn_fks p = rn_fks p0" and "rq_depth (rn_req p) = rq_depth (rn_req p0)" and "rn_inferred p = (\<lambda>_. [])"
    and "fk \<in> set (rn_fks p)" and "follows_as_parent fk" and "sel p' (fk_child fk) \<noteq> {}"
  shows "fk_parent fk \<in> reached"
proof -
  obtain k where "k \<in> sel p' (fk_child fk)" using assms(11) by blast
  then obtain seed m d where "included db eq p root (keys_set seed) (fk_child fk) k m d"
    using walk_facts [OF assms(3-5)] by metis
  then have "table_reach p root (fk_child fk) m d" by (rule included_reach [OF _ assms(8)])
  then have t: "table_reach p0 root (fk_child fk) m d"
    using assms(6,7) by (simp add: table_reach_same_imp)
  obtain r where r: "static_reach p0 root = Some r"
    "\<And>fk m d. table_reach p0 root (fk_child fk) m d \<Longrightarrow> fk \<in> set (rn_fks p0) \<Longrightarrow>
       follows_as_parent fk \<Longrightarrow> fk_parent fk \<in> r"
    using static_reach_covers [OF assms(2), of root] by metis
  show ?thesis using r(2) [OF t _ assms(10)] r(1) assms(1,6,9) by simp
qed

end
