(* ===== verification/Example.thy ===== *)
theory Example
  imports Plan_Start
begin

text \<open>
  A small source the properties are applied to: customers, and orders that reference them.
  The slice starts at the orders and takes one.
\<close>

definition ex_column :: "string \<Rightarrow> column" where
  "ex_column n =
     \<lparr>col_name = n, col_type_name = ''bigint'', col_type_oid = oid_int8, col_typmod = 0,
      col_collation = [], col_nullable = False, col_default = [], col_default_original = [],
      col_generated = [], col_identity = [], col_identity_seq = None, col_domain = [],
      col_checks = [], col_fingerprint = []\<rparr>"

definition ex_table :: "table_ref \<Rightarrow> string list \<Rightarrow> table" where
  "ex_table t cols =
     \<lparr>tab_ref = t, tab_columns = map ex_column cols, tab_pk = [''id''], tab_indexes = [],
      tab_constraints = [], tab_sequences = [], tab_partitioned = False, tab_partition_key = [],
      tab_partitions = [], tab_parent = None, tab_rls = False, tab_force_rls = False,
      tab_triggers = 0, tab_approx_rows = 5000\<rparr>"

definition ex_customers :: table_ref where "ex_customers = TableRef ''public'' ''customers''"
definition ex_orders :: table_ref where "ex_orders = TableRef ''public'' ''orders''"

definition ex_fk :: foreign_key where
  "ex_fk =
     \<lparr>fk_name = ''orders_customer_id_fkey'', fk_child = ex_orders,
      fk_child_cols = [''customer_id''], fk_parent = ex_customers, fk_parent_cols = [''id''],
      fk_match_full = False, fk_validated = True, fk_virtual = False, fk_indexed = True,
      fk_not_recreatable = False\<rparr>"

definition ex_schema :: schema where
  "ex_schema =
     \<lparr>sch_enums = [], sch_domains = [], sch_composites = [],
      sch_tables = [ex_table ex_orders [''id'', ''customer_id''], ex_table ex_customers [''id'']],
      sch_fks = [ex_fk]\<rparr>"

definition ex_request :: plan_request where
  "ex_request = with_defaults
     \<lparr>rq_root = Some ex_orders, rq_take = 1, rq_where = [], rq_cap = 0, rq_table_caps = (\<lambda>_. None),
      rq_depth = 0, rq_row_budget = 10, rq_memory_budget = 0, rq_keys = (\<lambda>_. None), rq_skip = [],
      rq_unreadable = []\<rparr>"

definition ex_row :: "(string \<times> int64) list \<Rightarrow> row" where
  "ex_row kvs c = map_option IntCell (map_of kvs c)"

definition ex_db :: database where
  "ex_db t =
     (if t = ex_customers then [ex_row [(''id'', 7)], ex_row [(''id'', 8)]]
      else if t = ex_orders
      then [ex_row [(''id'', 1), (''customer_id'', 7)], ex_row [(''id'', 2), (''customer_id'', 7)],
            ex_row [(''id'', 3), (''customer_id'', 8)]]
      else [])"

definition ex_reader :: reader where
  "ex_reader = db_reader ex_db exact_eq"

definition ex_run :: run where
  "ex_run = projr (resolve_identities ex_reader
     (build (\<lambda>_. 0) (\<lambda>_. []) ex_schema (Some (\<lambda>_. None)) ex_request))"

definition ex_done :: run where
  "ex_done = (case walk ex_reader ex_run ex_orders of Some (Inr p) \<Rightarrow> p | _ \<Rightarrow> ex_run)"

definition ex_key :: "int64 \<Rightarrow> key_tuple" where
  "ex_key i = int_tuple i"

lemma ex_walk:
  "(case walk ex_reader ex_run ex_orders of
      Some (Inr p) \<Rightarrow>
        (map_option keys_tuples (rn_selected p ex_orders),
         map_option keys_tuples (rn_selected p ex_customers))
    | _ \<Rightarrow> (None, None))
   = (Some [ex_key 1], Some [ex_key 7])"
  by code_simp

text \<open>The example meets the hypotheses of the walk's theorems.\<close>

lemma ex_answers: "answers ex_reader ex_db exact_eq"
  unfolding ex_reader_def by (rule db_reader_answers [OF exact_eq_refl])

lemma ex_resolved:
  "resolve_identities ex_reader
     (build (\<lambda>_. 0) (\<lambda>_. []) ex_schema (Some (\<lambda>_. None)) ex_request) = Inr ex_run"
proof -
  have "isl (resolve_identities ex_reader
      (build (\<lambda>_. 0) (\<lambda>_. []) ex_schema (Some (\<lambda>_. None)) ex_request)) = False"
    by code_simp
  then show ?thesis unfolding ex_run_def by (cases rule: sum.exhaust) auto
qed

lemma ex_schema_ok: "schema_ok ex_schema"
  by code_simp

lemma ex_root: "ex_orders \<in> rn_in_scope ex_run"
  by code_simp

lemma ex_ready: "ready ex_run ex_orders"
  by (rule resolved_ready [OF ex_resolved ex_schema_ok ex_root])

lemma ex_walked: "walk ex_reader ex_run ex_orders = Some (Inr ex_done)"
  using ex_walk by (auto simp: ex_done_def split: option.splits sum.splits)

lemma ex_done_tuples:
  "map_option keys_tuples (rn_selected ex_done ex_orders) = Some [ex_key 1]"
  "map_option keys_tuples (rn_selected ex_done ex_customers) = Some [ex_key 7]"
  using ex_walk by (simp_all add: ex_walked)

lemma sel_tuples:
  "run_ok p \<Longrightarrow> map_option keys_tuples (rn_selected p t) = Some ts \<Longrightarrow> sel p t = set ts"
  by (auto simp: sel_def run_ok_def ks.tuples_set)

lemma ex_done_sel:
  "run_ok ex_done \<Longrightarrow> sel ex_done ex_orders = {ex_key 1}"
  "run_ok ex_done \<Longrightarrow> sel ex_done ex_customers = {ex_key 7}"
  using sel_tuples [of ex_done] ex_done_tuples by simp_all

text \<open>The rows behind the two keys.\<close>

definition ex_order :: row where "ex_order = ex_row [(''id'', 1), (''customer_id'', 7)]"
definition ex_customer :: row where "ex_customer = ex_row [(''id'', 7)]"

lemma ex_rows: "ex_order \<in> set (ex_db ex_orders)" "ex_customer \<in> set (ex_db ex_customers)"
  by (simp_all add: ex_order_def ex_customer_def ex_db_def ex_orders_def ex_customers_def)

lemma ex_id_key:
  "row_key (id_types (rn_ids ex_run ex_orders)) (id_columns (rn_ids ex_run ex_orders)) ex_order
     = Some (ex_key 1)"
  "row_key (id_types (rn_ids ex_run ex_customers)) (id_columns (rn_ids ex_run ex_customers)) ex_customer
     = Some (ex_key 7)"
  by code_simp+

lemma ex_references: "references exact_eq ex_run ex_fk ex_order ex_customer"
proof -
  have 1: "types_for (rn_by_ref ex_run (fk_parent ex_fk)) (fk_parent_cols ex_fk)
      = Inr (id_types (rn_ids ex_run ex_customers))" by code_simp
  have 2: "row_key (id_types (rn_ids ex_run ex_customers)) (fk_child_cols ex_fk) ex_order
      = Some (ex_key 7)" by code_simp
  have 3: "row_key (id_types (rn_ids ex_run ex_customers)) (fk_parent_cols ex_fk) ex_customer
      = Some (ex_key 7)" by code_simp
  from 1 2 3 show ?thesis by (auto simp: references_def exact_eq_def)
qed

lemma ex_edge: "ex_fk \<in> set (rn_fks ex_run)" "follows_as_parent ex_fk" "enters ex_run ex_fk"
  by code_simp+

end
