(* ===== verification/Plan_Properties.thy ===== *)
theory Plan_Properties
  imports Skip Example
begin

text \<open>
  What the stages of the planner around the walk promise: the root, the identities, the
  tables a request may skip, the sampling rates, the quoting of names and the row counts
  packed into a reason.
\<close>

section \<open>Identities\<close>

text \<open>
  C15: no row is named by a key that is not one. Below an explicit \<open>--key\<close>, an identity is the table's primary key, or the
  columns of a unique, total index over NOT NULL columns, or columns whose probe counted no
  repeated combination; an explicit one has its own columns, none a system column, and a probe
  that found no duplicate. Its types are its columns' types, in order.
\<close>

theorem identity_is_a_key:
  assumes "resolve_identity rd p tbl = Inr idn"
  shows "identity_fits tbl idn
    \<and> (if explicit_key p tbl then
         rq_keys (rn_req p) (tab_ref tbl) = Some (id_columns idn)
         \<and> set (id_columns idn) \<inter> set system_columns = {}
         \<and> (\<exists>sampled. probe_explicit_key rd tbl (id_columns idn) = Inr (False, sampled)
              \<and> id_kind idn = (if sampled then IdentityPseudo else IdentityUnique))
       else (case id_kind idn of
          IdentityPK \<Rightarrow> id_columns idn = tab_pk tbl
        | IdentityUnique \<Rightarrow>
            (\<exists>idx \<in> set (tab_indexes tbl). index_usable tbl idx \<and> idx_columns idx = id_columns idn)
        | IdentityPseudo \<Rightarrow>
            id_columns idn = pseudo_key_columns p tbl
            \<and> probe_pseudo_key rd tbl (id_columns idn) = Inr True))"
  by (intro conjI resolve_identity_fits [OF assms]
      resolve_identity_justified [OF assms, unfolded rung_ok_def])

lemma identity_is_a_key_witness:
  "identity_fits (ex_table ex_orders [''id'', ''customer_id'']) (rn_ids ex_run ex_orders)"
proof -
  have "resolve_identity ex_reader ex_run (ex_table ex_orders [''id'', ''customer_id''])
    = Inr (rn_ids ex_run ex_orders)" by code_simp
  from identity_is_a_key [OF this] show ?thesis ..
qed

section \<open>Skipped and unreadable tables\<close>

text \<open>
  C9: a slice of declared edges alone is left no dangling reference. When \<open>applySkipAndPrivileges\<close> accepts what
  a request skips and a role cannot read, and the slice is walked from the same root over the same
  edges to the same depth, with no polymorphic pair inferred for any table, the parent of every
  followed declared edge out of a table with a selected row is still in scope. With an inferred pair
  this fails, and \<open>skip_misses_inferred_parents\<close> is a run in which it does.
\<close>

theorem skip_keeps_parents:
  assumes "apply_skip_and_privileges rd0 p0 root = Some (Inr p1)" and "0 \<le> rq_depth (rn_req p0)"
    and "answers rd db eq" and "ready p root" and "walk rd p root = Some (Inr p')"
    and "rn_fks p = rn_fks p1" and "rq_depth (rn_req p) = rq_depth (rn_req p1)" and "rn_inferred p = (\<lambda>_. [])"
    and "fk \<in> set (rn_fks p)" and "follows_as_parent fk" and "sel p' (fk_child fk) \<noteq> {}"
    and "fk_parent fk \<in> rn_in_scope p0"
  shows "fk_parent fk \<in> rn_in_scope p1"
proof -
  obtain reached where r: "static_reach p0 root = Some reached"
    "rn_fks p1 = rn_fks p0" "rn_req p1 = rn_req p0"
    "\<And>u. u \<in> insert root reached \<Longrightarrow> u \<in> rn_in_scope p1 \<longleftrightarrow> u \<in> rn_in_scope p0"
    using apply_skip_keeps [OF assms(1)] by metis
  have "fk_parent fk \<in> reached"
    using selected_parent_reached [OF r(1) assms(2-5)] assms(6-11) r(2,3) by simp
  with r(4) assms(12) show ?thesis by blast
qed

text \<open>The same source, with a request that skips the table the orders reference.\<close>

definition ex_skipping :: run where
  "ex_skipping = build (\<lambda>_. 0) (\<lambda>_. []) ex_schema (Some (\<lambda>_. None))
     (ex_request\<lparr>rq_skip := [ex_customers]\<rparr>)"

definition ex_skipped :: run where
  "ex_skipped =
     (case apply_skip_and_privileges ex_reader ex_skipping ex_orders of
        Some (Inr p) \<Rightarrow> p | _ \<Rightarrow> ex_skipping)"

lemma ex_skipped: "apply_skip_and_privileges ex_reader ex_skipping ex_orders = Some (Inr ex_skipped)"
proof -
  have "(case apply_skip_and_privileges ex_reader ex_skipping ex_orders of
      Some (Inr p) \<Rightarrow> True | _ \<Rightarrow> False) = True" by code_simp
  then show ?thesis
    by (auto simp: ex_skipped_def split: option.splits sum.splits)
qed

lemma skip_keeps_parents_witness: "ex_customers \<in> rn_in_scope ex_skipped"
proof -
  have "sel ex_done ex_orders = {ex_key 1}"
    using ex_done_sel(1) walk_facts [OF ex_answers ex_ready ex_walked] by metis
  then have s: "sel ex_done (fk_child ex_fk) \<noteq> {}" by (simp add: ex_fk_def)
  have d: "0 \<le> rq_depth (rn_req ex_skipping)"
    "rq_depth (rn_req ex_run) = rq_depth (rn_req ex_skipped)"
    "rn_fks ex_run = rn_fks ex_skipped" "fk_parent ex_fk \<in> rn_in_scope ex_skipping"
    by code_simp+
  have i: "rn_inferred ex_run = (\<lambda>_. [])"
    by (simp add: resolve_identities_frame [OF ex_resolved] build_simps)
  have "fk_parent ex_fk \<in> rn_in_scope ex_skipped"
    by (rule skip_keeps_parents [OF ex_skipped d(1) ex_answers ex_ready ex_walked d(3,2) i
          ex_edge(1,2) s d(4)])
  then show ?thesis by (simp add: ex_fk_def)
qed

section \<open>Lookup tables\<close>

text \<open>
  C16: a table is copied whole only when that is small and safe: \<open>findLookups\<close> sets aside framework metadata
  tables and, apart from them, only tables in scope, other than the root, that reference nothing, are
  referenced, hold no masked column and were counted at no more than the ceiling; and it changes
  neither the scope nor the edges.
\<close>

theorem lookups_are_small:
  assumes "find_lookups rd root p = Inr p'" and "rn_lookups p = {}" and "u \<in> rn_lookups p'"
  shows "u \<in> rn_in_scope p \<and> u \<noteq> root \<and> rn_in_scope p' = rn_in_scope p \<and> rn_fks p' = rn_fks p
    \<and> (is_framework_metadata_table (ref_name u)
       \<or> outgoing p u = [] \<and> incoming p u \<noteq> [] \<and> rn_lookup_rows p' u \<le> lookup_row_ceiling
         \<and> (\<exists>t \<in> set (rn_tables p). tab_ref t = u \<and> \<not> has_masked_column p t
              \<and> tab_approx_rows t \<le> lookup_approx_ceiling))"
  using find_lookups_ok [OF assms(1,2)] assms(3) by (auto simp: lookup_ok_def lookup_frame_def)

text \<open>A reader that counts five rows in any table, over the example with customers unmasked.\<close>

definition ex_counting :: reader where
  "ex_counting st args =
     (case st of BoundedCount _ \<Rightarrow> Inr [[Some (IntCell 5)]] | _ \<Rightarrow> ex_reader st args)"

definition ex_lookup_run :: run where
  "ex_lookup_run =
     (case find_lookups ex_counting ex_orders ex_run of Inr p \<Rightarrow> p | Inl _ \<Rightarrow> ex_run)"

lemma lookups_are_small_witness: "rn_lookup_rows ex_lookup_run ex_customers \<le> lookup_row_ceiling"
proof -
  have "(case find_lookups ex_counting ex_orders ex_run of Inr p \<Rightarrow> True | Inl _ \<Rightarrow> False) = True"
    by code_simp
  then have r: "find_lookups ex_counting ex_orders ex_run = Inr ex_lookup_run"
    by (simp add: ex_lookup_run_def split: sum.splits)
  have n: "rn_lookups ex_run = {}"
    by (simp add: resolve_identities_frame [OF ex_resolved] build_simps)
  have "ex_customers \<in> rn_lookups ex_lookup_run"
    "\<not> is_framework_metadata_table (ref_name ex_customers)" by code_simp+
  with lookups_are_small [OF r n] show ?thesis by blast
qed

section \<open>The root\<close>

text \<open>
  C17: the root picked when none is named is the one section 3.1 of the architecture describes. It is a
  table of the plan; it is lookup-shaped only when every table is; and every other table it was chosen
  from -- the ones that are not lookup-shaped, or all of them when there is no other -- has a smaller
  score, edges in less edges out, or the same score without being one of the preferred names when the
  root is one, or agrees in both and has fewer rows, or agrees in all three and does not come before
  the root by name.
\<close>

theorem default_root_ranks_first:
  assumes "default_root tables fks = Some (root, reason)"
  shows "\<exists>r \<in> set tables. tab_ref r = root
    \<and> (lookup_shaped r (inbound_tables fks root) \<longrightarrow>
        (\<forall>t \<in> set tables. lookup_shaped t (inbound_tables fks (tab_ref t))))
    \<and> (\<forall>t \<in> set tables.
        \<not> lookup_shaped t (inbound_tables fks (tab_ref t)) \<or> lookup_shaped r (inbound_tables fks root) \<longrightarrow>
        (let score = (\<lambda>u. int (length (filter (\<lambda>fk. fk_parent fk = tab_ref u) fks))
                         - int (length (filter (\<lambda>fk. fk_child fk = tab_ref u) fks)));
             preferred = (\<lambda>u. ref_name (tab_ref u) \<in> set preferred_root_names)
         in score t < score r
          \<or> score t = score r \<and> preferred r \<and> \<not> preferred t
          \<or> score t = score r \<and> preferred r = preferred t \<and> tab_approx_rows t < tab_approx_rows r
          \<or> score t = score r \<and> preferred r = preferred t \<and> tab_approx_rows t = tab_approx_rows r
            \<and> root \<le> tab_ref t))"
proof -
  obtain r where r: "r \<in> set tables" "tab_ref r = root" "ranked_among tables fks r"
    "\<forall>t \<in> set tables. ranked_among tables fks t \<longrightarrow> \<not> rank_less (candidate_of fks t) (candidate_of fks r)"
    using default_root_best [OF assms] by blast
  have not_less: "rc_score (candidate_of fks t) < rc_score (candidate_of fks r)
      \<or> rc_score (candidate_of fks t) = rc_score (candidate_of fks r)
        \<and> (rc_preferred (candidate_of fks r) \<and> \<not> rc_preferred (candidate_of fks t)
          \<or> rc_preferred (candidate_of fks r) = rc_preferred (candidate_of fks t)
            \<and> (tab_approx_rows t < tab_approx_rows r
              \<or> tab_approx_rows t = tab_approx_rows r \<and> root \<le> tab_ref t))"
    if "\<not> rank_less (candidate_of fks t) (candidate_of fks r)" for t
    using that r(2) by (auto simp: rank_less_def candidate_of_def not_less split: if_splits)
  show ?thesis
    using r not_less
    by (intro bexI [OF _ r(1)])
      (fastforce simp: ranked_among_def Let_def rc_score_def candidate_of_def inbound_count_def
        outbound_count_def)
qed

lemma default_root_ranks_first_witness:
  "\<exists>r \<in> set (sch_tables ex_schema). tab_ref r = ex_customers
    \<and> \<not> lookup_shaped r (inbound_tables [ex_fk] ex_customers)"
proof -
  have d: "default_root (sch_tables ex_schema) [ex_fk]
      = Some (ex_customers, ''1 inbound - 0 outbound FKs'')" by code_simp
  have "\<not> lookup_shaped (ex_table ex_orders [''id'', ''customer_id''])
      (inbound_tables [ex_fk] (tab_ref (ex_table ex_orders [''id'', ''customer_id''])))" by code_simp
  moreover have "ex_table ex_orders [''id'', ''customer_id''] \<in> set (sch_tables ex_schema)"
    by (simp add: ex_schema_def)
  ultimately show ?thesis using default_root_ranks_first [OF d] by blast
qed

section \<open>Text\<close>

text \<open>
  C19: a quoted table name reads back as the table, whatever characters its two parts have and whatever
  follows it that is not a quote: no name can close its own quotes.
\<close>

theorem quoted_table_reads_back:
  assumes "not_quote rest"
  shows "\<exists>r. read_ident (quote_table t @ rest) = Some (ref_schema t, CHR ''.'' # r)
    \<and> read_ident r = Some (ref_name t, rest)"
  by (rule quote_table_read [OF assms])

lemma quoted_table_reads_back_witness:
  "\<exists>r. read_ident (quote_table (TableRef ''pub'' [CHR 0x22, CHR '';'']) @ '' WHERE'')
      = Some (''pub'', CHR ''.'' # r)
    \<and> read_ident r = Some ([CHR 0x22, CHR '';''], '' WHERE'')"
  using quoted_table_reads_back [of "'' WHERE''" "TableRef ''pub'' [CHR 0x22, CHR '';'']"]
  by (simp add: not_quote_def)

text \<open>
  The sampling rate is a percentage in range, and unless the table is so large that the rate is the smallest one,
  the share sampled is no more than the rows a probe is meant to read.
\<close>

theorem sample_rate_in_range:
  assumes "sample_percent approx = (num, den)"
  shows "0 < num \<and> num \<le> 100 * den
    \<and> (probe_sample_rows < approx \<and> approx \<le> 20000000 \<longrightarrow>
         num * approx \<le> 100 * den * probe_sample_rows)"
  using sample_percent_bounds [OF assms] sample_percent_size [OF assms]
  by (auto simp: probe_sample_rows_def)

lemma sample_rate_in_range_witness: "0 < (40 :: int) \<and> (40 :: int) \<le> 100 * 100"
proof -
  have "sample_percent 500000 = (40, 100)" by code_simp
  from sample_rate_in_range [OF this] show ?thesis by blast
qed

text \<open>
  The row count packed into a lookup's reason is read back exactly, with the reason it was packed into,
  even when the reason has brackets of its own.
\<close>

theorem lookup_rows_read_back:
  assumes "0 \<le> n" and "n < 2 ^ 63"
  shows "parse_lookup_rows (lookup_why_with_rows why n) = Some (why, n)"
  using parse_lookup_rows_inverse [of n why] assms by (simp add: in_int64_def)

lemma lookup_rows_read_back_witness:
  "parse_lookup_rows (lookup_why_with_rows ''copied whole (see docs)'' 12)
    = Some (''copied whole (see docs)'', 12)"
  by (rule lookup_rows_read_back) simp_all

end
