(* ===== verification/Key_Properties.thy ===== *)
theory Key_Properties
  imports Keyset
begin

text \<open>
  What the key sets of \<open>internal/plan/keyset.go\<close> promise the walk: the byte order of encoded
  tuples is the tuples' own order, an encoded tuple reads back, and whatever the order of
  appends and reads, a set answers as the mathematical set of the tuples added.
\<close>

section \<open>The encoding\<close>

definition key_int :: "int64 \<Rightarrow> key_value" where "key_int i = key_value_zero\<lparr>kv_i := i\<rparr>"
definition key_text :: "string \<Rightarrow> key_value" where "key_text s = key_value_zero\<lparr>kv_s := s\<rparr>"

definition ex_key_types :: "key_type list" where
  "ex_key_types =
     [\<lparr>kt_kind = KindInt, kt_array_cast = ''::int8[]'', kt_type_name = ''bigint''\<rparr>,
      \<lparr>kt_kind = KindText, kt_array_cast = ''::text[]'', kt_type_name = ''text''\<rparr>]"

text \<open>
  C11: the encoding preserves order. Two tuples of a column list's types compare as their encodings do,
  bytewise, whatever the kinds: negative integers before positive ones, a string before its
  extensions, and the first differing column deciding.
\<close>

theorem encode_tuple_order:
  assumes "tuple_ok tys v" and "tuple_ok tys w"
  shows "encode_tuple tys v < encode_tuple tys w \<longleftrightarrow> tuple_less tys v w"
  by (rule tuple_codec.enc_less_iff [OF assms])

lemma encode_tuple_order_witness:
  "encode_tuple ex_key_types [key_int (- 1), key_text ''b'']
     < encode_tuple ex_key_types [key_int 0, key_text ''a'']"
proof -
  have "tuple_ok ex_key_types [key_int (- 1), key_text ''b'']"
    "tuple_ok ex_key_types [key_int 0, key_text ''a'']"
    "tuple_less ex_key_types [key_int (- 1), key_text ''b''] [key_int 0, key_text ''a'']"
    by code_simp+
  then show ?thesis using encode_tuple_order by blast
qed

text \<open>
  C12: an encoded tuple decodes to itself, and only its own bytes are consumed: concatenated tuples
  in one slab cannot be confused.
\<close>

theorem encode_tuple_decodes:
  assumes "tuple_ok tys v"
  shows "decode_tuple tys (encode_tuple tys v @ rest) = Some (v, rest)"
  by (rule decode_encode_tuple [OF assms])

lemma encode_tuple_decodes_witness:
  "decode_tuple ex_key_types (encode_tuple ex_key_types [key_int 5, key_text ''x''] @ [0, 1])
    = Some ([key_int 5, key_text ''x''], [0, 1])"
proof (rule encode_tuple_decodes)
  show "tuple_ok ex_key_types [key_int 5, key_text ''x'']" by code_simp
qed

section \<open>The set\<close>

text \<open>An operation of the walk on a key set: an append, or a read, which normalises in place.\<close>

datatype key_op = AddKey key_tuple | ReadKeys

definition key_step :: "key_op \<Rightarrow> keys \<Rightarrow> keys" where
  "key_step op k = (case op of AddKey t \<Rightarrow> keys_add k t | ReadKeys \<Rightarrow> keys_normalize k)"

definition added :: "key_op list \<Rightarrow> key_tuple set" where
  "added ops = {t. AddKey t \<in> set ops}"

lemma key_step_ok:
  assumes "keys_ok k" and "\<forall>t \<in> added [op]. tuple_ok (ks_types k) t"
  shows "keys_ok (key_step op k) \<and> ks_types (key_step op k) = ks_types k
    \<and> keys_set (key_step op k) = keys_set k \<union> added [op]"
  using assms keys_normalize_ok [of k] keys_add_ok [of k]
  by (cases op) (auto simp: key_step_def added_def)

lemma key_steps_ok:
  assumes "keys_ok k" and "\<forall>t \<in> added ops. tuple_ok (ks_types k) t"
  shows "keys_ok (fold key_step ops k) \<and> ks_types (fold key_step ops k) = ks_types k
    \<and> keys_set (fold key_step ops k) = keys_set k \<union> added ops"
  using assms
proof (induction ops arbitrary: k)
  case (Cons op ops)
  have split: "added (op # ops) = added [op] \<union> added ops" by (auto simp: added_def)
  then have 1: "keys_ok (key_step op k) \<and> ks_types (key_step op k) = ks_types k
      \<and> keys_set (key_step op k) = keys_set k \<union> added [op]"
    using key_step_ok [of k op] Cons.prems by simp
  with Cons.IH [of "key_step op k"] Cons.prems(2) split show ?case by auto
qed (simp add: added_def)

lemma new_steps_ok:
  assumes "\<forall>t \<in> added ops. tuple_ok tys t"
  shows "keys_ok (fold key_step ops (new_keys tys))"
    and "ks_types (fold key_step ops (new_keys tys)) = tys"
    and "keys_set (fold key_step ops (new_keys tys)) = added ops"
  using key_steps_ok [OF ks.new_ok, of ops tys] assms by (simp_all add: ks.new_abs)

text \<open>
  C10: a key set is the set of the tuples added to it, whatever the interleaving of appends and reads:
  \<open>has\<close> is membership, \<open>len\<close> the number of distinct tuples, and \<open>forEach\<close> visits each once, in the
  order of the tuples.
\<close>

theorem keys_are_a_set:
  assumes "\<forall>t \<in> added ops. tuple_ok tys t" and "k = fold key_step ops (new_keys tys)"
  shows "(\<forall>t. tuple_ok tys t \<longrightarrow> (keys_has k t \<longleftrightarrow> t \<in> added ops))
    \<and> keys_len k = card (added ops)
    \<and> set (keys_tuples k) = added ops \<and> distinct (keys_tuples k)
    \<and> sorted_wrt (tuple_less tys) (keys_tuples k)"
proof -
  note ok = new_steps_ok [OF assms(1), folded assms(2)]
  show ?thesis
    using ks.has_iff [OF ok(1)] ks.len_card [OF ok(1)] ks.tuples_set [OF ok(1)]
      ks.tuples_sorted [OF ok(1)] keys_tuples_distinct [OF ok(1)] ok(2,3)
    by simp
qed

definition ex_ops :: "key_op list" where
  "ex_ops =
     [AddKey [key_int 5, key_text ''b''], ReadKeys, AddKey [key_int (- 2), key_text ''a''],
      AddKey [key_int 5, key_text ''b'']]"

lemma ex_ops_ok: "\<forall>t \<in> added ex_ops. tuple_ok ex_key_types t"
proof -
  have "list_all (\<lambda>op. case op of AddKey t \<Rightarrow> tuple_ok ex_key_types t | ReadKeys \<Rightarrow> True) ex_ops"
    by code_simp
  then show ?thesis by (auto simp: added_def list_all_iff)
qed

lemma keys_are_a_set_witness:
  "set (keys_tuples (fold key_step ex_ops (new_keys ex_key_types))) = added ex_ops
    \<and> keys_len (fold key_step ex_ops (new_keys ex_key_types)) = card (added ex_ops)"
  using keys_are_a_set [OF ex_ops_ok refl] by blast

text \<open>
  C13: the memory figure is honest: after any operations, \<open>bytes\<close> is twice the encoded size of the distinct
  tuples held (sixteen per integer key), so duplicates cost the memory budget nothing.
\<close>

theorem keys_bytes_counts_distinct:
  assumes "\<forall>t \<in> added ops. tuple_ok tys t" and "k = fold key_step ops (new_keys tys)"
  shows "keys_bytes k =
     (if is_int_types tys then 16 * int (card (added ops))
      else 2 * (\<Sum>t \<in> added ops. int (length (encode_tuple tys t))))"
proof -
  note ok = new_steps_ok [OF assms(1), folded assms(2)]
  show ?thesis using keys_bytes_honest [OF ok(1)] ok(2,3) by simp
qed

lemma keys_bytes_counts_distinct_witness:
  "keys_bytes (fold key_step ex_ops (new_keys ex_key_types))
    = 2 * (\<Sum>t \<in> added ex_ops. int (length (encode_tuple ex_key_types t)))"
proof -
  have "\<not> is_int_types ex_key_types" by code_simp
  then show ?thesis using keys_bytes_counts_distinct [OF ex_ops_ok refl] by simp
qed

text \<open>
  C14: the chunks the SQL reads are bound to cover the set exactly: unnested and put one after the other they
  are \<open>forEach\<close>'s tuples, none is empty and none holds more than the chunk size, and the callback
  of \<open>EachChunk\<close> sees them in order until its first error.
\<close>

theorem chunks_partition_keys:
  assumes "\<forall>t \<in> added ops. tuple_ok tys t" and "k = fold key_step ops (new_keys tys)"
  shows "concat (map chunk_rows (keys_chunks k n)) = keys_tuples k
    \<and> (\<forall>c \<in> set (keys_chunks k n). 0 < ch_n c \<and> int (ch_n c) \<le> max 1 n)
    \<and> each_chunk k n f s = fold_res f (keys_chunks k n) s"
proof -
  note ok = new_steps_ok [OF assms(1), folded assms(2)]
  have "int (ch_n c) \<le> max 1 n" if "c \<in> set (keys_chunks k n)" for c
    using keys_chunks_size [OF that] by linarith
  then show ?thesis
    using keys_chunks_rows [OF ok(1)] each_chunk_fold [of k n f s] keys_chunks_not_empty
    by (intro conjI ballI) simp_all
qed

lemma chunks_partition_keys_witness:
  "concat (map chunk_rows (keys_chunks (fold key_step ex_ops (new_keys ex_key_types)) 1))
    = keys_tuples (fold key_step ex_ops (new_keys ex_key_types))"
  by (rule chunks_partition_keys [OF ex_ops_ok refl, THEN conjunct1])

end
