(* ===== verification/Polymorphic.thy ===== *)
theory Polymorphic
  imports Planner
begin

text \<open>
  \<open>internal/plan/polymorphic.go\<close>, the inference before the walk: the column pairs that look
  like a Rails or Django polymorphic reference, the type values a sample of the source
  produces, the table each value names, and the virtual edges the walk then follows
  (\<open>Walk.virtual_parents\<close>). Case mapping is ASCII, as in \<open>Strings\<close>.
\<close>

subsection \<open>The pairs\<close>

definition pair_columns :: "string set \<Rightarrow> string \<Rightarrow> (string \<times> bool) option" where
  "pair_columns names type_col =
     (if has_suffix type_col ''_type'' \<and> length ''_type'' < length type_col
      then Some (trim_suffix type_col ''_type'' @ ''_id'', False)
      else if type_col = ''content_type_id'' \<and> ''object_id'' \<in> names
      then Some (''object_id'', True)
      else None)"

definition table_pairs :: "(table_ref \<Rightarrow> foreign_key list) \<Rightarrow> table \<Rightarrow> polymorphic_pair list" where
  "table_pairs out_edges t =
     (let declared = set (concat (map fk_child_cols (out_edges (tab_ref t))));
          names = set (map col_name (tab_columns t))
      in concat (map (\<lambda>c.
           case pair_columns names (col_name c) of
             None \<Rightarrow> []
           | Some (id_col, object) \<Rightarrow>
               if id_col \<notin> names \<or> id_col \<in> declared then []
               else [\<lparr>pl_table = tab_ref t, pl_type_col = col_name c, pl_id_col = id_col,
                      pl_object_col = object\<rparr>]) (tab_columns t)))"

definition pair_before :: "polymorphic_pair \<Rightarrow> polymorphic_pair \<Rightarrow> bool" where
  "pair_before x y \<longleftrightarrow>
     (if pl_table x \<noteq> pl_table y then pl_table x < pl_table y else pl_type_col x < pl_type_col y)"

definition polymorphic_pairs ::
  "table list \<Rightarrow> (table_ref \<Rightarrow> foreign_key list) \<Rightarrow> polymorphic_pair list" where
  "polymorphic_pairs tables out_edges =
     sort_by pair_before (concat (map (table_pairs out_edges) tables))"

subsection \<open>Names\<close>

text \<open>\<open>underscore\<close>: \<open>::\<close> is a separator, a capital starts a word after a lower-case letter or a
  digit, or before a lower-case letter.\<close>

fun colons_to_slash :: "string \<Rightarrow> string" where
  "colons_to_slash (a # b # s) =
     (if a = CHR '':'' \<and> b = CHR '':'' then CHR ''/'' # colons_to_slash s
      else a # colons_to_slash (b # s))"
| "colons_to_slash s = s"

definition breaks_word :: "char option \<Rightarrow> char option \<Rightarrow> bool" where
  "breaks_word prev next =
     (case prev of
        None \<Rightarrow> False
      | Some c \<Rightarrow> c \<noteq> CHR ''_'' \<and> c \<noteq> CHR ''/''
          \<and> (is_lower c \<or> is_digit c \<or> (case next of Some d \<Rightarrow> is_lower d | None \<Rightarrow> False)))"

fun underscore_from :: "char option \<Rightarrow> string \<Rightarrow> string" where
  "underscore_from prev [] = []"
| "underscore_from prev (r # rs) =
     (if r = CHR ''/'' \<or> r = CHR '' '' \<or> r = CHR ''-'' then [CHR ''_'']
      else if is_upper r
      then (if breaks_word prev (case rs of [] \<Rightarrow> None | d # _ \<Rightarrow> Some d) then [CHR ''_''] else [])
        @ [lower_char r]
      else [r])
     @ underscore_from (Some r) rs"

definition underscore :: "string \<Rightarrow> string" where
  "underscore s = underscore_from None (colons_to_slash s)"

definition demodulize :: "string \<Rightarrow> string" where
  "demodulize s =
     (case last_index s ''::'' of
        Some i \<Rightarrow> drop (i + 2) s
      | None \<Rightarrow> (case last_index s ''.'' of Some i \<Rightarrow> drop (i + 1) s | None \<Rightarrow> s))"

definition irregular_plurals :: "string \<Rightarrow> string option" where
  "irregular_plurals = map_of
     [(''person'', ''people''), (''man'', ''men''), (''woman'', ''women''),
      (''child'', ''children''), (''foot'', ''feet''), (''tooth'', ''teeth''),
      (''goose'', ''geese''), (''mouse'', ''mice''), (''ox'', ''oxen'')]"

definition is_vowel :: "char \<Rightarrow> bool" where
  "is_vowel c \<longleftrightarrow> c \<in> set ''aeiou''"

definition pluralize_tail :: "string \<Rightarrow> string" where
  "pluralize_tail tail =
     (case irregular_plurals tail of
        Some pl \<Rightarrow> pl
      | None \<Rightarrow>
          if has_suffix tail ''s'' \<or> has_suffix tail ''x'' \<or> has_suffix tail ''z''
             \<or> has_suffix tail ''ch'' \<or> has_suffix tail ''sh''
          then tail @ ''es''
          else if 1 < length tail \<and> has_suffix tail ''y'' \<and> \<not> is_vowel (tail ! (length tail - 2))
          then take (length tail - 1) tail @ ''ies''
          else tail @ ''s'')"

definition pluralize :: "string \<Rightarrow> string" where
  "pluralize s =
     (if s = [] then s
      else case last_index s ''_'' of
             Some i \<Rightarrow> take (i + 1) s @ pluralize_tail (drop (i + 1) s)
           | None \<Rightarrow> pluralize_tail s)"

text \<open>\<open>add\<close>: a candidate that is empty or was met before is not added.\<close>

definition add_candidate :: "string \<Rightarrow> string list \<Rightarrow> string list" where
  "add_candidate s acc = (if s = [] \<or> s \<in> set acc then acc else acc @ [s])"

definition rails_candidates :: "string \<Rightarrow> string list" where
  "rails_candidates v0 =
     (let v = trim_space v0; forms = [v, demodulize v]
      in if v = [] then []
         else fold (\<lambda>form acc. add_candidate (underscore form) (add_candidate (to_lower form) acc))
           forms (fold (\<lambda>form. add_candidate (pluralize (underscore form))) forms []))"

definition django_candidates :: "string \<Rightarrow> string \<Rightarrow> string list" where
  "django_candidates app0 model0 =
     (let app = to_lower (trim_space app0); model = to_lower (trim_space model0)
      in if model = [] \<or> app = [] then [] else [app @ ''_'' @ model])"

text \<open>\<open>byName\<close> maps a lower-case bare name to the planned tables that have it.\<close>

definition by_name :: "run \<Rightarrow> string \<Rightarrow> table_ref list" where
  "by_name p name =
     filter (\<lambda>t. to_lower (ref_name t) = name) (map tab_ref (rn_tables p))"

fun table_named :: "run \<Rightarrow> string list \<Rightarrow> string \<Rightarrow> table_ref option" where
  "table_named p [] prefer = None"
| "table_named p (name # names) prefer =
     (case find (\<lambda>m. ref_schema m = prefer) (by_name p name) of
        Some m \<Rightarrow> Some m
      | None \<Rightarrow>
          (case by_name p name of
             [m] \<Rightarrow> Some m
           | _ \<Rightarrow> table_named p names prefer))"

subsection \<open>Reads\<close>

definition polymorphic_id_kind :: "key_kind \<Rightarrow> bool" where
  "polymorphic_id_kind k \<longleftrightarrow> k = KindInt \<or> k = KindUUID \<or> k = KindText"

definition text_kind :: "key_kind \<Rightarrow> bool" where
  "text_kind k \<longleftrightarrow> k = KindText \<or> k = KindBpchar \<or> k = KindOther"

definition distinct_stmt :: "run \<Rightarrow> table \<Rightarrow> string list \<Rightarrow> key_type list \<Rightarrow> stmt" where
  "distinct_stmt p tbl cols types =
     (if tab_partitioned tbl \<or> tab_approx_rows tbl \<le> 0
      then DistinctPrefix (tab_ref tbl) cols types (id_columns (rn_ids p (tab_ref tbl)))
        probe_sample_rows
      else let (num, den) = sample_percent (tab_approx_rows tbl)
           in DistinctSample (tab_ref tbl) cols types num den probe_sample_rows)"

definition sample_type_values ::
  "reader \<Rightarrow> run \<Rightarrow> polymorphic_pair \<Rightarrow> table \<Rightarrow> key_type \<Rightarrow> plan_error + string list" where
  "sample_type_values rd p pair tbl ty =
     bind_res
       (wrap (''plan: sampling '' @ table_ref_string (pl_table pair) @ ''.'' @ pl_type_col pair)
         (read_keys rd (distinct_stmt p tbl [pl_type_col pair] [ty]) [ty] []))
       (\<lambda>ks. Inr (List.map_filter (\<lambda>tuple. render_type_value ty (tuple ! 0)) (keys_tuples ks)))"

definition django_content_type_table :: string where
  "django_content_type_table = ''django_content_type''"

definition django_content_type_cols :: "string list" where
  "django_content_type_cols = [''id'', ''app_label'', ''model'']"

text \<open>The rows of \<open>django_content_type\<close>, read once and kept.\<close>

definition django_source :: "run \<Rightarrow> table option" where
  "django_source p =
     (case find (\<lambda>t. ref_name (tab_ref t) = django_content_type_table
                     \<and> tab_ref t \<in> rn_in_scope p) (rn_tables p) of
        None \<Rightarrow> None | Some t \<Rightarrow> rn_by_ref p (tab_ref t))"

definition django_rows ::
  "key_tuple list \<Rightarrow> int \<Rightarrow> (string \<times> string) option" where
  "django_rows tuples =
     fold (\<lambda>t m. m(sint (kv_i (t ! 0)) \<mapsto> (kv_s (t ! 1), kv_s (t ! 2)))) tuples Map.empty"

definition django_content_types ::
  "reader \<Rightarrow> run \<Rightarrow> plan_error + run \<times> (int \<Rightarrow> (string \<times> string) option)" where
  "django_content_types rd p =
     (case rn_django p of
        Some m \<Rightarrow> Inr (p, m)
      | None \<Rightarrow>
          let keep = (\<lambda>m. Inr (p\<lparr>rn_django := Some m\<rparr>, m))
          in case django_source p of
               None \<Rightarrow> keep Map.empty
             | Some src \<Rightarrow>
                 (case types_of_columns src django_content_type_cols of
                    Inl _ \<Rightarrow> keep Map.empty
                  | Inr types \<Rightarrow>
                      if kt_kind (types ! 0) \<noteq> KindInt \<or> \<not> text_kind (kt_kind (types ! 1))
                         \<or> \<not> text_kind (kt_kind (types ! 2))
                      then keep Map.empty
                      else bind_res
                        (wrap (''plan: reading '' @ table_ref_string (tab_ref src))
                          (read_keys rd (distinct_stmt p src django_content_type_cols types) types []))
                        (\<lambda>ks. keep (django_rows (keys_tuples ks)))))"

definition map_django_content_type ::
  "reader \<Rightarrow> run \<Rightarrow> polymorphic_pair \<Rightarrow> string \<Rightarrow> plan_error + run \<times> table_ref option" where
  "map_django_content_type rd p pair v =
     (case parse_int64 v of
        None \<Rightarrow> Inr (p, None)
      | Some i \<Rightarrow>
          bind_res (django_content_types rd p) (\<lambda>(p', types).
            case types i of
              None \<Rightarrow> Inr (p', None)
            | Some (app, model) \<Rightarrow>
                Inr (p', table_named p' (django_candidates app model) (ref_schema (pl_table pair)))))"

definition map_type_value ::
  "reader \<Rightarrow> run \<Rightarrow> polymorphic_pair \<Rightarrow> string \<Rightarrow> plan_error + run \<times> table_ref option" where
  "map_type_value rd p pair v =
     (if pl_object_col pair then map_django_content_type rd p pair v
      else Inr (p, table_named p (rails_candidates v) (ref_schema (pl_table pair))))"

subsection \<open>The edges\<close>

definition virtual_edge_to ::
  "run \<Rightarrow> polymorphic_pair \<Rightarrow> string \<Rightarrow> table_ref \<Rightarrow> key_type \<Rightarrow> virtual_edge option" where
  "virtual_edge_to p pair v parent id_type =
     (if parent \<notin> rn_in_scope p then None
      else case rn_by_ref p parent of
             None \<Rightarrow> None
           | Some tbl \<Rightarrow>
               if length (tab_pk tbl) \<noteq> 1 then None
               else (case types_of_columns tbl (tab_pk tbl) of
                       Inl _ \<Rightarrow> None
                     | Inr types \<Rightarrow>
                         if kt_kind (types ! 0) \<noteq> kt_kind id_type then None
                         else Some
                           \<lparr>ve_value = v,
                            ve_fk =
                              \<lparr>fk_name = table_ref_string (pl_table pair) @ ''.'' @ pl_type_col pair,
                               fk_child = pl_table pair, fk_child_cols = [pl_id_col pair],
                               fk_parent = parent, fk_parent_cols = [tab_pk tbl ! 0],
                               fk_match_full = False, fk_validated = False, fk_virtual = True,
                               fk_indexed = False, fk_not_recreatable = False\<rparr>,
                            ve_types = types\<rparr>))"

text \<open>What the plan prints: counts and column names, never a value.\<close>

definition no_digest_remedy :: "polymorphic_pair \<Rightarrow> string" where
  "no_digest_remedy pair =
     ''inspect the distinct values of '' @ pl_type_col pair @ '' on ''
     @ table_ref_string (pl_table pair) @ '' in the source to see what they are''"

definition distinct_count :: "nat \<Rightarrow> bool \<Rightarrow> string" where
  "distinct_count n capped =
     (if capped then ''more than '' @ itoa (int polymorphic_value_cap) @ '' distinct values''
      else itoa (int n) @ '' distinct value'' @ (if n \<noteq> 1 then ''s'' else []))"

definition unmapped_finding :: "polymorphic_pair \<Rightarrow> nat \<Rightarrow> string" where
  "unmapped_finding pair n =
     table_ref_string (pl_table pair) @ ''.'' @ pl_type_col pair @ '': ''
     @ distinct_count n False @ '' mapping to no table; '' @ no_digest_remedy pair"

record pair_findings =
  pf_unmapped :: "string list"
  pf_unfollowed :: "string list"
  pf_over_cap :: bool

definition no_findings :: pair_findings where
  "no_findings = \<lparr>pf_unmapped = [], pf_unfollowed = [], pf_over_cap = False\<rparr>"

text \<open>The state of the loop over the sampled values: the run, the edges, how many values name no
  table, and the ones that name a table this run cannot follow.\<close>

record value_state =
  vs_run :: run
  vs_edges :: "virtual_edge list"
  vs_unmapped :: nat
  vs_unfollowed :: "string list"

definition value_step ::
  "reader \<Rightarrow> polymorphic_pair \<Rightarrow> key_type \<Rightarrow> string \<Rightarrow> value_state \<Rightarrow> plan_error + value_state" where
  "value_step rd pair id_type v s =
     bind_res (map_type_value rd (vs_run s) pair v) (\<lambda>(p, parent).
       let s1 = s\<lparr>vs_run := p\<rparr> in
       case parent of
         None \<Rightarrow> Inr (s1\<lparr>vs_unmapped := vs_unmapped s1 + 1\<rparr>)
       | Some t \<Rightarrow>
           (case virtual_edge_to p pair v t id_type of
              None \<Rightarrow> Inr (s1\<lparr>vs_unfollowed := vs_unfollowed s1
                @ [pair_string pair @ '' resolves to '' @ table_ref_string t
                   @ '', which this run cannot follow'']\<rparr>)
            | Some e \<Rightarrow> Inr (s1\<lparr>vs_edges := vs_edges s1 @ [e]\<rparr>)))"

definition infer_values ::
  "reader \<Rightarrow> run \<Rightarrow> polymorphic_pair \<Rightarrow> key_type \<Rightarrow> key_type \<Rightarrow> string list
    \<Rightarrow> plan_error + run \<times> pair_plan option \<times> pair_findings" where
  "infer_values rd p pair type_type id_type values =
     bind_res (fold_res (value_step rd pair id_type) values
         \<lparr>vs_run = p, vs_edges = [], vs_unmapped = 0, vs_unfollowed = []\<rparr>)
       (\<lambda>s. Inr
         (vs_run s,
          Some \<lparr>pp_pair = pair, pp_type_type = type_type, pp_id_type = id_type,
                pp_edges = vs_edges s, pp_sampled = set values\<rparr>,
          \<lparr>pf_unmapped =
             (if 0 < vs_unmapped s then [unmapped_finding pair (vs_unmapped s)] else []),
           pf_unfollowed = vs_unfollowed s, pf_over_cap = False\<rparr>))"

definition infer_pair ::
  "reader \<Rightarrow> run \<Rightarrow> polymorphic_pair \<Rightarrow> plan_error + run \<times> pair_plan option \<times> pair_findings" where
  "infer_pair rd p pair =
     (if pl_table pair \<notin> rn_in_scope p \<or> pl_table pair \<in> rn_lookups p
      then Inr (p, None, no_findings)
      else case rn_by_ref p (pl_table pair) of
             None \<Rightarrow> Inr (p, None, no_findings)
           | Some tbl \<Rightarrow>
               (case (columns_by_name tbl (pl_type_col pair), columns_by_name tbl (pl_id_col pair)) of
                  (Some type_col, Some id_col) \<Rightarrow>
                    (let type_type = type_of_column type_col; id_type = type_of_column id_col in
                     if \<not> polymorphic_id_kind (kt_kind id_type) then Inr (p, None, no_findings)
                     else bind_res (sample_type_values rd p pair tbl type_type) (\<lambda>values.
                       if polymorphic_value_cap < length values
                       then Inr (p, None, no_findings\<lparr>pf_over_cap := True\<rparr>)
                       else if values = [] then Inr (p, None, no_findings)
                       else infer_values rd p pair type_type id_type values))
                | _ \<Rightarrow> Inr (p, None, no_findings)))"

text \<open>The edges not reported before, by constraint name and parent.\<close>

definition report_edge ::
  "virtual_edge \<Rightarrow> run \<times> string set \<Rightarrow> run \<times> string set" where
  "report_edge e s =
     (let (p, seen) = s;
          key = fk_name (ve_fk e) @ '' -> '' @ table_ref_string (fk_parent (ve_fk e))
      in if key \<in> seen then s
         else (p\<lparr>rn_virtual := rn_virtual p @ [ve_fk e]\<rparr>, insert key seen))"

definition over_cap_finding :: "polymorphic_pair \<Rightarrow> pair_findings \<Rightarrow> string" where
  "over_cap_finding pair found =
     pair_string pair
     @ (if pf_over_cap found
        then '', the sample carries more than '' @ itoa (int polymorphic_value_cap) @ '' distinct ''
          @ pl_type_col pair @ '' values''
        else [])"

definition infer_step ::
  "reader \<Rightarrow> polymorphic_pair \<Rightarrow> run \<times> string set \<Rightarrow> plan_error + run \<times> string set" where
  "infer_step rd pair s =
     bind_res (infer_pair rd (fst s) pair) (\<lambda>(p, pp, found).
       let p1 = p\<lparr>rn_unmapped := rn_unmapped p @ pf_unmapped found\<rparr> in
       case pp of
         Some plan \<Rightarrow>
           if pp_edges plan = []
           then Inr (p1\<lparr>rn_polymorphic := rn_polymorphic p1 @ [over_cap_finding pair found]\<rparr>, snd s)
           else
             let p2 = p1\<lparr>rn_inferred :=
                   (rn_inferred p1)(pl_table pair := rn_inferred p1 (pl_table pair) @ [plan])\<rparr>;
                 (p3, seen) = fold report_edge (pp_edges plan) (p2, snd s)
             in Inr (p3\<lparr>rn_polymorphic := rn_polymorphic p3 @ pf_unfollowed found\<rparr>, seen)
       | None \<Rightarrow>
           Inr (p1\<lparr>rn_polymorphic := rn_polymorphic p1 @ [over_cap_finding pair found]\<rparr>, snd s))"

definition infer_polymorphic :: "reader \<Rightarrow> run \<Rightarrow> plan_error + run" where
  "infer_polymorphic rd p =
     bind_res (fold_res (infer_step rd) (polymorphic_pairs (rn_tables p) (outgoing p))
         (p\<lparr>rn_inferred := (\<lambda>_. []), rn_unknown_types := []\<rparr>, {}))
       (\<lambda>s. Inr (fst s))"

subsection \<open>What the walk left unknown\<close>

definition unknown_findings :: "run \<Rightarrow> string list" where
  "unknown_findings p =
     map (\<lambda>(pair, u).
         pair_string pair @ '': '' @ distinct_count (card (uv_values u)) (uv_more u) @ '' of ''
         @ pl_type_col pair @ '' the sample did not produce; '' @ no_digest_remedy pair)
       (sort_by (\<lambda>x y. pair_before (fst x) (fst y)) (rn_unknown_types p))"

end
