(* ===== verification/Polymorphic_Correct.thy ===== *)
theory Polymorphic_Correct
  imports Polymorphic Plan_Start
begin

text \<open>
  The inference hands the walk edges it can follow: \<open>infer_polymorphic\<close> keeps everything decided
  before it and leaves pairs whose edges have distinct values and end in a table in scope, at
  a single-column primary key that travels as the pair's id column does. So a run that was
  ready for the walk still is.
\<close>

subsection \<open>What the inference leaves alone\<close>

definition infer_frame :: "run \<Rightarrow> run \<Rightarrow> bool" where
  "infer_frame p q \<longleftrightarrow>
     rn_req q = rn_req p \<and> rn_tables q = rn_tables p \<and> rn_by_ref q = rn_by_ref p
     \<and> rn_in_scope q = rn_in_scope p \<and> rn_fks q = rn_fks p \<and> rn_ids q = rn_ids p
     \<and> rn_lookups q = rn_lookups p \<and> rn_selected q = rn_selected p
     \<and> rn_selected_row q = rn_selected_row p"

lemma infer_frame_refl [simp]: "infer_frame p p"
  by (simp add: infer_frame_def)

lemma infer_frame_trans: "infer_frame p q \<Longrightarrow> infer_frame q r \<Longrightarrow> infer_frame p r"
  by (simp add: infer_frame_def)

lemma infer_frame_updates [simp]:
  "infer_frame p (q\<lparr>rn_django := a\<rparr>) \<longleftrightarrow> infer_frame p q"
  "infer_frame p (q\<lparr>rn_unmapped := b\<rparr>) \<longleftrightarrow> infer_frame p q"
  "infer_frame p (q\<lparr>rn_polymorphic := c\<rparr>) \<longleftrightarrow> infer_frame p q"
  "infer_frame p (q\<lparr>rn_virtual := d\<rparr>) \<longleftrightarrow> infer_frame p q"
  "infer_frame p (q\<lparr>rn_inferred := e\<rparr>) \<longleftrightarrow> infer_frame p q"
  "infer_frame p (q\<lparr>rn_unknown_types := f\<rparr>) \<longleftrightarrow> infer_frame p q"
  by (simp_all add: infer_frame_def)

text \<open>A step of the inference: the frame, and no edge inferred yet by it.\<close>

definition reads_only :: "run \<Rightarrow> run \<Rightarrow> bool" where
  "reads_only p q \<longleftrightarrow> infer_frame p q \<and> rn_inferred q = rn_inferred p"

lemma reads_only_refl [simp]: "reads_only p p"
  by (simp add: reads_only_def)

lemma reads_only_trans: "reads_only p q \<Longrightarrow> reads_only q r \<Longrightarrow> reads_only p r"
  by (auto simp: reads_only_def intro: infer_frame_trans)

lemma django_content_types_reads:
  "django_content_types rd p = Inr (q, m) \<Longrightarrow> reads_only p q"
  by (auto simp: django_content_types_def Let_def result_simps reads_only_def
      split: option.splits sum.splits if_splits)

lemma map_type_value_reads:
  "map_type_value rd p pair v = Inr (q, t) \<Longrightarrow> reads_only p q"
  by (auto simp: map_type_value_def map_django_content_type_def result_simps
      split: option.splits if_splits dest: django_content_types_reads)

lemma virtual_edge_to_frame:
  "infer_frame p q \<Longrightarrow> virtual_edge_to q = virtual_edge_to p"
  by (simp add: infer_frame_def virtual_edge_to_def fun_eq_iff)

subsection \<open>Sampled values are distinct\<close>

lemma itoa_inj: "in_int64 i \<Longrightarrow> in_int64 j \<Longrightarrow> itoa i = itoa j \<Longrightarrow> i = j"
  using parse_itoa by (metis option.inject)

lemma in_int64_sint: "in_int64 (sint (x :: int64))"
  using sint_range_size [of x] by (simp add: in_int64_def word_size)

lemma render_type_value_inj:
  assumes "kv_ok ty v" and "kv_ok ty w"
    and "render_type_value ty v = Some x" and "render_type_value ty w = Some x"
  shows "v = w"
  using assms itoa_inj [OF in_int64_sint in_int64_sint]
  by (cases "kt_kind ty") (auto simp: render_type_value_def kv_ok_def kv_eq_iff)

lemma distinct_map_filter_inj:
  assumes "distinct xs" and "\<And>a b c. a \<in> set xs \<Longrightarrow> b \<in> set xs \<Longrightarrow> f a = Some c \<Longrightarrow> f b = Some c \<Longrightarrow> a = b"
  shows "distinct (List.map_filter f xs)"
  using assms
proof (induction xs)
  case (Cons x xs)
  have ih: "distinct (List.map_filter f xs)" using Cons by simp
  show ?case
  proof (cases "f x")
    case (Some c)
    have "c \<notin> set (List.map_filter f xs)"
    proof
      assume "c \<in> set (List.map_filter f xs)"
      then obtain y where "y \<in> set xs" "f y = Some c" by (auto simp: List.map_filter_def)
      then show False using Cons.prems Some by auto
    qed
    with ih Some show ?thesis by (simp add: List.map_filter_simps)
  qed (simp add: ih List.map_filter_simps)
qed (simp add: List.map_filter_simps)

lemma sample_type_values_distinct:
  assumes "sample_type_values rd p pair tbl ty = Inr vals" shows "distinct vals"
proof -
  obtain ks where ks: "read_keys rd (distinct_stmt p tbl [pl_type_col pair] [ty]) [ty] [] = Inr ks"
    "vals = List.map_filter (\<lambda>tuple. render_type_value ty (tuple ! 0)) (keys_tuples ks)"
    using assms by (auto simp: sample_type_values_def result_simps)
  note ok = read_keys_answer(1,2) [OF ks(1)]
  have one: "\<exists>v. t = [v] \<and> kv_ok ty v" if "t \<in> set (keys_tuples ks)" for t
    using ks.tuples_tuple_ok [OF ok(1) that] ok(2) by auto
  show ?thesis
    unfolding ks(2)
  proof (rule distinct_map_filter_inj [OF keys_tuples_distinct [OF ok(1)]])
    fix a b c
    assume ab: "a \<in> set (keys_tuples ks)" "b \<in> set (keys_tuples ks)"
      and c: "render_type_value ty (a ! 0) = Some c" "render_type_value ty (b ! 0) = Some c"
    obtain v w where "a = [v]" "kv_ok ty v" "b = [w]" "kv_ok ty w" using one ab by blast
    with c render_type_value_inj show "a = b" by auto
  qed
qed

subsection \<open>The edges of a pair\<close>

definition pair_plan_ok :: "run \<Rightarrow> pair_plan \<Rightarrow> bool" where
  "pair_plan_ok p pp \<longleftrightarrow>
     distinct (map ve_value (pp_edges pp)) \<and> set (map ve_value (pp_edges pp)) \<subseteq> pp_sampled pp
     \<and> (\<forall>e \<in> set (pp_edges pp). edge_ok p pp e \<and> fk_parent (ve_fk e) \<in> rn_in_scope p
          \<and> (\<exists>t v. virtual_edge_to p (pp_pair pp) v t (pp_id_type pp) = Some e))"

lemma virtual_edge_to_ok:
  assumes "virtual_edge_to p (pp_pair pp) v t (pp_id_type pp) = Some e"
  shows "edge_ok p pp e \<and> fk_parent (ve_fk e) = t \<and> t \<in> rn_in_scope p \<and> ve_value e = v"
proof -
  obtain tbl types where tbl: "rn_by_ref p t = Some tbl" "length (tab_pk tbl) = 1" "t \<in> rn_in_scope p"
    "types_of_columns tbl (tab_pk tbl) = Inr types" "kt_kind (types ! 0) = kt_kind (pp_id_type pp)"
    and e: "ve_types e = types" "fk_parent (ve_fk e) = t" "fk_parent_cols (ve_fk e) = [tab_pk tbl ! 0]"
      "ve_value e = v"
    using assms
    by (auto simp: virtual_edge_to_def split: if_splits option.splits sum.splits)
  obtain c where c: "tab_pk tbl = [c]" using tbl(2) by (auto simp: length_Suc_conv)
  then obtain ty where "types = [ty]"
    using types_of_columns_length [OF tbl(4)] by (auto simp: length_Suc_conv)
  then show ?thesis using tbl e c by (auto simp: edge_ok_def types_for_def)
qed

lemma value_step_cases:
  assumes "value_step rd pair idt v s = Inr s1"
  shows "\<exists>p t. map_type_value rd (vs_run s) pair v = Inr (p, t) \<and> vs_run s1 = p
    \<and> (vs_edges s1 = vs_edges s
       \<or> (\<exists>u e. virtual_edge_to p pair v u idt = Some e \<and> vs_edges s1 = vs_edges s @ [e]))"
proof -
  obtain p t where p: "map_type_value rd (vs_run s) pair v = Inr (p, t)"
    using assms by (auto simp: value_step_def result_simps)
  show ?thesis
  proof (cases t)
    case None
    then show ?thesis using assms p by (auto simp: value_step_def)
  next
    case (Some u)
    then show ?thesis
      using assms p by (cases "virtual_edge_to p pair v u idt") (auto simp: value_step_def Let_def)
  qed
qed

lemma value_steps_ok:
  assumes "fold_res (value_step rd pair idt) vals s = Inr s'" and "distinct vals"
    and "\<forall>e \<in> set (vs_edges s). ve_value e \<notin> set vals" and "distinct (map ve_value (vs_edges s))"
    and "\<forall>e \<in> set (vs_edges s). \<exists>t v. virtual_edge_to (vs_run s) pair v t idt = Some e"
  shows "reads_only (vs_run s) (vs_run s')
    \<and> set (map ve_value (vs_edges s')) \<subseteq> set (map ve_value (vs_edges s)) \<union> set vals
    \<and> distinct (map ve_value (vs_edges s'))
    \<and> (\<forall>e \<in> set (vs_edges s'). \<exists>t v. virtual_edge_to (vs_run s') pair v t idt = Some e)"
  using assms
proof (induction vals arbitrary: s)
  case (Cons v vals)
  obtain s1 where s1: "value_step rd pair idt v s = Inr s1"
    "fold_res (value_step rd pair idt) vals s1 = Inr s'"
    using Cons.prems(1) by (auto simp: result_simps)
  obtain p t where p: "map_type_value rd (vs_run s) pair v = Inr (p, t)" "vs_run s1 = p"
    and edges: "vs_edges s1 = vs_edges s
      \<or> (\<exists>u e. virtual_edge_to p pair v u idt = Some e \<and> vs_edges s1 = vs_edges s @ [e])"
    using value_step_cases [OF s1(1)] by metis
  have r: "reads_only (vs_run s) p" by (rule map_type_value_reads [OF p(1)])
  then have same: "virtual_edge_to p = virtual_edge_to (vs_run s)"
    by (simp add: reads_only_def virtual_edge_to_frame)
  have val: "ve_value e = v" if "virtual_edge_to p pair v u idt = Some e" for u e
    using that by (auto simp: virtual_edge_to_def split: if_splits option.splits sum.splits)
  from edges have new: "set (map ve_value (vs_edges s1)) \<subseteq> set (map ve_value (vs_edges s)) \<union> {v}
      \<and> distinct (map ve_value (vs_edges s1))
      \<and> (\<forall>e \<in> set (vs_edges s1). \<exists>t v. virtual_edge_to p pair v t idt = Some e)
      \<and> (\<forall>e \<in> set (vs_edges s1). ve_value e \<notin> set vals)"
    using Cons.prems(2-5) val unfolding same by fastforce
  have ih: "reads_only (vs_run s1) (vs_run s')
      \<and> set (map ve_value (vs_edges s')) \<subseteq> set (map ve_value (vs_edges s1)) \<union> set vals
      \<and> distinct (map ve_value (vs_edges s'))
      \<and> (\<forall>e \<in> set (vs_edges s'). \<exists>t v. virtual_edge_to (vs_run s') pair v t idt = Some e)"
    by (rule Cons.IH [OF s1(2)]) (use new p(2) Cons.prems(2) in auto)
  have "set (map ve_value (vs_edges s')) \<subseteq> set (map ve_value (vs_edges s1)) \<union> set vals"
    using ih by (rule conjunct1 [OF conjunct2])
  also have "\<dots> \<subseteq> set (map ve_value (vs_edges s)) \<union> {v} \<union> set vals"
    using conjunct1 [OF new] by (rule Un_mono) simp
  finally have "set (map ve_value (vs_edges s'))
      \<subseteq> set (map ve_value (vs_edges s)) \<union> set (v # vals)" by (simp add: Un_assoc)
  moreover have "reads_only (vs_run s) (vs_run s')"
    by (rule reads_only_trans [OF r]) (use ih p(2) in simp)
  ultimately show ?case using ih by (intro conjI) simp_all
qed simp

lemma infer_values_ok:
  assumes "infer_values rd p pair ty idt vals = Inr (q, pp, found)" and "distinct vals"
  shows "reads_only p q \<and> (\<exists>plan. pp = Some plan \<and> pp_pair plan = pair \<and> pair_plan_ok q plan)"
proof -
  let ?s = "\<lparr>vs_run = p, vs_edges = [], vs_unmapped = 0, vs_unfollowed = []\<rparr>"
  obtain s where s: "fold_res (value_step rd pair idt) vals ?s = Inr s" "q = vs_run s"
    "pp = Some \<lparr>pp_pair = pair, pp_type_type = ty, pp_id_type = idt, pp_edges = vs_edges s,
        pp_sampled = set vals\<rparr>"
    using assms(1) by (auto simp: infer_values_def result_simps)
  let ?plan = "\<lparr>pp_pair = pair, pp_type_type = ty, pp_id_type = idt, pp_edges = vs_edges s,
        pp_sampled = set vals\<rparr>"
  have ok: "reads_only p q" "set (map ve_value (vs_edges s)) \<subseteq> set vals"
    "distinct (map ve_value (vs_edges s))"
    "\<forall>e \<in> set (vs_edges s). \<exists>t v. virtual_edge_to q pair v t idt = Some e"
    using value_steps_ok [OF s(1) assms(2)] s(2) by simp_all
  have "edge_ok q ?plan e \<and> fk_parent (ve_fk e) \<in> rn_in_scope q" if "e \<in> set (vs_edges s)" for e
    using ok(4) that virtual_edge_to_ok [of q ?plan] by fastforce
  then have "pair_plan_ok q ?plan" using ok(2-4) by (simp add: pair_plan_ok_def)
  with ok(1) s(3) show ?thesis by simp
qed

lemma infer_pair_ok:
  assumes "infer_pair rd p pair = Inr (q, pp, found)"
  shows "reads_only p q
    \<and> (\<forall>plan. pp = Some plan \<longrightarrow> pp_pair plan = pair \<and> pair_plan_ok q plan)"
proof (cases "pp = None \<and> q = p")
  case False
  then obtain ty idt tbl vals where "sample_type_values rd p pair tbl ty = Inr vals"
    "infer_values rd p pair ty idt vals = Inr (q, pp, found)"
    using assms
    by (auto simp: infer_pair_def Let_def result_simps split: if_splits option.splits)
  with infer_values_ok sample_type_values_distinct show ?thesis by blast
qed simp

subsection \<open>All pairs\<close>

lemma pair_plan_ok_frame: "infer_frame p q \<Longrightarrow> pair_plan_ok q pp \<longleftrightarrow> pair_plan_ok p pp"
  by (simp add: pair_plan_ok_def edge_ok_def virtual_edge_to_frame)
    (simp add: infer_frame_def)

definition all_pairs_ok :: "run \<Rightarrow> bool" where
  "all_pairs_ok p \<longleftrightarrow> (\<forall>t. \<forall>pp \<in> set (rn_inferred p t). pl_table (pp_pair pp) = t \<and> pair_plan_ok p pp)"

lemma all_pairs_ok_reads: "reads_only p q \<Longrightarrow> all_pairs_ok q \<longleftrightarrow> all_pairs_ok p"
  by (auto simp: all_pairs_ok_def reads_only_def pair_plan_ok_frame)

lemma report_edges_reads: "reads_only (fst s) (fst (fold report_edge es s))"
proof (induction es arbitrary: s)
  case (Cons e es)
  have "reads_only (fst s) (fst (report_edge e s))"
    by (auto simp: report_edge_def Let_def reads_only_def split: prod.splits)
  then show ?case using Cons [of "report_edge e s"] by (auto intro: reads_only_trans)
qed simp

lemma infer_step_ok:
  assumes "infer_step rd pair s = Inr s'" and "all_pairs_ok (fst s)"
  shows "infer_frame (fst s) (fst s') \<and> all_pairs_ok (fst s')"
proof -
  obtain p pp found where p: "infer_pair rd (fst s) pair = Inr (p, pp, found)"
    using assms(1) by (auto simp: infer_step_def result_simps)
  note ok = infer_pair_ok [OF p]
  show ?thesis
  proof (cases "\<exists>plan. pp = Some plan \<and> pp_edges plan \<noteq> []")
    case False
    then have "reads_only p (fst s')"
      using assms(1) p
      by (auto simp: infer_step_def Let_def reads_only_def split: option.splits if_splits)
    then show ?thesis
      using ok assms(2) all_pairs_ok_reads [of "fst s" "fst s'"]
      by (auto simp: reads_only_def intro: infer_frame_trans reads_only_trans)
  next
    case True
    then obtain plan where plan: "pp = Some plan" "pp_edges plan \<noteq> []" by blast
    define p2 where "p2 = p\<lparr>rn_unmapped := rn_unmapped p @ pf_unmapped found,
      rn_inferred := (rn_inferred p)(pl_table pair := rn_inferred p (pl_table pair) @ [plan])\<rparr>"
    obtain p3 seen where p3: "fold report_edge (pp_edges plan) (p2, snd s) = (p3, seen)"
      by (cases "fold report_edge (pp_edges plan) (p2, snd s)")
    then have "fst s' = p3\<lparr>rn_polymorphic := rn_polymorphic p3 @ pf_unfollowed found\<rparr>"
      using assms(1) p plan by (auto simp: infer_step_def Let_def p2_def)
    then have "reads_only p2 (fst s')"
      using report_edges_reads [of "(p2, snd s)" "pp_edges plan"] p3 by (simp add: reads_only_def)
    have f: "infer_frame p p2" by (simp add: p2_def)
    have old: "all_pairs_ok p" using ok assms(2) all_pairs_ok_reads by blast
    have okp: "pp_pair plan = pair" "pair_plan_ok p plan" using ok plan(1) by blast+
    have inf: "rn_inferred p2 t
        = (if t = pl_table pair then rn_inferred p t @ [plan] else rn_inferred p t)" for t
      by (simp add: p2_def)
    have "pl_table (pp_pair x) = t \<and> pair_plan_ok p x" if "x \<in> set (rn_inferred p2 t)" for t x
      using that old okp unfolding inf all_pairs_ok_def by (fastforce split: if_splits)
    then have "all_pairs_ok p2" by (simp add: all_pairs_ok_def pair_plan_ok_frame [OF f])
    have "infer_frame (fst s) p" "infer_frame p2 (fst s')"
      using ok \<open>reads_only p2 (fst s')\<close> by (simp_all add: reads_only_def)
    then have "infer_frame (fst s) (fst s')"
      by (blast intro: infer_frame_trans [OF _ infer_frame_trans] f)
    with \<open>reads_only p2 (fst s')\<close> \<open>all_pairs_ok p2\<close> show ?thesis by (simp add: all_pairs_ok_reads)
  qed
qed

lemma infer_steps_ok:
  "fold_res (infer_step rd) pairs s = Inr s' \<Longrightarrow> all_pairs_ok (fst s) \<Longrightarrow>
    infer_frame (fst s) (fst s') \<and> all_pairs_ok (fst s')"
proof (induction pairs arbitrary: s)
  case (Cons pair pairs)
  obtain s1 where s1: "infer_step rd pair s = Inr s1" "fold_res (infer_step rd) pairs s1 = Inr s'"
    using Cons.prems(1) by (auto simp: result_simps)
  from infer_step_ok [OF s1(1) Cons.prems(2)] Cons.IH [OF s1(2)] show ?case
    by (auto intro: infer_frame_trans)
qed simp

lemma infer_polymorphic_ok:
  assumes "infer_polymorphic rd p = Inr q"
  shows "infer_frame p q \<and> all_pairs_ok q"
proof -
  obtain s where "fold_res (infer_step rd) (polymorphic_pairs (rn_tables p) (outgoing p))
      (p\<lparr>rn_inferred := (\<lambda>_. []), rn_unknown_types := []\<rparr>, {}) = Inr s" "q = fst s"
    using assms by (auto simp: infer_polymorphic_def result_simps)
  from infer_steps_ok [OF this(1)] this(2) show ?thesis
    by (simp add: all_pairs_ok_def) (simp add: infer_frame_def)
qed

lemma infer_ready:
  assumes "infer_polymorphic rd p = Inr q" and "ready p root"
  shows "ready q root"
proof -
  have f: "infer_frame p q" and a: "all_pairs_ok q" using infer_polymorphic_ok [OF assms(1)] by auto
  have "inferred_ok q"
    using a by (auto simp: inferred_ok_def all_pairs_ok_def pair_plan_ok_def)
  moreover have "ids_ok q \<and> fks_ok q"
    using assms(2) f by (simp add: ready_def run_ok_def plan_ok_def ids_ok_def fks_ok_def infer_frame_def)
  moreover have "rn_selected q = Map.empty" "rn_selected_row q = rn_selected_row p" "root \<in> rn_in_scope q"
    using assms(2) f by (simp_all add: ready_def infer_frame_def)
  ultimately show ?thesis using assms(2) by (simp add: ready_def run_ok_def plan_ok_def)
qed

subsection \<open>The table a value names\<close>

lemma by_name_iff: "t \<in> set (by_name p name) \<longleftrightarrow>
    t \<in> tab_ref ` set (rn_tables p) \<and> to_lower (ref_name t) = name"
  by (auto simp: by_name_def)

lemma table_named_ok:
  "table_named p names pref = Some t \<Longrightarrow>
    t \<in> tab_ref ` set (rn_tables p) \<and> to_lower (ref_name t) \<in> set names
    \<and> (ref_schema t = pref \<or> by_name p (to_lower (ref_name t)) = [t])"
proof (induction p names pref rule: table_named.induct)
  case (2 p name names pref)
  show ?case
  proof (cases "find (\<lambda>m. ref_schema m = pref) (by_name p name)")
    case (Some m)
    then have "t = m" using 2(3) by simp
    with Some have "t \<in> set (by_name p name) \<and> ref_schema t = pref"
      by (metis (mono_tags, lifting) find_Some_iff nth_mem)
    then show ?thesis by (auto simp: by_name_iff)
  next
    case None
    show ?thesis
    proof (cases "by_name p name = [t]")
      case True
      then have "t \<in> set (by_name p name)" by simp
      then have "t \<in> tab_ref ` set (rn_tables p)" "to_lower (ref_name t) = name"
        by (simp_all add: by_name_iff)
      with True show ?thesis by simp
    next
      case False
      show ?thesis
      proof (cases "by_name p name")
        case Nil
        then show ?thesis using 2(1)[OF None] 2(3) None by simp
      next
        case (Cons m ms)
        then show ?thesis using 2(2)[OF None] 2(3) None False Cons
          by (cases ms) simp_all
      qed
    qed
  qed
qed simp

end
