(* ===== verification/Polymorphic_Properties.thy ===== *)
theory Polymorphic_Properties
  imports Polymorphic_Correct Skip Example
begin

text \<open>
  What the inferred polymorphic edges promise, over a source of notes that point at orders or
  customers by a type name and an id; and the one place where the static walk of
  \<open>--skip-table\<close> does not cover them.
\<close>

section \<open>The source\<close>

text \<open>
  Three small tables with one-letter names: \<open>n\<close> has a pair \<open>(x_type, x_id)\<close>, \<open>a\<close> references \<open>c\<close>
  by a declared key. The row of \<open>n\<close> points at the row of \<open>a\<close>.
\<close>

definition tiny_n :: table_ref where "tiny_n = TableRef ''s'' ''n''"
definition tiny_a :: table_ref where "tiny_a = TableRef ''s'' ''a''"
definition tiny_c :: table_ref where "tiny_c = TableRef ''s'' ''c''"

definition tiny_col :: "string \<Rightarrow> 32 word \<Rightarrow> column" where
  "tiny_col n oid = (ex_column n)\<lparr>col_type_name := [], col_type_oid := oid\<rparr>"

definition tiny_table :: "table_ref \<Rightarrow> column list \<Rightarrow> table" where
  "tiny_table t cols = (ex_table t [])\<lparr>tab_columns := cols, tab_pk := [''i''], tab_approx_rows := 0\<rparr>"

definition tiny_tables :: "table list" where
  "tiny_tables =
     [tiny_table tiny_a [tiny_col ''i'' oid_int8, tiny_col ''f'' oid_int8],
      tiny_table tiny_c [tiny_col ''i'' oid_int8],
      tiny_table tiny_n [tiny_col ''i'' oid_int8, tiny_col ''x_type'' oid_text, tiny_col ''x_id'' oid_int8]]"

definition tiny_fk :: foreign_key where
  "tiny_fk =
     \<lparr>fk_name = ''k'', fk_child = tiny_a, fk_child_cols = [''f''], fk_parent = tiny_c,
      fk_parent_cols = [''i''], fk_match_full = False, fk_validated = True, fk_virtual = False,
      fk_indexed = True, fk_not_recreatable = False\<rparr>"

definition tiny_schema :: schema where
  "tiny_schema = \<lparr>sch_enums = [], sch_domains = [], sch_composites = [], sch_tables = tiny_tables, sch_fks = [tiny_fk]\<rparr>"

definition tiny_request :: plan_request where
  "tiny_request =
     \<lparr>rq_root = Some tiny_n, rq_take = 1, rq_where = [], rq_cap = 1, rq_table_caps = (\<lambda>_. None),
      rq_depth = 1, rq_row_budget = 10, rq_memory_budget = 1000, rq_keys = (\<lambda>_. None),
      rq_skip = [tiny_c], rq_unreadable = []\<rparr>"

definition tiny_row_a :: row where
  "tiny_row_a = [''i'' \<mapsto> IntCell 1, ''f'' \<mapsto> IntCell 2]"

definition tiny_row_n :: row where
  "tiny_row_n = [''i'' \<mapsto> IntCell 5, ''x_type'' \<mapsto> TextCell ''A'', ''x_id'' \<mapsto> IntCell 1]"

definition tiny_db :: database where
  "tiny_db t = (if t = tiny_n then [tiny_row_n] else if t = tiny_a then [tiny_row_a]
     else if t = tiny_c then [[''i'' \<mapsto> IntCell 2]] else [])"

definition tiny_reader :: reader where
  "tiny_reader = db_reader tiny_db exact_eq"

lemma tiny_answers: "answers tiny_reader tiny_db exact_eq"
  unfolding tiny_reader_def by (rule db_reader_answers [OF exact_eq_refl])

definition tiny_start :: run where
  "tiny_start = build (\<lambda>_. 0) (\<lambda>_. []) tiny_schema (Some (\<lambda>_. None)) tiny_request"

definition tiny_resolved :: run where
  "tiny_resolved = projr (resolve_identities tiny_reader tiny_start)"

lemma tiny_resolved: "resolve_identities tiny_reader tiny_start = Inr tiny_resolved"
proof -
  have "isl (resolve_identities tiny_reader tiny_start) = False" by code_simp
  then show ?thesis unfolding tiny_resolved_def by (cases rule: sum.exhaust) auto
qed

lemma tiny_ready: "ready tiny_resolved tiny_n"
proof (rule resolved_ready)
  show "resolve_identities tiny_reader (build (\<lambda>_. 0) (\<lambda>_. []) tiny_schema (Some (\<lambda>_. None))
      tiny_request) = Inr tiny_resolved"
    using tiny_resolved by (simp add: tiny_start_def)
  show "schema_ok tiny_schema" by code_simp
  show "tiny_n \<in> rn_in_scope tiny_resolved" by code_simp
qed

definition tiny_inferred :: run where
  "tiny_inferred = projr (infer_polymorphic tiny_reader tiny_resolved)"

lemma tiny_inferred: "infer_polymorphic tiny_reader tiny_resolved = Inr tiny_inferred"
proof -
  have "isl (infer_polymorphic tiny_reader tiny_resolved) = False" by code_simp
  then show ?thesis unfolding tiny_inferred_def by (cases rule: sum.exhaust) auto
qed

section \<open>The properties\<close>

text \<open>
  C20: the inference leaves the run ready for the walk: every inferred pair is filed under its own table, its edges
  have distinct type values, all of them sampled, and each edge ends in a table in scope, at one column
  that exists and travels as the pair's id column does.
\<close>

theorem inferred_edges_can_be_followed:
  assumes "infer_polymorphic rd p = Inr q" and "ready p root"
  shows "ready q root
    \<and> (\<forall>t. \<forall>pp \<in> set (rn_inferred q t). pl_table (pp_pair pp) = t
        \<and> distinct (map ve_value (pp_edges pp)) \<and> set (map ve_value (pp_edges pp)) \<subseteq> pp_sampled pp
        \<and> (\<forall>e \<in> set (pp_edges pp). edge_ok q pp e \<and> fk_parent (ve_fk e) \<in> rn_in_scope q))"
  using infer_ready [OF assms] infer_polymorphic_ok [OF assms(1)]
  by (auto simp: all_pairs_ok_def pair_plan_ok_def)

lemma inferred_edges_can_be_followed_witness: "ready tiny_inferred tiny_n"
  using inferred_edges_can_be_followed [OF tiny_inferred tiny_ready] by (rule conjunct1)

text \<open>
  C21: the walk follows them, where it may enter their parent. For every selected row of a table with an
  inferred pair, whose type column holds the value of one of the pair's edges, the parent row the id
  column names is selected, provided the parent table is one the walk enters -- in scope and not set
  aside as a lookup table, which is copied whole instead -- and the parent row has an identity, that
  is, a value in every column of the key its table is read by.
\<close>

theorem walk_follows_pairs:
  assumes "answers rd db eq" and "ready p root" and "walk rd p root = Some (Inr p')"
    and "pp \<in> set (rn_inferred p t)" and "e \<in> set (pp_edges pp)" and "enters p (ve_fk e)"
    and "k \<in> sel p' t" and "r \<in> set (db t)" and "has_key eq p t k r"
    and "r' \<in> set (db (fk_parent (ve_fk e)))" and "pair_references eq pp e r r'"
    and "has_identity p (fk_parent (ve_fk e)) r'"
  shows "\<exists>k' \<in> sel p' (fk_parent (ve_fk e)). has_key eq p (fk_parent (ve_fk e)) k' r'"
proof -
  have "(fk_parent (ve_fk e), r') \<in> pair_wants db eq p t pp e k"
    using assms(8-12) by (auto simp: pair_wants_def)
  then have "(fk_parent (ve_fk e), r') \<in> key_wants db eq p t k"
    using assms(4-6) by (auto simp: key_wants_def)
  then have "(fk_parent (ve_fk e), r') \<in> wants db eq p (sel p')"
    using assms(7) by (auto simp: wants_def)
  then show ?thesis using walk_facts [OF assms(1-3)] by metis
qed

definition tiny_done :: run where
  "tiny_done = (case walk tiny_reader tiny_inferred tiny_n of Some (Inr p) \<Rightarrow> p | _ \<Rightarrow> tiny_start)"

lemma tiny_walk:
  "(case walk tiny_reader tiny_inferred tiny_n of
      Some (Inr p) \<Rightarrow> map_option keys_tuples (rn_selected p tiny_n) | _ \<Rightarrow> None)
   = Some [ex_key 5]"
  by code_simp

lemma tiny_walked: "walk tiny_reader tiny_inferred tiny_n = Some (Inr tiny_done)"
  using tiny_walk by (auto simp: tiny_done_def split: option.splits sum.splits)

definition tiny_pair :: pair_plan where
  "tiny_pair = hd (rn_inferred tiny_inferred tiny_n)"

definition tiny_edge :: virtual_edge where
  "tiny_edge = hd (pp_edges tiny_pair)"

lemma tiny_references: "pair_references exact_eq tiny_pair tiny_edge tiny_row_n tiny_row_a"
proof -
  have "row_key [pp_type_type tiny_pair, pp_id_type tiny_pair]
        [pl_type_col (pp_pair tiny_pair), pl_id_col (pp_pair tiny_pair)] tiny_row_n
      = Some [key_value_zero\<lparr>kv_s := ''A''\<rparr>, key_value_zero\<lparr>kv_i := 1\<rparr>]"
    "render_type_value (pp_type_type tiny_pair) (key_value_zero\<lparr>kv_s := ''A''\<rparr>)
      = Some (ve_value tiny_edge)"
    "row_key (ve_types tiny_edge) (fk_parent_cols (ve_fk tiny_edge)) tiny_row_a
      = Some [key_value_zero\<lparr>kv_i := 1\<rparr>]"
    by code_simp+
  then show ?thesis by (auto simp: pair_references_def exact_eq_def)
qed

lemma walk_follows_pairs_witness:
  "\<exists>k' \<in> sel tiny_done tiny_a. has_key exact_eq tiny_inferred tiny_a k' tiny_row_a"
proof -
  have rdy: "ready tiny_inferred tiny_n" by (rule infer_ready [OF tiny_inferred tiny_ready])
  have in_db: "tiny_row_n \<in> set (tiny_db tiny_n)" "tiny_row_a \<in> set (tiny_db tiny_a)"
    by (simp_all add: tiny_db_def tiny_n_def tiny_a_def)
  have "rn_inferred tiny_inferred tiny_n \<noteq> []" "pp_edges tiny_pair \<noteq> []" by code_simp+
  then have pair: "tiny_pair \<in> set (rn_inferred tiny_inferred tiny_n)"
    "tiny_edge \<in> set (pp_edges tiny_pair)" by (simp_all add: tiny_pair_def tiny_edge_def)
  have edge: "enters tiny_inferred (ve_fk tiny_edge)" "fk_parent (ve_fk tiny_edge) = tiny_a"
    by code_simp+
  have tuples: "map_option keys_tuples (rn_selected tiny_done tiny_n) = Some [ex_key 5]"
    using tiny_walk by (simp add: tiny_walked)
  have "run_ok tiny_done" using walk_facts [OF tiny_answers rdy tiny_walked] by metis
  from sel_tuples [OF this tuples] have sel5: "ex_key 5 \<in> sel tiny_done tiny_n" by simp
  have keys: "row_key (id_types (rn_ids tiny_inferred tiny_n))
      (id_columns (rn_ids tiny_inferred tiny_n)) tiny_row_n = Some (ex_key 5)"
    "row_key (id_types (rn_ids tiny_inferred tiny_a))
      (id_columns (rn_ids tiny_inferred tiny_a)) tiny_row_a = Some (ex_key 1)"
    by code_simp+
  then have "has_key exact_eq tiny_inferred tiny_n (ex_key 5) tiny_row_n"
    "has_identity tiny_inferred tiny_a tiny_row_a"
    by (simp_all add: has_key_def has_identity_def exact_eq_def)
  from walk_follows_pairs [OF tiny_answers rdy tiny_walked pair edge(1) sel5 in_db(1) this(1)]
    in_db(2) tiny_references this(2) edge(2)
  show ?thesis by simp
qed

text \<open>
  C22: a type value names a planned table or none: the table found has one of the value's candidate
  names, in lower case, and either lies in the pair's own schema or is the only table of that name.
\<close>

theorem type_value_names_a_table:
  assumes "table_named p names pref = Some t"
  shows "t \<in> tab_ref ` set (rn_tables p) \<and> to_lower (ref_name t) \<in> set names
    \<and> (ref_schema t = pref \<or> by_name p (to_lower (ref_name t)) = [t])"
  by (rule table_named_ok [OF assms])

lemma type_value_names_a_table_witness: "tiny_a \<in> tab_ref ` set (rn_tables tiny_start)"
proof -
  have "table_named tiny_start (rails_candidates ''A'') ''s'' = Some tiny_a" by code_simp
  from type_value_names_a_table [OF this] show ?thesis ..
qed

section \<open>Where the static walk falls short\<close>

text \<open>
  \<open>staticReach\<close> follows declared edges only. Here the request skips \<open>c\<close>: the skip is accepted
  without a refusal, the walk then reaches the row of \<open>a\<close> over the inferred edge, and the row
  of \<open>c\<close> that it references by a declared, validated key is left out.
\<close>

definition tiny_skipped :: run where
  "tiny_skipped = (case apply_skip_and_privileges tiny_reader tiny_start tiny_n of
     Some (Inr p) \<Rightarrow> p | _ \<Rightarrow> tiny_start)"

definition tiny_skip_done :: "(plan_error + run) option" where
  "tiny_skip_done =
     (case resolve_identities tiny_reader tiny_skipped of
        Inl e \<Rightarrow> Some (Inl e)
      | Inr p \<Rightarrow> (case infer_polymorphic tiny_reader p of
          Inl e \<Rightarrow> Some (Inl e)
        | Inr q \<Rightarrow> walk tiny_reader q tiny_n))"

text \<open>
  C23: a request can skip a table the slice needs: \<open>applySkipAndPrivileges\<close> accepts it, no stage refuses, and the
  slice has a row of \<open>a\<close> whose declared parent in \<open>c\<close> is out of scope and not selected.
\<close>

theorem skip_misses_inferred_parents:
  "static_reach tiny_start tiny_n = Some {}
   \<and> rn_refusals tiny_skipped = [] \<and> tiny_c \<notin> rn_in_scope tiny_skipped
   \<and> (\<exists>p. tiny_skip_done = Some (Inr p) \<and> rn_refusals p = []
        \<and> map_option keys_tuples (rn_selected p tiny_a) = Some [ex_key 1]
        \<and> rn_selected p tiny_c = None)"
proof -
  have 1: "static_reach tiny_start tiny_n = Some {}" by code_simp
  have 2: "rn_refusals tiny_skipped = [] \<and> tiny_c \<notin> rn_in_scope tiny_skipped" by code_simp
  have 3: "case tiny_skip_done of
        Some (Inr p) \<Rightarrow> rn_refusals p = []
          \<and> map_option keys_tuples (rn_selected p tiny_a) = Some [ex_key 1]
          \<and> (case rn_selected p tiny_c of None \<Rightarrow> True | Some _ \<Rightarrow> False)
      | _ \<Rightarrow> False" by code_simp
  from 1 2 3 show ?thesis by (auto split: option.splits sum.splits)
qed

end
