(* ===== verification/Order.thy ===== *)
theory Order
  imports Root
begin

text \<open>
  \<open>internal/plan/order.go\<close>: the load order. \<open>tarjan\<close> finds the strongly connected components of
  the foreign-key graph (child to parent), \<open>load_order\<close> condenses them and sorts the
  condensation topologically, parents first, with (schema, name) breaking ties. Both
  recursions carry fuel; \<open>Order_Correct\<close> shows that the fuel given never runs out.
\<close>

type_synonym graph = "table_ref \<Rightarrow> table_ref list"

subsection \<open>Strongly connected components\<close>

text \<open>The variables \<open>strongconnect\<close> closes over. The stack has its top first; \<open>onStack\<close> is the set
  of tables marked true.\<close>

record scc_state =
  sc_index :: "table_ref \<Rightarrow> nat option"
  sc_low :: "table_ref \<Rightarrow> nat"
  sc_on :: "table_ref set"
  sc_stack :: "table_ref list"
  sc_out :: "table_ref list list"
  sc_next :: nat

definition scc_enter :: "table_ref \<Rightarrow> scc_state \<Rightarrow> scc_state" where
  "scc_enter v s =
     s\<lparr>sc_index := (sc_index s)(v \<mapsto> sc_next s), sc_low := (sc_low s)(v := sc_next s),
       sc_next := Suc (sc_next s), sc_stack := v # sc_stack s, sc_on := insert v (sc_on s)\<rparr>"

definition lower :: "table_ref \<Rightarrow> nat \<Rightarrow> scc_state \<Rightarrow> scc_state" where
  "lower v n s = (if n < sc_low s v then s\<lparr>sc_low := (sc_low s)(v := n)\<rparr> else s)"

text \<open>The pop loop: the tables taken, and the stack left.\<close>

fun pop_until :: "table_ref \<Rightarrow> table_ref list \<Rightarrow> table_ref list \<times> table_ref list" where
  "pop_until v [] = ([], [])"
| "pop_until v (w # st) =
     (if w = v then ([w], st) else (let (comp, rest) = pop_until v st in (w # comp, rest)))"

definition scc_leave :: "table_ref \<Rightarrow> scc_state \<Rightarrow> scc_state" where
  "scc_leave v s =
     (if sc_index s v = Some (sc_low s v)
      then let (comp, rest) = pop_until v (sc_stack s)
           in s\<lparr>sc_stack := rest, sc_on := sc_on s - set comp,
                sc_out := sc_out s @ [sort_by (<) comp]\<rparr>
      else s)"

fun strongconnect :: "nat \<Rightarrow> graph \<Rightarrow> table_ref \<Rightarrow> scc_state \<Rightarrow> scc_state option"
  and scan_edges :: "nat \<Rightarrow> graph \<Rightarrow> table_ref \<Rightarrow> table_ref list \<Rightarrow> scc_state \<Rightarrow> scc_state option" where
  "strongconnect 0 g v s = None"
| "strongconnect (Suc n) g v s =
     (case scan_edges n g v (g v) (scc_enter v s) of
        None \<Rightarrow> None
      | Some s' \<Rightarrow> Some (scc_leave v s'))"
| "scan_edges n g v [] s = Some s"
| "scan_edges n g v (w # ws) s =
     (case sc_index s w of
        None \<Rightarrow>
          (case strongconnect n g w s of
             None \<Rightarrow> None
           | Some s' \<Rightarrow> scan_edges n g v ws (lower v (sc_low s' w) s'))
      | Some i \<Rightarrow> scan_edges n g v ws (if w \<in> sc_on s then lower v i s else s))"

definition scc_start :: scc_state where
  "scc_start = \<lparr>sc_index = Map.empty, sc_low = (\<lambda>_. 0), sc_on = {}, sc_stack = [], sc_out = [],
     sc_next = 0\<rparr>"

fun connect_all :: "nat \<Rightarrow> graph \<Rightarrow> table_ref list \<Rightarrow> scc_state \<Rightarrow> scc_state option" where
  "connect_all n g [] s = Some s"
| "connect_all n g (t # ts) s =
     (if sc_index s t \<noteq> None then connect_all n g ts s
      else case strongconnect n g t s of None \<Rightarrow> None | Some s' \<Rightarrow> connect_all n g ts s')"

definition tarjan :: "table_ref list \<Rightarrow> graph \<Rightarrow> table_ref list list option" where
  "tarjan tables g = map_option sc_out (connect_all (length tables) g tables scc_start)"

subsection \<open>The load order\<close>

text \<open>The edges the order looks at: declared ones between tables of the plan.\<close>

definition orders :: "table_ref list \<Rightarrow> foreign_key \<Rightarrow> bool" where
  "orders tables fk \<longleftrightarrow>
     \<not> fk_virtual fk \<and> fk_child fk \<in> set tables \<and> fk_parent fk \<in> set tables"

definition parent_graph :: "table_ref list \<Rightarrow> foreign_key list \<Rightarrow> graph" where
  "parent_graph tables fks t =
     sort_by (<) (map fk_parent
       (filter (\<lambda>fk. orders tables fk \<and> fk_child fk = t \<and> fk_child fk \<noteq> fk_parent fk) fks))"

definition self_cycles :: "table_ref list \<Rightarrow> foreign_key list \<Rightarrow> table_ref set" where
  "self_cycles tables fks =
     fk_child ` set (filter (\<lambda>fk. orders tables fk \<and> fk_child fk = fk_parent fk) fks)"

definition comp_of :: "table_ref list list \<Rightarrow> table_ref \<Rightarrow> nat" where
  "comp_of comps t = length (takeWhile (\<lambda>c. t \<notin> set c) comps)"

text \<open>\<open>idx\<close>, the components by their first table, and \<open>rank\<close>, its inverse.\<close>

definition comp_idx :: "table_ref list list \<Rightarrow> nat list" where
  "comp_idx comps = sort_by (\<lambda>a b. comps ! a ! 0 < comps ! b ! 0) [0..<length comps]"

definition comp_rank :: "table_ref list list \<Rightarrow> nat \<Rightarrow> nat" where
  "comp_rank comps i = length (takeWhile (\<lambda>j. j \<noteq> i) (comp_idx comps))"

definition by_rank :: "table_ref list list \<Rightarrow> nat list \<Rightarrow> nat list" where
  "by_rank comps = sort_by (\<lambda>a b. comp_rank comps a < comp_rank comps b)"

record condensation =
  cd_succ :: "nat \<Rightarrow> nat list"
  cd_indeg :: "nat \<Rightarrow> nat"
  cd_seen :: "(nat \<times> nat) set"

definition condense_step ::
  "table_ref list \<Rightarrow> table_ref list list \<Rightarrow> foreign_key \<Rightarrow> condensation \<Rightarrow> condensation" where
  "condense_step tables comps fk c =
     (if \<not> orders tables fk then c
      else let a = comp_of comps (fk_parent fk); b = comp_of comps (fk_child fk)
           in if a = b \<or> (a, b) \<in> cd_seen c then c
              else \<lparr>cd_succ = (cd_succ c)(a := cd_succ c a @ [b]),
                    cd_indeg = (cd_indeg c)(b := Suc (cd_indeg c b)),
                    cd_seen = insert (a, b) (cd_seen c)\<rparr>)"

definition condense ::
  "table_ref list \<Rightarrow> table_ref list list \<Rightarrow> foreign_key list \<Rightarrow> condensation" where
  "condense tables comps fks =
     fold (condense_step tables comps) fks
       \<lparr>cd_succ = (\<lambda>_. []), cd_indeg = (\<lambda>_. 0), cd_seen = {}\<rparr>"

text \<open>One release of a component: its in-degree falls, and at zero it is ready.\<close>

definition release :: "nat \<Rightarrow> nat list \<times> (nat \<Rightarrow> nat) \<Rightarrow> nat list \<times> (nat \<Rightarrow> nat)" where
  "release j s =
     (let (ready, indeg) = s; indeg' = indeg(j := indeg j - 1)
      in (if indeg' j = 0 then ready @ [j] else ready, indeg'))"

fun place_loop ::
  "nat \<Rightarrow> table_ref list list \<Rightarrow> (nat \<Rightarrow> nat list) \<Rightarrow> nat list \<Rightarrow> (nat \<Rightarrow> nat) \<Rightarrow> table_ref list
    \<Rightarrow> table_ref list option" where
  "place_loop n comps succ [] indeg order = Some order"
| "place_loop 0 comps succ (i # ready) indeg order = None"
| "place_loop (Suc n) comps succ (i # ready) indeg order =
     (let (ready', indeg') = fold release (by_rank comps (succ i)) (ready, indeg)
      in place_loop n comps succ (by_rank comps ready') indeg' (order @ comps ! i))"

definition place_all ::
  "table_ref list list \<Rightarrow> condensation \<Rightarrow> table_ref list option" where
  "place_all comps c =
     place_loop (length comps) comps (cd_succ c)
       (by_rank comps (filter (\<lambda>i. cd_indeg c i = 0) [0..<length comps])) (cd_indeg c) []"

text \<open>The defensive tail: any table not placed, in (schema, name) order.\<close>

definition place_rest :: "table_ref list \<Rightarrow> table_ref list \<Rightarrow> table_ref list" where
  "place_rest ordered order =
     (if length order < length ordered
      then order @ filter (\<lambda>t. t \<notin> set order) ordered else order)"

definition reported ::
  "table_ref list \<Rightarrow> foreign_key list \<Rightarrow> table_ref list list \<Rightarrow> table_ref list list" where
  "reported tables fks comps =
     filter (\<lambda>c. 1 < length c \<or> c ! 0 \<in> self_cycles tables fks)
       (map (\<lambda>i. comps ! i) (comp_idx comps))"

definition load_order ::
  "table_ref list \<Rightarrow> foreign_key list \<Rightarrow> (table_ref list \<times> table_ref list list) option" where
  "load_order tables fks =
     (let ordered = sort_by (<) tables in
      case tarjan ordered (parent_graph tables fks) of
        None \<Rightarrow> None
      | Some comps \<Rightarrow>
          (case place_all comps (condense tables comps fks) of
             None \<Rightarrow> None
           | Some order \<Rightarrow> Some (place_rest ordered order, reported tables fks comps)))"

end
