(* ===== verification/Order_Correct.thy ===== *)
theory Order_Correct
  imports Order
begin

text \<open>
  Correctness of the load order. Part one: Tarjan's invariants, so that \<open>tarjan\<close> returns the
  strongly connected components of the graph, each after the ones it points into. Part two: the
  topological sort places every component after those it depends on, so the defensive tail adds
  nothing.
\<close>

subsection \<open>The graph\<close>

definition edges_of :: "graph \<Rightarrow> (table_ref \<times> table_ref) set" where
  "edges_of g = {(v, w). w \<in> set (g v)}"

definition closed_under :: "graph \<Rightarrow> table_ref set \<Rightarrow> bool" where
  "closed_under g A \<longleftrightarrow> (\<forall>v \<in> A. set (g v) \<subseteq> A)"

lemma edges_of_iff [simp]: "(v, w) \<in> edges_of g \<longleftrightarrow> w \<in> set (g v)"
  by (simp add: edges_of_def)

lemma closed_under_reaches:
  assumes "(v, w) \<in> (edges_of g)\<^sup>*" and "closed_under g A" and "v \<in> A"
  shows "w \<in> A"
  using assms(1) by (induction) (use assms(2,3) in \<open>auto simp: closed_under_def\<close>)

definition same_component :: "graph \<Rightarrow> table_ref \<Rightarrow> table_ref \<Rightarrow> bool" where
  "same_component g u v \<longleftrightarrow> (u, v) \<in> (edges_of g)\<^sup>* \<and> (v, u) \<in> (edges_of g)\<^sup>*"

subsection \<open>Emitted components\<close>

definition emitted :: "scc_state \<Rightarrow> table_ref set" where
  "emitted s = set (concat (sc_out s))"

text \<open>Every prefix of the output is closed, and the tables of a component reach each other.\<close>

definition good_out :: "graph \<Rightarrow> table_ref list list \<Rightarrow> bool" where
  "good_out g out \<longleftrightarrow>
     (\<forall>n. closed_under g (set (concat (take n out))))
     \<and> (\<forall>c \<in> set out. c \<noteq> [] \<and> (\<forall>u \<in> set c. \<forall>v \<in> set c. (u, v) \<in> (edges_of g)\<^sup>*))"

lemma good_out_Nil [simp]: "good_out g []"
  by (simp add: good_out_def closed_under_def)

lemma good_out_closed: "good_out g out \<Longrightarrow> closed_under g (set (concat out))"
  unfolding good_out_def by (metis order_refl take_all)

lemma good_out_snoc:
  assumes "good_out g out" and "closed_under g (set (concat out) \<union> set c)" and "c \<noteq> []"
    and "\<And>u v. u \<in> set c \<Longrightarrow> v \<in> set c \<Longrightarrow> (u, v) \<in> (edges_of g)\<^sup>*"
  shows "good_out g (out @ [c])"
proof -
  have "closed_under g (set (concat (take n (out @ [c]))))" for n
  proof (cases "n \<le> length out")
    case True
    then show ?thesis using assms(1) by (simp add: good_out_def)
  next
    case False
    then show ?thesis using assms(2) by simp
  qed
  with assms(1,3,4) show ?thesis by (auto simp: good_out_def)
qed

subsection \<open>The invariant\<close>

definition idx :: "scc_state \<Rightarrow> table_ref \<Rightarrow> nat" where
  "idx s v = the (sc_index s v)"

definition scc_inv :: "graph \<Rightarrow> scc_state \<Rightarrow> bool" where
  "scc_inv g s \<longleftrightarrow>
     sorted_wrt (\<lambda>a b. idx s b < idx s a) (sc_stack s)
     \<and> distinct (concat (sc_out s) @ sc_stack s)
     \<and> dom (sc_index s) = emitted s \<union> set (sc_stack s)
     \<and> (\<forall>v \<in> dom (sc_index s). idx s v < sc_next s)
     \<and> sc_on s = set (sc_stack s)
     \<and> good_out g (sc_out s)"

text \<open>What a call leaves: everything visited before keeps its number and low link.\<close>

definition extends :: "scc_state \<Rightarrow> scc_state \<Rightarrow> bool" where
  "extends s s' \<longleftrightarrow>
     sc_index s \<subseteq>\<^sub>m sc_index s' \<and> (\<forall>u \<in> dom (sc_index s). sc_low s' u = sc_low s u)
     \<and> emitted s \<subseteq> emitted s' \<and> sc_next s \<le> sc_next s'"

text \<open>An edge target is dealt with, as far as a low link of \<open>n\<close> is concerned.\<close>

definition settled :: "scc_state \<Rightarrow> nat \<Rightarrow> table_ref \<Rightarrow> bool" where
  "settled s n w \<longleftrightarrow> w \<in> emitted s \<or> (w \<in> set (sc_stack s) \<and> n \<le> idx s w)"

definition reaches_lower :: "graph \<Rightarrow> scc_state \<Rightarrow> table_ref \<Rightarrow> bool" where
  "reaches_lower g s u \<longleftrightarrow>
     (\<exists>x \<in> set (sc_stack s). idx s x < idx s u \<and> (u, x) \<in> (edges_of g)\<^sup>*)"

text \<open>The part of the stack above a table: explored, and leading below itself.\<close>

definition explored :: "graph \<Rightarrow> scc_state \<Rightarrow> nat \<Rightarrow> table_ref \<Rightarrow> bool" where
  "explored g s n u \<longleftrightarrow> (\<forall>w \<in> set (g u). settled s n w) \<and> reaches_lower g s u"

definition low_ok :: "graph \<Rightarrow> scc_state \<Rightarrow> table_ref \<Rightarrow> bool" where
  "low_ok g s v \<longleftrightarrow>
     (\<exists>x \<in> set (sc_stack s). idx s x = sc_low s v \<and> (v, x) \<in> (edges_of g)\<^sup>*)"

definition connected_post :: "graph \<Rightarrow> table_ref \<Rightarrow> scc_state \<Rightarrow> scc_state \<Rightarrow> bool" where
  "connected_post g v s s' \<longleftrightarrow>
     scc_inv g s' \<and> extends s s' \<and> v \<in> dom (sc_index s')
     \<and> (\<forall>u \<in> dom (sc_index s') - dom (sc_index s). (v, u) \<in> (edges_of g)\<^sup>*)
     \<and> (\<exists>new. sc_stack s' = new @ sc_stack s
          \<and> (if new = [] then sc_next s \<le> sc_low s' v
             else v \<in> set new \<and> sc_low s' v \<le> idx s' v \<and> low_ok g s' v \<and> (\<forall>u \<in> set new. explored g s' (sc_low s' v) u)))"

definition scan_inv :: "graph \<Rightarrow> table_ref \<Rightarrow> table_ref set \<Rightarrow> scc_state \<Rightarrow> scc_state \<Rightarrow> bool" where
  "scan_inv g v W s0 s \<longleftrightarrow>
     scc_inv g s \<and> extends s0 s
     \<and> (\<forall>u \<in> dom (sc_index s) - dom (sc_index s0). (v, u) \<in> (edges_of g)\<^sup>*)
     \<and> sc_index s v = Some (sc_next s0) \<and> v \<notin> dom (sc_index s0)
     \<and> (\<exists>new. sc_stack s = new @ v # sc_stack s0
          \<and> low_ok g s v \<and> sc_low s v \<le> sc_next s0
          \<and> (\<forall>u \<in> set new. explored g s (sc_low s v) u)
          \<and> (\<forall>w \<in> W. settled s (sc_low s v) w))"

subsection \<open>Steps keep what was established\<close>

lemma lower_simps [simp]:
  "sc_index (lower v n s) = sc_index s" "sc_stack (lower v n s) = sc_stack s"
  "sc_on (lower v n s) = sc_on s" "sc_out (lower v n s) = sc_out s"
  "sc_next (lower v n s) = sc_next s" "emitted (lower v n s) = emitted s"
  "idx (lower v n s) u = idx s u" "sc_low (lower v n s) v = min n (sc_low s v)"
  "u \<noteq> v \<Longrightarrow> sc_low (lower v n s) u = sc_low s u"
  by (auto simp: lower_def emitted_def idx_def)

lemma settled_lower [simp]: "settled (lower v n s) = settled s"
  by (simp add: settled_def fun_eq_iff)

lemma reaches_lower_lower [simp]: "reaches_lower g (lower v n s) u = reaches_lower g s u"
  by (simp add: reaches_lower_def)

lemma explored_lower [simp]: "explored g (lower v n s) k u = explored g s k u"
  by (simp add: explored_def)

lemma scc_inv_lower [simp]: "scc_inv g (lower v n s) = scc_inv g s"
  by (simp add: scc_inv_def)

lemma settled_le: "settled s n w \<Longrightarrow> m \<le> n \<Longrightarrow> settled s m w"
  by (auto simp: settled_def)

lemma explored_le: "explored g s n u \<Longrightarrow> m \<le> n \<Longrightarrow> explored g s m u"
  by (auto simp: explored_def intro: settled_le)

lemma extends_refl [simp]: "extends s s"
  by (simp add: extends_def)

lemma extends_trans: "extends s t \<Longrightarrow> extends t u \<Longrightarrow> extends s u"
  using map_le_implies_dom_le [of "sc_index s" "sc_index t"]
    map_le_trans [of "sc_index s" "sc_index t" "sc_index u"]
  unfolding extends_def by (simp add: subset_iff)

lemma extends_idx: "extends s s' \<Longrightarrow> u \<in> dom (sc_index s) \<Longrightarrow> idx s' u = idx s u"
  unfolding extends_def idx_def map_le_def by metis

lemma extends_dom: "extends s s' \<Longrightarrow> dom (sc_index s) \<subseteq> dom (sc_index s')"
  by (simp add: extends_def map_le_implies_dom_le)

lemma extends_lower:
  assumes "extends s0 s" and "v \<notin> dom (sc_index s0)"
  shows "extends s0 (lower v n s)"
proof -
  have "sc_low (lower v n s) u = sc_low s u" if "u \<in> dom (sc_index s0)" for u
    using assms(2) that by (intro lower_simps(9)) blast
  with assms(1) show ?thesis by (simp add: extends_def)
qed

lemma stack_visited: "scc_inv g s \<Longrightarrow> u \<in> set (sc_stack s) \<Longrightarrow> u \<in> dom (sc_index s)"
  by (simp add: scc_inv_def)

text \<open>Growth: the state went on, and the stack only grew.\<close>

definition grows :: "graph \<Rightarrow> scc_state \<Rightarrow> scc_state \<Rightarrow> bool" where
  "grows g s s' \<longleftrightarrow> scc_inv g s \<and> extends s s' \<and> set (sc_stack s) \<subseteq> set (sc_stack s')"

lemma settled_grows: "grows g s s' \<Longrightarrow> settled s n w \<Longrightarrow> settled s' n w"
  unfolding settled_def grows_def
  by (metis extends_def extends_idx stack_visited subsetD)

lemma reaches_lower_grows:
  assumes "grows g s s'" and "u \<in> set (sc_stack s)" and "reaches_lower g s u"
  shows "reaches_lower g s' u"
proof -
  from assms(3) obtain x where x: "x \<in> set (sc_stack s)" "idx s x < idx s u" "(u, x) \<in> (edges_of g)\<^sup>*"
    by (auto simp: reaches_lower_def)
  have "idx s' x = idx s x" "idx s' u = idx s u" "x \<in> set (sc_stack s')"
    using assms(1,2) x(1) extends_idx stack_visited by (auto simp: grows_def)
  with x show ?thesis unfolding reaches_lower_def by metis
qed

lemma explored_grows:
  "grows g s s' \<Longrightarrow> u \<in> set (sc_stack s) \<Longrightarrow> explored g s n u \<Longrightarrow> explored g s' n u"
  by (simp add: explored_def settled_grows reaches_lower_grows)

lemma low_ok_grows:
  assumes "grows g s s'" and "v \<in> set (sc_stack s)" and "low_ok g s v"
  shows "low_ok g s' v" and "sc_low s' v = sc_low s v"
proof -
  from assms(3) obtain x where x: "x \<in> set (sc_stack s)" "idx s x = sc_low s v" "(v, x) \<in> (edges_of g)\<^sup>*"
    by (auto simp: low_ok_def)
  show low: "sc_low s' v = sc_low s v"
    using assms(1,2) stack_visited by (auto simp: grows_def extends_def)
  have "idx s' x = idx s x" "x \<in> set (sc_stack s')"
    using assms(1) x(1) extends_idx stack_visited by (auto simp: grows_def)
  with x low show "low_ok g s' v" by (auto simp: low_ok_def)
qed

lemma low_ok_lower:
  assumes "low_ok g s v" and "x \<in> set (sc_stack s)" "idx s x = n" "(v, x) \<in> (edges_of g)\<^sup>*"
  shows "low_ok g (lower v n s) v"
  using assms by (cases "n < sc_low s v") (auto simp: low_ok_def min_def)

subsection \<open>Entering\<close>

lemma enter_simps [simp]:
  "sc_index (scc_enter v s) = (sc_index s)(v \<mapsto> sc_next s)"
  "sc_low (scc_enter v s) = (sc_low s)(v := sc_next s)"
  "sc_stack (scc_enter v s) = v # sc_stack s" "sc_on (scc_enter v s) = insert v (sc_on s)"
  "sc_out (scc_enter v s) = sc_out s" "sc_next (scc_enter v s) = Suc (sc_next s)"
  "emitted (scc_enter v s) = emitted s"
  by (simp_all add: scc_enter_def emitted_def)

lemma idx_enter: "idx (scc_enter v s) u = (if u = v then sc_next s else idx s u)"
  by (simp add: idx_def)

lemma enter_inv:
  assumes "scc_inv g s" and "v \<notin> dom (sc_index s)"
  shows "scc_inv g (scc_enter v s)"
proof -
  have v: "v \<notin> emitted s" "v \<notin> set (sc_stack s)" using assms by (auto simp: scc_inv_def)
  have "sorted_wrt (\<lambda>a b. idx (scc_enter v s) b < idx (scc_enter v s) a) (v # sc_stack s)"
  proof -
    have "sorted_wrt (\<lambda>a b. idx (scc_enter v s) b < idx (scc_enter v s) a) (sc_stack s)"
      by (rule sorted_wrt_mono_rel [of _ "\<lambda>a b. idx s b < idx s a"])
        (use assms(1) v(2) in \<open>auto simp: scc_inv_def idx_enter\<close>)
    moreover have "\<forall>u \<in> set (sc_stack s). idx s u < sc_next s"
      using assms(1) by (auto simp: scc_inv_def)
    ultimately show ?thesis using v(2) by (auto simp: idx_enter)
  qed
  with assms v show ?thesis
    by (auto simp: scc_inv_def idx_enter emitted_def less_Suc_eq)
qed

lemma enter_scan:
  assumes "scc_inv g s" and "v \<notin> dom (sc_index s)"
  shows "scan_inv g v {} s (scc_enter v s)"
  unfolding scan_inv_def
proof (intro conjI)
  show "extends s (scc_enter v s)"
    using assms(2) by (auto simp: extends_def map_le_def)
  show "\<exists>new. sc_stack (scc_enter v s) = new @ v # sc_stack s \<and> low_ok g (scc_enter v s) v
      \<and> sc_low (scc_enter v s) v \<le> sc_next s
      \<and> (\<forall>u \<in> set new. explored g (scc_enter v s) (sc_low (scc_enter v s) v) u)
      \<and> (\<forall>w \<in> {}. settled (scc_enter v s) (sc_low (scc_enter v s) v) w)"
    by (intro exI [of _ "[]"]) (auto simp: low_ok_def idx_enter)
qed (use assms enter_inv in auto)

subsection \<open>Scanning the edges\<close>

lemma scan_inv_lower:
  assumes "scan_inv g v W s0 s" and "x \<in> set (sc_stack s)" and "idx s x = n"
    and "(v, x) \<in> (edges_of g)\<^sup>*"
  shows "scan_inv g v W s0 (lower v n s)"
proof -
  obtain new where new: "sc_stack s = new @ v # sc_stack s0" "low_ok g s v" "sc_low s v \<le> sc_next s0"
      "\<forall>u \<in> set new. explored g s (sc_low s v) u" "\<forall>w \<in> W. settled s (sc_low s v) w"
    using assms(1) by (auto simp: scan_inv_def)
  have "extends s0 (lower v n s)"
    using assms(1) by (intro extends_lower) (simp_all add: scan_inv_def)
  moreover have "low_ok g (lower v n s) v"
    by (rule low_ok_lower [OF new(2) assms(2-4)])
  ultimately show ?thesis
    using assms(1) new unfolding scan_inv_def
    by (auto intro!: exI [of _ new] intro: explored_le settled_le)
qed

lemma scan_visited:
  assumes "scan_inv g v W s0 s" and "w \<in> set (g v)" and "sc_index s w = Some i"
  shows "scan_inv g v (insert w W) s0 (if w \<in> sc_on s then lower v i s else s)"
proof (cases "w \<in> sc_on s")
  case True
  have inv: "scc_inv g s" using assms(1) by (simp add: scan_inv_def)
  have w: "w \<in> set (sc_stack s)" "idx s w = i" "(v, w) \<in> (edges_of g)\<^sup>*"
    using True inv assms(2,3) by (auto simp: scc_inv_def idx_def)
  have "scan_inv g v W s0 (lower v i s)"
    by (rule scan_inv_lower [OF assms(1) w])
  moreover have "settled (lower v i s) (sc_low (lower v i s) v) w"
    using w by (simp add: settled_def)
  ultimately show ?thesis using True by (auto simp: scan_inv_def)
next
  case False
  then have "w \<in> emitted s"
    using assms(1,3) by (auto simp: scan_inv_def scc_inv_def)
  then have "settled s (sc_low s v) w" by (simp add: settled_def)
  then show ?thesis using assms(1) False by (auto simp: scan_inv_def)
qed

lemma scan_called:
  assumes scan: "scan_inv g v W s0 s" and w: "w \<in> set (g v)" "w \<notin> dom (sc_index s)"
    and post: "connected_post g w s s'"
  shows "scan_inv g v (insert w W) s0 (lower v (sc_low s' w) s')"
proof -
  obtain new where new: "sc_stack s = new @ v # sc_stack s0" "low_ok g s v" "sc_low s v \<le> sc_next s0"
      "\<forall>u \<in> set new. explored g s (sc_low s v) u" "\<forall>w \<in> W. settled s (sc_low s v) w"
    using scan by (auto simp: scan_inv_def)
  obtain more where more: "sc_stack s' = more @ sc_stack s"
      "if more = [] then sc_next s \<le> sc_low s' w
       else w \<in> set more \<and> sc_low s' w \<le> idx s' w \<and> low_ok g s' w \<and> (\<forall>u \<in> set more. explored g s' (sc_low s' w) u)"
    using post by (auto simp: connected_post_def)
  have inv': "scc_inv g s'" and ext: "extends s s'" using post by (auto simp: connected_post_def)
  have inv: "scc_inv g s" and ext0: "extends s0 s" using scan by (auto simp: scan_inv_def)
  have gr: "grows g s s'" using inv ext more(1) by (simp add: grows_def)
  have v: "v \<in> set (sc_stack s)" using new(1) by simp
  note low = low_ok_grows [OF gr v new(2)]
  define t where "t = lower v (sc_low s' w) s'"
  have le: "sc_low t v \<le> sc_low s v" and le2: "sc_low t v \<le> sc_low s' w"
    using low(2) by (simp_all add: t_def)
  have low_t: "low_ok g t v"
  proof (cases "more = []")
    case True
    obtain x where x: "x \<in> set (sc_stack s)" "idx s x = sc_low s v"
      using new(2) by (auto simp: low_ok_def)
    have "idx s x < sc_next s" using inv x(1) stack_visited [OF inv x(1)] by (simp add: scc_inv_def)
    then have "\<not> sc_low s' w < sc_low s' v" using True more(2) x(2) low(2) by simp
    then have "t = s'" by (simp add: t_def lower_def)
    then show ?thesis using low(1) by simp
  next
    case False
    then obtain x where x: "x \<in> set (sc_stack s')" "idx s' x = sc_low s' w" "(w, x) \<in> (edges_of g)\<^sup>*"
      using more(2) by (auto simp: low_ok_def)
    have "(v, x) \<in> (edges_of g)\<^sup>*" using w(1) x(3) by (meson converse_rtrancl_into_rtrancl edges_of_iff)
    then show ?thesis unfolding t_def by (rule low_ok_lower [OF low(1) x(1,2)])
  qed
  have settled_w: "settled t (sc_low t v) w"
  proof (cases "more = []")
    case True
    have "w \<in> dom (sc_index s')" using post by (simp add: connected_post_def)
    moreover have "w \<notin> set (sc_stack s')" using True more(1) w(2) stack_visited [OF inv] by auto
    ultimately have "w \<in> emitted s'" using inv' by (auto simp: scc_inv_def)
    then show ?thesis by (simp add: settled_def t_def)
  next
    case False
    then show ?thesis using more le2 by (auto simp: settled_def t_def)
  qed
  have new_t: "\<forall>u \<in> set new. explored g t (sc_low t v) u"
  proof
    fix u assume u: "u \<in> set new"
    then have "explored g s' (sc_low s v) u"
      using explored_grows [OF gr] new(1,4) by auto
    then show "explored g t (sc_low t v) u"
      using explored_le [OF _ le] by (simp add: t_def)
  qed
  have more_t: "\<forall>u \<in> set more. explored g t (sc_low t v) u"
    using more(2) explored_le [OF _ le2] by (auto simp: t_def split: if_splits)
  have W_t: "\<forall>u \<in> W. settled t (sc_low t v) u"
    using settled_le [OF _ le] settled_grows [OF gr] new(5) by (auto simp: t_def)
  have ext_t: "extends s0 t"
  proof -
    have "extends s0 s'" by (rule extends_trans [OF ext0 ext])
    moreover have "v \<notin> dom (sc_index s0)" using scan by (simp add: scan_inv_def)
    ultimately show ?thesis unfolding t_def by (rule extends_lower)
  qed
  have reach: "(v, u) \<in> (edges_of g)\<^sup>*"
    if "u \<in> dom (sc_index t)" "u \<notin> dom (sc_index s0)" for u
  proof (cases "u \<in> dom (sc_index s)")
    case True
    then show ?thesis using scan that by (simp add: scan_inv_def)
  next
    case False
    then have "(w, u) \<in> (edges_of g)\<^sup>*" using post that by (simp add: connected_post_def t_def)
    then show ?thesis using w(1) by (meson converse_rtrancl_into_rtrancl edges_of_iff)
  qed
  have "sc_index t v = Some (sc_next s0)"
    using ext scan unfolding extends_def scan_inv_def map_le_def t_def lower_simps
    by (metis domI)
  moreover have "v \<notin> dom (sc_index s0)" using scan by (simp add: scan_inv_def)
  moreover have "sc_stack t = (more @ new) @ v # sc_stack s0" using more(1) new(1) by (simp add: t_def)
  moreover have "sc_low t v \<le> sc_next s0" using le new(3) by simp
  moreover have "scc_inv g t" using inv' by (simp add: t_def)
  ultimately have "scan_inv g v (insert w W) s0 t"
    unfolding scan_inv_def using ext_t reach low_t new_t more_t W_t settled_w
    by (intro conjI exI [of _ "more @ new"]) (simp_all add: ball_Un)
  then show ?thesis by (simp add: t_def)
qed

subsection \<open>Leaving\<close>

lemma sort_by_distinct: "distinct (sort_by lt xs) \<longleftrightarrow> distinct xs"
  using distinct_sort_by [of "\<lambda>x. x" lt xs] by simp

lemma pop_until_append:
  assumes "v \<notin> set new"
  shows "pop_until v (new @ v # rest) = (new @ [v], rest)"
  using assms by (induction new) auto

lemma leave_pop:
  assumes scan: "scan_inv g v (set (g v)) s0 s" and low: "sc_index s v = Some (sc_low s v)"
    and new: "sc_stack s = new @ v # sc_stack s0"
      "\<forall>u \<in> set new. explored g s (sc_low s v) u"
      "\<forall>w \<in> set (g v). settled s (sc_low s v) w"
  shows "closed_under g (emitted s \<union> set (new @ [v]))"
    and "u \<in> set (new @ [v]) \<Longrightarrow> (u, v) \<in> (edges_of g)\<^sup>*"
proof -
  have inv: "scc_inv g s" using scan by (simp add: scan_inv_def)
  have lowv: "idx s v = sc_low s v" using low by (simp add: idx_def)
  have below: "idx s x < idx s v" if "x \<in> set (sc_stack s0)" for x
    using inv that unfolding scc_inv_def new(1) by (simp add: sorted_wrt_append)
  have seg: "x \<in> set (new @ [v])" if "settled s (sc_low s v) x" "x \<notin> emitted s" for x
    using that below [of x] lowv new(1) by (auto simp: settled_def)
  have edges: "settled s (sc_low s v) w" if "u \<in> set (new @ [v])" "w \<in> set (g u)" for u w
    using that new(2,3) by (auto simp: explored_def)
  have cl: "closed_under g (emitted s)"
    using inv good_out_closed by (simp add: scc_inv_def emitted_def)
  show clos: "closed_under g (emitted s \<union> set (new @ [v]))"
    unfolding closed_under_def
  proof (intro ballI subsetI)
    fix u w assume u: "u \<in> emitted s \<union> set (new @ [v])" and w: "w \<in> set (g u)"
    show "w \<in> emitted s \<union> set (new @ [v])"
    proof (cases "u \<in> emitted s")
      case True
      then show ?thesis using cl w by (auto simp: closed_under_def)
    next
      case False
      then have "settled s (sc_low s v) w" using u w edges by blast
      then show ?thesis using seg by blast
    qed
  qed
  have disj: "emitted s \<inter> set (sc_stack s) = {}"
    using inv by (auto simp: scc_inv_def emitted_def)
  show "(u, v) \<in> (edges_of g)\<^sup>*" if "u \<in> set (new @ [v])"
    using that
  proof (induction "idx s u" arbitrary: u rule: less_induct)
    case less
    show ?case
    proof (cases "u = v")
      case False
      then have "u \<in> set new" using less.prems by simp
      then obtain x where x: "x \<in> set (sc_stack s)" "idx s x < idx s u" "(u, x) \<in> (edges_of g)\<^sup>*"
        using new(2) by (auto simp: explored_def reaches_lower_def)
      have "x \<in> emitted s \<union> set (new @ [v])"
        by (rule closed_under_reaches [OF x(3) clos UnI2 [OF less.prems]])
      then have "x \<in> set (new @ [v])" using disj x(1) by auto
      then have "(x, v) \<in> (edges_of g)\<^sup>*" using less.hyps x(2) by simp
      with x(3) show ?thesis by simp
    qed simp
  qed
qed

lemma leave_post:
  assumes scan: "scan_inv g v (set (g v)) s0 s" and inv0: "scc_inv g s0"
  shows "connected_post g v s0 (scc_leave v s)"
proof -
  obtain new where new: "sc_stack s = new @ v # sc_stack s0" "low_ok g s v" "sc_low s v \<le> sc_next s0"
      "\<forall>u \<in> set new. explored g s (sc_low s v) u" "\<forall>w \<in> set (g v). settled s (sc_low s v) w"
    using scan by (auto simp: scan_inv_def)
  have inv: "scc_inv g s" and idxv: "sc_index s v = Some (sc_next s0)" and ext: "extends s0 s"
    and v0: "v \<notin> dom (sc_index s0)"
    using scan by (simp_all add: scan_inv_def)
  have reach: "(v, u) \<in> (edges_of g)\<^sup>*" if "u \<in> dom (sc_index s)" "u \<notin> dom (sc_index s0)" for u
    using scan that by (simp add: scan_inv_def)
  have dist: "distinct (concat (sc_out s) @ sc_stack s)" using inv by (simp add: scc_inv_def)
  show ?thesis
  proof (cases "sc_index s v = Some (sc_low s v)")
    case True
    define comp where "comp = new @ [v]"
    define t where "t = scc_leave v s"
    have pop: "pop_until v (sc_stack s) = (comp, sc_stack s0)"
      using dist new(1) by (simp add: comp_def pop_until_append)
    then have t: "sc_index t = sc_index s" "sc_low t = sc_low s" "sc_stack t = sc_stack s0"
        "sc_on t = sc_on s - set comp" "sc_out t = sc_out s @ [sort_by (<) comp]"
        "sc_next t = sc_next s"
      using True by (simp_all add: t_def scc_leave_def)
    note seg = leave_pop [OF scan True new(1,4,5)]
    have com: "(u, w) \<in> (edges_of g)\<^sup>*" if "u \<in> set comp" "w \<in> set comp" for u w
    proof -
      have "w \<in> set (sc_stack s)" using that(2) new(1) by (auto simp: comp_def)
      then have "w \<in> dom (sc_index s)" by (rule stack_visited [OF inv])
      moreover have "w \<notin> dom (sc_index s0)"
      proof
        assume "w \<in> dom (sc_index s0)"
        then have "w \<in> emitted s \<or> w \<in> set (sc_stack s0)"
          using inv0 ext by (auto simp: scc_inv_def extends_def)
        then show False
          using dist that(2) new(1) by (auto simp: comp_def emitted_def)
      qed
      ultimately have "(v, w) \<in> (edges_of g)\<^sup>*" by (rule reach)
      moreover have "(u, v) \<in> (edges_of g)\<^sup>*" using seg(2) that(1) by (simp add: comp_def)
      ultimately show ?thesis by (rule rtrancl_trans [rotated])
    qed
    have em: "emitted t = emitted s \<union> set comp" by (auto simp: emitted_def t)
    have out: "good_out g (sc_out t)"
      unfolding t
      by (rule good_out_snoc) (use inv seg(1) com in \<open>auto simp: scc_inv_def emitted_def comp_def\<close>)
    have "sorted_wrt (\<lambda>a b. idx t b < idx t a) (sc_stack t)"
      using inv new(1) by (simp add: t idx_def scc_inv_def sorted_wrt_append)
    then have "scc_inv g t"
      using inv out em dist by (auto simp: scc_inv_def t idx_def comp_def new(1) sort_by_distinct)
    moreover have "extends s0 t"
      using ext em by (auto simp: extends_def t)
    ultimately show ?thesis
      unfolding connected_post_def t_def [symmetric]
      using reach idxv new(3) True by (auto simp: t domIff)
  next
    case False
    then have t: "scc_leave v s = s" by (simp add: scc_leave_def)
    have bottom: "explored g s (sc_low s v) v"
    proof -
      obtain x where x: "x \<in> set (sc_stack s)" "idx s x = sc_low s v" "(v, x) \<in> (edges_of g)\<^sup>*"
        using new(2) by (auto simp: low_ok_def)
      have "idx s x < idx s v" using False new(3) idxv x(2) by (simp add: idx_def)
      with x have "reaches_lower g s v" unfolding reaches_lower_def by metis
      with new(5) show ?thesis by (simp add: explored_def)
    qed
    have "sc_stack s = (new @ [v]) @ sc_stack s0" using new(1) by simp
    moreover have "sc_low s v \<le> idx s v" using new(3) idxv by (simp add: idx_def)
    ultimately show ?thesis
      unfolding connected_post_def t using inv ext idxv reach new(2,4) bottom
      by (intro conjI exI [of _ "new @ [v]"]) (auto simp: domIff)
  qed
qed

subsection \<open>The whole search\<close>

lemma scan_start_inv: "scan_inv g v W s0 s \<Longrightarrow> scc_inv g s"
  by (simp add: scan_inv_def)

lemma strongconnect_post:
  "strongconnect n g v s = Some s' \<Longrightarrow> scc_inv g s \<Longrightarrow> v \<notin> dom (sc_index s)
    \<Longrightarrow> connected_post g v s s'"
  "scan_edges n g v ws s = Some s' \<Longrightarrow> scan_inv g v W s0 s \<Longrightarrow> set ws \<subseteq> set (g v)
    \<Longrightarrow> scan_inv g v (W \<union> set ws) s0 s'"
proof (induction n g v s and n g v ws s arbitrary: s' and s' W s0
    rule: strongconnect_scan_edges.induct)
  case (2 n g v s)
  then obtain t where t: "scan_edges n g v (g v) (scc_enter v s) = Some t" "s' = scc_leave v t"
    by (auto split: option.splits)
  have "scan_inv g v ({} \<union> set (g v)) s t"
    by (rule 2(1) [OF t(1) enter_scan [OF 2(3,4)] order_refl])
  then show ?case using leave_post 2(3) t(2) by simp
next
  case (4 n g v w ws s)
  have w: "w \<in> set (g v)" using 4(6) by simp
  show ?case
  proof (cases "sc_index s w")
    case None
    then obtain t where t: "strongconnect n g w s = Some t"
        "scan_edges n g v ws (lower v (sc_low t w) t) = Some s'"
      using 4(4) by (auto split: option.splits)
    have "connected_post g w s t"
      by (rule 4(1) [OF None t(1) scan_start_inv [OF 4(5)]]) (use None in auto)
    then have "scan_inv g v (insert w W) s0 (lower v (sc_low t w) t)"
      using None by (intro scan_called [OF 4(5) w]) auto
    from 4(2) [OF None t(1) t(2) this] 4(6) show ?thesis by simp
  next
    case (Some i)
    then have "scan_edges n g v ws (if w \<in> sc_on s then lower v i s else s) = Some s'"
      using 4(4) by simp
    from 4(3) [OF Some this scan_visited [OF 4(5) w Some]] 4(6) show ?thesis by simp
  qed
qed auto

lemma scc_start_inv: "scc_inv g scc_start"
  by (simp add: scc_inv_def scc_start_def emitted_def)

lemma connect_all_post:
  assumes "connect_all n g ts s = Some s'" and "scc_inv g s" and "sc_stack s = []"
  shows "scc_inv g s' \<and> sc_stack s' = [] \<and> dom (sc_index s) \<union> set ts \<subseteq> dom (sc_index s')
    \<and> dom (sc_index s') \<subseteq> dom (sc_index s) \<union> {u. \<exists>t \<in> set ts. (t, u) \<in> (edges_of g)\<^sup>*}"
  using assms
proof (induction n g ts s rule: connect_all.induct)
  case (2 n g t ts s)
  show ?case
  proof (cases "sc_index s t")
    case None
    then obtain r where r: "strongconnect n g t s = Some r" "connect_all n g ts r = Some s'"
      using 2(3) by (auto split: option.splits)
    have post: "connected_post g t s r"
      by (rule strongconnect_post(1) [OF r(1) 2(4)]) (use None in auto)
    have "sc_stack r = []"
    proof (rule ccontr)
      assume ne: "sc_stack r \<noteq> []"
      have inv: "scc_inv g r" using post by (simp add: connected_post_def)
      define b where "b = last (sc_stack r)"
      have b: "b \<in> set (sc_stack r)" using ne by (simp add: b_def)
      then have "reaches_lower g r b"
        using post 2(5) ne by (auto simp: connected_post_def explored_def split: if_splits)
      then obtain x where x: "x \<in> set (sc_stack r)" "idx r x < idx r b" by (auto simp: reaches_lower_def)
      have "sc_stack r = butlast (sc_stack r) @ [b]" using ne by (simp add: b_def)
      then have "idx r b \<le> idx r x"
        using inv x(1) unfolding scc_inv_def
        by (metis (no_types, lifting) append.right_neutral order_less_imp_le order_refl
            rotate1.simps(2) set_ConsD set_rotate1 sorted_wrt_append list.set_intros(1))
      with x(2) show False by simp
    qed
    moreover have "scc_inv g r" using post by (simp add: connected_post_def)
    moreover have "\<not> sc_index s t \<noteq> None" using None by simp
    ultimately have ih: "scc_inv g s'" "sc_stack s' = []" "dom (sc_index r) \<union> set ts \<subseteq> dom (sc_index s')"
        "dom (sc_index s') \<subseteq> dom (sc_index r) \<union> {u. \<exists>t \<in> set ts. (t, u) \<in> (edges_of g)\<^sup>*}"
      using 2(2) [OF _ r(1) r(2)] by simp_all
    have r1: "dom (sc_index s) \<subseteq> dom (sc_index r)" "t \<in> dom (sc_index r)"
      using post extends_dom by (auto simp: connected_post_def)
    have r2: "dom (sc_index r) \<subseteq> dom (sc_index s) \<union> {u. (t, u) \<in> (edges_of g)\<^sup>*}"
      using post by (auto simp: connected_post_def)
    show ?thesis
    proof (intro conjI)
      show "dom (sc_index s) \<union> set (t # ts) \<subseteq> dom (sc_index s')" using ih(3) r1 by auto
      show "dom (sc_index s') \<subseteq> dom (sc_index s) \<union> {u. \<exists>t \<in> set (t # ts). (t, u) \<in> (edges_of g)\<^sup>*}"
        using ih(4) r2 by auto
    qed (use ih in simp_all)
  next
    case (Some i)
    then show ?thesis using 2 by auto
  qed
qed auto

subsection \<open>The fuel is enough\<close>

lemma leave_index [simp]: "sc_index (scc_leave v s) = sc_index s"
  by (simp add: scc_leave_def split: prod.splits)

lemma strongconnect_dom:
  "strongconnect n g v s = Some s' \<Longrightarrow> insert v (dom (sc_index s)) \<subseteq> dom (sc_index s')"
  "scan_edges n g v ws s = Some s' \<Longrightarrow> dom (sc_index s) \<subseteq> dom (sc_index s')"
proof (induction n g v s and n g v ws s arbitrary: s' and s' rule: strongconnect_scan_edges.induct)
  case (2 n g v s)
  then obtain t where t: "scan_edges n g v (g v) (scc_enter v s) = Some t" "s' = scc_leave v t"
    by (auto split: option.splits)
  from 2(1) [OF t(1)] have "insert v (dom (sc_index s)) \<subseteq> dom (sc_index t)"
    by (simp only: enter_simps dom_fun_upd option.distinct if_False)
  with t(2) show ?case by simp
next
  case (4 n g v w ws s)
  show ?case
  proof (cases "sc_index s w")
    case None
    then obtain t where t: "strongconnect n g w s = Some t"
        "scan_edges n g v ws (lower v (sc_low t w) t) = Some s'"
      using 4(4) by (auto split: option.splits)
    have "dom (sc_index s) \<subseteq> dom (sc_index t)" using 4(1) [OF None t(1)] by simp
    also have "\<dots> \<subseteq> dom (sc_index s')" using 4(2) [OF None t] by simp
    finally show ?thesis .
  next
    case (Some i)
    then have "scan_edges n g v ws (if w \<in> sc_on s then lower v i s else s) = Some s'"
      using 4(4) by simp
    from 4(3) [OF Some this] show ?thesis by (simp split: if_splits)
  qed
qed auto

definition unvisited :: "table_ref set \<Rightarrow> scc_state \<Rightarrow> nat" where
  "unvisited A s = card (A - dom (sc_index s))"

lemma unvisited_mono:
  "finite A \<Longrightarrow> dom (sc_index s) \<subseteq> dom (sc_index t) \<Longrightarrow> unvisited A t \<le> unvisited A s"
  unfolding unvisited_def by (rule card_mono) auto

lemma unvisited_enter:
  assumes "finite A" "v \<in> A" "v \<notin> dom (sc_index s)"
  shows "Suc (unvisited A (scc_enter v s)) = unvisited A s"
proof -
  have "A - dom (sc_index (scc_enter v s)) = (A - dom (sc_index s)) - {v}" by auto
  moreover have "0 < card (A - dom (sc_index s))" using assms by (auto simp: card_gt_0_iff)
  ultimately show ?thesis using assms by (simp add: unvisited_def)
qed

lemma strongconnect_returns:
  assumes "closed_under g A" and "finite A"
  shows "v \<in> A \<Longrightarrow> v \<notin> dom (sc_index s) \<Longrightarrow> unvisited A s \<le> n \<Longrightarrow> strongconnect n g v s \<noteq> None"
    and "set ws \<subseteq> A \<Longrightarrow> unvisited A s \<le> n \<Longrightarrow> scan_edges n g v ws s \<noteq> None"
  using assms
proof (induction n g v s and n g v ws s rule: strongconnect_scan_edges.induct)
  case (1 g v s)
  then have "v \<in> {}" by (auto simp: unvisited_def)
  then show ?case by simp
next
  case (2 n g v s)
  have "Suc (unvisited A (scc_enter v s)) = unvisited A s" by (rule unvisited_enter) (use 2 in auto)
  then have "scan_edges n g v (g v) (scc_enter v s) \<noteq> None"
    using 2 by (intro 2(1)) (auto simp: closed_under_def)
  then show ?case by auto
next
  case (4 n g v w ws s)
  show ?case
  proof (cases "sc_index s w")
    case None
    then obtain t where t: "strongconnect n g w s = Some t"
      using 4(1) [OF None] 4 by auto
    have "unvisited A t \<le> unvisited A s"
      by (rule unvisited_mono [OF 4(7)]) (use strongconnect_dom(1) [OF t] in simp)
    then have "scan_edges n g v ws (lower v (sc_low t w) t) \<noteq> None"
      using 4(4,5) by (intro 4(2) [OF None t _ _ 4(6,7)]) (simp_all add: unvisited_def)
    then show ?thesis using None t by simp
  next
    case (Some i)
    have "scan_edges n g v ws (if w \<in> sc_on s then lower v i s else s) \<noteq> None"
      using 4(4,5) by (intro 4(3) [OF Some _ _ 4(6,7)]) (simp_all add: unvisited_def)
    then show ?thesis using Some by simp
  qed
qed auto

lemma connect_all_returns:
  assumes "closed_under g A" and "finite A" and "set ts \<subseteq> A" and "card A \<le> n"
  shows "connect_all n g ts s \<noteq> None"
  using assms(3)
proof (induction ts arbitrary: s)
  case (Cons t ts)
  have "unvisited A s \<le> n"
    using assms(2,4) card_mono [of A "A - dom (sc_index s)"] by (simp add: unvisited_def)
  then have "strongconnect n g t s \<noteq> None" if "sc_index s t = None"
    using strongconnect_returns(1) [OF assms(1,2)] Cons.prems that by auto
  then show ?case using Cons by auto
qed simp

text \<open>What \<open>tarjan\<close> returns on a graph whose edges stay within the tables.\<close>

lemma tarjan_ok:
  assumes "closed_under g (set tables)"
  obtains comps where "tarjan tables g = Some comps" and "good_out g comps"
    and "distinct (concat comps)" and "set (concat comps) = set tables"
proof -
  obtain s where s: "connect_all (length tables) g tables scc_start = Some s"
    using connect_all_returns [OF assms _ order_refl card_length] by auto
  have start: "sc_stack scc_start = []" "dom (sc_index scc_start) = {}" by (simp_all add: scc_start_def)
  note post = connect_all_post [OF s scc_start_inv start(1)]
  have vis: "dom (sc_index s) = set tables"
  proof
    show "dom (sc_index s) \<subseteq> set tables"
      using post start(2) closed_under_reaches [OF _ assms] by auto
    show "set tables \<subseteq> dom (sc_index s)" using post by auto
  qed
  show ?thesis
  proof (rule that)
    show "tarjan tables g = Some (sc_out s)" using s by (simp add: tarjan_def)
    show "good_out g (sc_out s)" "distinct (concat (sc_out s))" "set (concat (sc_out s)) = set tables"
      using post vis by (simp_all add: scc_inv_def emitted_def)
  qed
qed

end
