(* ===== verification/Order_Load.thy ===== *)
theory Order_Load
  imports Order_Correct
begin

text \<open>
  The second half of the load order: the condensation of Tarjan's components is acyclic, so the
  topological sort places every component, each after the ones it depends on, and what
  \<open>load_order\<close> returns is a permutation of the tables.
\<close>

subsection \<open>The component of a table\<close>

lemma comp_of_prefix:
  "t \<in> set (concat (take k comps)) \<longleftrightarrow> comp_of comps t < k \<and> comp_of comps t < length comps"
proof (induction comps arbitrary: k)
  case (Cons c comps)
  then show ?case by (cases k) (auto simp: comp_of_def)
qed (simp add: comp_of_def)

lemma comp_of_less: "t \<in> set (concat comps) \<longleftrightarrow> comp_of comps t < length comps"
  using comp_of_prefix [of t "length comps" comps] by simp

lemma comp_of_member: "t \<in> set (concat comps) \<Longrightarrow> t \<in> set (comps ! comp_of comps t)"
  unfolding comp_of_less comp_of_def by (drule nth_length_takeWhile) simp

lemma comp_of_eq:
  assumes "distinct (concat comps)" and "i < length comps" and "t \<in> set (comps ! i)"
  shows "comp_of comps t = i"
proof -
  have "t \<in> set (concat comps)" using assms(2,3) by (auto intro: bexI [OF _ nth_mem])
  then have m: "t \<in> set (comps ! comp_of comps t)" "comp_of comps t < length comps"
    using comp_of_member comp_of_less by blast+
  have "comps ! comp_of comps t \<noteq> []" "comps ! i \<noteq> []" using m(1) assms(3) by auto
  show ?thesis
  proof (rule ccontr)
    assume ne: "comp_of comps t \<noteq> i"
    have "t \<in> set (concat (take (Suc i) comps))"
      using assms(2,3) by (simp add: take_Suc_conv_app_nth)
    then have le: "comp_of comps t \<le> i" by (simp only: comp_of_prefix less_Suc_eq_le)
    then have lt: "comp_of comps t < i" using ne by simp
    have "t \<in> set (concat (take i comps))" using comp_of_prefix m(2) lt by blast
    moreover have "t \<in> set (concat (drop i comps))"
      using assms(2,3) by (metis Cons_nth_drop_Suc UnCI concat.simps(2) set_append)
    moreover have "distinct (concat (take i comps) @ concat (drop i comps))"
      using assms(1) by (metis append_take_drop_id concat_append)
    ultimately show False by auto
  qed
qed

lemma comp_of_mono:
  assumes "good_out g comps" and "t \<in> set (concat comps)" and "(t, u) \<in> (edges_of g)\<^sup>*"
  shows "comp_of comps u \<le> comp_of comps t" and "u \<in> set (concat comps)"
proof -
  let ?A = "set (concat (take (Suc (comp_of comps t)) comps))"
  have "closed_under g ?A" using assms(1) by (simp add: good_out_def)
  moreover have "t \<in> ?A"
    using iffD1 [OF comp_of_less assms(2)] by (intro iffD2 [OF comp_of_prefix]) simp
  ultimately have "u \<in> ?A" using closed_under_reaches [OF assms(3)] by blast
  then have "comp_of comps u < Suc (comp_of comps t)" "comp_of comps u < length comps"
    by (simp_all only: comp_of_prefix)
  then show "comp_of comps u \<le> comp_of comps t" "u \<in> set (concat comps)"
    by (simp, simp only: comp_of_less)
qed

lemma component_iff:
  assumes "good_out g comps" and "distinct (concat comps)" and "c \<in> set comps" and "t \<in> set c"
  shows "u \<in> set c \<longleftrightarrow> same_component g t u"
proof
  show "same_component g t u" if "u \<in> set c"
    using assms(1,3,4) that by (auto simp: good_out_def same_component_def)
next
  assume same: "same_component g t u"
  obtain i where i: "i < length comps" "c = comps ! i" using assms(3) by (metis in_set_conv_nth)
  have t: "t \<in> set (concat comps)" using assms(3,4) by auto
  note up = comp_of_mono [OF assms(1) t, of u]
  have "comp_of comps u = comp_of comps t"
    using same up comp_of_mono(1) [OF assms(1) up(2), of t] by (auto simp: same_component_def)
  moreover have "comp_of comps t = i" using comp_of_eq [OF assms(2) i(1)] assms(4) i(2) by simp
  moreover have "u \<in> set (concat comps)" using same up(2) by (simp add: same_component_def)
  ultimately show "u \<in> set c" using comp_of_member i(2) by metis
qed

subsection \<open>The condensation\<close>

definition condensed :: "condensation \<Rightarrow> bool" where
  "condensed c \<longleftrightarrow> finite (cd_seen c)
     \<and> (\<forall>a. distinct (cd_succ c a) \<and> set (cd_succ c a) = {b. (a, b) \<in> cd_seen c})
     \<and> (\<forall>b. cd_indeg c b = card {a. (a, b) \<in> cd_seen c})"

lemma finite_preds: "finite S \<Longrightarrow> finite {a. (a, b) \<in> S}"
  by (rule finite_subset [of _ "fst ` S"]) force+

lemma condense_step_ok: "condensed c \<Longrightarrow> condensed (condense_step tables comps fk c)"
proof -
  assume c: "condensed c"
  have "condensed \<lparr>cd_succ = (cd_succ c)(a := cd_succ c a @ [b]),
        cd_indeg = (cd_indeg c)(b := Suc (cd_indeg c b)), cd_seen = insert (a, b) (cd_seen c)\<rparr>"
    if "(a, b) \<notin> cd_seen c" for a b
  proof -
    have "{a'. a' = a \<or> (a', b) \<in> cd_seen c} = insert a {a'. (a', b) \<in> cd_seen c}" by auto
    with c that finite_preds [of "cd_seen c" b] show ?thesis by (auto simp: condensed_def)
  qed
  with c show ?thesis by (simp add: condense_step_def Let_def)
qed

lemma condense_step_seen:
  "cd_seen (condense_step tables comps fk c) = cd_seen c \<union>
     {(a, b). orders tables fk \<and> a = comp_of comps (fk_parent fk)
        \<and> b = comp_of comps (fk_child fk) \<and> a \<noteq> b}"
  by (auto simp: condense_step_def Let_def)

lemma condense_fold:
  "condensed c \<Longrightarrow> condensed (fold (condense_step tables comps) fks c)
   \<and> cd_seen (fold (condense_step tables comps) fks c) = cd_seen c \<union>
     {(a, b). \<exists>fk \<in> set fks. orders tables fk \<and> a = comp_of comps (fk_parent fk)
        \<and> b = comp_of comps (fk_child fk) \<and> a \<noteq> b}"
proof (induction fks arbitrary: c)
  case (Cons fk fks)
  then show ?case
    using Cons.IH [OF condense_step_ok [OF Cons.prems, of tables comps fk]]
    by (auto simp: condense_step_seen)
qed simp

definition depends :: "table_ref list \<Rightarrow> table_ref list list \<Rightarrow> foreign_key list \<Rightarrow> (nat \<times> nat) set" where
  "depends tables comps fks =
     {(a, b). \<exists>fk \<in> set fks. orders tables fk \<and> a = comp_of comps (fk_parent fk)
        \<and> b = comp_of comps (fk_child fk) \<and> a \<noteq> b}"

lemma condense_ok:
  "condensed (condense tables comps fks)
   \<and> cd_seen (condense tables comps fks) = depends tables comps fks"
proof -
  have "condensed \<lparr>cd_succ = (\<lambda>_. []), cd_indeg = (\<lambda>_. 0), cd_seen = {}\<rparr>"
    by (simp add: condensed_def)
  from condense_fold [OF this] show ?thesis by (simp add: condense_def depends_def)
qed

subsection \<open>The topological sort\<close>

lemma fold_release:
  "distinct js \<Longrightarrow> fold release js (ready, indeg) =
     (ready @ filter (\<lambda>j. indeg j - 1 = 0) js,
      \<lambda>j. if j \<in> set js then indeg j - 1 else indeg j)"
proof (induction js arbitrary: ready indeg)
  case (Cons j js)
  then have "filter (\<lambda>k. (indeg(j := indeg j - 1)) k - 1 = 0) js = filter (\<lambda>k. indeg k - 1 = 0) js"
    by (intro filter_cong) auto
  with Cons show ?case by (auto simp: release_def fun_eq_iff)
qed simp

lemma by_rank_simps [simp]:
  "set (by_rank comps xs) = set xs" "distinct (by_rank comps xs) = distinct xs"
  "by_rank comps xs = [] \<longleftrightarrow> xs = []" "mset (by_rank comps xs) = mset xs"
  by (simp_all add: by_rank_def sort_by_distinct)

definition place_inv ::
  "table_ref list list \<Rightarrow> (nat \<times> nat) set \<Rightarrow> nat list \<Rightarrow> nat list \<Rightarrow> (nat \<Rightarrow> nat) \<Rightarrow> bool" where
  "place_inv comps S placed ready indeg \<longleftrightarrow>
     distinct (placed @ ready) \<and> set (placed @ ready) \<subseteq> {..<length comps}
     \<and> (\<forall>j. indeg j = card {a. (a, j) \<in> S \<and> a \<notin> set placed})
     \<and> (\<forall>j < length comps. indeg j = 0 \<longleftrightarrow> j \<in> set (placed @ ready))
     \<and> (\<forall>us j vs. placed = us @ j # vs \<longrightarrow> {a. (a, j) \<in> S} \<subseteq> set us)"

lemma place_step:
  assumes inv: "place_inv comps S placed (i # ready) indeg"
    and dag: "S \<subseteq> {(a, b). a < b \<and> b < length comps}"
    and succs: "distinct js" "set js = {b. (i, b) \<in> S}"
    and rel: "fold release js (ready, indeg) = (ready', indeg')"
  shows "place_inv comps S (placed @ [i]) (by_rank comps ready') indeg'"
proof -
  have "S \<subseteq> {..<length comps} \<times> {..<length comps}" using dag by auto
  then have fin: "finite S" by (rule finite_subset) simp
  have deg: "indeg j = card {a. (a, j) \<in> S \<and> a \<notin> set placed}" for j
    using inv by (simp add: place_inv_def)
  have ready': "ready' = ready @ filter (\<lambda>j. indeg j - 1 = 0) js"
    and indeg': "indeg' = (\<lambda>j. if j \<in> set js then indeg j - 1 else indeg j)"
    using rel fold_release [OF succs(1)] by simp_all
  have i: "i \<notin> set placed" "i < length comps" "i \<notin> set ready" using inv by (auto simp: place_inv_def)
  have split: "{a. (a, j) \<in> S \<and> a \<notin> set placed} = insert i {a. (a, j) \<in> S \<and> a \<notin> set (placed @ [i])}"
    if "j \<in> set js" for j using that succs(2) i(1) by auto
  have suc: "indeg j = Suc (card {a. (a, j) \<in> S \<and> a \<notin> set (placed @ [i])})" if "j \<in> set js" for j
  proof -
    have "finite {a. (a, j) \<in> S \<and> a \<notin> set (placed @ [i])}"
      by (rule finite_subset [OF _ finite_preds [OF fin, of j]]) auto
    then show ?thesis unfolding deg split [OF that] by simp
  qed
  have deg': "indeg' j = card {a. (a, j) \<in> S \<and> a \<notin> set (placed @ [i])}" for j
  proof (cases "j \<in> set js")
    case True
    then show ?thesis using suc by (simp add: indeg')
  next
    case False
    then have "(i, j) \<notin> S" using succs(2) by auto
    then have "{a. (a, j) \<in> S \<and> a \<notin> set placed} = {a. (a, j) \<in> S \<and> a \<notin> set (placed @ [i])}"
      by auto
    then show ?thesis using False deg by (simp add: indeg')
  qed
  have zero: "indeg j = 0 \<longleftrightarrow> j \<in> set placed \<or> j = i \<or> j \<in> set ready" if "j < length comps" for j
    using inv that by (auto simp: place_inv_def)
  have js: "j < length comps" if "j \<in> set js" for j using that succs(2) dag by auto
  have fresh: "j \<notin> set placed" "j \<noteq> i" "j \<notin> set ready" if "j \<in> set js" for j
    using suc [OF that] zero [OF js [OF that]] by auto
  have "distinct ((placed @ [i]) @ ready')"
    using inv succs(1) fresh by (auto simp: place_inv_def ready')
  moreover have "set ((placed @ [i]) @ ready') \<subseteq> {..<length comps}"
    using inv js by (auto simp: place_inv_def ready')
  moreover have "indeg' j = 0 \<longleftrightarrow> j \<in> set ((placed @ [i]) @ ready')" if "j < length comps" for j
    using zero [OF that] fresh [of j] suc [of j] by (auto simp: indeg' ready')
  moreover have "{a. (a, j) \<in> S} \<subseteq> set us" if eq: "placed @ [i] = us @ j # vs" for us j vs
  proof (cases vs rule: rev_cases)
    case Nil
    then have j: "j = i" "us = placed" using eq by auto
    have "indeg i = 0" using zero [OF i(2)] by simp
    then have "{a. (a, i) \<in> S \<and> a \<notin> set placed} = {}"
      using deg finite_subset [OF _ finite_preds [OF fin, of i]] by (simp add: card_eq_0_iff)
    then show ?thesis using j by auto
  next
    case (snoc vs' x)
    then show ?thesis using eq inv by (auto simp: place_inv_def)
  qed
  ultimately show ?thesis using deg' by (simp add: place_inv_def)
qed

lemma place_inv_end:
  assumes "place_inv comps S placed [] indeg" and "S \<subseteq> {(a, b). a < b \<and> b < length comps}"
  shows "set placed = {..<length comps}"
proof -
  have "j \<in> set placed" if "j < length comps" for j
    using that
  proof (induction j rule: less_induct)
    case (less j)
    have e: "{a. (a, j) \<in> S \<and> a \<notin> set placed} = {}"
      using less assms(2) by force
    have "indeg j = card {a. (a, j) \<in> S \<and> a \<notin> set placed}"
      using assms(1) by (simp add: place_inv_def)
    then have "indeg j = 0" unfolding e by simp
    then show ?case using assms(1) less.prems by (auto simp: place_inv_def)
  qed
  then show ?thesis using assms(1) by (auto simp: place_inv_def)
qed

lemma place_loop_ok:
  assumes dag: "S \<subseteq> {(a, b). a < b \<and> b < length comps}"
    and succs: "\<And>a. distinct (succ a)" "\<And>a. set (succ a) = {b. (a, b) \<in> S}"
  shows "place_inv comps S placed ready indeg \<Longrightarrow> length comps \<le> n + length placed
    \<Longrightarrow> order = concat (map ((!) comps) placed)
    \<Longrightarrow> \<exists>final indeg'. place_loop n comps succ ready indeg order = Some (concat (map ((!) comps) final))
          \<and> place_inv comps S final [] indeg'"
proof (induction n arbitrary: placed ready indeg order)
  case 0
  have "ready = []"
  proof (cases ready)
    case (Cons i r)
    have "card (set (placed @ ready)) \<le> card {..<length comps}"
      using 0(1) by (intro card_mono) (auto simp: place_inv_def)
    moreover have "card (set (placed @ ready)) = length (placed @ ready)"
      using 0(1) by (intro distinct_card) (simp add: place_inv_def)
    ultimately show ?thesis using 0(2) Cons by simp
  qed simp
  then show ?case using 0 by auto
next
  case (Suc n)
  show ?case
  proof (cases ready)
    case Nil
    then show ?thesis using Suc.prems by auto
  next
    case (Cons i rest)
    obtain ready' indeg' where rel:
      "fold release (by_rank comps (succ i)) (rest, indeg) = (ready', indeg')" by fastforce
    have "place_inv comps S (placed @ [i]) (by_rank comps ready') indeg'"
      by (rule place_step [OF _ dag _ _ rel]) (use Suc.prems(1) Cons succs in simp_all)
    from Suc.IH [OF this, of "order @ comps ! i"] Suc.prems(2,3) show ?thesis
      using rel Cons by simp
  qed
qed

subsection \<open>The load order\<close>

text \<open>The declared edges between tables of the plan, child to parent.\<close>

definition declared_edges :: "table_ref list \<Rightarrow> foreign_key list \<Rightarrow> (table_ref \<times> table_ref) set" where
  "declared_edges tables fks = (\<lambda>fk. (fk_child fk, fk_parent fk)) ` {fk \<in> set fks. orders tables fk}"

definition comes_before :: "'a list \<Rightarrow> 'a \<Rightarrow> 'a \<Rightarrow> bool" where
  "comes_before xs a b \<longleftrightarrow> (\<exists>us vs. xs = us @ vs \<and> a \<in> set us \<and> b \<in> set vs)"

lemma parent_graph_edges:
  "edges_of (parent_graph tables fks) = declared_edges tables fks - Id"
  by (auto simp: edges_of_def parent_graph_def declared_edges_def)

lemma parent_graph_reaches [simp]:
  "(edges_of (parent_graph tables fks))\<^sup>* = (declared_edges tables fks)\<^sup>*"
  unfolding parent_graph_edges by (rule rtrancl_r_diff_Id)

lemma parent_graph_closed: "closed_under (parent_graph tables fks) (set tables)"
  by (auto simp: closed_under_def parent_graph_def orders_def)

lemma depends_dag:
  assumes "good_out (parent_graph tables fks) comps" and "set (concat comps) = set tables"
  shows "depends tables comps fks \<subseteq> {(a, b). a < b \<and> b < length comps}"
proof -
  have "comp_of comps (fk_parent fk) < comp_of comps (fk_child fk)
      \<and> comp_of comps (fk_child fk) < length comps"
    if "fk \<in> set fks" "orders tables fk" "comp_of comps (fk_parent fk) \<noteq> comp_of comps (fk_child fk)" for fk
  proof -
    have c: "fk_child fk \<in> set (concat comps)" using that(2) assms(2) by (simp add: orders_def)
    have "(fk_child fk, fk_parent fk) \<in> declared_edges tables fks"
      using that(1,2) by (auto simp: declared_edges_def)
    then have "(fk_child fk, fk_parent fk) \<in> (edges_of (parent_graph tables fks))\<^sup>*" by simp
    from comp_of_mono(1) [OF assms(1) c this] that(3) c show ?thesis by (simp add: comp_of_less del: set_concat)
  qed
  then show ?thesis by (auto simp: depends_def)
qed

lemma start_inv:
  assumes "condensed c" and "cd_seen c \<subseteq> {(a, b). a < b \<and> b < length comps}"
  shows "place_inv comps (cd_seen c) []
    (by_rank comps (filter (\<lambda>i. cd_indeg c i = 0) [0..<length comps])) (cd_indeg c)"
  using assms by (auto simp: place_inv_def condensed_def)

text \<open>What the topological sort returns: all the components, each after those it depends on.\<close>

lemma place_all_ok:
  assumes "condensed c" and "cd_seen c = S" and dag: "S \<subseteq> {(a, b). a < b \<and> b < length comps}"
  obtains final where "place_all comps c = Some (concat (map ((!) comps) final))"
    and "distinct final" and "set final = {..<length comps}"
    and "\<And>us j vs a. final = us @ j # vs \<Longrightarrow> (a, j) \<in> S \<Longrightarrow> a \<in> set us"
proof -
  have "place_inv comps S [] (by_rank comps (filter (\<lambda>i. cd_indeg c i = 0) [0..<length comps])) (cd_indeg c)"
    using start_inv assms by blast
  moreover have "distinct (cd_succ c a)" "set (cd_succ c a) = {b. (a, b) \<in> S}" for a
    using assms(1,2) by (simp_all add: condensed_def)
  ultimately obtain final indeg where f:
      "place_all comps c = Some (concat (map ((!) comps) final))" "place_inv comps S final [] indeg"
    using place_loop_ok [OF dag, of "cd_succ c"] unfolding place_all_def by force
  show ?thesis
  proof (rule that [OF f(1)])
    show "distinct final" using f(2) by (simp add: place_inv_def)
    show "set final = {..<length comps}" by (rule place_inv_end [OF f(2) dag])
    have "\<forall>us j vs. final = us @ j # vs \<longrightarrow> {a. (a, j) \<in> S} \<subseteq> set us"
      using f(2) unfolding place_inv_def by (elim conjE)
    then show "a \<in> set us" if "final = us @ j # vs" "(a, j) \<in> S" for us j vs a
      using that by blast
  qed
qed

lemma load_order_ok:
  obtains comps final where "tarjan (sort_by (<) tables) (parent_graph tables fks) = Some comps"
    and "good_out (parent_graph tables fks) comps" and "distinct (concat comps)"
    and "set (concat comps) = set tables"
    and "distinct final" and "set final = {..<length comps}"
    and "\<And>us j vs a. final = us @ j # vs \<Longrightarrow> (a, j) \<in> depends tables comps fks \<Longrightarrow> a \<in> set us"
    and "load_order tables fks =
      Some (place_rest (sort_by (<) tables) (concat (map ((!) comps) final)), reported tables fks comps)"
proof -
  have "closed_under (parent_graph tables fks) (set (sort_by (<) tables))"
    using parent_graph_closed by simp
  then obtain comps where c: "tarjan (sort_by (<) tables) (parent_graph tables fks) = Some comps"
      "good_out (parent_graph tables fks) comps" "distinct (concat comps)"
      "set (concat comps) = set tables"
    by (rule tarjan_ok) simp
  obtain final where f: "place_all comps (condense tables comps fks) = Some (concat (map ((!) comps) final))"
      "distinct final" "set final = {..<length comps}"
      "\<And>us j vs a. final = us @ j # vs \<Longrightarrow> (a, j) \<in> depends tables comps fks \<Longrightarrow> a \<in> set us"
    by (rule place_all_ok [OF conjunct1 [OF condense_ok] conjunct2 [OF condense_ok]
          depends_dag [OF c(2,4)]]) blast
  show ?thesis
    by (rule that [OF c f(2-4)]) (simp_all add: load_order_def Let_def c(1) f(1))
qed

lemma mset_concat_cong:
  assumes "mset xs = mset ys"
  shows "mset (concat xs) = mset (concat ys)"
proof -
  have "mset (concat zs) = sum_mset (image_mset mset (mset zs))" for zs :: "'a list list"
    by (induction zs) simp_all
  with assms show ?thesis by simp
qed

lemma mset_concat_nth:
  assumes "distinct final" and "set final = {..<length comps}"
  shows "mset (concat (map ((!) comps) final)) = mset (concat comps)"
proof (rule mset_concat_cong)
  have "set final = set [0..<length comps]" using assms(2) unfolding atLeast_upt .
  then have "mset final = mset [0..<length comps]"
    using assms(1) set_eq_iff_mset_eq_distinct [of final "[0..<length comps]"] by simp
  then have "mset (map ((!) comps) final) = mset (map ((!) comps) [0..<length comps])"
    unfolding mset_map by (rule arg_cong)
  then show "mset (map ((!) comps) final) = mset comps" by (simp only: map_nth)
qed

lemma place_rest_full: "length order = length xs \<Longrightarrow> place_rest xs order = order"
  by (simp add: place_rest_def)

lemma load_order_permutes:
  assumes "distinct tables"
  obtains order comps where "load_order tables fks = Some (order, comps)" and "mset order = mset tables"
    and "\<And>fk. fk \<in> set fks \<Longrightarrow> orders tables fk
      \<Longrightarrow> (fk_parent fk, fk_child fk) \<notin> (declared_edges tables fks)\<^sup>*
      \<Longrightarrow> comes_before order (fk_parent fk) (fk_child fk)"
proof -
  let ?g = "parent_graph tables fks"
  obtain comps final where l: "tarjan (sort_by (<) tables) ?g = Some comps" "good_out ?g comps"
      "distinct (concat comps)" "set (concat comps) = set tables" "distinct final"
      "set final = {..<length comps}"
      "\<And>us j vs a. final = us @ j # vs \<Longrightarrow> (a, j) \<in> depends tables comps fks \<Longrightarrow> a \<in> set us"
      "load_order tables fks =
        Some (place_rest (sort_by (<) tables) (concat (map ((!) comps) final)), reported tables fks comps)"
    by (rule load_order_ok [of tables fks]) blast
  define order where "order = concat (map ((!) comps) final)"
  have "mset (concat comps) = mset tables"
    using l(3,4) assms by (intro set_eq_iff_mset_eq_distinct [THEN iffD1]) auto
  then have ms: "mset order = mset tables"
    unfolding order_def by (simp only: mset_concat_nth [OF l(5,6)])
  have "length order = length (sort_by (<) tables)"
    using ms by (metis length_sort_by size_mset)
  then have "load_order tables fks = Some (order, reported tables fks comps)"
    using l(8) place_rest_full unfolding order_def by metis
  moreover have "comes_before order (fk_parent fk) (fk_child fk)"
    if fk: "fk \<in> set fks" "orders tables fk" "(fk_parent fk, fk_child fk) \<notin> (declared_edges tables fks)\<^sup>*" for fk
  proof -
    let ?a = "comp_of comps (fk_parent fk)" and ?b = "comp_of comps (fk_child fk)"
    have in_c: "fk_parent fk \<in> set (concat comps)" "fk_child fk \<in> set (concat comps)"
      using fk(2) l(4) by (simp_all add: orders_def)
    have "?a \<noteq> ?b"
    proof
      assume "?a = ?b"
      then have m: "fk_parent fk \<in> set (comps ! ?b)" "fk_child fk \<in> set (comps ! ?b)"
        using comp_of_member in_c by metis+
      have "comps ! ?b \<in> set comps" using in_c(2) comp_of_less by (intro nth_mem) blast
      then have "same_component ?g (fk_parent fk) (fk_child fk)"
        using component_iff [OF l(2,3) _ m(1)] m(2) by blast
      then show False using fk(3) by (simp add: same_component_def)
    qed
    then have dep: "(?a, ?b) \<in> depends tables comps fks"
      using fk(1,2) by (auto simp: depends_def)
    have "?b \<in> set final" using l(6) in_c(2) comp_of_less by blast
    then obtain us vs where fin: "final = us @ ?b # vs" by (meson split_list)
    have "?a \<in> set us" by (rule l(7) [OF fin dep])
    then have "fk_parent fk \<in> set (concat (map ((!) comps) us))"
      using comp_of_member [OF in_c(1)] by auto
    moreover have "fk_child fk \<in> set (concat (map ((!) comps) (?b # vs)))"
      using comp_of_member [OF in_c(2)] by simp
    moreover have "order = concat (map ((!) comps) us) @ concat (map ((!) comps) (?b # vs))"
      unfolding order_def by (subst fin) simp
    ultimately show ?thesis unfolding comes_before_def by blast
  qed
  ultimately show ?thesis using ms that by blast
qed

text \<open>The components reported are the cycles of the graph.\<close>

lemma reported_iff:
  "c \<in> set (reported tables fks comps) \<longleftrightarrow>
     c \<in> set comps \<and> (1 < length c \<or> c ! 0 \<in> self_cycles tables fks)"
proof -
  have "set (map ((!) comps) (comp_idx comps)) = set comps"
    by (auto simp: comp_idx_def in_set_conv_nth)
  then show ?thesis unfolding reported_def by (simp only: set_filter) blast
qed

lemma self_cycles_iff: "t \<in> self_cycles tables fks \<longleftrightarrow> (t, t) \<in> declared_edges tables fks"
  by (force simp: self_cycles_def declared_edges_def)

lemma load_order_components:
  assumes "load_order tables fks = Some (order, cycles)" and "c \<in> set cycles" and "t \<in> set c"
  shows "set c = {u. (t, u) \<in> (declared_edges tables fks)\<^sup>* \<and> (u, t) \<in> (declared_edges tables fks)\<^sup>*}"
    and "(t, t) \<in> (declared_edges tables fks)\<^sup>+"
proof -
  let ?g = "parent_graph tables fks"
  obtain comps final where l: "good_out ?g comps" "distinct (concat comps)"
      "load_order tables fks =
        Some (place_rest (sort_by (<) tables) (concat (map ((!) comps) final)), reported tables fks comps)"
    using load_order_ok [of tables fks] by metis
  have c: "c \<in> set comps" "1 < length c \<or> c ! 0 \<in> self_cycles tables fks"
    using assms(1,2) l(3) reported_iff [of c tables fks comps] by auto
  note iff = component_iff [OF l(1,2) c(1) assms(3)]
  show "set c = {u. (t, u) \<in> (declared_edges tables fks)\<^sup>* \<and> (u, t) \<in> (declared_edges tables fks)\<^sup>*}"
    using iff by (auto simp: same_component_def)
  show "(t, t) \<in> (declared_edges tables fks)\<^sup>+"
  proof (cases "c = [t]")
    case True
    then show ?thesis using c(2) by (auto simp: self_cycles_iff)
  next
    case False
    have "distinct c" using l(2) c(1) by (simp add: distinct_concat_iff)
    then have "\<exists>u \<in> set c. u \<noteq> t"
      using False assms(3) by (cases c rule: list.exhaust) (auto simp: neq_Nil_conv)
    then obtain u where "u \<in> set c" "u \<noteq> t" by blast
    then have "(t, u) \<in> (declared_edges tables fks)\<^sup>+" "(u, t) \<in> (declared_edges tables fks)\<^sup>*"
      using iff by (auto simp: same_component_def dest: rtranclD)
    then show ?thesis by simp
  qed
qed

lemma load_order_cycles_found:
  assumes "load_order tables fks = Some (order, cycles)" and "(t, t) \<in> (declared_edges tables fks)\<^sup>+"
  shows "\<exists>c \<in> set cycles. t \<in> set c"
proof -
  let ?g = "parent_graph tables fks"
  obtain comps final where l: "good_out ?g comps" "distinct (concat comps)"
      "set (concat comps) = set tables" "load_order tables fks =
        Some (place_rest (sort_by (<) tables) (concat (map ((!) comps) final)), reported tables fks comps)"
    using load_order_ok [of tables fks] by metis
  obtain x where x: "(t, x) \<in> declared_edges tables fks" "(x, t) \<in> (declared_edges tables fks)\<^sup>*"
    using assms(2) by (metis converse_tranclE trancl_into_rtrancl rtrancl.rtrancl_refl)
  then have "t \<in> set (concat comps)" using l(3) by (auto simp: declared_edges_def orders_def)
  then obtain c where c: "c \<in> set comps" "t \<in> set c" by auto
  have xc: "x \<in> set c"
    using component_iff [OF l(1,2) c, of x] x by (auto simp: same_component_def)
  have "1 < length c \<or> c ! 0 \<in> self_cycles tables fks"
  proof (cases "x = t")
    case True
    then have "t \<in> self_cycles tables fks" using x(1) by (simp add: self_cycles_iff)
    moreover have "length c \<noteq> 1 \<Longrightarrow> 1 < length c" using c(2) by (cases c) auto
    moreover have "length c = 1 \<Longrightarrow> c ! 0 = t" using c(2) by (auto simp: length_Suc_conv)
    ultimately show ?thesis by metis
  next
    case False
    have "card {x, t} \<le> card (set c)" using xc c(2) by (intro card_mono) auto
    with False card_length [of c] show ?thesis by simp
  qed
  then have "c \<in> set cycles" using c(1) assms(1) l(4) reported_iff [of c tables fks comps] by auto
  with c(2) show ?thesis by blast
qed

end
