(* ===== verification/Order_Properties.thy ===== *)
theory Order_Properties
  imports Order_Load
begin

text \<open>What the load order promises, for every schema: it is found, loses no table, loads a parent before
  its child unless they are in one cycle, and names the cycles.\<close>

definition cycle_fks :: "foreign_key list" where
  "cycle_fks = map (\<lambda>(c, p).
     \<lparr>fk_name = ''f'', fk_child = TableRef ''s'' c, fk_child_cols = [''x''], fk_parent = TableRef ''s'' p,
      fk_parent_cols = [''y''], fk_match_full = False, fk_validated = True, fk_virtual = False,
      fk_indexed = True, fk_not_recreatable = False\<rparr>)
     [(''a'', ''b''), (''b'', ''c''), (''c'', ''b'')]"

definition cycle_tables :: "table_ref list" where
  "cycle_tables = map (TableRef ''s'') [''a'', ''b'', ''c'']"

lemma cycle_load_order:
  "load_order cycle_tables cycle_fks
     = Some ([TableRef ''s'' ''b'', TableRef ''s'' ''c'', TableRef ''s'' ''a''],
             [[TableRef ''s'' ''b'', TableRef ''s'' ''c'']])"
  by code_simp

text \<open>
  C24: \<open>loadOrder\<close> returns, its order is a permutation of the tables, and the parent of every declared edge
  between them comes before the child unless the parent leads back to the child.
\<close>

theorem load_order_is_topological:
  assumes "distinct tables"
  shows "\<exists>order cycles. load_order tables fks = Some (order, cycles) \<and> mset order = mset tables
    \<and> (\<forall>fk \<in> set fks. orders tables fk
        \<longrightarrow> (fk_parent fk, fk_child fk) \<in> (declared_edges tables fks)\<^sup>*
          \<or> comes_before order (fk_parent fk) (fk_child fk))"
  by (rule load_order_permutes [OF assms, of fks]) blast

lemma load_order_is_topological_witness:
  "mset [TableRef ''s'' ''b'', TableRef ''s'' ''c'', TableRef ''s'' ''a''] = mset cycle_tables"
proof -
  have "distinct cycle_tables" by (simp add: cycle_tables_def)
  from load_order_is_topological [OF this, of cycle_fks] show ?thesis
    unfolding cycle_load_order by (elim exE conjE) simp
qed

text \<open>
  C25: the components \<open>loadOrder\<close> reports are the cycles of the schema: each is the strongly connected component of
  every one of its tables, and a table is in one exactly when a path of declared edges leads
  from it back to itself.
\<close>

theorem load_order_reports_cycles:
  assumes "load_order tables fks = Some (order, cycles)"
  shows "(\<forall>c \<in> set cycles. \<forall>t \<in> set c.
        set c = {u. (t, u) \<in> (declared_edges tables fks)\<^sup>* \<and> (u, t) \<in> (declared_edges tables fks)\<^sup>*})
    \<and> (\<forall>t. (t, t) \<in> (declared_edges tables fks)\<^sup>+ \<longleftrightarrow> (\<exists>c \<in> set cycles. t \<in> set c))"
  using load_order_components [OF assms] load_order_cycles_found [OF assms] by blast

lemma load_order_reports_cycles_witness:
  "(TableRef ''s'' ''c'', TableRef ''s'' ''b'') \<in> (declared_edges cycle_tables cycle_fks)\<^sup>*"
proof -
  let ?c = "[TableRef ''s'' ''b'', TableRef ''s'' ''c'']"
  let ?R = "declared_edges cycle_tables cycle_fks"
  note all = conjunct1 [OF load_order_reports_cycles [OF cycle_load_order]]
  have c: "?c \<in> set [?c]" and t: "TableRef ''s'' ''c'' \<in> set ?c" and b: "TableRef ''s'' ''b'' \<in> set ?c"
    by simp_all
  have "TableRef ''s'' ''b'' \<in> {u. (TableRef ''s'' ''c'', u) \<in> ?R\<^sup>* \<and> (u, TableRef ''s'' ''c'') \<in> ?R\<^sup>*}"
    using b unfolding bspec [OF bspec [OF all c] t] .
  then show ?thesis by blast
qed

end
