(* ===== verification/Regex.thy ===== *)
theory Regex
  imports Strings
begin

text \<open>
  The part of Go's \<open>regexp\<close> the allowlist uses: classes, concatenation, alternation and
  repetition, matched against a whole text (\<open>\A ... \z\<close>). \<open>lang\<close> is the language an expression
  stands for; \<open>accepts\<close> decides it by derivatives, so a concrete match evaluates.
\<close>

datatype regex =
    Eps
  | Cls bool "(char \<times> char) list"
  | Cat regex regex
  | Alt regex regex
  | Rep regex

fun in_class :: "bool \<Rightarrow> (char \<times> char) list \<Rightarrow> char \<Rightarrow> bool" where
  "in_class neg ranges c = (list_ex (\<lambda>(a, b). a \<le> c \<and> c \<le> b) ranges \<noteq> neg)"

fun lang :: "regex \<Rightarrow> string set" where
  "lang Eps = {[]}"
| "lang (Cls neg ranges) = {[c] | c. in_class neg ranges c}"
| "lang (Cat r s) = {u @ v | u v. u \<in> lang r \<and> v \<in> lang s}"
| "lang (Alt r s) = lang r \<union> lang s"
| "lang (Rep r) = {concat ws | ws. set ws \<subseteq> lang r}"

subsection \<open>Deciding a match\<close>

fun nullable :: "regex \<Rightarrow> bool" where
  "nullable Eps = True"
| "nullable (Cls neg ranges) = False"
| "nullable (Cat r s) = (nullable r \<and> nullable s)"
| "nullable (Alt r s) = (nullable r \<or> nullable s)"
| "nullable (Rep r) = True"

text \<open>The derivative, \<open>None\<close> where nothing can follow.\<close>

fun alt_opt :: "regex option \<Rightarrow> regex option \<Rightarrow> regex option" where
  "alt_opt None s = s"
| "alt_opt r None = r"
| "alt_opt (Some r) (Some s) = Some (if r = s then r else Alt r s)"

definition cat_opt :: "regex option \<Rightarrow> regex \<Rightarrow> regex option" where
  "cat_opt r s = map_option (\<lambda>x. if x = Eps then s else Cat x s) r"

fun deriv :: "char \<Rightarrow> regex \<Rightarrow> regex option" where
  "deriv c Eps = None"
| "deriv c (Cls neg ranges) = (if in_class neg ranges c then Some Eps else None)"
| "deriv c (Cat r s) =
     alt_opt (cat_opt (deriv c r) s) (if nullable r then deriv c s else None)"
| "deriv c (Alt r s) = alt_opt (deriv c r) (deriv c s)"
| "deriv c (Rep r) = cat_opt (deriv c r) (Rep r)"

fun accepts :: "regex \<Rightarrow> string \<Rightarrow> bool" where
  "accepts r [] = nullable r"
| "accepts r (c # s) = (case deriv c r of None \<Rightarrow> False | Some r' \<Rightarrow> accepts r' s)"

definition lang_opt :: "regex option \<Rightarrow> string set" where
  "lang_opt r = (case r of None \<Rightarrow> {} | Some r \<Rightarrow> lang r)"

lemma lang_opt_simps [simp]:
  "lang_opt None = {}" "lang_opt (Some r) = lang r"
  by (simp_all add: lang_opt_def)

lemma lang_alt_opt [simp]: "lang_opt (alt_opt a b) = lang_opt a \<union> lang_opt b"
  by (cases a; cases b) auto

lemma lang_cat_opt [simp]: "lang_opt (cat_opt a s) = {u @ v | u v. u \<in> lang_opt a \<and> v \<in> lang s}"
  by (cases a) (auto simp: cat_opt_def)

lemma nullable_lang: "nullable r \<longleftrightarrow> [] \<in> lang r"
  by (induction r) (auto intro: exI [of _ "[]"])

lemma lang_Rep_Cons:
  "c # s \<in> lang (Rep r) \<longleftrightarrow> (\<exists>u v. s = u @ v \<and> c # u \<in> lang r \<and> v \<in> lang (Rep r))"
proof
  assume "c # s \<in> lang (Rep r)"
  then obtain ws where ws: "c # s = concat ws" "set ws \<subseteq> lang r" by auto
  then show "\<exists>u v. s = u @ v \<and> c # u \<in> lang r \<and> v \<in> lang (Rep r)"
  proof (induction ws)
    case (Cons w ws)
    then show ?case by (cases w) auto
  qed simp
next
  assume "\<exists>u v. s = u @ v \<and> c # u \<in> lang r \<and> v \<in> lang (Rep r)"
  then obtain u ws where "s = u @ concat ws" "c # u \<in> lang r" "set ws \<subseteq> lang r" by auto
  then have "c # s = concat ((c # u) # ws)" "set ((c # u) # ws) \<subseteq> lang r" by auto
  then show "c # s \<in> lang (Rep r)" unfolding lang.simps by blast
qed

lemma lang_deriv: "s \<in> lang_opt (deriv c r) \<longleftrightarrow> c # s \<in> lang r"
proof (induction r arbitrary: s)
  case (Cat r t)
  show ?case by (auto simp: Cat nullable_lang Cons_eq_append_conv)
next
  case (Rep r)
  show ?case by (simp only: lang_Rep_Cons) (auto simp: Rep.IH)
qed auto

lemma accepts_lang: "accepts r s \<longleftrightarrow> s \<in> lang r"
proof (induction s arbitrary: r)
  case (Cons c s)
  have "c # s \<in> lang r \<longleftrightarrow> s \<in> lang_opt (deriv c r)" by (simp add: lang_deriv)
  then show ?case by (cases "deriv c r") (simp_all add: Cons)
qed (simp add: nullable_lang)

subsection \<open>Derived forms\<close>

definition Opt :: "regex \<Rightarrow> regex" where "Opt r = Alt r Eps"
definition Plus :: "regex \<Rightarrow> regex" where "Plus r = Cat r (Rep r)"

fun Cats :: "regex list \<Rightarrow> regex" where
  "Cats [] = Eps"
| "Cats [r] = r"
| "Cats (r # s # rs) = Cat r (Cats (s # rs))"

fun Alts :: "regex list \<Rightarrow> regex" where
  "Alts [] = Cls False []"
| "Alts [r] = r"
| "Alts (r # s # rs) = Alt r (Alts (s # rs))"

text \<open>At most \<open>n\<close> repetitions, \<open>{0,n}\<close>.\<close>

fun up_to :: "nat \<Rightarrow> regex \<Rightarrow> regex" where
  "up_to 0 r = Eps"
| "up_to (Suc n) r = Opt (Cat r (up_to n r))"

text \<open>A character, and the same under \<open>(?i)\<close>: both cases of an ASCII letter.\<close>

definition exactly :: "char \<Rightarrow> regex" where "exactly c = Cls False [(c, c)]"

definition either_case :: "char \<Rightarrow> regex" where
  "either_case c =
     (if is_upper c then Cls False [(c, c), (lower_char c, lower_char c)]
      else if is_lower c then Cls False [(c, c), (upper_char c, upper_char c)]
      else exactly c)"

definition text_of :: "string \<Rightarrow> regex" where "text_of s = Cats (map exactly s)"
definition word_of :: "string \<Rightarrow> regex" where "word_of s = Cats (map either_case s)"

lemma lang_Opt [simp]: "lang (Opt r) = insert [] (lang r)"
  by (auto simp: Opt_def)

lemma lang_Cats: "lang (Cats rs) = {concat ws | ws. list_all2 (\<lambda>w r. w \<in> lang r) ws rs}"
proof (induction rs rule: Cats.induct)
  case (2 r)
  have "x \<in> lang r \<longleftrightarrow> (\<exists>ws. x = concat ws \<and> list_all2 (\<lambda>w r. w \<in> lang r) ws [r])" for x
    by (auto simp: list_all2_Cons2 intro: exI [of _ "[x]"])
  then show ?case by (intro set_eqI) (simp only: Cats.simps mem_Collect_eq)
next
  case (3 r s rs)
  show ?case
  proof (intro set_eqI iffI)
    fix x assume "x \<in> lang (Cats (r # s # rs))"
    then obtain u v where u: "x = u @ v" "u \<in> lang r" "v \<in> lang (Cats (s # rs))" by auto
    then obtain ws where "v = concat ws" "list_all2 (\<lambda>w r. w \<in> lang r) ws (s # rs)" using 3 by auto
    then have "x = concat (u # ws) \<and> list_all2 (\<lambda>w r. w \<in> lang r) (u # ws) (r # s # rs)"
      using u by simp
    then show "x \<in> {concat ws | ws. list_all2 (\<lambda>w r. w \<in> lang r) ws (r # s # rs)}" by blast
  next
    fix x assume "x \<in> {concat ws | ws. list_all2 (\<lambda>w r. w \<in> lang r) ws (r # s # rs)}"
    then obtain us where us: "x = concat us" "list_all2 (\<lambda>w r. w \<in> lang r) us (r # s # rs)" by blast
    then obtain u ws where "us = u # ws" "u \<in> lang r" "list_all2 (\<lambda>w r. w \<in> lang r) ws (s # rs)"
      by (metis list_all2_Cons2)
    with us(1) have "x = u @ concat ws" "u \<in> lang r" "list_all2 (\<lambda>w r. w \<in> lang r) ws (s # rs)"
      by simp_all
    then show "x \<in> lang (Cats (r # s # rs))" using 3 by auto
  qed
qed auto

lemma lang_CatsI: "list_all2 (\<lambda>w r. w \<in> lang r) ws rs \<Longrightarrow> concat ws \<in> lang (Cats rs)"
  by (auto simp: lang_Cats)

lemma lang_Cats_Cons: "u \<in> lang r \<Longrightarrow> v \<in> lang (Cats rs) \<Longrightarrow> u @ v \<in> lang (Cats (r # rs))"
  by (cases rs) auto

lemma lang_Cats_append: "u \<in> lang (Cats rs) \<Longrightarrow> v \<in> lang (Cats ss) \<Longrightarrow> u @ v \<in> lang (Cats (rs @ ss))"
proof (induction rs arbitrary: u)
  case (Cons r rs)
  then obtain a b where "u = a @ b" "a \<in> lang r" "b \<in> lang (Cats rs)"
    by (cases rs) (auto intro: that [of u "[]"])
  then show ?case using Cons lang_Cats_Cons by simp
qed simp

lemma lang_Alts: "lang (Alts rs) = (\<Union>r \<in> set rs. lang r)"
  by (induction rs rule: Alts.induct) auto

lemma lang_exactly [simp]: "lang (exactly c) = {[c]}"
  by (auto simp: exactly_def)

lemma lang_either_case: "[c] \<in> lang (either_case c)"
  by (simp add: either_case_def)

lemma lang_text_of [simp]: "lang (text_of s) = {s}"
proof -
  have "list_all2 (\<lambda>w r. w \<in> lang r) ws (map exactly s) \<longleftrightarrow> ws = map (\<lambda>c. [c]) s" for ws
    by (induction s arbitrary: ws) (auto simp: list_all2_Cons2)
  then show ?thesis by (auto simp: text_of_def lang_Cats)
qed

lemma lang_word_of: "s \<in> lang (word_of s)"
  unfolding word_of_def
proof (induction s)
  case (Cons c s)
  have "[c] @ s \<in> lang (Cats (either_case c # map either_case s))"
    by (rule lang_Cats_Cons [OF lang_either_case Cons])
  then show ?case by simp
qed simp

lemma lang_RepI: "set ws \<subseteq> lang r \<Longrightarrow> concat ws \<in> lang (Rep r)"
  by auto

lemma lang_Rep_Nil [simp]: "[] \<in> lang (Rep r)"
  by (auto intro: exI [of _ "[]"])

lemma lang_Rep_append: "u \<in> lang r \<Longrightarrow> v \<in> lang (Rep r) \<Longrightarrow> u @ v \<in> lang (Rep r)"
  by (auto intro: exI [of _ "u # _"]) (metis concat.simps(2) insert_subset list.simps(15))

lemma lang_Plus_iff: "s \<in> lang (Plus r) \<longleftrightarrow> (\<exists>u v. s = u @ v \<and> u \<in> lang r \<and> v \<in> lang (Rep r))"
  by (auto simp: Plus_def)

lemma lang_Rep_chars:
  "s \<in> lang (Rep (Cls neg ranges)) \<longleftrightarrow> list_all (in_class neg ranges) s"
proof
  assume "s \<in> lang (Rep (Cls neg ranges))"
  then obtain ws where "s = concat ws" "set ws \<subseteq> {[c] | c. in_class neg ranges c}" by auto
  then show "list_all (in_class neg ranges) s" by (induction ws arbitrary: s) auto
next
  assume "list_all (in_class neg ranges) s"
  then have "concat (map (\<lambda>c. [c]) s) \<in> lang (Rep (Cls neg ranges))"
    by (intro lang_RepI) (auto simp: list_all_iff)
  then show "s \<in> lang (Rep (Cls neg ranges))" by simp
qed

end
