(* ===== verification/Tracer.thy ===== *)
theory Tracer
  imports Regex
begin

text \<open>
  \<open>internal/pg/tracer.go\<close>: the source statement allowlist. A template is compiled to a regular
  expression, a statement is let through only if it matches one of the registered shapes and
  runs in a transaction, and everything is recorded with its literals removed. The expressions
  are the code's constants under its \<open>(?is)\<close> flags; case folding is ASCII.
\<close>

subsection \<open>The placeholder expansions\<close>

abbreviation dquote :: char where "dquote \<equiv> CHR 0x22"
abbreviation squote :: char where "squote \<equiv> CHR 0x27"
abbreviation backslash :: char where "backslash \<equiv> CHR 0x5C"
abbreviation dollar :: char where "dollar \<equiv> CHR 0x24"

definition spaces :: regex where "spaces = Rep (exactly CHR '' '')"

definition digit_class :: regex where "digit_class = Cls False [(CHR ''0'', CHR ''9'')]"

definition re_ident_part :: regex where
  "re_ident_part =
     Alt (Cats [exactly dquote, Plus (Alt (Cls True [(dquote, dquote)]) (text_of [dquote, dquote])),
            exactly dquote])
         (Cat (Cls False [(CHR ''a'', CHR ''z''), (CHR ''A'', CHR ''Z''), (CHR ''_'', CHR ''_'')])
            (Rep (Cls False [(CHR ''a'', CHR ''z''), (CHR ''A'', CHR ''Z''), (CHR ''0'', CHR ''9''),
               (CHR ''_'', CHR ''_''), (dollar, dollar)])))"

definition re_ident :: regex where
  "re_ident = Cat re_ident_part (Opt (Cat (exactly CHR ''.'') re_ident_part))"

text \<open>\<open>x(?: *, *x)*\<close>, the comma-separated list every list placeholder is.\<close>

definition comma_list :: "regex \<Rightarrow> regex" where
  "comma_list r = Cat r (Rep (Cats [spaces, exactly CHR '','', spaces, r]))"

definition re_idents :: regex where "re_idents = comma_list re_ident"

definition re_int :: regex where "re_int = Plus digit_class"

definition hex_class :: regex where
  "hex_class = Cls False [(CHR ''0'', CHR ''9''), (CHR ''a'', CHR ''f''), (CHR ''A'', CHR ''F'')]"

definition re_snapshot :: regex where
  "re_snapshot = Cats [exactly squote, Plus hex_class, exactly CHR ''-'', Plus hex_class,
     exactly CHR ''-'', Plus digit_class, exactly squote]"

definition re_type_mod :: regex where
  "re_type_mod = Opt (Cats [exactly CHR ''('', spaces, Plus digit_class, spaces,
     Opt (Cats [exactly CHR '','', spaces, Plus digit_class, spaces]), exactly CHR '')''])"

definition type_words :: "string list" where
  "type_words = [''with'', ''without'', ''time'', ''zone'', ''varying'', ''precision'', ''double'',
     ''to'', ''year'', ''month'', ''day'', ''hour'', ''minute'', ''second'']"

definition re_type_word :: regex where "re_type_word = Alts (map word_of type_words)"

definition re_type_name :: regex where
  "re_type_name = Cats [re_ident, re_type_mod,
     up_to 4 (Cats [exactly CHR '' '', re_type_word, re_type_mod])]"

definition empty_brackets :: regex where
  "empty_brackets = Cats [exactly CHR ''['', spaces, exactly CHR '']'']"

definition re_cast :: regex where
  "re_cast = Cats [text_of ''::'', re_type_name, Opt empty_brackets]"

definition re_select_item :: regex where
  "re_select_item = Cats [re_ident, Opt re_cast, Opt (Cat (word_of '' AS '') re_ident_part)]"

definition re_select_list :: regex where "re_select_list = comma_list re_select_item"

definition re_cast_arg :: regex where
  "re_cast_arg = Cats [exactly dollar, Plus digit_class, text_of ''::'', re_type_name, empty_brackets]"

definition re_cast_args :: regex where "re_cast_args = comma_list re_cast_arg"

definition re_key_term :: regex where
  "re_key_term =
     Alt (Cats [re_ident, spaces, exactly CHR ''='', spaces, re_ident, Opt re_cast])
         (Cat re_ident (word_of '' IS NOT NULL''))"

definition re_key_pred :: regex where
  "re_key_pred = Cat re_key_term (Rep (Cat (word_of '' AND '') re_key_term))"

text \<open>The operator's predicate: the excluded characters at every level, and parentheses that
  balance to \<open>whereMaxDepth\<close>.\<close>

definition singles :: "string \<Rightarrow> (char \<times> char) list" where "singles s = map (\<lambda>c. (c, c)) s"

definition where_excluded :: string where
  "where_excluded = [CHR '';'', backslash, dollar, CHR ''/'', CHR ''('', CHR '')'', CHR ''-'']"

definition re_where_ord :: regex where "re_where_ord = Cls True (singles where_excluded)"

definition re_where_dash :: regex where "re_where_dash = Cat (exactly CHR ''-'') re_where_ord"

definition re_where_slash :: regex where
  "re_where_slash = Cat (exactly CHR ''/'') (Cls True (singles (CHR ''*'' # where_excluded)))"

definition re_where_atom :: regex where
  "re_where_atom = Alts [re_where_ord, re_where_dash, re_where_slash]"

definition pg_where_max_depth :: nat where "pg_where_max_depth = 6"

fun where_at_depth :: "nat \<Rightarrow> regex" where
  "where_at_depth 0 = Plus re_where_atom"
| "where_at_depth (Suc n) =
     Plus (Alt re_where_atom
       (Cats [Opt (Cls False (singles ''-/'')), exactly CHR ''('', Opt (where_at_depth n), exactly CHR '')'']))"

definition re_where :: regex where "re_where = where_at_depth pg_where_max_depth"

subsection \<open>Compiling a template\<close>

text \<open>\<open>normaliseSQL\<close>: runs of white space become one blank, and the ends are trimmed.\<close>

definition is_re_space :: "char \<Rightarrow> bool" where
  "is_re_space c \<longleftrightarrow> c \<in> set [CHR 0x09, CHR 0x0A, CHR 0x0C, CHR 0x0D, CHR '' '']"

fun collapse :: "bool \<Rightarrow> string \<Rightarrow> string" where
  "collapse in_run [] = []"
| "collapse in_run (c # s) =
     (if is_re_space c then (if in_run then [] else '' '') @ collapse True s
      else c # collapse False s)"

definition normalise_sql :: "string \<Rightarrow> string" where
  "normalise_sql s = trim_space (collapse False s)"

definition placeholders :: "(string \<times> regex) list" where
  "placeholders =
     [(''ident'', re_ident), (''idents'', re_idents), (''int'', re_int), (''snapshot'', re_snapshot),
      (''selectlist'', re_select_list), (''casts'', re_cast_args), (''keypred'', re_key_pred),
      (''where'', re_where)]"

definition token_char :: "char \<Rightarrow> bool" where
  "token_char c \<longleftrightarrow> is_upper c \<or> is_lower c \<or> c = CHR ''_''"

text \<open>A placeholder-shaped token at the start of a text: its name, and what follows it.\<close>

definition scan_token :: "string \<Rightarrow> (string \<times> string) option" where
  "scan_token s =
     (case s of
        [] \<Rightarrow> None
      | c # r \<Rightarrow>
          if c \<noteq> CHR 0x7B then None
          else (case (takeWhile token_char r, dropWhile token_char r) of
                  (name, d # rest) \<Rightarrow> if name \<noteq> [] \<and> d = CHR 0x7D then Some (name, rest) else None
                | _ \<Rightarrow> None))"

text \<open>\<open>quoteLiteral\<close> on one character: a blank stands for any run of blanks.\<close>

definition literal_char :: "char \<Rightarrow> regex" where
  "literal_char c = (if c = CHR '' '' then spaces else either_case c)"

lemma scan_token_shorter: "scan_token s = Some (name, rest) \<Longrightarrow> length rest < length s"
proof -
  assume a: "scan_token s = Some (name, rest)"
  then obtain r d where "s = CHR 0x7B # r" "dropWhile token_char r = d # rest"
    by (auto simp: scan_token_def split: list.splits if_splits)
  then show ?thesis using length_dropWhile_le [of token_char r] by simp
qed

text \<open>\<open>expandInto\<close>: the expressions of one run of template text, or the token that is none of the
  placeholders.\<close>

function expand_text :: "string \<Rightarrow> string + regex list" where
  "expand_text s =
     (case s of
        [] \<Rightarrow> Inr []
      | c # r \<Rightarrow>
          (case scan_token s of
             None \<Rightarrow> bind_res (expand_text r) (\<lambda>rs. Inr (literal_char c # rs))
           | Some (name, rest) \<Rightarrow>
               (case map_of placeholders name of
                  None \<Rightarrow> Inl (''the template carries {'' @ name
                    @ ''}, which is not one of {ident}, {idents}, {int}, {snapshot}, {selectlist}, {casts}, {keypred}, {where}'')
                | Some e \<Rightarrow> bind_res (expand_text rest) (\<lambda>rs. Inr (e # rs)))))"
  by pat_completeness auto
termination
  by (relation "measure length") (auto dest: scan_token_shorter)

declare expand_text.simps [simp del]

text \<open>\<open>templateSegments\<close>: a quoted identifier, its quotes included, is a segment of its own; an
  unterminated one takes the rest.\<close>

datatype segment = Plain string | Quoted string

fun quoted_end :: "string \<Rightarrow> string \<times> string" where
  "quoted_end [] = ([], [])"
| "quoted_end (c # s) =
     (if c \<noteq> dquote then apfst ((#) c) (quoted_end s)
      else case s of
             d # t \<Rightarrow> if d = dquote then apfst (\<lambda>q. c # d # q) (quoted_end t) else ([c], s)
           | [] \<Rightarrow> ([c], []))"

lemma quoted_end_length: "length (snd (quoted_end s)) \<le> length s"
proof (induction s rule: quoted_end.induct)
  case (2 c s)
  show ?case
  proof (cases "c = dquote")
    case False
    then show ?thesis using 2(1) by simp
  next
    case q: True
    show ?thesis
    proof (cases s)
      case (Cons d t)
      show ?thesis
      proof (cases "d = dquote")
        case True
        then have "length (snd (quoted_end t)) \<le> length t" using 2(2) [OF _ Cons] q by simp
        then show ?thesis using q Cons True by simp
      qed (simp add: q Cons)
    qed (simp add: q)
  qed
qed simp

function template_segments :: "string \<Rightarrow> segment list" where
  "template_segments s =
     (let plain = takeWhile (\<lambda>c. c \<noteq> dquote) s;
          front = (if plain = [] then [] else [Plain plain])
      in case dropWhile (\<lambda>c. c \<noteq> dquote) s of
           [] \<Rightarrow> front
         | c # r \<Rightarrow> front @ Quoted (c # fst (quoted_end r)) # template_segments (snd (quoted_end r)))"
  by pat_completeness auto
termination
proof (relation "measure length", goal_cases)
  case (2 s plain front c r)
  have "length (c # r) \<le> length s" using 2 by (metis length_dropWhile_le)
  then show ?case using quoted_end_length [of r] by simp
qed simp

declare template_segments.simps [simp del]

fun segment_regex :: "segment \<Rightarrow> string + regex list" where
  "segment_regex (Quoted t) = Inr [text_of t]"
| "segment_regex (Plain t) = expand_text t"

fun segments_regex :: "segment list \<Rightarrow> string + regex list" where
  "segments_regex [] = Inr []"
| "segments_regex (g # gs) =
     bind_res (segment_regex g) (\<lambda>a. bind_res (segments_regex gs) (\<lambda>b. Inr (a @ b)))"

definition compile_shape :: "string \<Rightarrow> string + regex" where
  "compile_shape template =
     (let norm = normalise_sql template in
      if norm = [] then Inl ''the template is empty''
      else bind_res (segments_regex (template_segments norm)) (\<lambda>rs. Inr (Cats rs)))"

end
