(* ===== verification/Trace_Log.thy ===== *)
theory Trace_Log
  imports Tracer
begin

text \<open>
  The rest of \<open>internal/pg/tracer.go\<close>: what the tracer records and when it refuses. A statement
  goes to the wire only if \<open>check\<close> leaves its context alive; everything else is a violation, and
  what is recorded has no literal left in it.
\<close>

subsection \<open>Removing literals\<close>

text \<open>After an opening quote: the longest \<open>(?:[^']|'')*'\<close>, and what follows it.\<close>

fun close_literal :: "string \<Rightarrow> string option" where
  "close_literal [] = None"
| "close_literal (c # s) =
     (if c \<noteq> squote then close_literal s
      else case s of
             d # t \<Rightarrow>
               if d = squote
               then (case close_literal t of Some r \<Rightarrow> Some r | None \<Rightarrow> Some s)
               else Some s
           | [] \<Rightarrow> Some [])"

lemma close_literal_length: "close_literal s = Some r \<Longrightarrow> length r < length s"
proof (induction s arbitrary: r rule: close_literal.induct)
  case (2 c s)
  show ?case
  proof (cases "c = squote")
    case False
    then show ?thesis using 2 by force
  next
    case q: True
    show ?thesis
    proof (cases s)
      case (Cons d t)
      show ?thesis
      proof (cases "d = squote \<and> close_literal t \<noteq> None")
        case True
        then show ?thesis using 2(2) [OF _ Cons] 2(3) q Cons by force
      next
        case False
        then show ?thesis using 2(3) q Cons by (auto split: if_splits option.splits)
      qed
    qed (use 2(3) q in simp)
  qed
qed simp

function elide_strings :: "string \<Rightarrow> string" where
  "elide_strings s =
     (case s of
        [] \<Rightarrow> []
      | c # r \<Rightarrow>
          (case if c = squote then close_literal r else None of
             Some rest \<Rightarrow> [squote, CHR ''?'', squote] @ elide_strings rest
           | None \<Rightarrow> c # elide_strings r))"
  by pat_completeness auto
termination
  by (relation "measure length") (auto dest: close_literal_length split: if_splits)

declare elide_strings.simps [simp del]

definition word_char :: "char \<Rightarrow> bool" where
  "word_char c \<longleftrightarrow> is_upper c \<or> is_lower c \<or> is_digit c \<or> c = CHR ''_''"

definition at_boundary :: "string \<Rightarrow> bool" where
  "at_boundary rest \<longleftrightarrow> (case rest of [] \<Rightarrow> True | c # _ \<Rightarrow> \<not> word_char c)"

text \<open>A number starting here, \<open>[0-9]+(?:\.[0-9]+)?\b\<close>: what follows it.\<close>

definition fraction_rest :: "string \<Rightarrow> string option" where
  "fraction_rest rest =
     (case rest of
        d # f # r \<Rightarrow> if d = CHR ''.'' \<and> is_digit f then Some (dropWhile is_digit r) else None
      | _ \<Rightarrow> None)"

definition skip_number :: "string \<Rightarrow> string option" where
  "skip_number s =
     (if s = [] \<or> \<not> is_digit (hd s) then None
      else let rest = dropWhile is_digit s;
               whole = (if at_boundary rest then Some rest else None)
           in case fraction_rest rest of
                Some r \<Rightarrow> if at_boundary r then Some r else whole
              | None \<Rightarrow> whole)"

lemma fraction_rest_length: "fraction_rest s = Some r \<Longrightarrow> length r \<le> length s"
  using length_dropWhile_le [of is_digit]
  by (auto simp: fraction_rest_def split: list.splits if_splits intro: le_SucI)

lemma skip_number_length:
  assumes "skip_number s = Some r"
  shows "length r < length s"
proof -
  have s: "s \<noteq> []" "is_digit (hd s)" using assms by (auto simp: skip_number_def split: if_splits)
  then have d: "length (dropWhile is_digit s) < length s"
    using length_dropWhile_le [of is_digit "tl s"] by (cases s) simp_all
  have "r = dropWhile is_digit s \<or> fraction_rest (dropWhile is_digit s) = Some r"
    using assms s by (auto simp: skip_number_def Let_def split: if_splits option.splits)
  with d fraction_rest_length show ?thesis by fastforce
qed

text \<open>\<open>prev\<close> says whether the character before is a word character, the left \<open>\b\<close>.\<close>

function elide_numbers :: "bool \<Rightarrow> string \<Rightarrow> string" where
  "elide_numbers prev s =
     (case s of
        [] \<Rightarrow> []
      | c # r \<Rightarrow>
          (case if prev then None else skip_number s of
             Some rest \<Rightarrow> CHR ''?'' # elide_numbers True rest
           | None \<Rightarrow> c # elide_numbers (word_char c) r))"
  by pat_completeness auto
termination
  by (relation "measure (\<lambda>(p, s). length s)") (auto dest: skip_number_length split: if_splits)

declare elide_numbers.simps [simp del]

text \<open>\<open>dollarQuote.MatchString\<close> and \<open>leadingKeyword.FindString\<close>.\<close>

fun has_dollar_quote :: "string \<Rightarrow> bool" where
  "has_dollar_quote [] = False"
| "has_dollar_quote (c # s) =
     (c = dollar \<and> (case dropWhile word_char s of d # _ \<Rightarrow> d = dollar | [] \<Rightarrow> False)
      \<or> has_dollar_quote s)"

definition leading_keyword :: "string \<Rightarrow> string" where
  "leading_keyword s = takeWhile (\<lambda>c. is_upper c \<or> is_lower c) s"

definition elided :: "string \<Rightarrow> string" where
  "elided s = (if leading_keyword s \<noteq> [] then leading_keyword s @ '' <elided>'' else ''<elided>'')"

definition elide_literals :: "string \<Rightarrow> string" where
  "elide_literals s =
     (if backslash \<in> set s then elided s
      else let out = elide_numbers False (elide_strings s)
           in if even (count_list out squote) \<and> \<not> has_dollar_quote out then out else elided out)"

subsection \<open>The tracer\<close>

record traced =
  ts_shape :: string
  ts_sql :: string
  ts_refused :: bool

record violation_of =
  vi_sql :: string
  vi_outside_tx :: bool

record tracer =
  tr_shapes :: "(string \<times> regex) list"
  tr_trace :: "traced list"
  tr_violations :: nat
  tr_first :: "violation_of option"

definition no_tracer :: tracer where
  "no_tracer = \<lparr>tr_shapes = [], tr_trace = [], tr_violations = 0, tr_first = None\<rparr>"

fun compile_all :: "(string \<times> string) list \<Rightarrow> string + (string \<times> regex) list" where
  "compile_all [] = Inr []"
| "compile_all ((name, sql) # shapes) =
     (if name = [] then Inl ''pg: a shape must be named, because the trace records the name''
      else case compile_shape sql of
             Inl e \<Rightarrow> Inl (''pg: shape '' @ [dquote] @ name @ [dquote] @ '': '' @ e)
           | Inr re \<Rightarrow> bind_res (compile_all shapes) (\<lambda>cs. Inr ((name, re) # cs)))"

definition register :: "(string \<times> string) list \<Rightarrow> tracer \<Rightarrow> string + tracer" where
  "register shapes t =
     bind_res (compile_all shapes) (\<lambda>cs. Inr (t\<lparr>tr_shapes := tr_shapes t @ cs\<rparr>))"

definition new_tracer :: "(string \<times> string) list \<Rightarrow> string + tracer" where
  "new_tracer shapes = register shapes no_tracer"

definition match_shape :: "tracer \<Rightarrow> string \<Rightarrow> string" where
  "match_shape t norm =
     (case find (\<lambda>s. accepts (snd s) norm) (tr_shapes t) of Some s \<Rightarrow> fst s | None \<Rightarrow> [])"

definition record_stmt :: "traced \<Rightarrow> bool \<Rightarrow> tracer \<Rightarrow> tracer" where
  "record_stmt s outside t =
     (let t1 = t\<lparr>tr_trace := tr_trace t @ [s]\<rparr> in
      if \<not> ts_refused s then t1
      else t1\<lparr>tr_violations := Suc (tr_violations t1),
              tr_first := (case tr_first t1 of
                 Some v \<Rightarrow> Some v | None \<Rightarrow> Some \<lparr>vi_sql = ts_sql s, vi_outside_tx = outside\<rparr>)\<rparr>)"

definition opens_transaction :: "string \<Rightarrow> bool" where
  "opens_transaction norm \<longleftrightarrow>
     to_lower (take 5 norm) = ''begin'' \<and> (length norm = 5 \<or> norm ! 5 = CHR '' '')"

text \<open>The transaction status pgconn reports: \<open>'I'\<close>, \<open>'T'\<close>, \<open>'E'\<close>, or none.\<close>

datatype tx_status = NoConn | TxIdle | TxActive | TxFailed

text \<open>\<open>check\<close>: the tracer after the statement, and whether its context is still alive.\<close>

definition check :: "tx_status \<Rightarrow> string \<Rightarrow> tracer \<Rightarrow> tracer \<times> bool" where
  "check tx sql t =
     (let norm = normalise_sql sql;
          name = match_shape t norm;
          outside = (name \<noteq> [] \<and> tx = TxIdle \<and> \<not> opens_transaction norm);
          refused = (name = [] \<or> outside);
          rec = \<lparr>ts_shape = (if refused then [] else name), ts_sql = elide_literals norm,
                 ts_refused = refused\<rparr>
      in (record_stmt rec outside t, \<not> refused))"

definition refuse_call :: "string \<Rightarrow> tracer \<Rightarrow> tracer \<times> bool" where
  "refuse_call what t =
     (record_stmt \<lparr>ts_shape = [], ts_sql = what, ts_refused = True\<rparr> False t, False)"

text \<open>The five pgx tracer callbacks that decide anything.\<close>

datatype source_call =
    QueryStart tx_status string
  | BatchStart
  | CopyFromStart string
  | PrepareStart string
  | ConnectStart

fun trace_call :: "source_call \<Rightarrow> tracer \<Rightarrow> tracer \<times> bool" where
  "trace_call (QueryStart tx sql) t = check tx sql t"
| "trace_call BatchStart t = refuse_call ''SendBatch'' t"
| "trace_call (CopyFromStart table) t = refuse_call (''CopyFrom '' @ table) t"
| "trace_call (PrepareStart name) t = refuse_call (''Prepare '' @ name) t"
| "trace_call ConnectStart t =
     (record_stmt \<lparr>ts_shape = ''source.connect'', ts_sql = [], ts_refused = False\<rparr> False t, True)"

fun trace_calls :: "source_call list \<Rightarrow> tracer \<Rightarrow> tracer" where
  "trace_calls [] t = t"
| "trace_calls (c # cs) t = trace_calls cs (fst (trace_call c t))"

text \<open>\<open>Violation\<close>: which sentinel, with the statement and the count.\<close>

datatype sentinel = ErrRefused | ErrOutsideTransaction

definition violation :: "tracer \<Rightarrow> (sentinel \<times> (string \<times> nat) option) option" where
  "violation t =
     (if tr_violations t = 0 then None
      else case tr_first t of
             None \<Rightarrow> Some (ErrRefused, None)
           | Some v \<Rightarrow> Some (if vi_outside_tx v then ErrOutsideTransaction else ErrRefused,
                             Some (vi_sql v, tr_violations t)))"

end
