(* ===== verification/Where.thy ===== *)
theory Where
  imports Tracer Run
begin

text \<open>
  \<open>internal/plan/where.go\<close>: the check of the operator's \<open>--where\<close> predicate, made before any
  statement is built. It duplicates the allowlist's \<open>{where}\<close> placeholder character by
  character, and the two are shown to agree. Positions count bytes, which is what the code's
  rune offsets are on an ASCII predicate.
\<close>

definition where_max_depth :: nat where "where_max_depth = 6"

definition where_flag :: string where "where_flag = ''--where''"

definition where_ordinary :: "char \<Rightarrow> bool" where
  "where_ordinary r \<longleftrightarrow>
     r \<notin> set [CHR 0x00, CHR '';'', backslash, dollar, CHR ''/'', CHR ''('', CHR '')'', CHR ''-'']"

definition where_follows_dash :: "char \<Rightarrow> bool" where
  "where_follows_dash next \<longleftrightarrow> where_ordinary next \<or> next = CHR ''(''"

definition where_follows_slash :: "char \<Rightarrow> bool" where
  "where_follows_slash next \<longleftrightarrow> where_ordinary next \<and> next \<noteq> CHR ''*'' \<or> next = CHR ''(''"

text \<open>The character after this one, 0 at the end.\<close>

definition next_char :: "string \<Rightarrow> char" where
  "next_char s = (case s of [] \<Rightarrow> CHR 0x00 | c # _ \<Rightarrow> c)"

text \<open>The loop of \<open>checkWhere\<close> from position \<open>i\<close>: where it stops and why, if it does.\<close>

fun where_fault :: "nat \<Rightarrow> nat \<Rightarrow> string \<Rightarrow> (nat \<times> string) option" where
  "where_fault i depth [] = (if 0 < depth then Some (i, ''a `(` it never closes'') else None)"
| "where_fault i depth (c # s) =
     (if c = CHR '';'' then Some (i, ''a statement separator `;`'')
      else if c = backslash then Some (i, ''a backslash'')
      else if c = dollar then Some (i, ''a dollar sign'')
      else if c = CHR ''('' then
        (if where_max_depth < Suc depth
         then Some (i, ''parentheses nested deeper than '' @ itoa (int where_max_depth))
         else where_fault (Suc i) (Suc depth) s)
      else if c = CHR '')'' then
        (if depth = 0 then Some (i, ''a `)` that closes no `(` of its own'')
         else where_fault (Suc i) (depth - 1) s)
      else if c = CHR ''-'' then
        (if next_char s = CHR ''-'' then Some (i, ''a line comment `--`'')
         else if \<not> where_follows_dash (next_char s)
         then Some (i, ''a `-` with nothing a predicate may follow it with'')
         else where_fault (Suc i) depth s)
      else if c = CHR ''/'' then
        (if next_char s = CHR ''*'' then Some (i, ''a block comment `/*`'')
         else if \<not> where_follows_slash (next_char s)
         then Some (i, ''a `/` with nothing a predicate may follow it with'')
         else where_fault (Suc i) depth s)
      else where_fault (Suc i) depth s)"

text \<open>\<open>refuseWhere\<close>: the refusal names no table; its text is the reason and the position, from 1.\<close>

definition refuse_where :: "nat \<Rightarrow> string \<Rightarrow> refusal \<times> string" where
  "refuse_where at reason =
     (refuse CodeWhereSyntax exit_usage (TableRef [] []),
      where_flag @ '' carries '' @ reason @ '' at character '' @ itoa (int at + 1))"

definition check_where :: "string \<Rightarrow> (refusal \<times> string) option" where
  "check_where w = map_option (\<lambda>(at, reason). refuse_where at reason) (where_fault 0 0 w)"

subsection \<open>Agreement with the allowlist\<close>

lemma ordinary_class: "in_class True (singles where_excluded) c \<longleftrightarrow> where_ordinary c \<or> c = CHR 0x00"
  by (auto simp: singles_def where_excluded_def where_ordinary_def list_ex_iff)

lemma slash_class: "in_class True (singles (CHR ''*'' # where_excluded)) c
    \<longleftrightarrow> (where_ordinary c \<or> c = CHR 0x00) \<and> c \<noteq> CHR ''*''"
  by (auto simp: singles_def where_excluded_def where_ordinary_def list_ex_iff)

definition where_atom :: "string \<Rightarrow> bool" where
  "where_atom a \<longleftrightarrow>
     (\<exists>c. a = [c] \<and> where_ordinary c)
     \<or> (\<exists>c. a = [CHR ''-'', c] \<and> where_ordinary c)
     \<or> (\<exists>c. a = [CHR ''/'', c] \<and> where_ordinary c \<and> c \<noteq> CHR ''*'')"

lemma lang_where_ord: "lang re_where_ord = {[c] | c. where_ordinary c \<or> c = CHR 0x00}"
  by (simp only: re_where_ord_def lang.simps ordinary_class)

lemma lang_where_dash: "lang re_where_dash = {[CHR ''-'', c] | c. where_ordinary c \<or> c = CHR 0x00}"
  by (auto simp: re_where_dash_def lang_where_ord)

lemma lang_where_slash:
  "lang re_where_slash = {[CHR ''/'', c] | c. (where_ordinary c \<or> c = CHR 0x00) \<and> c \<noteq> CHR ''*''}"
proof -
  have cls: "lang (Cls True (singles (CHR ''*'' # where_excluded)))
      = {[c] | c. (where_ordinary c \<or> c = CHR 0x00) \<and> c \<noteq> CHR ''*''}"
    by (simp only: lang.simps slash_class)
  show ?thesis unfolding re_where_slash_def lang.simps(3) lang_exactly cls by auto
qed

lemma where_atom_lang:
  assumes "CHR 0x00 \<notin> set a"
  shows "a \<in> lang re_where_atom \<longleftrightarrow> where_atom a"
proof -
  have "a \<in> lang re_where_atom \<longleftrightarrow> a \<in> lang re_where_ord \<or> a \<in> lang re_where_dash \<or> a \<in> lang re_where_slash"
    by (simp add: re_where_atom_def lang_Alts)
  moreover have "a \<in> lang re_where_ord \<longleftrightarrow> (\<exists>c. a = [c] \<and> where_ordinary c)"
    using assms by (force simp: lang_where_ord)
  moreover have "a \<in> lang re_where_dash \<longleftrightarrow> (\<exists>c. a = [CHR ''-'', c] \<and> where_ordinary c)"
    using assms by (force simp: lang_where_dash)
  moreover have "a \<in> lang re_where_slash
      \<longleftrightarrow> (\<exists>c. a = [CHR ''/'', c] \<and> where_ordinary c \<and> c \<noteq> CHR ''*'')"
    using assms by (force simp: lang_where_slash)
  ultimately show ?thesis by (simp only: where_atom_def)
qed

lemma where_atom_no_nul: "where_atom a \<Longrightarrow> CHR 0x00 \<notin> set a"
  by (auto simp: where_atom_def where_ordinary_def)

text \<open>What may stand at one level of nesting: nothing, or what the expression admits.\<close>

definition level :: "nat \<Rightarrow> string set" where
  "level n = insert [] (lang (where_at_depth n))"

definition where_item :: "nat \<Rightarrow> string \<Rightarrow> bool" where
  "where_item n a \<longleftrightarrow> a \<in> lang re_where_atom
     \<or> (\<exists>m pre p. n = Suc m \<and> pre \<in> {[], ''-'', ''/''} \<and> p \<in> level m \<and> a = pre @ ''('' @ p @ '')'')"

definition where_item_re :: "nat \<Rightarrow> regex" where
  "where_item_re n =
     (case n of 0 \<Rightarrow> re_where_atom
      | Suc m \<Rightarrow> Alt re_where_atom
          (Cats [Opt (Cls False (singles ''-/'')), exactly CHR ''('', Opt (where_at_depth m), exactly CHR '')'']))"

lemma where_at_depth_items: "where_at_depth n = Plus (where_item_re n)"
  by (cases n) (simp_all add: where_item_re_def)

lemma lang_group: "lang (Cats [r, exactly x, s, exactly y]) = {u @ [x] @ v @ [y] | u v. u \<in> lang r \<and> v \<in> lang s}"
  unfolding Cats.simps lang.simps lang_exactly by blast

lemma where_item_lang: "a \<in> lang (where_item_re n) \<longleftrightarrow> where_item n a"
proof (cases n)
  case (Suc m)
  have "lang (Opt (Cls False (singles ''-/''))) = {[], ''-'', ''/''}"
    by (auto simp: singles_def)
  then have "lang (Cats [Opt (Cls False (singles ''-/'')), exactly CHR ''('', Opt (where_at_depth m), exactly CHR '')''])
      = {pre @ ''('' @ p @ '')'' | pre p. pre \<in> {[], ''-'', ''/''} \<and> p \<in> level m}"
    unfolding lang_group level_def lang_Opt by (simp only:)
  then show ?thesis using Suc unfolding where_item_re_def where_item_def by (simp only: nat.case lang.simps) blast
qed (simp add: where_item_re_def where_item_def)

lemma level_items: "s \<in> level n \<longleftrightarrow> (\<exists>as. s = concat as \<and> (\<forall>a \<in> set as. where_item n a))"
proof
  assume "s \<in> level n"
  then show "\<exists>as. s = concat as \<and> (\<forall>a \<in> set as. where_item n a)"
  proof (cases "s = []")
    case True
    then show ?thesis by (intro exI [of _ "[]"]) simp
  next
    case False
    then obtain u ws where "s = u @ concat ws" "where_item n u" "set ws \<subseteq> lang (where_item_re n)"
      using \<open>s \<in> level n\<close> by (auto simp: level_def where_at_depth_items lang_Plus_iff where_item_lang)
    then show ?thesis by (intro exI [of _ "u # ws"]) (auto simp: where_item_lang)
  qed
next
  assume "\<exists>as. s = concat as \<and> (\<forall>a \<in> set as. where_item n a)"
  then obtain as where a: "s = concat as" "\<forall>a \<in> set as. where_item n a" by blast
  show "s \<in> level n"
  proof (cases as)
    case (Cons b bs)
    then have "s = b @ concat bs" "b \<in> lang (where_item_re n)" "concat bs \<in> lang (Rep (where_item_re n))"
      using a by (auto simp: where_item_lang)
    then show ?thesis unfolding level_def where_at_depth_items lang_Plus_iff insert_iff by blast
  qed (simp add: a level_def)
qed

lemma level_Nil [simp]: "[] \<in> level n" by (simp add: level_def)

lemma level_prepend: "where_item n a \<Longrightarrow> s \<in> level n \<Longrightarrow> a @ s \<in> level n"
  unfolding level_items by (metis concat.simps(2) set_ConsD)

text \<open>A text scanned from a depth: a segment per open level, each closed by its parenthesis.\<close>

fun closes :: "nat \<Rightarrow> string \<Rightarrow> bool" where
  "closes 0 s = (s \<in> level where_max_depth)"
| "closes (Suc d) s = (\<exists>p r. s = p @ CHR '')'' # r \<and> p \<in> level (where_max_depth - Suc d) \<and> closes d r)"

lemma closes_prepend: "where_item (where_max_depth - d) a \<Longrightarrow> closes d s \<Longrightarrow> closes d (a @ s)"
proof (cases d)
  case (Suc e)
  moreover assume "where_item (where_max_depth - d) a" "closes d s"
  ultimately obtain p r where "s = p @ CHR '')'' # r" "p \<in> level (where_max_depth - Suc e)" "closes e r"
      "where_item (where_max_depth - Suc e) a" by auto
  then have "a @ s = (a @ p) @ CHR '')'' # r" "a @ p \<in> level (where_max_depth - Suc e)" "closes e r"
    using level_prepend by simp_all
  then show ?thesis unfolding Suc closes.simps by blast
qed (simp add: level_prepend)

lemma closes_group:
  assumes "closes (Suc d) s" and "Suc d \<le> where_max_depth" and "pre \<in> {[], ''-'', ''/''}"
  shows "closes d (pre @ CHR ''('' # s)"
proof -
  obtain p r where p: "s = p @ CHR '')'' # r" "p \<in> level (where_max_depth - Suc d)" "closes d r"
    using assms(1) by auto
  have "where_max_depth - d = Suc (where_max_depth - Suc d)" using assms(2) by simp
  then have "where_item (where_max_depth - d) (pre @ ''('' @ p @ '')'')"
    using assms(3) p(2) unfolding where_item_def by blast
  from closes_prepend [OF this p(3)] show ?thesis by (simp add: p(1))
qed

lemma atom_item: "where_atom a \<Longrightarrow> where_item n a"
  by (simp add: where_item_def where_atom_lang where_atom_no_nul)

lemma where_max_depth_pos [simp]: "where_max_depth = 6"
  by (simp add: where_max_depth_def)

text \<open>A predicate the check lets through is one the expression admits.\<close>

lemma where_fault_closes:
  "where_fault i d s = None \<Longrightarrow> d \<le> where_max_depth \<Longrightarrow> closes d s"
proof (induction s arbitrary: i d rule: length_induct)
  case (1 s)
  note ih = 1(1) [rule_format] and ok = 1(2) and d = 1(3)
  show ?case
  proof (cases s)
    case Nil
    then show ?thesis using ok by (cases d) (simp_all split: if_splits)
  next
    case (Cons c t)
    have one: "closes d (a @ u)"
      if "where_atom a" "s = a @ u" "where_fault j d u = None" for a u j
    proof -
      have "length u < length s" using that(1,2) by (auto simp: where_atom_def)
      then show ?thesis using closes_prepend [OF atom_item [OF that(1)]] ih that(3) d by blast
    qed
    have open_group: "closes d (pre @ CHR ''('' # u)"
      if "s = pre @ CHR ''('' # u" "where_fault j (Suc d) u = None" "Suc d \<le> where_max_depth"
        "pre \<in> {[], ''-'', ''/''}" for pre u j
    proof -
      have "length u < length s" using that(1) by simp
      then have "closes (Suc d) u" using ih that(2,3) by blast
      then show ?thesis by (rule closes_group [OF _ that(3,4)])
    qed
    consider (group) "c = CHR ''(''" | (end_group) "c = CHR '')''" | (dash) "c = CHR ''-''"
      | (slash) "c = CHR ''/''" | (ord) "where_ordinary c" | (nul) "c = CHR 0x00"
      using ok Cons by (auto simp: where_ordinary_def split: if_splits)
    then show ?thesis
    proof cases
      case group
      then show ?thesis using ok Cons open_group [of "[]" t] by (auto split: if_splits)
    next
      case end_group
      then obtain e where e: "d = Suc e" "where_fault (Suc i) e t = None"
        using ok Cons by (cases d) auto
      then have "closes e t" using ih [of t] Cons d by simp
      moreover have "s = [] @ CHR '')'' # t" using Cons end_group by simp
      ultimately show ?thesis unfolding e(1) closes.simps using level_Nil by blast
    next
      case dash
      then have f: "where_follows_dash (next_char t)" "where_fault (Suc i) d t = None"
        using ok Cons by (auto split: if_splits)
      obtain x u where t: "t = x # u"
        using f(1) by (cases t) (auto simp: next_char_def where_follows_dash_def where_ordinary_def)
      show ?thesis
      proof (cases "x = CHR ''(''")
        case True
        then have "where_fault (Suc (Suc i)) (Suc d) u = None" "Suc d \<le> where_max_depth"
          using f(2) t by (auto split: if_splits)
        then show ?thesis using open_group [of "''-''" u] Cons dash t True by simp
      next
        case False
        then have x: "where_ordinary x" using f(1) t by (simp add: next_char_def where_follows_dash_def)
        then have "where_fault (Suc (Suc i)) d u = None"
          using f(2) t by (auto simp: where_ordinary_def)
        then show ?thesis using one [of "[CHR ''-'', x]" u] x Cons dash t by (simp add: where_atom_def)
      qed
    next
      case slash
      then have f: "where_follows_slash (next_char t)" "where_fault (Suc i) d t = None"
        using ok Cons by (auto split: if_splits)
      obtain x u where t: "t = x # u"
        using f(1) by (cases t) (auto simp: next_char_def where_follows_slash_def where_ordinary_def)
      show ?thesis
      proof (cases "x = CHR ''(''")
        case True
        then have "where_fault (Suc (Suc i)) (Suc d) u = None" "Suc d \<le> where_max_depth"
          using f(2) t by (auto split: if_splits)
        then show ?thesis using open_group [of "''/''" u] Cons slash t True by simp
      next
        case False
        then have x: "where_ordinary x" "x \<noteq> CHR ''*''"
          using f(1) t by (auto simp: next_char_def where_follows_slash_def)
        then have "where_fault (Suc (Suc i)) d u = None"
          using f(2) t by (auto simp: where_ordinary_def)
        then show ?thesis using one [of "[CHR ''/'', x]" u] x Cons slash t by (simp add: where_atom_def)
      qed
    next
      case ord
      then have "where_fault (Suc i) d t = None" using ok Cons by (auto simp: where_ordinary_def)
      then show ?thesis using one [of "[c]" t] ord Cons by (simp add: where_atom_def)
    next
      case nul
      then have f: "where_fault (Suc i) d t = None" using ok Cons by simp
      have "[c] \<in> lang re_where_ord" using nul lang_where_ord by simp
      then have "where_item (where_max_depth - d) [c]"
        by (simp add: where_item_def re_where_atom_def lang_Alts)
      moreover have "closes d t" using ih [of t] f Cons d by simp
      ultimately show ?thesis using closes_prepend [of d "[c]" t] Cons by simp
    qed
  qed
qed

lemma check_where_lang: "check_where w = None \<Longrightarrow> w \<noteq> [] \<Longrightarrow> w \<in> lang re_where"
  using where_fault_closes [of 0 0 w]
  by (simp add: check_where_def level_def re_where_def pg_where_max_depth_def)

text \<open>And the other way, on a predicate without a zero byte, which no SQL text holds.\<close>

lemma where_fault_item:
  "where_item n a \<Longrightarrow> CHR 0x00 \<notin> set a \<Longrightarrow> d + n \<le> where_max_depth
    \<Longrightarrow> \<exists>j. where_fault i d (a @ r) = where_fault j d r"
proof (induction n arbitrary: a d i r)
  case 0
  then have "where_atom a" by (simp add: where_item_def where_atom_lang)
  then show ?case by (auto simp: where_atom_def where_ordinary_def next_char_def
      where_follows_dash_def where_follows_slash_def)
next
  case (Suc n)
  show ?case
  proof (cases "a \<in> lang re_where_atom")
    case True
    then have "where_atom a" using Suc.prems by (simp add: where_atom_lang)
    then show ?thesis by (auto simp: where_atom_def where_ordinary_def next_char_def
        where_follows_dash_def where_follows_slash_def)
  next
    case False
    then obtain pre p where p: "pre \<in> {[], ''-'', ''/''}" "p \<in> level n" "a = pre @ ''('' @ p @ '')''"
      using Suc.prems(1) by (auto simp: where_item_def)
    obtain as where as: "p = concat as" "\<forall>a \<in> set as. where_item n a"
      using p(2) level_items by blast
    have inner: "\<exists>k. where_fault j (Suc d) (concat bs @ q) = where_fault k (Suc d) q"
      if "set bs \<subseteq> set as" for j bs q
      using that
    proof (induction bs arbitrary: j)
      case (Cons b bs)
      have "CHR 0x00 \<notin> set b" using Cons.prems Suc.prems(2) p(3) as(1) by auto
      then obtain k where "where_fault j (Suc d) (b @ concat bs @ q) = where_fault k (Suc d) (concat bs @ q)"
        using Suc.IH [of b "Suc d" j "concat bs @ q"] Cons.prems as(2) Suc.prems(3) by auto
      then show ?case using Cons by auto
    qed auto
    obtain k where k: "where_fault (Suc (length pre + i)) (Suc d) (p @ CHR '')'' # r)
        = where_fault k (Suc d) (CHR '')'' # r)"
      using inner [OF order_refl] as(1) by metis
    have "where_fault i d (a @ r) = where_fault (Suc (length pre + i)) (Suc d) (p @ CHR '')'' # r)"
      using p(1) p(3) Suc.prems(3)
      by (auto simp: next_char_def where_follows_dash_def where_follows_slash_def)
    then show ?thesis using k by auto
  qed
qed

lemma lang_check_where:
  assumes "w \<in> lang re_where" and "CHR 0x00 \<notin> set w"
  shows "check_where w = None"
proof -
  have "w \<in> level where_max_depth" using assms(1) by (simp add: level_def re_where_def pg_where_max_depth_def)
  then obtain as where as: "w = concat as" "\<forall>a \<in> set as. where_item where_max_depth a"
    using level_items by blast
  have "\<exists>j. where_fault i 0 (concat bs) = where_fault j 0 []" if "set bs \<subseteq> set as" for i bs
    using that
  proof (induction bs arbitrary: i)
    case (Cons b bs)
    have "CHR 0x00 \<notin> set b" using Cons.prems assms(2) as(1) by auto
    then obtain k where "where_fault i 0 (b @ concat bs) = where_fault k 0 (concat bs)"
      using where_fault_item [of where_max_depth b 0 i "concat bs"] Cons.prems as(2) by auto
    then show ?case using Cons by auto
  qed auto
  then show ?thesis using as(1) by (force simp: check_where_def)
qed

end
