(* ===== verification/Shapes.thy ===== *)
theory Shapes
  imports Trace_Log Where Sql
begin

text \<open>
  \<open>internal/plan/shapes.go\<close>: the templates the planner registers on the source allowlist, and the
  proof that every statement the builders of \<open>sql.go\<close> produce matches one of them, so that the
  tracer never refuses a statement of the planner's own.
\<close>

definition seed_shape :: string where
  "seed_shape = ''SELECT {selectlist} FROM {ident} t ORDER BY {idents} LIMIT {int}''"

definition seed_where_shape :: string where
  "seed_where_shape =
     ''SELECT {selectlist} FROM {ident} t WHERE ({where}) ORDER BY {idents} LIMIT {int}''"

definition map_keys_shape :: string where
  "map_keys_shape = ''SELECT DISTINCT {selectlist} FROM {ident} t ''
     @ ''JOIN unnest({casts}) AS k({idents}) ON {keypred} ORDER BY {idents}''"

definition map_keys_not_null_shape :: string where
  "map_keys_not_null_shape = ''SELECT DISTINCT {selectlist} FROM {ident} t ''
     @ ''JOIN unnest({casts}) AS k({idents}) ON {keypred} WHERE {keypred} ORDER BY {idents}''"

definition child_keys_shape :: string where
  "child_keys_shape = ''SELECT {selectlist} FROM (''
     @ ''SELECT {selectlist}, row_number() OVER (PARTITION BY {idents} ORDER BY {idents}) AS rn ''
     @ ''FROM {ident} t JOIN unnest({casts}) AS k({idents}) ON {keypred}''
     @ '') s WHERE s.rn <= {int} ORDER BY {idents}''"

definition bounded_count_shape :: string where
  "bounded_count_shape = ''SELECT count(*) FROM (SELECT 1 FROM {ident} LIMIT {int}) s''"

definition explicit_key_probe_shape :: string where
  "explicit_key_probe_shape = ''SELECT count(*) FROM (SELECT 1 FROM {ident} p ''
     @ ''GROUP BY {idents} HAVING count(*) > 1 LIMIT {int}) s''"

definition explicit_key_probe_bounded_shape :: string where
  "explicit_key_probe_bounded_shape = ''SELECT count(*) FROM (SELECT 1 FROM ''
     @ ''(SELECT {idents} FROM {ident} LIMIT {int}) p ''
     @ ''GROUP BY {idents} HAVING count(*) > 1 LIMIT {int}) s''"

definition pseudo_key_probe_shape :: string where
  "pseudo_key_probe_shape = ''SELECT count(*), count(DISTINCT ({idents})) FROM {ident} ''
     @ ''TABLESAMPLE SYSTEM ({int}::float8 / {int}) REPEATABLE ({int})''"

definition pseudo_key_probe_bounded_shape :: string where
  "pseudo_key_probe_bounded_shape = ''SELECT count(*), count(DISTINCT ({idents})) FROM ''
     @ ''(SELECT {idents} FROM {ident} LIMIT {int}) s''"

definition distinct_sample_shape :: string where
  "distinct_sample_shape = ''SELECT DISTINCT {selectlist} FROM ''
     @ ''(SELECT {idents} FROM {ident} TABLESAMPLE SYSTEM ({int}::float8 / {int}) ''
     @ ''REPEATABLE ({int}) LIMIT {int}) t ORDER BY {idents}''"

definition distinct_prefix_shape :: string where
  "distinct_prefix_shape = ''SELECT DISTINCT {selectlist} FROM ''
     @ ''(SELECT {idents} FROM {ident} ORDER BY {idents} LIMIT {int}) t ORDER BY {idents}''"

definition plan_shapes :: "(string \<times> string) list" where
  "plan_shapes =
     [(''plan.seed'', seed_shape), (''plan.seed_where'', seed_where_shape),
      (''plan.map_keys'', map_keys_shape), (''plan.map_keys_not_null'', map_keys_not_null_shape),
      (''plan.child_keys'', child_keys_shape), (''plan.bounded_count'', bounded_count_shape),
      (''plan.explicit_key_probe'', explicit_key_probe_shape),
      (''plan.explicit_key_probe_bounded'', explicit_key_probe_bounded_shape),
      (''plan.pseudo_key_probe'', pseudo_key_probe_shape),
      (''plan.pseudo_key_probe_bounded'', pseudo_key_probe_bounded_shape),
      (''plan.distinct_sample'', distinct_sample_shape),
      (''plan.distinct_prefix'', distinct_prefix_shape),
      (''plan.unreadable_partition_leaves'', unreadable_leaves_sql)]"

subsection \<open>White space\<close>

fun ends_space :: "bool \<Rightarrow> string \<Rightarrow> bool" where
  "ends_space b [] = b"
| "ends_space b (c # s) = ends_space (is_re_space c) s"

lemma collapse_append: "collapse b (u @ v) = collapse b u @ collapse (ends_space b u) v"
  by (induction u arbitrary: b) auto

lemma ends_space_append [simp]: "ends_space b (u @ v) = ends_space (ends_space b u) v"
  by (induction u arbitrary: b) auto

text \<open>A piece that neither begins nor ends with white space.\<close>

definition tight :: "string \<Rightarrow> bool" where
  "tight s \<longleftrightarrow> s \<noteq> [] \<and> \<not> is_re_space (hd s) \<and> \<not> is_re_space (last s)"

lemma ends_space_last: "s \<noteq> [] \<Longrightarrow> ends_space b s = is_re_space (last s)"
  by (induction s arbitrary: b) (auto simp: last_ConsR neq_Nil_conv split: list.splits)

lemma tight_collapse: "tight s \<Longrightarrow> collapse b s = collapse False s"
  by (cases s) (auto simp: tight_def)

lemma tight_collapse_True [simp]: "tight s \<Longrightarrow> collapse True s = collapse False s"
  by (rule tight_collapse)

lemma tight_ends: "tight s \<Longrightarrow> ends_space b s = False"
  by (simp add: tight_def ends_space_last)

lemma collapse_tight_append:
  "tight s \<Longrightarrow> collapse b (s @ t) = collapse False s @ collapse False t"
  by (simp only: collapse_append tight_ends) (metis tight_collapse)

lemma trim_space_id:
  assumes "s \<noteq> []" "\<not> is_space (hd s)" "\<not> is_space (last s)"
  shows "trim_space s = s"
proof -
  have "dropWhile is_space s = s" using assms(1,2) by (cases s) auto
  moreover have "dropWhile is_space (rev s) = rev s"
    using assms(1,3) by (cases s rule: rev_cases) auto
  ultimately show ?thesis by (simp add: trim_space_def)
qed

lemma collapse_escape:
  "collapse b (replace_char dquote [dquote, dquote] s) = replace_char dquote [dquote, dquote] (collapse b s)"
  by (induction s arbitrary: b) (auto simp: is_re_space_def)

lemma quote_not_space [simp]: "\<not> is_re_space dquote" by (simp add: is_re_space_def)

lemma collapse_quote_ident [simp]: "collapse b (quote_ident s) = quote_ident (collapse False s)"
  by (simp add: quote_ident_def collapse_append collapse_escape)

lemma collapse_quote_ident_append [simp]:
  "collapse b (quote_ident s @ t) = quote_ident (collapse False s) @ collapse False t"
  by (simp add: collapse_append quote_ident_def collapse_escape)

lemma tight_quote_ident [simp]: "tight (quote_ident s)"
  by (simp add: tight_def quote_ident_def)

lemma collapse_not_Nil [simp]: "collapse False s = [] \<longleftrightarrow> s = []"
  by (cases s) auto

definition collapse_table :: "table_ref \<Rightarrow> table_ref" where
  "collapse_table t = TableRef (collapse False (ref_schema t)) (collapse False (ref_name t))"

lemma collapse_quote_table [simp]: "collapse b (quote_table t) = quote_table (collapse_table t)"
  by (simp add: quote_table_def collapse_append collapse_table_def) (simp add: is_re_space_def quote_ident_def)

lemma tight_quote_table [simp]: "tight (quote_table t)"
  by (simp add: tight_def quote_table_def quote_ident_def)

lemma collapse_quote_table_append [simp]:
  "collapse b (quote_table t @ s) = quote_table (collapse_table t) @ collapse False s"
  by (simp add: collapse_append tight_ends)

lemma digit_not_space: "list_all is_digit s \<Longrightarrow> list_all (\<lambda>c. \<not> is_re_space c) s"
  by (auto simp: list_all_iff is_re_space_def is_digit_def)

lemma collapse_solid: "list_all (\<lambda>c. \<not> is_re_space c) s \<Longrightarrow> collapse b s = s"
  by (induction s arbitrary: b) auto

lemma itoa_solid: "list_all (\<lambda>c. \<not> is_re_space c) (itoa n)"
  using digit_not_space [OF nat_digits_digits] by (simp add: itoa_def is_re_space_def)

lemma itoa_not_Nil [simp]: "itoa n \<noteq> []"
  by (simp add: itoa_def)

lemma solid_tight: "list_all (\<lambda>c. \<not> is_re_space c) s \<Longrightarrow> s \<noteq> [] \<Longrightarrow> tight s"
  by (simp add: tight_def list_all_iff)

lemma tight_itoa [simp]: "tight (itoa n)"
  by (rule solid_tight [OF itoa_solid]) simp

lemma collapse_itoa [simp]: "collapse b (itoa n) = itoa n"
  by (rule collapse_solid [OF itoa_solid])

lemma collapse_itoa_append [simp]: "collapse b (itoa n @ s) = itoa n @ collapse False s"
  by (simp add: collapse_append tight_ends)

text \<open>A list of tight pieces.\<close>

lemma tight_join: "ws \<noteq> [] \<Longrightarrow> \<forall>w \<in> set ws. tight w \<Longrightarrow> tight (join sep ws)"
proof (induction sep ws rule: join.induct)
  case (3 sep s t ss)
  then have "tight (join sep (t # ss))" "tight s" by simp_all
  then show ?case by (simp add: tight_def)
qed simp_all

lemma collapse_join:
  assumes "\<forall>w \<in> set ws. tight w" and "\<And>x. tight x \<Longrightarrow> collapse False (sep @ x) = sep @ collapse False x"
  shows "collapse False (join sep ws) = join sep (map (collapse False) ws)"
  using assms
proof (induction sep ws rule: join.induct)
  case (3 sep s t ss)
  have "tight (join sep (t # ss))" by (rule tight_join) (use 3 in simp_all)
  with 3 show ?case by (simp add: collapse_tight_append)
qed simp_all

lemma is_re_space_simps [simp]:
  "is_re_space CHR '' ''" "\<not> is_re_space CHR '',''" "\<not> is_re_space CHR ''.''"
  "\<not> is_re_space CHR '':''" "\<not> is_re_space CHR ''t''" "\<not> is_re_space CHR ''e''"
  "\<not> is_re_space CHR ''x''" "\<not> is_re_space CHR ''A''" "\<not> is_re_space CHR ''S''"
  "\<not> is_re_space CHR ''o''" "\<not> is_re_space CHR ''k''" "\<not> is_re_space CHR ''c''"
  "\<not> is_re_space CHR ''N''" "\<not> is_re_space CHR ''D''" "\<not> is_re_space CHR ''='' "
  by (simp_all add: is_re_space_def)

lemma tight_append:
  "tight u \<Longrightarrow> v \<noteq> [] \<Longrightarrow> \<not> is_re_space (last v) \<Longrightarrow> tight (u @ v)"
  "u \<noteq> [] \<Longrightarrow> \<not> is_re_space (hd u) \<Longrightarrow> tight v \<Longrightarrow> tight (u @ v)"
  by (simp_all add: tight_def)

subsection \<open>The builders, on collapsed identifiers\<close>

text \<open>A type the casts of a statement can carry: its text is tight and the allowlist has a cast to it.\<close>

definition cast_ok :: "key_type \<Rightarrow> bool" where
  "cast_ok ty \<longleftrightarrow> kt_array_cast ty \<in> {''::int8[]'', ''::text[]'', ''::uuid[]''}
     \<and> (kt_kind ty = KindOther \<longrightarrow> tight (kt_type_name ty)
          \<and> collapse False (kt_type_name ty) = kt_type_name ty
          \<and> ''::'' @ kt_type_name ty \<in> lang re_cast)"

lemma tight_out_name [simp]: "tight (out_name n)"
  unfolding out_name_def by (rule tight_append(2)) simp_all

lemma collapse_out_name [simp]: "collapse b (out_name n) = out_name n"
  by (simp add: out_name_def)

lemma tight_out_expr [simp]: "tight (out_expr ''t'' col ty n)"
  unfolding out_expr_def append_assoc [symmetric] by (rule tight_append(2)) simp_all

lemma collapse_out_expr [simp]:
  "collapse b (out_expr ''t'' col ty n) = out_expr ''t'' (collapse False col) ty n"
  by (simp add: out_expr_def)

lemma comma_sep [simp]: "tight x \<Longrightarrow> collapse False ('', '' @ x) = '', '' @ collapse False x"
  using tight_collapse [of x True] by simp

lemma and_sep [simp]: "tight x \<Longrightarrow> collapse False ('' AND '' @ x) = '' AND '' @ collapse False x"
  using tight_collapse [of x True] by simp

lemma collapse_out_list [simp]:
  "collapse b (out_list ''t'' cols types) = out_list ''t'' (map (collapse False) cols) types"
proof (cases "cols = []")
  case False
  have "tight (out_list ''t'' cols types)"
    unfolding out_list_def by (rule tight_join) (use False in auto)
  then have "collapse b (out_list ''t'' cols types) = collapse False (out_list ''t'' cols types)"
    by (rule tight_collapse)
  also have "\<dots> = out_list ''t'' (map (collapse False) cols) types"
    unfolding out_list_def by (subst collapse_join) (auto intro!: arg_cong [where f = "join _"])
  finally show ?thesis .
qed (simp add: out_list_def)

lemma tight_out_list: "cols \<noteq> [] \<Longrightarrow> tight (out_list ''t'' cols types)"
  unfolding out_list_def by (rule tight_join) auto

lemma collapse_quoted_list [simp]: "collapse b (quoted_list cols) = quoted_list (map (collapse False) cols)"
proof (cases "cols = []")
  case False
  then have "collapse b (quoted_list cols) = collapse False (quoted_list cols)"
    unfolding quoted_list_def by (intro tight_collapse tight_join) auto
  also have "\<dots> = quoted_list (map (collapse False) cols)"
    unfolding quoted_list_def by (subst collapse_join) (auto simp: comp_def)
  finally show ?thesis .
qed (simp add: quoted_list_def)

lemma tight_quoted_list: "cols \<noteq> [] \<Longrightarrow> tight (quoted_list cols)"
  unfolding quoted_list_def by (rule tight_join) auto

definition qual :: "string \<Rightarrow> string" where "qual c = ''t.'' @ quote_ident c"

definition qual_list :: "string list \<Rightarrow> string" where
  "qual_list cols = join '', '' (map qual cols)"

lemma tight_qual [simp]: "tight (qual c)"
  using tight_append(2) [of "''t.''" "quote_ident c"] by (simp add: qual_def)

lemma collapse_qual [simp]: "collapse b (qual c) = qual (collapse False c)"
  by (simp add: qual_def)

lemma tight_qual_list [simp]: "cols \<noteq> [] \<Longrightarrow> tight (qual_list cols)"
  unfolding qual_list_def by (rule tight_join) auto

lemma collapse_qual_list [simp]: "collapse False (qual_list cols) = qual_list (map (collapse False) cols)"
  unfolding qual_list_def by (subst collapse_join) (auto simp: comp_def)

lemma order_by_qual: "order_by_columns ''t'' cols = '' ORDER BY '' @ qual_list cols"
  by (simp add: order_by_columns_def qual_list_def qual_def [abs_def])

lemma itoa_last [simp]: "\<not> is_re_space (last (itoa n))"
  using tight_itoa [of n] by (simp add: tight_def del: tight_itoa)

lemma tight_cast_arg: "cast_ok ty \<Longrightarrow> tight (''$'' @ itoa n @ kt_array_cast ty)"
  and collapse_cast_arg: "cast_ok ty \<Longrightarrow> collapse b (''$'' @ itoa n @ kt_array_cast ty) = ''$'' @ itoa n @ kt_array_cast ty"
proof -
  assume "cast_ok ty"
  then have s: "list_all (\<lambda>c. \<not> is_re_space c) (''$'' @ itoa n @ kt_array_cast ty)"
    using itoa_solid [of n] by (auto simp: cast_ok_def is_re_space_def)
  show "tight (''$'' @ itoa n @ kt_array_cast ty)" by (rule solid_tight [OF s]) simp
  show "collapse b (''$'' @ itoa n @ kt_array_cast ty) = ''$'' @ itoa n @ kt_array_cast ty"
    by (rule collapse_solid [OF s])
qed

lemma letter_name: "tight (c # itoa n)" "collapse b (c # itoa n) = c # itoa n" if "\<not> is_re_space c"
  using solid_tight [of "c # itoa n"] collapse_solid [of "c # itoa n"] itoa_solid [of n] that by simp_all

lemma collapse_unnest_from [simp]:
  assumes "types \<noteq> []" and "\<forall>ty \<in> set types. cast_ok ty"
  shows "collapse b (unnest_from types @ s) = unnest_from types @ collapse False s"
proof -
  let ?casts = "map (\<lambda>i. ''$'' @ itoa (int i + 1) @ kt_array_cast (types ! i)) [0..<length types]"
  let ?names = "map (\<lambda>i. ''k'' @ itoa (int i + 1)) [0..<length types]"
  have t: "\<forall>w \<in> set ?casts. tight w" "\<forall>w \<in> set ?names. tight w"
    using assms(2) tight_cast_arg letter_name(1) by auto
  have "collapse False (join '', '' ?casts) = join '', '' ?casts"
    "collapse False (join '', '' ?names) = join '', '' ?names"
    using t assms(2) collapse_cast_arg letter_name(2)
    by (subst collapse_join; auto intro!: arg_cong [where f = "join _"])+
  moreover have "tight (join '', '' ?casts)" "tight (join '', '' ?names)"
    using assms(1) t by (auto intro!: tight_join)
  ultimately show ?thesis
    unfolding unnest_from_def by (simp add: collapse_append tight_ends is_re_space_def)
qed

definition join_term :: "string \<Rightarrow> key_type \<Rightarrow> nat \<Rightarrow> string" where
  "join_term col ty i =
     ''t.'' @ quote_ident col @ '' = '' @ ''k.'' @ ''k'' @ itoa (int i + 1)
       @ (if kt_kind ty = KindOther then ''::'' @ kt_type_name ty else [])"

lemma join_on_terms:
  "join_on ''t'' cols types =
     join '' AND '' (map (\<lambda>i. join_term (cols ! i) (types ! i) i) [0..<length cols])"
  by (simp add: join_on_def join_term_def)

lemma tight_join_term: "cast_ok ty \<Longrightarrow> tight (join_term col ty i)"
  by (auto simp: tight_def join_term_def cast_ok_def)

lemma collapse_join_term:
  assumes "cast_ok ty"
  shows "collapse False (join_term col ty i) = join_term (collapse False col) ty i"
proof -
  have "collapse False (if kt_kind ty = KindOther then ''::'' @ kt_type_name ty else [])
      = (if kt_kind ty = KindOther then ''::'' @ kt_type_name ty else [])"
    using assms by (auto simp: cast_ok_def)
  then show ?thesis by (simp add: join_term_def is_re_space_def)
qed

lemma join_on_ok:
  assumes "cols \<noteq> []" and "length types = length cols" and "\<forall>ty \<in> set types. cast_ok ty"
  shows "tight (join_on ''t'' cols types)"
    and "collapse False (join_on ''t'' cols types) = join_on ''t'' (map (collapse False) cols) types"
proof -
  have t: "\<forall>w \<in> set (map (\<lambda>i. join_term (cols ! i) (types ! i) i) [0..<length cols]). tight w"
    using assms(2,3) tight_join_term by auto
  then show "tight (join_on ''t'' cols types)"
    unfolding join_on_terms using assms(1) by (intro tight_join) auto
  show "collapse False (join_on ''t'' cols types) = join_on ''t'' (map (collapse False) cols) types"
    unfolding join_on_terms using t assms(2,3) collapse_join_term
    by (subst collapse_join) (auto intro!: arg_cong [where f = "join _"])
qed

lemma collapse_join_on [simp]:
  assumes "cols \<noteq> []" and "length types = length cols" and "\<forall>ty \<in> set types. cast_ok ty"
  shows "collapse True (join_on ''t'' cols types @ s)
     = join_on ''t'' (map (collapse False) cols) types @ collapse False s"
  using join_on_ok [OF assms] by (simp add: collapse_tight_append)

lemma not_null_ok:
  assumes "cols \<noteq> []"
  shows "tight (not_null_all ''t'' cols)"
    and "collapse False (not_null_all ''t'' cols) = not_null_all ''t'' (map (collapse False) cols)"
proof -
  have t: "tight (''t'' @ ''.'' @ quote_ident c @ '' IS NOT NULL'')" for c
    by (simp add: tight_def is_re_space_def)
  then show "tight (not_null_all ''t'' cols)"
    unfolding not_null_all_def using assms by (intro tight_join) auto
  have "collapse False (''t'' @ ''.'' @ quote_ident c @ '' IS NOT NULL'')
      = ''t'' @ ''.'' @ quote_ident (collapse False c) @ '' IS NOT NULL''" for c
    by (simp add: is_re_space_def)
  then show "collapse False (not_null_all ''t'' cols) = not_null_all ''t'' (map (collapse False) cols)"
    unfolding not_null_all_def using t by (subst collapse_join) (auto simp: comp_def)
qed

subsection \<open>Whole statements\<close>

definition sep_order :: "nat \<Rightarrow> string" where
  "sep_order n = join '', '' (map out_name [0..<n])"

lemma out_order_sep: "out_order n = '' ORDER BY '' @ sep_order n"
  by (simp add: out_order_def sep_order_def)

lemma sep_order_ok: "0 < n \<Longrightarrow> tight (sep_order n)" "collapse False (sep_order n) = sep_order n"
  unfolding sep_order_def by (rule tight_join; simp) (subst collapse_join; simp add: comp_def)

lemma collapse_tight [simp]:
  "tight s \<Longrightarrow> collapse b (s @ t) = collapse False s @ collapse False t"
  by (rule collapse_tight_append)

lemma seed_sql_collapse:
  assumes "cols \<noteq> []"
  shows "collapse False (seed_sql t cols types w n)
     = seed_sql (collapse_table t) (map (collapse False) cols) types (collapse False w) n"
proof -
  have "collapse False (seed_sql t cols types w n) =
      ''SELECT '' @ out_list ''t'' (map (collapse False) cols) types
      @ '' FROM '' @ quote_table (collapse_table t) @ '' t''
      @ (if w \<noteq> [] then '' WHERE ('' @ collapse False w @ '')'' else [])
      @ '' ORDER BY '' @ qual_list (map (collapse False) cols)
      @ '' LIMIT '' @ itoa n"
    using assms tight_out_list [OF assms, of types]
    unfolding seed_sql_def order_by_qual
    by (simp add: is_re_space_def collapse_append [of _ w])
  then show ?thesis by (simp add: seed_sql_def order_by_qual)
qed

lemma map_keys_sql_collapse:
  assumes "in_cols \<noteq> []" and "length in_types = length in_cols" and "\<forall>ty \<in> set in_types. cast_ok ty"
    and "out_cols \<noteq> []"
  shows "collapse False (map_keys_sql t in_cols in_types out_cols out_types nn)
     = map_keys_sql (collapse_table t) (map (collapse False) in_cols) in_types
         (map (collapse False) out_cols) out_types (map (collapse False) nn)"
proof -
  have ty: "in_types \<noteq> []" using assms(1,2) by auto
  show ?thesis
    using assms ty tight_out_list [of out_cols out_types] join_on_ok [of in_cols in_types]
      not_null_ok [of nn] sep_order_ok(1) [of "length out_cols"]
    unfolding map_keys_sql_def out_order_sep
    by (simp add: is_re_space_def sep_order_ok(2))
qed

definition counted :: "string \<Rightarrow> nat \<Rightarrow> string" where "counted s i = s @ itoa (int i + 1)"

definition child_out :: "key_type \<Rightarrow> nat \<Rightarrow> string" where
  "child_out ty i = counted ''c'' i @ (if text_out ty then ''::text'' else []) @ '' AS '' @ out_name i"

definition child_item :: "string \<Rightarrow> nat \<Rightarrow> string" where
  "child_item c i = qual c @ '' AS '' @ counted ''c'' i"

definition row_number :: "string list \<Rightarrow> string list \<Rightarrow> string" where
  "row_number child_cols ident =
     ''row_number() OVER (PARTITION BY '' @ qual_list child_cols @ '' ORDER BY '' @ qual_list ident @ '') AS rn''"

lemma child_keys_sql_parts:
  "child_keys_sql t child_cols parent_types ident idty per_key =
     ''SELECT '' @ join '', '' (map (\<lambda>i. child_out (idty ! i) i) [0..<length idty])
     @ '' FROM (SELECT '' @ join '', '' (map (\<lambda>i. child_item (ident ! i) i) [0..<length ident]
         @ [row_number child_cols ident])
     @ '' FROM '' @ quote_table t @ '' t JOIN '' @ unnest_from parent_types @ '' ON ''
     @ join_on ''t'' child_cols parent_types @ '') s WHERE s.rn <= '' @ itoa per_key
     @ '' ORDER BY '' @ join '', '' (map (counted ''c'') [0..<length idty])"
proof -
  have eq: "map (\<lambda>i. map (\<lambda>i. ''c'' @ itoa (int i + 1)) [0..<length idty] ! i
        @ (if text_out (idty ! i) then ''::text'' else []) @ '' AS '' @ out_name i) [0..<length idty]
      = map (\<lambda>i. child_out (idty ! i) i) [0..<length idty]"
    by (rule map_cong) (simp_all add: child_out_def counted_def)
  show ?thesis unfolding child_keys_sql_def Let_def eq
    by (simp add: order_by_qual child_item_def counted_def [abs_def] row_number_def
        qual_list_def qual_def [abs_def])
qed

lemma counted_c [simp]: "tight (counted ''c'' i)" "collapse b (counted ''c'' i) = counted ''c'' i"
  using letter_name by (simp_all add: counted_def)

lemma tight_child_out [simp]: "tight (child_out ty i)"
  unfolding child_out_def append_assoc [symmetric] by (rule tight_append(2)) (simp_all add: counted_def)

lemma collapse_child_out [simp]: "collapse b (child_out ty i) = child_out ty i"
  by (simp add: child_out_def counted_def)

lemma tight_child_item [simp]: "tight (child_item c i)"
  unfolding child_item_def append_assoc [symmetric]
  by (rule tight_append(2)) (simp_all add: qual_def)

lemma collapse_child_item [simp]: "collapse b (child_item c i) = child_item (collapse False c) i"
  by (simp add: child_item_def collapse_append tight_ends)

lemma tight_row_number [simp]: "tight (row_number cc ident)"
  by (simp add: row_number_def tight_def is_re_space_def)

lemma collapse_row_number [simp]:
  "cc \<noteq> [] \<Longrightarrow> ident \<noteq> [] \<Longrightarrow> collapse b (row_number cc ident)
     = row_number (map (collapse False) cc) (map (collapse False) ident)"
  by (simp add: row_number_def is_re_space_def)

lemma child_keys_sql_collapse:
  assumes "child_cols \<noteq> []" and "length parent_types = length child_cols"
    and "\<forall>ty \<in> set parent_types. cast_ok ty" and "ident \<noteq> []" and "idty \<noteq> []"
  shows "collapse False (child_keys_sql t child_cols parent_types ident idty n)
     = child_keys_sql (collapse_table t) (map (collapse False) child_cols) parent_types
         (map (collapse False) ident) idty n"
proof -
  have ty: "parent_types \<noteq> []" using assms(1,2) by auto
  have outs: "tight (join '', '' (map (\<lambda>i. child_out (idty ! i) i) [0..<length idty]))"
    "collapse False (join '', '' (map (\<lambda>i. child_out (idty ! i) i) [0..<length idty]))
      = join '', '' (map (\<lambda>i. child_out (idty ! i) i) [0..<length idty])"
    using assms(5) by (auto intro!: tight_join) (subst collapse_join; simp add: comp_def)
  have orders: "tight (join '', '' (map (counted ''c'') [0..<length idty]))"
    "collapse False (join '', '' (map (counted ''c'') [0..<length idty]))
      = join '', '' (map (counted ''c'') [0..<length idty])"
    using assms(5) by (auto intro!: tight_join) (subst collapse_join; simp add: comp_def)
  let ?inner = "\<lambda>ident cc. join '', '' (map (\<lambda>i. child_item (ident ! i) i) [0..<length ident] @ [row_number cc ident])"
  have inner: "tight (?inner ident child_cols)"
    "collapse False (?inner ident child_cols)
      = ?inner (map (collapse False) ident) (map (collapse False) child_cols)"
    using assms(1,4) by (auto intro!: tight_join)
      (subst collapse_join; auto intro!: arg_cong [where f = "join _"])
  show ?thesis
    using assms ty outs inner orders join_on_ok [of child_cols parent_types]
    unfolding child_keys_sql_parts by (simp add: is_re_space_def)
qed

lemma collapse_tablesample [simp]:
  "collapse False (tablesample num den) = tablesample num den"
  "collapse False (tablesample num den @ s) = tablesample num den @ collapse False s"
  by (simp_all add: tablesample_def is_re_space_def)

lemma probe_sql_collapse:
  shows "collapse False (bounded_count_sql t) = bounded_count_sql (collapse_table t)"
    and "cols \<noteq> [] \<Longrightarrow> collapse False (explicit_key_probe_sql t cols n)
      = explicit_key_probe_sql (collapse_table t) (map (collapse False) cols) n"
    and "cols \<noteq> [] \<Longrightarrow> collapse False (pseudo_key_probe_sql t cols bounded num den)
      = pseudo_key_probe_sql (collapse_table t) (map (collapse False) cols) bounded num den"
    and "cols \<noteq> [] \<Longrightarrow> collapse False (distinct_sample_sql t cols types num den n)
      = distinct_sample_sql (collapse_table t) (map (collapse False) cols) types num den n"
    and "cols \<noteq> [] \<Longrightarrow> order \<noteq> [] \<Longrightarrow> collapse False (distinct_prefix_sql t cols types order n)
      = distinct_prefix_sql (collapse_table t) (map (collapse False) cols) types (map (collapse False) order) n"
  using tight_quoted_list [of cols] tight_quoted_list [of order] tight_out_list [of cols types]
    sep_order_ok [of "length cols"]
  by (simp_all add: bounded_count_sql_def explicit_key_probe_sql_def pseudo_key_probe_sql_def
      distinct_sample_sql_def distinct_prefix_sql_def out_order_sep Let_def is_re_space_def)

end
