(* ===== verification/Admitted.thy ===== *)
theory Admitted
  imports Shapes
begin

text \<open>
  Every statement the planner builds is in the language of a registered shape: the pieces first
  (identifiers, select items, casts, key predicates), then the templates, cut into literal text
  and placeholders.
\<close>

declare lang.simps [simp del]

subsection \<open>Pieces\<close>

lemma lang_Cats_one: "u \<in> lang r \<Longrightarrow> u \<in> lang (Cats [r])"
  by simp

lemma lang_Cats_three:
  "u \<in> lang r \<Longrightarrow> v \<in> lang s \<Longrightarrow> w \<in> lang t \<Longrightarrow> u @ v @ w \<in> lang (Cats [r, s, t])"
  by (rule lang_Cats_Cons, assumption, rule lang_Cats_Cons, assumption, rule lang_Cats_one)

lemma lang_Cat: "u \<in> lang r \<Longrightarrow> v \<in> lang s \<Longrightarrow> u @ v \<in> lang (Cat r s)"
  by (auto simp: lang.simps)

lemma quote_ident_part: "s \<noteq> [] \<Longrightarrow> quote_ident s \<in> lang re_ident_part"
proof -
  assume "s \<noteq> []"
  let ?r = "Alt (Cls True [(dquote, dquote)]) (text_of [dquote, dquote])"
  have one: "(if c = dquote then [dquote, dquote] else [c]) \<in> lang ?r" for c
    by (auto simp: lang.simps)
  have "replace_char dquote [dquote, dquote] t \<in> lang (Rep ?r)" for t
    unfolding replace_char_def
    by (rule lang_RepI, unfold set_map, rule image_subsetI, rule one)
  moreover obtain c t where "s = c # t" using \<open>s \<noteq> []\<close> by (cases s) auto
  ultimately have "replace_char dquote [dquote, dquote] s \<in> lang (Plus ?r)"
    unfolding Plus_def by (simp only: replace_char_simps) (rule lang_Cat [OF one])
  then have "[dquote] @ replace_char dquote [dquote, dquote] s @ [dquote]
      \<in> lang (Cats [exactly dquote, Plus ?r, exactly dquote])"
    by (rule lang_Cats_three [rotated]) (simp_all only: lang_exactly singleton_iff)
  then show ?thesis unfolding re_ident_part_def quote_ident_def lang.simps(4) by (rule UnI1)
qed

lemma part_ident: "s \<in> lang re_ident_part \<Longrightarrow> s \<in> lang re_ident"
  by (force simp: re_ident_def lang.simps)

lemma qualified_ident: "s \<in> lang re_ident_part \<Longrightarrow> t \<in> lang re_ident_part \<Longrightarrow> s @ ''.'' @ t \<in> lang re_ident"
  by (force simp: re_ident_def lang.simps)

definition letter :: "char \<Rightarrow> bool" where
  "letter c \<longleftrightarrow> is_lower c \<or> is_upper c \<or> c = CHR ''_''"

lemma unquoted_ident:
  assumes "letter c" and "list_all is_digit ds"
  shows "c # ds \<in> lang re_ident_part"
proof -
  have "ds \<in> lang (Rep (Cls False [(CHR ''a'', CHR ''z''), (CHR ''A'', CHR ''Z''), (CHR ''0'', CHR ''9''),
      (CHR ''_'', CHR ''_''), (dollar, dollar)]))"
    unfolding lang_Rep_chars using assms(2) by (auto simp: list_all_iff is_digit_def)
  moreover have "[c] \<in> lang (Cls False [(CHR ''a'', CHR ''z''), (CHR ''A'', CHR ''Z''), (CHR ''_'', CHR ''_'')])"
    using assms(1) by (auto simp: letter_def is_lower_def is_upper_def lang.simps)
  ultimately have "[c] @ ds \<in> lang (Cat (Cls False [(CHR ''a'', CHR ''z''), (CHR ''A'', CHR ''Z''), (CHR ''_'', CHR ''_'')])
      (Rep (Cls False [(CHR ''a'', CHR ''z''), (CHR ''A'', CHR ''Z''), (CHR ''0'', CHR ''9''),
      (CHR ''_'', CHR ''_''), (dollar, dollar)])))"
    unfolding lang.simps(3) by blast
  then show ?thesis unfolding re_ident_part_def lang.simps(4) by simp
qed

lemma itoa_nat: "0 \<le> n \<Longrightarrow> list_all is_digit (itoa n)"
  by (simp add: itoa_def nat_digits_digits)

lemma counted_part: "letter c \<Longrightarrow> c # itoa (int i + 1) \<in> lang re_ident_part"
  by (rule unquoted_ident) (simp_all add: itoa_nat)

lemma alias_part [simp]: "''t'' \<in> lang re_ident_part" "''k'' \<in> lang re_ident_part"
  using unquoted_ident [of _ "[]"] by (simp_all add: letter_def is_lower_def)

lemma digits_plus: "list_all is_digit ds \<Longrightarrow> ds \<noteq> [] \<Longrightarrow> ds \<in> lang (Plus digit_class)"
proof (cases ds)
  case (Cons d r)
  assume "list_all is_digit ds"
  then have "[d] \<in> lang digit_class" "r \<in> lang (Rep digit_class)"
    using Cons unfolding digit_class_def lang_Rep_chars
    by (auto simp: is_digit_def list_all_iff lang.simps)
  then show ?thesis unfolding lang_Plus_iff Cons by (metis append_Cons append_Nil)
qed simp

lemma itoa_int: "0 \<le> n \<Longrightarrow> itoa n \<in> lang re_int"
  unfolding re_int_def by (rule digits_plus [OF itoa_nat]) simp_all

lemma lang_spaces [simp]: "[] \<in> lang spaces" "'' '' \<in> lang spaces"
proof -
  show "[] \<in> lang spaces" by (simp add: spaces_def)
  have "concat [[CHR '' '']] \<in> lang (Rep (exactly CHR '' ''))" by (rule lang_RepI) simp
  then show "'' '' \<in> lang spaces" by (simp add: spaces_def)
qed

lemma comma_item:
  assumes "w \<in> lang r"
  shows "'', '' @ w \<in> lang (Cats [spaces, exactly CHR '','', spaces, r])"
proof -
  have "[] @ '','' @ '' '' @ w \<in> lang (Cats [spaces, exactly CHR '','', spaces, r])"
    by (intro lang_Cats_Cons) (use assms in simp_all)
  then show ?thesis by simp
qed

lemma join_Cons: "join sep (u # us) = u @ concat (map ((@) sep) us)"
  by (induction us arbitrary: u) simp_all

lemma join_comma_list:
  assumes "ws \<noteq> []" and "\<forall>w \<in> set ws. w \<in> lang r"
  shows "join '', '' ws \<in> lang (comma_list r)"
proof -
  have rest: "concat (map ((@) '', '') us) \<in> lang (Rep (Cats [spaces, exactly CHR '','', spaces, r]))"
    if "\<forall>w \<in> set us. w \<in> lang r" for us
    by (rule lang_RepI) (use that comma_item in \<open>auto simp del: Cats.simps\<close>)
  obtain u us where "ws = u # us" using assms(1) by (cases ws) auto
  then show ?thesis
    using assms(2) rest [of us] unfolding comma_list_def lang.simps(3) by (simp only: join_Cons) force
qed

lemma join_key_pred:
  assumes "ws \<noteq> []" and "\<forall>w \<in> set ws. w \<in> lang re_key_term"
  shows "join '' AND '' ws \<in> lang re_key_pred"
proof -
  have item: "'' AND '' @ w \<in> lang (Cat (word_of '' AND '') re_key_term)" if "w \<in> lang re_key_term" for w
    using that lang_word_of [of "'' AND ''"] unfolding lang.simps(3) by blast
  have rest: "concat (map ((@) '' AND '') us) \<in> lang (Rep (Cat (word_of '' AND '') re_key_term))"
    if "\<forall>w \<in> set us. w \<in> lang re_key_term" for us
    by (rule lang_RepI) (use that item in auto)
  obtain u us where "ws = u # us" using assms(1) by (cases ws) auto
  then show ?thesis
    using assms(2) rest [of us] unfolding re_key_pred_def lang.simps(3) by (simp only: join_Cons) force
qed

text \<open>\<open>names_ok\<close>: no identifier is empty, as no identifier of PostgreSQL is.\<close>

definition names_ok :: "string list \<Rightarrow> bool" where
  "names_ok cols \<longleftrightarrow> cols \<noteq> [] \<and> [] \<notin> set cols"

definition table_ok :: "table_ref \<Rightarrow> bool" where
  "table_ok t \<longleftrightarrow> ref_schema t \<noteq> [] \<and> ref_name t \<noteq> []"

lemma quote_table_ident: "table_ok t \<Longrightarrow> quote_table t \<in> lang re_ident"
  unfolding quote_table_def table_ok_def by (intro qualified_ident quote_ident_part) simp_all

lemma quoted_list_idents: "names_ok cols \<Longrightarrow> quoted_list cols \<in> lang re_idents"
  unfolding quoted_list_def re_idents_def names_ok_def
  by (rule join_comma_list) (auto intro: part_ident quote_ident_part)

lemma qual_ident: "c \<noteq> [] \<Longrightarrow> qual c \<in> lang re_ident"
  using qualified_ident [of "''t''" "quote_ident c"] by (simp add: qual_def quote_ident_part)

lemma qual_list_idents: "names_ok cols \<Longrightarrow> qual_list cols \<in> lang re_idents"
  unfolding qual_list_def re_idents_def names_ok_def
  by (rule join_comma_list) (auto intro: qual_ident)

lemma out_name_part: "out_name n \<in> lang re_ident_part"
  unfolding out_name_def using counted_part [of "CHR ''o''" n] by (simp add: letter_def is_lower_def)

lemma sep_order_idents: "0 < n \<Longrightarrow> sep_order n \<in> lang re_idents"
  unfolding sep_order_def re_idents_def
  by (rule join_comma_list) (auto intro: part_ident out_name_part)

lemma ident_type: "s \<in> lang re_ident \<Longrightarrow> s \<in> lang re_type_name"
proof -
  assume s: "s \<in> lang re_ident"
  have "[] \<in> lang re_type_mod" by (simp add: re_type_mod_def)
  moreover have "[] \<in> lang (up_to 4 r)" for r by (simp add: numeral_eq_Suc)
  ultimately have "s @ [] @ [] \<in> lang re_type_name"
    unfolding re_type_name_def using s by (intro lang_Cats_Cons) auto
  then show ?thesis by simp
qed

lemma text_type: "''text'' \<in> lang re_ident" "''int8'' \<in> lang re_ident" "''uuid'' \<in> lang re_ident"
  "''float8'' \<in> lang re_ident"
  by (rule iffD1 [OF accepts_lang], code_simp)+

lemma cast_item: "s \<in> lang re_type_name \<Longrightarrow> ''::'' @ s \<in> lang re_cast"
proof -
  assume "s \<in> lang re_type_name"
  then have "''::'' @ s @ [] \<in> lang re_cast"
    unfolding re_cast_def by (intro lang_Cats_Cons) auto
  then show ?thesis by simp
qed

lemma select_item:
  assumes "s \<in> lang re_ident" and "c = [] \<or> c \<in> lang re_cast" and "a \<in> lang re_ident_part"
  shows "s @ c @ '' AS '' @ a \<in> lang re_select_item"
proof -
  have "'' AS '' @ a \<in> lang (Opt (Cat (word_of '' AS '') re_ident_part))"
    using lang_Cat [OF lang_word_of assms(3)] by (simp only: lang_Opt insertI2)
  moreover have "c \<in> lang (Opt re_cast)" using assms(2) by auto
  ultimately show ?thesis unfolding re_select_item_def by (rule lang_Cats_three [OF assms(1), rotated])
qed

lemma text_cast: "''::text'' \<in> lang re_cast"
  using cast_item [OF ident_type [OF text_type(1)]] by simp

lemma out_expr_select:
  assumes "c \<noteq> []"
  shows "out_expr ''t'' c ty n \<in> lang re_select_item"
proof -
  have "qual c @ (if text_out ty then ''::text'' else []) @ '' AS '' @ out_name n \<in> lang re_select_item"
    by (rule select_item [OF qual_ident [OF assms] _ out_name_part]) (simp add: text_cast)
  then show ?thesis by (simp add: out_expr_def qual_def)
qed

lemma out_list_select: "names_ok cols \<Longrightarrow> out_list ''t'' cols types \<in> lang re_select_list"
  unfolding out_list_def re_select_list_def
  by (rule join_comma_list) (auto simp: names_ok_def intro!: out_expr_select, metis nth_mem)

lemma empty_brackets_lang: "''[]'' \<in> lang empty_brackets"
proof -
  have "''['' @ [] @ '']'' \<in> lang empty_brackets"
    unfolding empty_brackets_def by (rule lang_Cats_three) simp_all
  then show ?thesis by simp
qed

lemma cast_arg_lang:
  assumes "cast_ok ty"
  shows "''$'' @ itoa (int i + 1) @ kt_array_cast ty \<in> lang re_cast_arg"
proof -
  obtain n where n: "kt_array_cast ty = ''::'' @ n @ ''[]''" "n \<in> lang re_type_name"
    using assms text_type(1-3) ident_type unfolding cast_ok_def by fastforce
  have "[dollar] @ itoa (int i + 1) @ ''::'' @ n @ ''[]'' \<in> lang re_cast_arg"
    unfolding re_cast_arg_def
  proof (rule lang_Cats_Cons [OF _ lang_Cats_Cons [OF _ lang_Cats_three]])
    show "itoa (int i + 1) \<in> lang (Plus digit_class)" by (rule digits_plus [OF itoa_nat]) simp_all
  qed (use n(2) empty_brackets_lang in simp_all)
  then show ?thesis by (simp add: n(1))
qed

lemma join_term_lang:
  assumes "c \<noteq> []" and "cast_ok ty"
  shows "join_term c ty i \<in> lang re_key_term"
proof -
  let ?cast = "if kt_kind ty = KindOther then ''::'' @ kt_type_name ty else []"
  have k: "''k'' @ ''.'' @ (CHR ''k'' # itoa (int i + 1)) \<in> lang re_ident"
    by (rule qualified_ident [OF alias_part(2) counted_part]) (simp add: letter_def is_lower_def)
  have cast: "?cast \<in> lang (Opt re_cast)" using assms(2) by (auto simp: cast_ok_def)
  have "qual c @ '' '' @ ''='' @ '' '' @ (''k'' @ ''.'' @ (CHR ''k'' # itoa (int i + 1))) @ ?cast
      \<in> lang (Cats [re_ident, spaces, exactly CHR ''='', spaces, re_ident, Opt re_cast])"
    by (rule lang_Cats_Cons [OF qual_ident [OF assms(1)] lang_Cats_Cons [OF lang_spaces(2)
          lang_Cats_Cons [OF _ lang_Cats_three [OF lang_spaces(2) k cast]]]]) simp
  then show ?thesis by (simp add: re_key_term_def join_term_def qual_def lang.simps(4))
qed

lemma not_null_lang:
  assumes "c \<noteq> []"
  shows "''t'' @ ''.'' @ quote_ident c @ '' IS NOT NULL'' \<in> lang re_key_term"
proof -
  have "qual c @ '' IS NOT NULL'' \<in> lang (Cat re_ident (word_of '' IS NOT NULL''))"
    by (rule lang_Cat [OF qual_ident [OF assms] lang_word_of])
  then show ?thesis by (simp add: re_key_term_def qual_def lang.simps(4))
qed

lemma join_on_lang:
  assumes "names_ok cols" and "length types = length cols" and "\<forall>ty \<in> set types. cast_ok ty"
  shows "join_on ''t'' cols types \<in> lang re_key_pred"
  unfolding join_on_terms
proof (rule join_key_pred)
  have "join_term (cols ! i) (types ! i) i \<in> lang re_key_term" if "i < length cols" for i
    using assms that by (intro join_term_lang) (auto simp: names_ok_def, metis nth_mem)
  then show "\<forall>w \<in> set (map (\<lambda>i. join_term (cols ! i) (types ! i) i) [0..<length cols]). w \<in> lang re_key_term"
    by simp
qed (use assms(1) in \<open>simp add: names_ok_def\<close>)

lemma not_null_all_lang: "names_ok cols \<Longrightarrow> not_null_all ''t'' cols \<in> lang re_key_pred"
  unfolding not_null_all_def
  by (rule join_key_pred) (auto simp: names_ok_def simp del: append.simps intro!: not_null_lang)

subsection \<open>Templates\<close>

text \<open>A statement fits a template text.\<close>

definition fits :: "string \<Rightarrow> string \<Rightarrow> bool" where
  "fits t s \<longleftrightarrow> (\<exists>rs. expand_text t = Inr rs \<and> s \<in> lang (Cats rs))"

lemma fits_Nil: "fits [] []"
  by (simp add: fits_def expand_text.simps lang.simps)

lemma literal_char_lang: "[c] \<in> lang (literal_char c)"
  by (simp add: literal_char_def lang_either_case)

lemma fits_char:
  assumes "c \<noteq> CHR 0x7B" and "fits t s"
  shows "fits (c # t) (c # s)"
proof -
  obtain rs where rs: "expand_text t = Inr rs" "s \<in> lang (Cats rs)" using assms(2) by (auto simp: fits_def)
  have "scan_token (c # t) = None" using assms(1) by (simp add: scan_token_def)
  then have "expand_text (c # t) = Inr (literal_char c # rs)"
    using rs(1) by (subst expand_text.simps) simp
  moreover have "[c] @ s \<in> lang (Cats (literal_char c # rs))"
    by (rule lang_Cats_Cons [OF literal_char_lang rs(2)])
  ultimately show ?thesis by (simp add: fits_def)
qed

lemma fits_text: "CHR 0x7B \<notin> set l \<Longrightarrow> fits t s \<Longrightarrow> fits (l @ t) (l @ s)"
  by (induction l) (auto intro: fits_char)

lemma fits_hole:
  assumes "map_of placeholders name = Some r" and "name \<noteq> []" and "list_all token_char name"
    and "w \<in> lang r" and "fits t s"
  shows "fits (CHR 0x7B # name @ CHR 0x7D # t) (w @ s)"
proof -
  obtain rs where rs: "expand_text t = Inr rs" "s \<in> lang (Cats rs)" using assms(5) by (auto simp: fits_def)
  have "\<not> token_char CHR 0x7D" by (simp add: token_char_def is_upper_def is_lower_def)
  then have "scan_token (CHR 0x7B # name @ CHR 0x7D # t) = Some (name, t)"
    using assms(2,3) by (simp add: scan_token_def takeWhile_append1 takeWhile_append2
        dropWhile_append2 list_all_iff)
  then have "expand_text (CHR 0x7B # name @ CHR 0x7D # t) = Inr (r # rs)"
    using rs(1) assms(1) by (subst expand_text.simps) simp
  then show ?thesis unfolding fits_def using lang_Cats_Cons [OF assms(4) rs(2)] by blast
qed

lemma holes:
  "w \<in> lang re_ident \<Longrightarrow> fits t s \<Longrightarrow> fits (''{ident}'' @ t) (w @ s)"
  "w \<in> lang re_idents \<Longrightarrow> fits t s \<Longrightarrow> fits (''{idents}'' @ t) (w @ s)"
  "w \<in> lang re_int \<Longrightarrow> fits t s \<Longrightarrow> fits (''{int}'' @ t) (w @ s)"
  "w \<in> lang re_select_list \<Longrightarrow> fits t s \<Longrightarrow> fits (''{selectlist}'' @ t) (w @ s)"
  "w \<in> lang re_cast_args \<Longrightarrow> fits t s \<Longrightarrow> fits (''{casts}'' @ t) (w @ s)"
  "w \<in> lang re_key_pred \<Longrightarrow> fits t s \<Longrightarrow> fits (''{keypred}'' @ t) (w @ s)"
  "w \<in> lang re_where \<Longrightarrow> fits t s \<Longrightarrow> fits (''{where}'' @ t) (w @ s)"
  using fits_hole [of "''ident''" re_ident w t s] fits_hole [of "''idents''" re_idents w t s]
    fits_hole [of "''int''" re_int w t s] fits_hole [of "''selectlist''" re_select_list w t s]
    fits_hole [of "''casts''" re_cast_args w t s] fits_hole [of "''keypred''" re_key_pred w t s]
    fits_hole [of "''where''" re_where w t s]
  by (simp_all add: placeholders_def token_char_def is_lower_def)

lemmas fits_end = holes [where t = "[]" and s = "[]", simplified append_Nil2, OF _ fits_Nil]

text \<open>A template without quoted identifiers that is already normalised.\<close>

definition plain_template :: "string \<Rightarrow> bool" where
  "plain_template t \<longleftrightarrow> t \<noteq> [] \<and> normalise_sql t = t \<and> dquote \<notin> set t"

lemma compile_plain:
  assumes "plain_template (normalise_sql t)" and "fits (normalise_sql t) s"
  shows "\<exists>re. compile_shape t = Inr re \<and> accepts re s"
proof -
  let ?n = "normalise_sql t"
  have no: "takeWhile (\<lambda>c. c \<noteq> dquote) ?n = ?n" "dropWhile (\<lambda>c. c \<noteq> dquote) ?n = []"
    using assms(1) by (auto simp: plain_template_def takeWhile_eq_all_conv dropWhile_eq_Nil_conv)
  have "?n \<noteq> []" using assms(1) by (simp add: plain_template_def)
  then have "template_segments ?n = [Plain ?n]"
    by (subst template_segments.simps) (simp add: no Let_def)
  with assms show ?thesis
    by (auto simp: compile_shape_def Let_def plain_template_def fits_def accepts_lang)
qed

subsection \<open>Every statement\<close>

text \<open>The statements a well-formed run builds: no empty identifier, a column for every type, types of
  the kind given, counts that are not negative, and a predicate \<open>check_where\<close> passed.\<close>

fun stmt_ok_for :: "(key_type \<Rightarrow> bool) \<Rightarrow> stmt \<Rightarrow> bool" where
  "stmt_ok_for ok (SeedKeys t cols types w n) \<longleftrightarrow>
     table_ok t \<and> names_ok cols \<and> check_where w = None \<and> 0 \<le> n"
| "stmt_ok_for ok (MapKeys t ic ity oc oty nn) \<longleftrightarrow>
     table_ok t \<and> names_ok ic \<and> names_ok oc \<and> (nn = [] \<or> names_ok nn) \<and> length ity = length ic
     \<and> (\<forall>ty \<in> set ity. ok ty)"
| "stmt_ok_for ok (ChildKeys t cc pty ic ity n) \<longleftrightarrow>
     table_ok t \<and> names_ok cc \<and> names_ok ic \<and> length pty = length cc \<and> (\<forall>ty \<in> set pty. ok ty)
     \<and> length ity = length ic \<and> 0 \<le> n"
| "stmt_ok_for ok (DistinctSample t cols types num den n) \<longleftrightarrow>
     table_ok t \<and> names_ok cols \<and> 0 \<le> num \<and> 0 \<le> den \<and> 0 \<le> n"
| "stmt_ok_for ok (DistinctPrefix t cols types order n) \<longleftrightarrow>
     table_ok t \<and> names_ok cols \<and> names_ok order \<and> 0 \<le> n"
| "stmt_ok_for ok (BoundedCount t) \<longleftrightarrow> table_ok t"
| "stmt_ok_for ok (ExplicitKeyProbe t cols n) \<longleftrightarrow> table_ok t \<and> names_ok cols"
| "stmt_ok_for ok (PseudoKeyProbe t cols b num den) \<longleftrightarrow> table_ok t \<and> names_ok cols \<and> 0 \<le> num \<and> 0 \<le> den"
| "stmt_ok_for ok UnreadableLeaves \<longleftrightarrow> True"

lemma stmt_ok_for_mono: "stmt_ok_for P st \<Longrightarrow> (\<And>ty. P ty \<Longrightarrow> Q ty) \<Longrightarrow> stmt_ok_for Q st"
  by (cases st) auto

lemma table_ok_collapse: "table_ok t \<Longrightarrow> table_ok (collapse_table t)"
  by (simp add: table_ok_def collapse_table_def)

lemma names_ok_collapse: "names_ok cols \<Longrightarrow> names_ok (map (collapse False) cols)"
  by (auto simp: names_ok_def) (metis collapse_not_Nil)

lemmas piece_langs =
  quote_table_ident quoted_list_idents qual_list_idents sep_order_idents out_list_select
  itoa_int join_on_lang not_null_all_lang

lemma fits_seed:
  assumes "table_ok t" "names_ok cols" "0 \<le> n"
  shows "fits seed_shape (seed_sql t cols types [] n)"
proof -
  have "fits (''SELECT '' @ ''{selectlist}'' @ '' FROM '' @ ''{ident}'' @ '' t ORDER BY '' @ ''{idents}''
        @ '' LIMIT '' @ ''{int}'')
      (''SELECT '' @ out_list ''t'' cols types @ '' FROM '' @ quote_table t @ '' t ORDER BY '' @ qual_list cols
        @ '' LIMIT '' @ itoa n)"
    by (intro fits_text holes fits_end piece_langs assms) simp_all
  then show ?thesis by (simp add: seed_shape_def seed_sql_def order_by_qual)
qed

lemma fits_seed_where:
  assumes "table_ok t" "names_ok cols" "0 \<le> n" "w \<noteq> []" "w \<in> lang re_where"
  shows "fits seed_where_shape (seed_sql t cols types w n)"
proof -
  have "fits (''SELECT '' @ ''{selectlist}'' @ '' FROM '' @ ''{ident}'' @ '' t WHERE ('' @ ''{where}''
        @ '') ORDER BY '' @ ''{idents}'' @ '' LIMIT '' @ ''{int}'')
      (''SELECT '' @ out_list ''t'' cols types @ '' FROM '' @ quote_table t @ '' t WHERE ('' @ w
        @ '') ORDER BY '' @ qual_list cols @ '' LIMIT '' @ itoa n)"
    by (intro fits_text holes fits_end piece_langs assms) simp_all
  then show ?thesis using assms(4) by (simp add: seed_where_shape_def seed_sql_def order_by_qual)
qed

lemma cast_args_lang:
  "types \<noteq> [] \<Longrightarrow> \<forall>ty \<in> set types. cast_ok ty \<Longrightarrow>
    join '', '' (map (\<lambda>i. ''$'' @ itoa (int i + 1) @ kt_array_cast (types ! i)) [0..<length types])
      \<in> lang re_cast_args"
  unfolding re_cast_args_def
  by (rule join_comma_list) (auto simp del: append.simps intro!: cast_arg_lang)

lemma k_names_lang:
  "types \<noteq> [] \<Longrightarrow> join '', '' (map (\<lambda>i. ''k'' @ itoa (int i + 1)) [0..<length types]) \<in> lang re_idents"
  unfolding re_idents_def
  by (rule join_comma_list) (auto intro!: part_ident counted_part simp: letter_def is_lower_def)

lemma fits_map_keys:
  assumes "stmt_ok_for cast_ok (MapKeys t ic ity oc oty nn)"
  shows "fits (if nn = [] then map_keys_shape else map_keys_not_null_shape) (map_keys_sql t ic ity oc oty nn)"
proof -
  have ty: "ity \<noteq> []" "\<forall>ty \<in> set ity. cast_ok ty" "length ity = length ic" "table_ok t" "names_ok ic"
      "names_ok oc" "0 < length oc"
    using assms by (auto simp: names_ok_def)
  let ?front = "''SELECT DISTINCT '' @ out_list ''t'' oc oty @ '' FROM '' @ quote_table t @ '' t JOIN unnest(''
      @ join '', '' (map (\<lambda>i. ''$'' @ itoa (int i + 1) @ kt_array_cast (ity ! i)) [0..<length ity])
      @ '') AS k('' @ join '', '' (map (\<lambda>i. ''k'' @ itoa (int i + 1)) [0..<length ity]) @ '') ON ''
      @ join_on ''t'' ic ity"
  show ?thesis
  proof (cases "nn = []")
    case True
    have "fits (''SELECT DISTINCT '' @ ''{selectlist}'' @ '' FROM '' @ ''{ident}'' @ '' t JOIN unnest('' @ ''{casts}''
        @ '') AS k('' @ ''{idents}'' @ '') ON '' @ ''{keypred}'' @ '' ORDER BY '' @ ''{idents}'')
      (?front @ '' ORDER BY '' @ sep_order (length oc))"
      unfolding append_assoc
      by (intro fits_text holes fits_end piece_langs cast_args_lang k_names_lang ty) simp_all
    then show ?thesis using True
      by (simp add: map_keys_shape_def map_keys_sql_def unnest_from_def out_order_sep)
  next
    case False
    then have nn: "names_ok nn" using assms by simp
    have "fits (''SELECT DISTINCT '' @ ''{selectlist}'' @ '' FROM '' @ ''{ident}'' @ '' t JOIN unnest('' @ ''{casts}''
        @ '') AS k('' @ ''{idents}'' @ '') ON '' @ ''{keypred}'' @ '' WHERE '' @ ''{keypred}'' @ '' ORDER BY '' @ ''{idents}'')
      (?front @ '' WHERE '' @ not_null_all ''t'' nn @ '' ORDER BY '' @ sep_order (length oc))"
      unfolding append_assoc
      by (intro fits_text holes fits_end piece_langs cast_args_lang k_names_lang ty nn) simp_all
    then show ?thesis using False
      by (simp add: map_keys_not_null_shape_def map_keys_sql_def unnest_from_def out_order_sep)
  qed
qed

lemma counted_c_part: "counted ''c'' i \<in> lang re_ident_part"
  unfolding counted_def using counted_part [of "CHR ''c''" i] by (simp add: letter_def is_lower_def)

lemma child_out_select: "child_out ty i \<in> lang re_select_item"
  unfolding child_out_def
  by (rule select_item [OF part_ident [OF counted_c_part] _ out_name_part]) (simp add: text_cast)

lemma child_item_select: "c \<noteq> [] \<Longrightarrow> child_item c i \<in> lang re_select_item"
  using select_item [OF qual_ident [of c] _ counted_c_part [of i], of "[]"] by (simp add: child_item_def)

lemma join_snoc: "ws \<noteq> [] \<Longrightarrow> join sep (ws @ [w]) = join sep ws @ sep @ w"
  by (cases ws) (simp_all add: join_Cons)

lemma child_inner:
  assumes "ident \<noteq> []"
  shows "join '', '' (map (\<lambda>i. child_item (ident ! i) i) [0..<length ident] @ [row_number cc ident])
    = join '', '' (map (\<lambda>i. child_item (ident ! i) i) [0..<length ident])
      @ '', row_number() OVER (PARTITION BY '' @ qual_list cc @ '' ORDER BY '' @ qual_list ident @ '') AS rn''"
  using assms by (subst join_snoc) (simp_all add: row_number_def)

lemma fits_child_keys:
  assumes "stmt_ok_for cast_ok (ChildKeys t cc pty ident ity n)"
  shows "fits child_keys_shape (child_keys_sql t cc pty ident ity n)"
proof -
  have ty: "pty \<noteq> []" "\<forall>ty \<in> set pty. cast_ok ty" "length pty = length cc" "table_ok t" "names_ok cc"
      "names_ok ident" "0 \<le> n" "ident \<noteq> []" "ity \<noteq> []"
    using assms by (auto simp: names_ok_def)
  have outs: "join '', '' (map (\<lambda>i. child_out (ity ! i) i) [0..<length ity]) \<in> lang re_select_list"
    unfolding re_select_list_def using ty(9) by (intro join_comma_list) (auto intro: child_out_select)
  have "child_item (ident ! i) i \<in> lang re_select_item" if "i < length ident" for i
    using that ty(6) by (intro child_item_select) (auto simp: names_ok_def, metis nth_mem)
  then have items: "join '', '' (map (\<lambda>i. child_item (ident ! i) i) [0..<length ident]) \<in> lang re_select_list"
    unfolding re_select_list_def using ty(8) by (intro join_comma_list) auto
  have orders: "join '', '' (map (counted ''c'') [0..<length ity]) \<in> lang re_idents"
    unfolding re_idents_def using ty(9) by (intro join_comma_list) (auto intro: part_ident counted_c_part)
  have "fits (''SELECT '' @ ''{selectlist}'' @ '' FROM (SELECT '' @ ''{selectlist}''
      @ '', row_number() OVER (PARTITION BY '' @ ''{idents}'' @ '' ORDER BY '' @ ''{idents}'' @ '') AS rn FROM ''
      @ ''{ident}'' @ '' t JOIN unnest('' @ ''{casts}'' @ '') AS k('' @ ''{idents}'' @ '') ON '' @ ''{keypred}''
      @ '') s WHERE s.rn <= '' @ ''{int}'' @ '' ORDER BY '' @ ''{idents}'')
    (''SELECT '' @ join '', '' (map (\<lambda>i. child_out (ity ! i) i) [0..<length ity]) @ '' FROM (SELECT ''
      @ join '', '' (map (\<lambda>i. child_item (ident ! i) i) [0..<length ident])
      @ '', row_number() OVER (PARTITION BY '' @ qual_list cc @ '' ORDER BY '' @ qual_list ident @ '') AS rn FROM ''
      @ quote_table t @ '' t JOIN unnest(''
      @ join '', '' (map (\<lambda>i. ''$'' @ itoa (int i + 1) @ kt_array_cast (pty ! i)) [0..<length pty])
      @ '') AS k('' @ join '', '' (map (\<lambda>i. ''k'' @ itoa (int i + 1)) [0..<length pty]) @ '') ON ''
      @ join_on ''t'' cc pty @ '') s WHERE s.rn <= '' @ itoa n @ '' ORDER BY ''
      @ join '', '' (map (counted ''c'') [0..<length ity]))"
    by (intro fits_text holes fits_end piece_langs cast_args_lang k_names_lang outs items orders ty) simp_all
  then show ?thesis
    unfolding child_keys_sql_parts child_inner [OF ty(8)]
    by (simp add: child_keys_shape_def unnest_from_def)
qed

lemma constant_ints: "0 \<le> count_probe_limit" "0 \<le> probe_sample_rows" "0 \<le> probe_sample_seed"
  by (simp_all add: count_probe_limit_def probe_sample_rows_def probe_sample_seed_def)

lemma one_int: "''1'' \<in> lang re_int" "''2'' \<in> lang re_int"
  unfolding re_int_def by (rule digits_plus; simp add: is_digit_def)+

lemma fits_bounded_count: "table_ok t \<Longrightarrow> fits bounded_count_shape (bounded_count_sql t)"
proof -
  assume t: "table_ok t"
  have "fits (''SELECT count(*) FROM (SELECT 1 FROM '' @ ''{ident}'' @ '' LIMIT '' @ ''{int}'' @ '') s'' @ [])
      (''SELECT count(*) FROM (SELECT 1 FROM '' @ quote_table t @ '' LIMIT '' @ itoa count_probe_limit @ '') s'' @ [])"
    by (intro fits_text holes fits_Nil piece_langs t constant_ints) simp_all
  then show ?thesis by (simp add: bounded_count_shape_def bounded_count_sql_def)
qed

lemma fits_explicit_probe:
  assumes "table_ok t" "names_ok cols"
  shows "fits (if 0 < n then explicit_key_probe_bounded_shape else explicit_key_probe_shape)
    (explicit_key_probe_sql t cols n)"
proof (cases "0 < n")
  case True
  have "fits (''SELECT count(*) FROM (SELECT 1 FROM (SELECT '' @ ''{idents}'' @ '' FROM '' @ ''{ident}'' @ '' LIMIT ''
      @ ''{int}'' @ '') p GROUP BY '' @ ''{idents}'' @ '' HAVING count(*) > 1 LIMIT '' @ ''{int}'' @ '') s'' @ [])
    (''SELECT count(*) FROM (SELECT 1 FROM (SELECT '' @ quoted_list cols @ '' FROM '' @ quote_table t @ '' LIMIT ''
      @ itoa n @ '') p GROUP BY '' @ quoted_list cols @ '' HAVING count(*) > 1 LIMIT '' @ ''2'' @ '') s'' @ [])"
    by (intro fits_text holes fits_Nil piece_langs assms one_int) (use True in simp_all)
  then show ?thesis using True by (simp add: explicit_key_probe_bounded_shape_def explicit_key_probe_sql_def Let_def)
next
  case False
  have "fits (''SELECT count(*) FROM (SELECT 1 FROM '' @ ''{ident}'' @ '' p GROUP BY '' @ ''{idents}''
      @ '' HAVING count(*) > 1 LIMIT '' @ ''{int}'' @ '') s'' @ [])
    (''SELECT count(*) FROM (SELECT 1 FROM '' @ quote_table t @ '' p GROUP BY '' @ quoted_list cols
      @ '' HAVING count(*) > 1 LIMIT '' @ ''2'' @ '') s'' @ [])"
    by (intro fits_text holes fits_Nil piece_langs assms one_int) simp_all
  then show ?thesis using False by (simp add: explicit_key_probe_shape_def explicit_key_probe_sql_def Let_def)
qed

lemma fits_pseudo_probe:
  assumes "table_ok t" "names_ok cols" "0 \<le> num" "0 \<le> den"
  shows "fits (if b then pseudo_key_probe_bounded_shape else pseudo_key_probe_shape)
    (pseudo_key_probe_sql t cols b num den)"
proof (cases b)
  case True
  have "fits (''SELECT count(*), count(DISTINCT ('' @ ''{idents}'' @ '')) FROM (SELECT '' @ ''{idents}'' @ '' FROM ''
      @ ''{ident}'' @ '' LIMIT '' @ ''{int}'' @ '') s'' @ [])
    (''SELECT count(*), count(DISTINCT ('' @ quoted_list cols @ '')) FROM (SELECT '' @ quoted_list cols @ '' FROM ''
      @ quote_table t @ '' LIMIT '' @ itoa probe_sample_rows @ '') s'' @ [])"
    by (intro fits_text holes fits_Nil piece_langs assms constant_ints) simp_all
  then show ?thesis using True by (simp add: pseudo_key_probe_bounded_shape_def pseudo_key_probe_sql_def Let_def)
next
  case False
  have "fits (''SELECT count(*), count(DISTINCT ('' @ ''{idents}'' @ '')) FROM '' @ ''{ident}''
      @ '' TABLESAMPLE SYSTEM ('' @ ''{int}'' @ ''::float8 / '' @ ''{int}'' @ '') REPEATABLE ('' @ ''{int}'' @ '')'' @ [])
    (''SELECT count(*), count(DISTINCT ('' @ quoted_list cols @ '')) FROM '' @ quote_table t
      @ '' TABLESAMPLE SYSTEM ('' @ itoa num @ ''::float8 / '' @ itoa den @ '') REPEATABLE (''
      @ itoa probe_sample_seed @ '')'' @ [])"
    by (intro fits_text holes fits_Nil piece_langs assms constant_ints) simp_all
  then show ?thesis using False
    by (simp add: pseudo_key_probe_shape_def pseudo_key_probe_sql_def tablesample_def Let_def)
qed

lemma fits_distinct:
  assumes "table_ok t" "names_ok cols" "0 \<le> n"
  shows "0 \<le> num \<Longrightarrow> 0 \<le> den \<Longrightarrow> fits distinct_sample_shape (distinct_sample_sql t cols types num den n)"
    and "names_ok order \<Longrightarrow> fits distinct_prefix_shape (distinct_prefix_sql t cols types order n)"
proof -
  have len: "0 < length cols" using assms(2) by (simp add: names_ok_def)
  show "fits distinct_sample_shape (distinct_sample_sql t cols types num den n)" if n: "0 \<le> num" "0 \<le> den"
  proof -
    have "fits (''SELECT DISTINCT '' @ ''{selectlist}'' @ '' FROM (SELECT '' @ ''{idents}'' @ '' FROM '' @ ''{ident}''
        @ '' TABLESAMPLE SYSTEM ('' @ ''{int}'' @ ''::float8 / '' @ ''{int}'' @ '') REPEATABLE ('' @ ''{int}''
        @ '') LIMIT '' @ ''{int}'' @ '') t ORDER BY '' @ ''{idents}'')
      (''SELECT DISTINCT '' @ out_list ''t'' cols types @ '' FROM (SELECT '' @ quoted_list cols @ '' FROM ''
        @ quote_table t @ '' TABLESAMPLE SYSTEM ('' @ itoa num @ ''::float8 / '' @ itoa den @ '') REPEATABLE (''
        @ itoa probe_sample_seed @ '') LIMIT '' @ itoa n @ '') t ORDER BY '' @ sep_order (length cols))"
      by (intro fits_text holes fits_end piece_langs assms constant_ints n len) simp_all
    then show ?thesis
      by (simp add: distinct_sample_shape_def distinct_sample_sql_def tablesample_def out_order_sep)
  qed
  show "fits distinct_prefix_shape (distinct_prefix_sql t cols types order n)" if o: "names_ok order"
  proof -
    have "fits (''SELECT DISTINCT '' @ ''{selectlist}'' @ '' FROM (SELECT '' @ ''{idents}'' @ '' FROM '' @ ''{ident}''
        @ '' ORDER BY '' @ ''{idents}'' @ '' LIMIT '' @ ''{int}'' @ '') t ORDER BY '' @ ''{idents}'')
      (''SELECT DISTINCT '' @ out_list ''t'' cols types @ '' FROM (SELECT '' @ quoted_list cols @ '' FROM ''
        @ quote_table t @ '' ORDER BY '' @ quoted_list order @ '' LIMIT '' @ itoa n @ '') t ORDER BY ''
        @ sep_order (length cols))"
      by (intro fits_text holes fits_end piece_langs assms o len) simp_all
    then show ?thesis by (simp add: distinct_prefix_shape_def distinct_prefix_sql_def out_order_sep)
  qed
qed

lemma fits_leaves: "fits (normalise_sql unreadable_leaves_sql) (normalise_sql unreadable_leaves_sql)"
proof -
  have "CHR 0x7B \<notin> set (normalise_sql unreadable_leaves_sql)" by code_simp
  from fits_text [OF this fits_Nil] show ?thesis by simp
qed

text \<open>Normalising a statement is collapsing the white space in its identifiers and its predicate.\<close>

fun collapse_stmt :: "stmt \<Rightarrow> stmt" where
  "collapse_stmt (SeedKeys t cols types w n) =
     SeedKeys (collapse_table t) (map (collapse False) cols) types (collapse False w) n"
| "collapse_stmt (MapKeys t ic ity oc oty nn) =
     MapKeys (collapse_table t) (map (collapse False) ic) ity (map (collapse False) oc) oty (map (collapse False) nn)"
| "collapse_stmt (ChildKeys t cc pty ic ity n) =
     ChildKeys (collapse_table t) (map (collapse False) cc) pty (map (collapse False) ic) ity n"
| "collapse_stmt (DistinctSample t cols types num den n) =
     DistinctSample (collapse_table t) (map (collapse False) cols) types num den n"
| "collapse_stmt (DistinctPrefix t cols types order n) =
     DistinctPrefix (collapse_table t) (map (collapse False) cols) types (map (collapse False) order) n"
| "collapse_stmt (BoundedCount t) = BoundedCount (collapse_table t)"
| "collapse_stmt (ExplicitKeyProbe t cols n) = ExplicitKeyProbe (collapse_table t) (map (collapse False) cols) n"
| "collapse_stmt (PseudoKeyProbe t cols b num den) =
     PseudoKeyProbe (collapse_table t) (map (collapse False) cols) b num den"
| "collapse_stmt UnreadableLeaves = UnreadableLeaves"

lemma stmt_sql_collapse:
  "stmt_ok_for cast_ok st \<Longrightarrow> st \<noteq> UnreadableLeaves \<Longrightarrow> collapse False (stmt_sql st) = stmt_sql (collapse_stmt st)"
proof (cases st)
  case (ChildKeys t cc pty ic ity n)
  assume "stmt_ok_for cast_ok st"
  then have "cc \<noteq> []" "length pty = length cc" "\<forall>ty \<in> set pty. cast_ok ty" "ic \<noteq> []" "ity \<noteq> []"
    using ChildKeys by (auto simp: names_ok_def)
  then show ?thesis using ChildKeys by (simp add: child_keys_sql_collapse)
qed (simp_all add: names_ok_def seed_sql_collapse map_keys_sql_collapse probe_sql_collapse)

definition ends_solid :: "string \<Rightarrow> bool" where
  "ends_solid s \<longleftrightarrow> s \<noteq> [] \<and> \<not> is_space (last s)"

lemma ends_solid_append [simp]: "v \<noteq> [] \<Longrightarrow> ends_solid (u @ v) \<longleftrightarrow> ends_solid v"
  by (simp add: ends_solid_def)

lemma ends_solid_Cons [simp]: "v \<noteq> [] \<Longrightarrow> ends_solid (c # v) \<longleftrightarrow> ends_solid v"
  by (simp add: ends_solid_def)

lemma ends_solid_not_Nil: "ends_solid s \<Longrightarrow> s \<noteq> []"
  by (simp add: ends_solid_def)

lemma ends_solid_itoa: "ends_solid (itoa n)"
proof -
  have "nat_digits m \<noteq> [] \<and> \<not> is_space (last (nat_digits m))" for m
  proof -
    have "is_digit (last (nat_digits m))" using nat_digits_digits [of m] by (simp add: list_all_iff)
    then show ?thesis by (auto simp: is_digit_iff is_space_def less_eq_char_def)
  qed
  then show ?thesis by (simp add: ends_solid_def itoa_def)
qed

lemma ends_solid_join: "ws \<noteq> [] \<Longrightarrow> \<forall>w \<in> set ws. ends_solid w \<Longrightarrow> ends_solid (join sep ws)"
  by (induction sep ws rule: join.induct) (simp_all add: ends_solid_not_Nil)

lemma stmt_sql_ends: "stmt_ok_for cast_ok st \<Longrightarrow> st \<noteq> UnreadableLeaves \<Longrightarrow> ends_solid (stmt_sql st) \<and> hd (stmt_sql st) = CHR ''S''"
proof -
  have lit: "ends_solid '')''" "ends_solid '') s''" by (simp_all add: ends_solid_def is_space_def)
  have sep: "ends_solid (sep_order n)" if "0 < n" for n
    unfolding sep_order_def using that by (intro ends_solid_join) (auto simp: out_name_def ends_solid_itoa)
  have cs: "ends_solid (join '', '' (map (counted ''c'') [0..<length ity]))" if "ity \<noteq> []" for ity :: "key_type list"
    using that by (intro ends_solid_join) (auto simp: counted_def ends_solid_itoa)
  note ne = ends_solid_not_Nil [OF sep] ends_solid_not_Nil [OF cs]
  assume "stmt_ok_for cast_ok st" "st \<noteq> UnreadableLeaves"
  then show ?thesis
  proof (cases st)
    case (ChildKeys t cc pty ic ity n)
    then have "ity \<noteq> []" using \<open>stmt_ok_for cast_ok st\<close> by (auto simp: names_ok_def)
    then show ?thesis using ChildKeys cs ne(2) by (simp add: child_keys_sql_parts)
  qed (simp_all add: seed_sql_def map_keys_sql_def distinct_sample_sql_def distinct_prefix_sql_def bounded_count_sql_def
      explicit_key_probe_sql_def pseudo_key_probe_sql_def Let_def tablesample_def out_order_sep names_ok_def
      ends_solid_itoa sep ne(1) lit)
qed

lemma normalise_stmt:
  assumes "stmt_ok_for cast_ok st" and "st \<noteq> UnreadableLeaves" and "stmt_ok_for cast_ok (collapse_stmt st)"
  shows "normalise_sql (stmt_sql st) = stmt_sql (collapse_stmt st)"
proof -
  have "collapse_stmt st \<noteq> UnreadableLeaves" using assms(2) by (cases st) simp_all
  then have e: "ends_solid (stmt_sql (collapse_stmt st))" "hd (stmt_sql (collapse_stmt st)) = CHR ''S''"
    using stmt_sql_ends [OF assms(3)] by simp_all
  have "\<not> is_space CHR ''S''" by (simp add: is_space_def)
  with e have "trim_space (stmt_sql (collapse_stmt st)) = stmt_sql (collapse_stmt st)"
    by (intro trim_space_id) (simp_all add: ends_solid_def)
  then show ?thesis by (simp add: normalise_sql_def stmt_sql_collapse [OF assms(1,2)])
qed

lemma next_char_collapse:
  "next_char (collapse False s) = (if s \<noteq> [] \<and> is_re_space (hd s) then CHR '' '' else next_char s)"
  by (cases s) (simp_all add: next_char_def)

lemma where_fault_collapse:
  "where_fault i d w = None \<Longrightarrow> where_fault j d (collapse b w) = None"
proof (induction w arbitrary: i j d b)
  case (Cons c w)
  show ?case
  proof (cases "is_re_space c")
    case True
    then have "where_fault (Suc i) d w = None" using Cons.prems by (auto simp: is_re_space_def)
    then show ?thesis using True Cons.IH by auto
  next
    case False
    have sp: "where_ordinary x" "x \<noteq> CHR ''-''" "x \<noteq> CHR ''*''" if "is_re_space x" for x
      using that by (auto simp: is_re_space_def where_ordinary_def)
    have "where_follows_dash (next_char (collapse False w)) = where_follows_dash (next_char w)"
      "where_follows_slash (next_char (collapse False w)) = where_follows_slash (next_char w)"
      "next_char (collapse False w) = CHR ''-'' \<longleftrightarrow> next_char w = CHR ''-''"
      "next_char (collapse False w) = CHR ''*'' \<longleftrightarrow> next_char w = CHR ''*''"
      using sp [of "hd w"] sp [of "CHR '' ''"]
      by (cases w; simp add: next_char_collapse next_char_def where_follows_dash_def where_follows_slash_def
          where_ordinary_def is_re_space_def)+
    then show ?thesis using False Cons.prems Cons.IH by (auto split: if_splits)
  qed
qed (simp split: if_splits)

lemma check_where_collapse: "check_where w = None \<Longrightarrow> check_where (collapse False w) = None"
  unfolding check_where_def by (simp add: where_fault_collapse)

lemma stmt_ok_collapse: "stmt_ok_for cast_ok st \<Longrightarrow> stmt_ok_for cast_ok (collapse_stmt st)"
  by (cases st) (auto simp: table_ok_collapse names_ok_collapse check_where_collapse)

lemma templates_plain:
  "list_all (\<lambda>(n, t). n \<noteq> [] \<and> plain_template (normalise_sql t)) plan_shapes"
  by code_simp

lemma statement_fits:
  assumes "stmt_ok_for cast_ok st"
  shows "\<exists>(n, t) \<in> set plan_shapes. fits (normalise_sql t) (normalise_sql (stmt_sql st))"
proof (cases "st = UnreadableLeaves")
  case True
  then show ?thesis using fits_leaves by (simp add: plan_shapes_def)
next
  case False
  have norm: "normalise_sql t = t" if "t \<in> set [seed_shape, seed_where_shape, map_keys_shape, map_keys_not_null_shape,
      child_keys_shape, bounded_count_shape, explicit_key_probe_shape, explicit_key_probe_bounded_shape,
      pseudo_key_probe_shape, pseudo_key_probe_bounded_shape, distinct_sample_shape, distinct_prefix_shape]" for t
  proof -
    have "list_all (\<lambda>t. normalise_sql t = t) [seed_shape, seed_where_shape, map_keys_shape, map_keys_not_null_shape,
      child_keys_shape, bounded_count_shape, explicit_key_probe_shape, explicit_key_probe_bounded_shape,
      pseudo_key_probe_shape, pseudo_key_probe_bounded_shape, distinct_sample_shape, distinct_prefix_shape]"
      by code_simp
    with that show ?thesis unfolding list_all_iff by blast
  qed
  have ok: "stmt_ok_for cast_ok (collapse_stmt st)" by (rule stmt_ok_collapse [OF assms])
  have "\<exists>(n, t) \<in> set plan_shapes. normalise_sql t = t \<and> fits t (stmt_sql (collapse_stmt st))"
  proof (cases "collapse_stmt st")
    case (SeedKeys t cols types w n)
    then show ?thesis using ok fits_seed [of t cols n types] fits_seed_where [of t cols n w types]
        check_where_lang [of w] norm [of seed_shape] norm [of seed_where_shape]
      by (cases "w = []") (auto simp: plan_shapes_def)
  next
    case (MapKeys t ic ity oc oty nn)
    then show ?thesis using fits_map_keys [of t ic ity oc oty nn] ok norm [of map_keys_shape]
        norm [of map_keys_not_null_shape]
      by (cases "nn = []") (auto simp: plan_shapes_def)
  next
    case (ChildKeys t cc pty ic ity n)
    then show ?thesis using fits_child_keys [of t cc pty ic ity n] ok norm [of child_keys_shape]
      by (auto simp: plan_shapes_def)
  next
    case (DistinctSample t cols types num den n)
    then show ?thesis using fits_distinct(1) [of t cols n num den types] ok norm [of distinct_sample_shape]
      by (auto simp: plan_shapes_def)
  next
    case (DistinctPrefix t cols types order n)
    then show ?thesis using fits_distinct(2) [of t cols n order types] ok norm [of distinct_prefix_shape]
      by (auto simp: plan_shapes_def)
  next
    case (BoundedCount t)
    then show ?thesis using fits_bounded_count [of t] ok norm [of bounded_count_shape]
      by (auto simp: plan_shapes_def)
  next
    case (ExplicitKeyProbe t cols n)
    then show ?thesis using fits_explicit_probe [of t cols n] ok norm [of explicit_key_probe_shape]
        norm [of explicit_key_probe_bounded_shape]
      by (cases "0 < n") (auto simp: plan_shapes_def)
  next
    case (PseudoKeyProbe t cols b num den)
    then show ?thesis using fits_pseudo_probe [of t cols num den b] ok norm [of pseudo_key_probe_shape]
        norm [of pseudo_key_probe_bounded_shape]
      by (cases b) (auto simp: plan_shapes_def)
  next
    case UnreadableLeaves
    then show ?thesis using False by (cases st) simp_all
  qed
  then obtain n t where "(n, t) \<in> set plan_shapes" "normalise_sql t = t"
      "fits t (stmt_sql (collapse_stmt st))" by blast
  moreover have "normalise_sql (stmt_sql st) = stmt_sql (collapse_stmt st)"
    by (rule normalise_stmt [OF assms False ok])
  ultimately show ?thesis by (intro bexI [of _ "(n, t)"]) simp_all
qed

subsection \<open>The tracer\<close>

definition placeholder_names :: "string list" where
  "placeholder_names =
     [''ident'', ''idents'', ''int'', ''snapshot'', ''selectlist'', ''casts'', ''keypred'', ''where'']"

fun tokens_ok :: "string \<Rightarrow> bool" where
  "tokens_ok [] = True"
| "tokens_ok (c # s) =
     ((case scan_token (c # s) of None \<Rightarrow> True | Some (n, _) \<Rightarrow> n \<in> set placeholder_names) \<and> tokens_ok s)"

lemma tokens_ok_append: "tokens_ok (u @ v) \<Longrightarrow> tokens_ok v"
  by (induction u) simp_all

lemma scan_token_suffix: "scan_token s = Some (n, rest) \<Longrightarrow> \<exists>u. s = u @ rest"
proof -
  assume "scan_token s = Some (n, rest)"
  then obtain r d where r: "s = CHR 0x7B # r" "dropWhile token_char r = d # rest"
    by (auto simp: scan_token_def split: list.splits if_splits)
  then have "s = (CHR 0x7B # takeWhile token_char r @ [d]) @ rest"
    using takeWhile_dropWhile_id [of token_char r] by simp
  then show ?thesis by blast
qed

lemma expand_text_ok: "tokens_ok s \<Longrightarrow> \<exists>rs. expand_text s = Inr rs"
proof (induction s rule: expand_text.induct)
  case (1 s)
  show ?case
  proof (cases s)
    case Nil
    then show ?thesis by (simp add: expand_text.simps)
  next
    case (Cons c r)
    show ?thesis
    proof (cases "scan_token s")
      case None
      then obtain rs where "expand_text r = Inr rs" using 1(1) [OF Cons None] 1(3) Cons by auto
      then show ?thesis using None Cons by (subst expand_text.simps) simp
    next
      case (Some nr)
      obtain n rest where nr: "nr = (n, rest)" by (cases nr)
      have "n \<in> set placeholder_names" using 1(3) Some nr Cons by simp
      then obtain e where e: "map_of placeholders n = Some e"
        unfolding placeholder_names_def placeholders_def by (auto split: if_splits)
      have "tokens_ok rest" using scan_token_suffix [of s n rest] Some nr 1(3) tokens_ok_append by auto
      then obtain rs where "expand_text rest = Inr rs" using 1(2) [OF Cons Some nr [symmetric] e] nr by auto
      then show ?thesis using Some nr Cons e by (subst expand_text.simps) simp
    qed
  qed
qed

lemma compile_plain_ok:
  assumes "plain_template (normalise_sql t)" and "tokens_ok (normalise_sql t)"
  shows "\<exists>re. compile_shape t = Inr re"
proof -
  let ?n = "normalise_sql t"
  have no: "takeWhile (\<lambda>c. c \<noteq> dquote) ?n = ?n" "dropWhile (\<lambda>c. c \<noteq> dquote) ?n = []"
    using assms(1) by (auto simp: plain_template_def takeWhile_eq_all_conv dropWhile_eq_Nil_conv)
  have "?n \<noteq> []" using assms(1) by (simp add: plain_template_def)
  then have "template_segments ?n = [Plain ?n]"
    by (subst template_segments.simps) (simp add: no Let_def)
  with \<open>?n \<noteq> []\<close> expand_text_ok [OF assms(2)] show ?thesis
    by (auto simp: compile_shape_def Let_def)
qed

lemma compile_all_ok:
  "\<forall>(n, t) \<in> set shapes. n \<noteq> [] \<and> (\<exists>re. compile_shape t = Inr re) \<Longrightarrow> \<exists>cs. compile_all shapes = Inr cs"
  by (induction shapes) auto

lemma registered: "\<exists>cs. compile_all plan_shapes = Inr cs"
proof -
  have "list_all (\<lambda>(n, t). tokens_ok (normalise_sql t)) plan_shapes" by code_simp
  with templates_plain have "\<forall>(n, t) \<in> set plan_shapes. n \<noteq> [] \<and> (\<exists>re. compile_shape t = Inr re)"
    using compile_plain_ok by (fastforce simp: list_all_iff)
  then show ?thesis by (rule compile_all_ok)
qed

lemma compile_all_member:
  "compile_all shapes = Inr cs \<Longrightarrow> (n, t) \<in> set shapes \<Longrightarrow> compile_shape t = Inr re \<Longrightarrow> (n, re) \<in> set cs"
  by (induction shapes arbitrary: cs rule: compile_all.induct)
    (auto simp: result_simps split: if_splits sum.splits)

lemma compile_all_named: "compile_all shapes = Inr cs \<Longrightarrow> s \<in> set cs \<Longrightarrow> fst s \<noteq> []"
proof (induction shapes arbitrary: cs)
  case (Cons x shapes)
  obtain n t where x: "x = (n, t)" by (cases x)
  then obtain re cs' where "n \<noteq> []" "compile_all shapes = Inr cs'" "cs = (n, re) # cs'"
    using Cons.prems(1) by (auto simp: result_simps split: if_splits sum.splits)
  with Cons show ?case by auto
qed simp

text \<open>Shapes registered before or after those of the planner leave its statements admitted.\<close>

definition has_plan_shapes :: "tracer \<Rightarrow> bool" where
  "has_plan_shapes t \<longleftrightarrow> (\<exists>cs. compile_all plan_shapes = Inr cs \<and> set cs \<subseteq> set (tr_shapes t))
     \<and> (\<forall>s \<in> set (tr_shapes t). fst s \<noteq> [])"

lemma match_stmt:
  assumes "has_plan_shapes t" and "stmt_ok_for cast_ok st"
  shows "match_shape t (normalise_sql (stmt_sql st)) \<noteq> []"
proof -
  obtain n tpl where s: "(n, tpl) \<in> set plan_shapes" "fits (normalise_sql tpl) (normalise_sql (stmt_sql st))"
    using statement_fits [OF assms(2)] by blast
  have "plain_template (normalise_sql tpl)" using templates_plain s(1) by (auto simp: list_all_iff)
  from compile_plain [OF this s(2)] obtain re where
    re: "compile_shape tpl = Inr re" "accepts re (normalise_sql (stmt_sql st))" by blast
  then have "(n, re) \<in> set (tr_shapes t)"
    using assms(1) compile_all_member [OF _ s(1) re(1)] by (auto simp: has_plan_shapes_def)
  then have "find (\<lambda>s. accepts (snd s) (normalise_sql (stmt_sql st))) (tr_shapes t) \<noteq> None"
    using re(2) by (auto simp: find_None_iff)
  then obtain x where x: "find (\<lambda>s. accepts (snd s) (normalise_sql (stmt_sql st))) (tr_shapes t) = Some x" by blast
  then have "x \<in> set (tr_shapes t)" by (auto simp: find_Some_iff)
  then have "fst x \<noteq> []" using assms(1) by (auto simp: has_plan_shapes_def)
  then show ?thesis by (simp add: match_shape_def x)
qed

lemma check_stmt:
  assumes "has_plan_shapes t" and "stmt_ok_for cast_ok st" and "tx \<noteq> TxIdle"
  shows "snd (check tx (stmt_sql st) t)" and "tr_violations (fst (check tx (stmt_sql st) t)) = tr_violations t"
  using match_stmt [OF assms(1,2)] assms(3) by (simp_all add: check_def Let_def record_stmt_def)

end
