(* ===== verification/Type_Spelling.thy ===== *)
theory Type_Spelling
  imports Admitted
begin

text \<open>
  The types of key columns as \<open>pg_catalog.format_type\<close> spells them: one or two names, each written plain
  or quoted, a modifier of at most two unsigned numbers, up to four of the words the built-in types
  have, and an array suffix. Every such spelling is one the allowlist has a cast to.
\<close>

datatype name_part = PlainName char string | QuotedName string

fun part_text :: "name_part \<Rightarrow> string" where
  "part_text (PlainName c s) = c # s"
| "part_text (QuotedName s) = quote_ident s"

text \<open>A plain name starts with a letter or an underscore and goes on with those or digits; a quoted one
  is any name without two blanks in a row or other white space.\<close>

fun part_ok :: "name_part \<Rightarrow> bool" where
  "part_ok (PlainName c s) \<longleftrightarrow> letter c \<and> list_all (\<lambda>d. letter d \<or> is_digit d) s"
| "part_ok (QuotedName s) \<longleftrightarrow> s \<noteq> [] \<and> collapse False s = s"

fun mod_text :: "nat list \<Rightarrow> string" where
  "mod_text [] = []"
| "mod_text (n # ns) = ''('' @ itoa (int n) @ concat (map (\<lambda>m. '','' @ itoa (int m)) ns) @ '')''"

definition word_text :: "string \<times> nat list \<Rightarrow> string" where
  "word_text wm = '' '' @ fst wm @ mod_text (snd wm)"

record type_spelling =
  sp_schema :: "name_part option"
  sp_name :: name_part
  sp_mods :: "nat list"
  sp_words :: "(string \<times> nat list) list"
  sp_array :: bool

definition spelling_text :: "type_spelling \<Rightarrow> string" where
  "spelling_text sp =
     (case sp_schema sp of None \<Rightarrow> [] | Some q \<Rightarrow> part_text q @ ''.'') @ part_text (sp_name sp)
     @ mod_text (sp_mods sp) @ concat (map word_text (sp_words sp)) @ (if sp_array sp then ''[]'' else [])"

definition spelling_ok :: "type_spelling \<Rightarrow> bool" where
  "spelling_ok sp \<longleftrightarrow>
     (case sp_schema sp of None \<Rightarrow> True | Some q \<Rightarrow> part_ok q) \<and> part_ok (sp_name sp)
     \<and> length (sp_mods sp) \<le> 2 \<and> length (sp_words sp) \<le> 4
     \<and> list_all (\<lambda>wm. fst wm \<in> set type_words \<and> length (snd wm) \<le> 2) (sp_words sp)"

text \<open>What introspection hands the planner: the array casts of the transport kinds, and for a type of
  its own a spelling.\<close>

definition type_ok :: "key_type \<Rightarrow> bool" where
  "type_ok ty \<longleftrightarrow> kt_array_cast ty \<in> {''::int8[]'', ''::text[]'', ''::uuid[]''}
     \<and> (kt_kind ty = KindOther \<longrightarrow> (\<exists>sp. spelling_ok sp \<and> kt_type_name ty = spelling_text sp))"

subsection \<open>Spellings are casts\<close>

lemma part_in_lang: "part_ok q \<Longrightarrow> part_text q \<in> lang re_ident_part"
proof (cases q)
  case (PlainName c s)
  assume ok: "part_ok q"
  have "s \<in> lang (Rep (Cls False [(CHR ''a'', CHR ''z''), (CHR ''A'', CHR ''Z''), (CHR ''0'', CHR ''9''),
      (CHR ''_'', CHR ''_''), (dollar, dollar)]))"
    unfolding lang_Rep_chars using ok PlainName
    by (auto simp: list_all_iff is_digit_def letter_def is_lower_def is_upper_def)
  moreover have "[c] \<in> lang (Cls False [(CHR ''a'', CHR ''z''), (CHR ''A'', CHR ''Z''), (CHR ''_'', CHR ''_'')])"
    using ok PlainName by (auto simp: letter_def is_lower_def is_upper_def lang.simps)
  ultimately have "[c] @ s \<in> lang (Cat (Cls False [(CHR ''a'', CHR ''z''), (CHR ''A'', CHR ''Z''), (CHR ''_'', CHR ''_'')])
      (Rep (Cls False [(CHR ''a'', CHR ''z''), (CHR ''A'', CHR ''Z''), (CHR ''0'', CHR ''9''),
      (CHR ''_'', CHR ''_''), (dollar, dollar)])))"
    unfolding lang.simps(3) by blast
  then show ?thesis unfolding PlainName re_ident_part_def lang.simps(4) by simp
next
  case (QuotedName s)
  then show "part_ok q \<Longrightarrow> ?thesis" by (simp add: quote_ident_part)
qed

lemma name_in_lang:
  assumes "case q of None \<Rightarrow> True | Some q \<Rightarrow> part_ok q" and "part_ok n"
  shows "(case q of None \<Rightarrow> [] | Some q \<Rightarrow> part_text q @ ''.'') @ part_text n \<in> lang re_ident"
  using assms part_in_lang part_ident qualified_ident [of _ "part_text n"] by (cases q) auto

lemma number_plus: "itoa (int n) \<in> lang (Plus digit_class)"
  by (rule digits_plus [OF itoa_nat]) simp_all

lemma mod_in_lang: "length ms \<le> 2 \<Longrightarrow> mod_text ms \<in> lang re_type_mod"
proof -
  assume len: "length ms \<le> 2"
  let ?second = "Opt (Cats [exactly CHR '','', spaces, Plus digit_class, spaces])"
  let ?mod = "Cats [exactly CHR ''('', spaces, Plus digit_class, spaces, ?second, exactly CHR '')'']"
  have one: "''('' @ [] @ itoa (int n) @ [] @ s @ '')'' \<in> lang ?mod" if "s \<in> lang ?second" for n s
    by (rule lang_Cats_Cons [OF _ lang_Cats_Cons [OF _ lang_Cats_Cons [OF number_plus lang_Cats_three]]])
      (use that in simp_all)
  have two: "'','' @ itoa (int m) \<in> lang ?second" for m
  proof -
    have "'','' @ [] @ itoa (int m) @ [] \<in> lang (Cats [exactly CHR '','', spaces, Plus digit_class, spaces])"
      by (rule lang_Cats_Cons [OF _ lang_Cats_three]) (simp_all add: number_plus)
    then show ?thesis by simp
  qed
  consider "ms = []" | n where "ms = [n]" | n m where "ms = [n, m]"
    using len by (cases ms; cases "tl ms"; cases "tl (tl ms)") auto
  then show ?thesis
  proof cases
    case 1
    then show ?thesis by (simp add: re_type_mod_def)
  next
    case (2 n)
    then show ?thesis using one [of "[]" n] by (simp add: re_type_mod_def)
  next
    case (3 n m)
    then show ?thesis using one [OF two, of n m] by (simp add: re_type_mod_def)
  qed
qed

lemma word_in_lang:
  assumes "fst wm \<in> set type_words" and "length (snd wm) \<le> 2"
  shows "word_text wm \<in> lang (Cats [exactly CHR '' '', re_type_word, re_type_mod])"
proof -
  have "w \<in> lang (Alts (map word_of ws))" if "w \<in> set ws" for w ws
    using that
  proof (induction ws)
    case (Cons a ws)
    then show ?case using lang_word_of [of w] by (cases ws) (auto simp: lang.simps)
  qed simp
  then have "fst wm \<in> lang re_type_word" using assms(1) by (simp add: re_type_word_def)
  then show ?thesis
    unfolding word_text_def using mod_in_lang [OF assms(2)] by (intro lang_Cats_three) simp_all
qed

lemma words_in_lang:
  "length ws \<le> n \<Longrightarrow> \<forall>w \<in> set ws. f w \<in> lang r \<Longrightarrow> concat (map f ws) \<in> lang (up_to n r)"
proof (induction ws arbitrary: n)
  case Nil
  then show ?case by (cases n) (simp_all add: lang.simps)
next
  case (Cons w ws)
  then obtain k where k: "n = Suc k" "length ws \<le> k" by (cases n) auto
  have "f w @ concat (map f ws) \<in> lang (Cat r (up_to k r))"
    using Cons k by (intro lang_Cat) simp_all
  then show ?case using k by simp
qed

lemma spelling_in_lang:
  assumes "spelling_ok sp"
  shows "''::'' @ spelling_text sp \<in> lang re_cast"
proof -
  let ?name = "(case sp_schema sp of None \<Rightarrow> [] | Some q \<Rightarrow> part_text q @ ''.'') @ part_text (sp_name sp)"
  let ?words = "concat (map word_text (sp_words sp))"
  have "?name @ mod_text (sp_mods sp) @ ?words \<in> lang re_type_name"
    unfolding re_type_name_def
  proof (rule lang_Cats_three)
    show "?name \<in> lang re_ident" using assms by (intro name_in_lang) (simp_all add: spelling_ok_def)
    show "mod_text (sp_mods sp) \<in> lang re_type_mod" using assms by (simp add: spelling_ok_def mod_in_lang)
    show "?words \<in> lang (up_to 4 (Cats [exactly CHR '' '', re_type_word, re_type_mod]))"
    proof (intro words_in_lang ballI word_in_lang)
      show "length (sp_words sp) \<le> 4" using assms by (simp add: spelling_ok_def)
      fix wm assume "wm \<in> set (sp_words sp)"
      then show "fst wm \<in> set type_words" "length (snd wm) \<le> 2"
        using assms by (auto simp: spelling_ok_def list_all_iff)
    qed
  qed
  moreover have "(if sp_array sp then ''[]'' else []) \<in> lang (Opt empty_brackets)"
    using empty_brackets_lang by simp
  ultimately have "''::'' @ (?name @ mod_text (sp_mods sp) @ ?words) @ (if sp_array sp then ''[]'' else []) \<in> lang re_cast"
    unfolding re_cast_def by (intro lang_Cats_three) simp_all
  then show ?thesis by (simp add: spelling_text_def)
qed

subsection \<open>Spellings have no white space to lose\<close>

lemma solid_list: "list_all (\<lambda>c. \<not> is_re_space c) s \<Longrightarrow> s \<noteq> [] \<Longrightarrow> tight s \<and> collapse b s = s"
  by (simp add: solid_tight collapse_solid)

lemma part_tight: "part_ok q \<Longrightarrow> tight (part_text q) \<and> collapse b (part_text q) = part_text q"
proof (cases q)
  case (PlainName c s)
  assume ok: "part_ok q"
  have "\<not> is_re_space d" if "letter d \<or> is_digit d" for d
    using that by (auto simp: letter_def is_lower_def is_upper_def is_digit_def is_re_space_def)
  then have "list_all (\<lambda>d. \<not> is_re_space d) (c # s)" using ok PlainName by (auto simp: list_all_iff)
  from solid_list [OF this] show ?thesis using PlainName by simp
next
  case (QuotedName s)
  then show "part_ok q \<Longrightarrow> ?thesis" by simp
qed

lemma mod_solid: "list_all (\<lambda>c. \<not> is_re_space c) (mod_text ms)"
  using itoa_solid by (cases ms) (auto simp: list_all_iff is_re_space_def)

lemma type_word_solid: "w \<in> set type_words \<Longrightarrow> list_all (\<lambda>c. \<not> is_re_space c) w \<and> w \<noteq> []"
proof -
  have "list_all (\<lambda>w. list_all (\<lambda>c. \<not> is_re_space c) w \<and> w \<noteq> []) type_words" by code_simp
  then show "w \<in> set type_words \<Longrightarrow> ?thesis" by (auto simp: list_all_iff)
qed

text \<open>Appending a solid piece, or a blank and a solid piece, to a tight text that collapses to itself.\<close>

definition settled_text :: "string \<Rightarrow> bool" where
  "settled_text s \<longleftrightarrow> tight s \<and> collapse False s = s"

lemma settled_text_solid: "settled_text u \<Longrightarrow> list_all (\<lambda>c. \<not> is_re_space c) v \<Longrightarrow> settled_text (u @ v)"
proof (cases "v = []")
  case False
  assume u: "settled_text u" and v: "list_all (\<lambda>c. \<not> is_re_space c) v"
  have "tight v" "collapse b v = v" for b using solid_list [OF v False] by auto
  then show ?thesis
    using u False tight_append(1) [of u v] by (simp add: settled_text_def collapse_tight_append tight_def)
qed simp

lemma settled_text_append: "settled_text u \<Longrightarrow> settled_text v \<Longrightarrow> settled_text (u @ v)"
  using tight_append(1) [of u v] by (auto simp: settled_text_def collapse_tight_append tight_def)

lemma settled_text_blank:
  assumes "settled_text u" and "list_all (\<lambda>c. \<not> is_re_space c) v" and "v \<noteq> []"
  shows "settled_text (u @ '' '' @ v)"
proof -
  have v: "tight v" "collapse True v = v" using solid_list [OF assms(2, 3)] by auto
  then show ?thesis
    using assms tight_append(1) [of u "'' '' @ v"] by (simp add: settled_text_def collapse_tight_append tight_def)
qed

lemma settled_text_words:
  "settled_text u \<Longrightarrow> \<forall>wm \<in> set ws. fst wm \<in> set type_words \<Longrightarrow> settled_text (u @ concat (map word_text ws))"
proof (induction ws arbitrary: u)
  case (Cons wm ws)
  have "settled_text (u @ '' '' @ fst wm @ mod_text (snd wm))"
    using Cons.prems type_word_solid [of "fst wm"] mod_solid [of "snd wm"]
    by (intro settled_text_blank) auto
  from Cons.IH [OF this] show ?case using Cons.prems by (simp add: word_text_def)
qed simp

lemma spelling_settled:
  assumes "spelling_ok sp"
  shows "settled_text (spelling_text sp)"
proof -
  have part: "settled_text (part_text q)" if "part_ok q" for q using part_tight [OF that] by (simp add: settled_text_def)
  have "settled_text ((case sp_schema sp of None \<Rightarrow> [] | Some q \<Rightarrow> part_text q @ ''.'') @ part_text (sp_name sp))"
  proof (cases "sp_schema sp")
    case None
    then show ?thesis using assms part by (simp add: spelling_ok_def)
  next
    case (Some q)
    then have "settled_text (part_text q)" "settled_text (part_text (sp_name sp))"
      using assms by (auto simp: spelling_ok_def intro: part)
    then have "settled_text (part_text q @ ''.'')" "settled_text (part_text (sp_name sp))"
      using settled_text_solid [of "part_text q" "''.''"] by (simp_all add: is_re_space_def)
    from settled_text_append [OF this] show ?thesis using Some by simp
  qed
  from settled_text_words [OF settled_text_solid [OF this mod_solid [of "sp_mods sp"]], of "sp_words sp"]
  have "settled_text (((case sp_schema sp of None \<Rightarrow> [] | Some q \<Rightarrow> part_text q @ ''.'') @ part_text (sp_name sp)
      @ mod_text (sp_mods sp)) @ concat (map word_text (sp_words sp)))"
    using assms by (simp add: spelling_ok_def list_all_iff)
  from settled_text_solid [OF this, of "if sp_array sp then ''[]'' else []"] show ?thesis
    by (simp add: spelling_text_def is_re_space_def)
qed

lemma type_ok_cast: "type_ok ty \<Longrightarrow> cast_ok ty"
  using spelling_settled spelling_in_lang by (fastforce simp: type_ok_def cast_ok_def settled_text_def)

definition stmt_ok :: "stmt \<Rightarrow> bool" where
  "stmt_ok st \<longleftrightarrow> stmt_ok_for type_ok st"

lemma stmt_ok_casts: "stmt_ok st \<Longrightarrow> stmt_ok_for cast_ok st"
  using stmt_ok_for_mono [of type_ok st cast_ok] type_ok_cast by (simp add: stmt_ok_def)

text \<open>Where it ends: a negative scale and a modifier that is not a number have no cast.\<close>

lemma signed_scale_refused:
  "''::numeric(3,-5)'' \<notin> lang re_cast" "''::geometry(Point,4326)'' \<notin> lang re_cast"
  by (simp_all only: accepts_lang [symmetric]) code_simp+

end
