(* ===== verification/Trace_Literals.thy ===== *)
theory Trace_Literals
  imports Trace_Log
begin

text \<open>
  What elision makes of a statement, against a description of the statement that is not the scanner's: a
  statement is plain text and literals in turn, a literal being a quoted string, with its quotes doubled,
  or a number that stands alone. The plain text may hold anything but a single quote.
\<close>

datatype sql_literal = Quoted string | Number string string

fun doubled :: "string \<Rightarrow> string" where
  "doubled [] = []"
| "doubled (c # s) = (if c = squote then [squote, squote] else [c]) @ doubled s"

fun literal_text :: "sql_literal \<Rightarrow> string" where
  "literal_text (Quoted v) = [squote] @ doubled v @ [squote]"
| "literal_text (Number w f) = w @ (if f = [] then [] else ''.'' @ f)"

fun literal_mark :: "sql_literal \<Rightarrow> string" where
  "literal_mark (Quoted v) = [squote, CHR ''?'', squote]"
| "literal_mark (Number w f) = ''?''"

text \<open>The statement, and the statement with each literal replaced by its mark.\<close>

fun sql_text :: "string \<Rightarrow> (sql_literal \<times> string) list \<Rightarrow> string" where
  "sql_text q [] = q"
| "sql_text q ((l, p) # r) = q @ literal_text l @ sql_text p r"

fun sql_bare :: "string \<Rightarrow> (sql_literal \<times> string) list \<Rightarrow> string" where
  "sql_bare q [] = q"
| "sql_bare q ((l, p) # r) = q @ literal_mark l @ sql_bare p r"

text \<open>Neither part of a word or a number, nor the point of one.\<close>

definition separator :: "char \<Rightarrow> bool" where
  "separator c \<longleftrightarrow> \<not> word_char c \<and> c \<noteq> CHR ''.''"

text \<open>Text stands between any two literals, and separators around a number.\<close>

fun literals_apart :: "string \<Rightarrow> (sql_literal \<times> string) list \<Rightarrow> bool" where
  "literals_apart q [] \<longleftrightarrow> squote \<notin> set q"
| "literals_apart q ((l, p) # r) \<longleftrightarrow>
     squote \<notin> set q \<and> (p \<noteq> [] \<or> r = [])
     \<and> (case l of
          Quoted v \<Rightarrow> True
        | Number w f \<Rightarrow> w \<noteq> [] \<and> list_all is_digit w \<and> list_all is_digit f
            \<and> (q = [] \<or> separator (last q)) \<and> (p = [] \<or> separator (hd p)))
     \<and> literals_apart p r"

lemma literals_apart_plain: "literals_apart q r \<Longrightarrow> squote \<notin> set q"
  by (cases r) auto

subsection \<open>Strings\<close>

lemma close_doubled:
  "s = [] \<or> hd s \<noteq> squote \<Longrightarrow> close_literal (doubled v @ squote # s) = Some s"
  by (induction v) (cases s; simp)+

lemma elide_strings_plain: "squote \<notin> set u \<Longrightarrow> elide_strings (u @ s) = u @ elide_strings s"
proof (induction u)
  case (Cons c u)
  then show ?case by (subst elide_strings.simps) auto
qed simp

text \<open>The strings gone, the numbers still there.\<close>

fun sql_numbers :: "string \<Rightarrow> (sql_literal \<times> string) list \<Rightarrow> string" where
  "sql_numbers q [] = q"
| "sql_numbers q ((l, p) # r) =
     q @ (case l of Quoted v \<Rightarrow> literal_mark l | Number w f \<Rightarrow> literal_text l) @ sql_numbers p r"

lemma digit_not_squote: "is_digit c \<Longrightarrow> c \<noteq> squote"
  by (auto simp: is_digit_def)

lemma number_no_quote:
  "list_all is_digit w \<Longrightarrow> list_all is_digit f \<Longrightarrow> squote \<notin> set (literal_text (Number w f))"
  by (auto simp: list_all_iff dest: digit_not_squote)

lemma sql_text_head:
  assumes "literals_apart p r" and "p \<noteq> [] \<or> r = []"
  shows "sql_text p r = [] \<or> hd (sql_text p r) \<noteq> squote"
  using assms literals_apart_plain [OF assms(1)] by (cases r; cases p) auto

lemma elide_strings_text: "literals_apart q r \<Longrightarrow> elide_strings (sql_text q r) = sql_numbers q r"
proof (induction q r rule: sql_text.induct)
  case (1 q)
  then show ?case using elide_strings_plain [of q "[]"] by (simp add: elide_strings.simps)
next
  case (2 q l p r)
  have q: "squote \<notin> set q" and pr: "literals_apart p r" "p \<noteq> [] \<or> r = []" using 2(2) by auto
  show ?case
  proof (cases l)
    case (Quoted v)
    have "close_literal (doubled v @ squote # sql_text p r) = Some (sql_text p r)"
      by (rule close_doubled [OF sql_text_head [OF pr]])
    then have "elide_strings (literal_text l @ sql_text p r) = literal_mark l @ elide_strings (sql_text p r)"
      unfolding Quoted by (subst elide_strings.simps) simp
    then show ?thesis using 2(1) [OF pr(1)] elide_strings_plain [OF q] Quoted by simp
  next
    case (Number w f)
    then have "squote \<notin> set (literal_text l)" using 2(2) number_no_quote [of w f] by simp
    then have "elide_strings (literal_text l @ sql_text p r) = literal_text l @ elide_strings (sql_text p r)"
      by (rule elide_strings_plain)
    then show ?thesis using 2(1) [OF pr(1)] elide_strings_plain [OF q] Number by simp
  qed
qed

subsection \<open>Numbers\<close>

lemma separator_facts: "separator c \<Longrightarrow> \<not> is_digit c \<and> \<not> word_char c \<and> c \<noteq> CHR ''.''"
  by (auto simp: separator_def word_char_def)

lemma separator_quote [simp]: "separator squote" "\<not> word_char squote" "\<not> word_char CHR ''?''" "\<not> is_digit CHR ''?''"
  by (simp_all add: separator_def word_char_def is_upper_def is_lower_def is_digit_def)

lemma dropWhile_digit_split:
  "\<not> is_digit c \<Longrightarrow> dropWhile is_digit (x @ c # s) = dropWhile is_digit x @ c # s"
  by (induction x) auto

lemma at_boundary_split: "at_boundary (u @ c # s) \<longleftrightarrow> at_boundary (u @ [c])"
  by (cases u) (simp_all add: at_boundary_def)

lemma fraction_split:
  assumes "separator c"
  shows "fraction_rest (u @ c # s) = map_option (\<lambda>r. r @ s) (fraction_rest (u @ [c]))"
proof (cases u)
  case Nil
  then show ?thesis using separator_facts [OF assms] by (cases s) (auto simp: fraction_rest_def)
next
  case (Cons d v)
  then show ?thesis
    using separator_facts [OF assms] dropWhile_digit_split [of c _ s] dropWhile_digit_split [of c _ "[]"]
    by (cases v) (auto simp: fraction_rest_def)
qed

lemma fraction_ends:
  assumes "separator c" and "fraction_rest (u @ [c]) = Some r"
  shows "\<exists>v. r = v @ [c]"
proof -
  obtain d f x where u: "u = d # f # x"
    using assms separator_facts [OF assms(1)]
    by (cases u; cases "tl u") (auto simp: fraction_rest_def)
  then have "r = dropWhile is_digit (x @ [c])" using assms(2) by (simp add: fraction_rest_def split: if_splits)
  then show ?thesis using dropWhile_digit_split [of c x "[]"] separator_facts [OF assms(1)] by auto
qed

lemma skip_number_split:
  assumes "separator c"
  shows "skip_number (x @ c # s) = map_option (\<lambda>r. r @ s) (skip_number (x @ [c]))"
proof (cases "x = []")
  case True
  then show ?thesis using separator_facts [OF assms] by (simp add: skip_number_def)
next
  case False
  let ?R = "dropWhile is_digit x"
  have drop: "dropWhile is_digit (x @ c # t) = ?R @ c # t" for t
    using dropWhile_digit_split separator_facts [OF assms] by blast
  have b: "at_boundary (?R @ c # s) \<longleftrightarrow> at_boundary (?R @ [c])" by (rule at_boundary_split)
  show ?thesis
  proof (cases "fraction_rest (?R @ [c])")
    case None
    then have "fraction_rest (?R @ c # s) = None" using fraction_split [OF assms, of ?R s] by simp
    then show ?thesis using None False b by (simp add: skip_number_def drop Let_def)
  next
    case (Some r)
    obtain v where "r = v @ [c]" using fraction_ends [OF assms Some] by blast
    then have "at_boundary (r @ s) \<longleftrightarrow> at_boundary r" using at_boundary_split [of v c s] by simp
    moreover have "fraction_rest (?R @ c # s) = Some (r @ s)" using Some fraction_split [OF assms, of ?R s] by simp
    ultimately show ?thesis using Some False b by (simp add: skip_number_def drop Let_def)
  qed
qed

lemma skip_number_ends:
  assumes "separator c" and "skip_number (x @ [c]) = Some r"
  shows "\<exists>v. r = v @ [c] \<and> length v < length x"
proof -
  have drop: "dropWhile is_digit (x @ [c]) = dropWhile is_digit x @ [c]"
    using dropWhile_digit_split separator_facts [OF assms(1)] by blast
  have "r = dropWhile is_digit x @ [c] \<or> fraction_rest (dropWhile is_digit x @ [c]) = Some r"
    using assms(2) by (auto simp: skip_number_def drop Let_def split: if_splits option.splits)
  then obtain v where "r = v @ [c]" using fraction_ends [OF assms(1)] by blast
  then show ?thesis using skip_number_length [OF assms(2)] by fastforce
qed

lemma elide_numbers_step:
  "(if prev then None else skip_number (c # r)) = None \<Longrightarrow>
     elide_numbers prev (c # r) = c # elide_numbers (word_char c) r"
  "skip_number (c # r) = Some s \<Longrightarrow> elide_numbers False (c # r) = CHR ''?'' # elide_numbers True s"
  by (subst elide_numbers.simps; simp)+

lemma elide_numbers_split:
  assumes "separator c"
  shows "elide_numbers prev (x @ c # s) = elide_numbers prev (x @ [c]) @ elide_numbers False s"
proof (induction x arbitrary: prev rule: length_induct)
  case (1 x)
  show ?case
  proof (cases x)
    case Nil
    have "skip_number (c # s) = None" "skip_number [c] = None"
      using separator_facts [OF assms] by (simp_all add: skip_number_def)
    then show ?thesis
      using Nil separator_facts [OF assms] by (simp add: elide_numbers_step(1) elide_numbers.simps [of _ "[]"])
  next
    case (Cons d y)
    show ?thesis
    proof (cases "if prev then None else skip_number (x @ [c])")
      case None
      then have "(if prev then None else skip_number (x @ c # s)) = None"
        using skip_number_split [OF assms, of x s] by (auto split: if_splits)
      then have none: "(if prev then None else skip_number (d # (y @ c # s))) = None"
        "(if prev then None else skip_number (d # (y @ [c]))) = None"
        using None by (simp_all only: Cons append_Cons)
      have "elide_numbers prev (d # y @ c # s) = d # elide_numbers (word_char d) (y @ c # s)"
        "elide_numbers prev (d # y @ [c]) = d # elide_numbers (word_char d) (y @ [c])"
        by (rule elide_numbers_step(1) [OF none(1)], rule elide_numbers_step(1) [OF none(2)])
      then show ?thesis using 1 Cons by simp
    next
      case (Some r)
      then have p: "\<not> prev" "skip_number (x @ [c]) = Some r" by (auto split: if_splits)
      then have "skip_number (x @ c # s) = Some (r @ s)" using skip_number_split [OF assms, of x s] by simp
      moreover obtain v where "r = v @ [c]" "length v < length x" using skip_number_ends [OF assms p(2)] by blast
      ultimately have "elide_numbers prev (d # y @ c # s) = CHR ''?'' # elide_numbers True (v @ c # s)"
        "elide_numbers prev (d # y @ [c]) = CHR ''?'' # elide_numbers True (v @ [c])"
        using p Cons by (simp_all add: elide_numbers_step(2))
      then show ?thesis using 1 \<open>length v < length x\<close> Cons by simp
    qed
  qed
qed

lemma skip_number_literal:
  assumes "w \<noteq> []" and "list_all is_digit w" and "list_all is_digit f"
    and "s = [] \<or> separator (hd s)"
  shows "skip_number (literal_text (Number w f) @ s) = Some s"
proof -
  have s: "at_boundary s" "fraction_rest s = None" "dropWhile is_digit s = s"
    using assms(4) separator_facts [of "hd s"]
    by (cases s; auto simp: at_boundary_def fraction_rest_def split: list.splits)+
  have run: "dropWhile is_digit (u @ t) = dropWhile is_digit t" if "list_all is_digit u" for u t
    using that by (induction u) auto
  have hd: "is_digit (hd (w @ t))" for t using assms(1, 2) by (cases w) auto
  show ?thesis
  proof (cases f)
    case Nil
    then show ?thesis using assms(1) s hd [of s] by (simp add: skip_number_def run [OF assms(2)])
  next
    case (Cons d f')
    have "\<not> is_digit CHR ''.''" by (simp add: is_digit_def)
    moreover have "dropWhile is_digit (f' @ s) = s" using Cons assms(3) s(3) run [of f' s] by simp
    ultimately show ?thesis
      using Cons assms(1, 3) s hd by (simp add: skip_number_def run [OF assms(2)] fraction_rest_def)
  qed
qed

lemma elide_numbers_mark:
  "elide_numbers prev (CHR ''?'' # s) = CHR ''?'' # elide_numbers False s"
  by (subst elide_numbers_step(1)) (simp_all add: skip_number_def)

lemma elide_numbers_quote:
  "elide_numbers prev (squote # s) = squote # elide_numbers False s"
  by (subst elide_numbers_step(1)) (simp_all add: skip_number_def is_digit_def)

lemma elide_numbers_literal:
  assumes "w \<noteq> []" and "list_all is_digit w" and "list_all is_digit f" and "s = [] \<or> separator (hd s)"
  shows "elide_numbers False (literal_text (Number w f) @ s) = CHR ''?'' # elide_numbers False s"
proof -
  obtain d y where y: "literal_text (Number w f) @ s = d # y" using assms(1) by (cases w) auto
  have "elide_numbers True s = elide_numbers False s"
  proof (cases s)
    case (Cons c t)
    then have "skip_number s = None"
      using assms(4) separator_facts [of c] by (simp add: skip_number_def)
    then show ?thesis using Cons by (simp add: elide_numbers_step(1))
  qed (simp add: elide_numbers.simps)
  then show ?thesis
    using skip_number_literal [OF assms] unfolding y by (simp add: elide_numbers_step(2))
qed

lemma elide_numbers_text:
  assumes "literals_apart q r" and "q = [] \<Longrightarrow> \<not> prev"
  shows "elide_numbers prev (sql_numbers q r) = elide_numbers prev (sql_bare q r)"
  using assms
proof (induction q r arbitrary: prev rule: sql_numbers.induct)
  case (2 q l p r)
  have pr: "literals_apart p r" using 2(2) by simp
  have IH: "elide_numbers False (sql_numbers p r) = elide_numbers False (sql_bare p r)"
    using 2(1) [OF pr, of False] by simp
  show ?case
  proof (cases l)
    case (Quoted v)
    have "elide_numbers prev (q @ squote # CHR ''?'' # squote # t)
        = elide_numbers prev (q @ [squote]) @ [CHR ''?'', squote] @ elide_numbers False t" for t
      using elide_numbers_split [OF separator_quote(1), of prev q "CHR ''?'' # squote # t"]
      by (simp add: elide_numbers_mark elide_numbers_quote)
    from this [of "sql_numbers p r"] this [of "sql_bare p r"] show ?thesis by (simp add: Quoted IH)
  next
    case (Number w f)
    have n: "w \<noteq> []" "list_all is_digit w" "list_all is_digit f" "q = [] \<or> separator (last q)"
      "p = [] \<or> separator (hd p)" "p \<noteq> [] \<or> r = []"
      using 2(2) Number by auto
    have "sql_numbers p r = [] \<or> separator (hd (sql_numbers p r))"
      using n(5, 6) by (cases r; cases p) auto
    note elide_numbers_literal [OF n(1-3) this]
    then have num: "elide_numbers False (literal_text l @ sql_numbers p r)
        = elide_numbers False (CHR ''?'' # sql_bare p r)"
      by (simp only: Number elide_numbers_mark IH)
    have eq: "sql_numbers q ((l, p) # r) = q @ literal_text l @ sql_numbers p r"
      "sql_bare q ((l, p) # r) = q @ CHR ''?'' # sql_bare p r"
      by (simp_all add: Number)
    show ?thesis
    proof (cases "q = []")
      case True
      then show ?thesis using num 2(3) unfolding eq by simp
    next
      case False
      then obtain u c where u: "q = u @ [c]" "separator c" using n(4) by (metis append_butlast_last_id)
      have split: "elide_numbers prev (q @ t) = elide_numbers prev q @ elide_numbers False t" for t
        using elide_numbers_split [OF u(2), of prev u t] by (simp add: u(1))
      show ?thesis unfolding eq split num ..
    qed
  qed
qed simp

subsection \<open>The rest of the check\<close>

lemma skip_number_count: "skip_number s = Some r \<Longrightarrow> count_list s squote = count_list r squote"
proof -
  assume a: "skip_number s = Some r"
  have drop: "count_list (dropWhile is_digit x) squote = count_list x squote" for x
    by (induction x) (auto simp: is_digit_def)
  have frac: "count_list x squote = count_list y squote" if "fraction_rest x = Some y" for x y
    using that drop by (auto simp: fraction_rest_def is_digit_def split: list.splits if_splits)
  have "r = dropWhile is_digit s \<or> fraction_rest (dropWhile is_digit s) = Some r"
    using a by (auto simp: skip_number_def Let_def split: if_splits option.splits)
  then show ?thesis using drop [of s] frac [of "dropWhile is_digit s" r] by auto
qed

lemma elide_numbers_count: "count_list (elide_numbers prev s) squote = count_list s squote"
proof (induction s arbitrary: prev rule: length_induct)
  case (1 s)
  note ih = 1 [rule_format]
  show ?case
  proof (cases s)
    case Nil
    then show ?thesis by (simp add: elide_numbers.simps)
  next
    case (Cons c r)
    show ?thesis
    proof (cases "if prev then None else skip_number s")
      case None
      from elide_numbers_step(1) [OF this [unfolded Cons]] show ?thesis using Cons ih [of r] by simp
    next
      case (Some t)
      then have "\<not> prev" and sk: "skip_number s = Some t" by (auto split: if_splits)
      then have "elide_numbers prev s = CHR ''?'' # elide_numbers True t"
        using Cons by (simp add: elide_numbers_step(2))
      then show ?thesis using ih [OF skip_number_length [OF sk]] skip_number_count [OF sk] by simp
    qed
  qed
qed

lemma sql_bare_count: "literals_apart q r \<Longrightarrow> even (count_list (sql_bare q r) squote)"
proof (induction q r rule: sql_bare.induct)
  case (2 q l p r)
  then show ?case by (cases l) auto
qed simp

definition ascii_letter :: "char \<Rightarrow> bool" where "ascii_letter c \<longleftrightarrow> is_upper c \<or> is_lower c"

lemma leading_keyword_letters: "leading_keyword s = takeWhile ascii_letter s"
  by (simp add: leading_keyword_def ascii_letter_def [abs_def])

lemma ascii_letter_word: "ascii_letter c \<Longrightarrow> word_char c \<and> \<not> is_digit c"
proof -
  have "CHR ''9'' < CHR ''A''" "CHR ''9'' < CHR ''a''" by (simp_all add: less_char_def)
  then have "\<not> (CHR ''A'' \<le> c \<and> c \<le> CHR ''9'')" "\<not> (CHR ''a'' \<le> c \<and> c \<le> CHR ''9'')"
    by (meson leD order_trans)+
  then show "ascii_letter c \<Longrightarrow> word_char c \<and> \<not> is_digit c"
    by (auto simp: ascii_letter_def word_char_def is_upper_def is_lower_def is_digit_def)
qed

lemma leading_keyword_numbers: "leading_keyword (elide_numbers prev s) = leading_keyword s"
proof (induction s arbitrary: prev)
  case Nil
  then show ?case by (simp add: elide_numbers.simps)
next
  case (Cons c s)
  show ?case
  proof (cases "ascii_letter c")
    case True
    then have "skip_number (c # s) = None" using ascii_letter_word by (simp add: skip_number_def)
    then show ?thesis using Cons True by (simp add: elide_numbers_step(1) leading_keyword_letters)
  next
    case False
    have "\<not> ascii_letter CHR ''?''" by (simp add: ascii_letter_def is_upper_def is_lower_def)
    then show ?thesis
      using False by (subst elide_numbers.simps) (auto simp: leading_keyword_letters split: option.splits)
  qed
qed

lemma leading_keyword_bare: "literals_apart q r \<Longrightarrow> leading_keyword (sql_text q r) = leading_keyword (sql_bare q r)"
proof (cases r)
  case (Cons lp r')
  assume a: "literals_apart q r"
  obtain l p where lp: "lp = (l, p)" by fastforce
  have stop: "\<not> ascii_letter (hd (literal_text l))" "\<not> ascii_letter (hd (literal_mark l))" "literal_text l \<noteq> []" "literal_mark l \<noteq> []"
  proof -
    have "\<not> ascii_letter squote" "\<not> ascii_letter CHR ''?''" by (simp_all add: ascii_letter_def is_upper_def is_lower_def)
    moreover have "is_digit (hd (literal_text (Number w f)))" if "l = Number w f" for w f
      using a that by (cases w) (auto simp: Cons lp)
    ultimately show "\<not> ascii_letter (hd (literal_text l))" "\<not> ascii_letter (hd (literal_mark l))"
      using ascii_letter_word by (cases l; force)+
    show "literal_text l \<noteq> []" "literal_mark l \<noteq> []" using a by (cases l; auto simp: Cons lp)+
  qed
  have "takeWhile ascii_letter (q @ x @ s) = takeWhile ascii_letter q" if "x \<noteq> []" "\<not> ascii_letter (hd x)" for x s
    using that by (induction q) (cases x; auto)+
  then show ?thesis using stop by (simp add: Cons lp leading_keyword_letters)
qed simp

lemma elide_literals_text:
  assumes "literals_apart q r"
  shows "elide_literals (sql_text q r) =
     (let bare = elide_numbers False (sql_bare q r) in
      if backslash \<in> set (sql_text q r) \<or> has_dollar_quote bare then elided bare else bare)"
proof -
  have out: "elide_numbers False (elide_strings (sql_text q r)) = elide_numbers False (sql_bare q r)"
    using elide_strings_text [OF assms] elide_numbers_text [OF assms, of False] by simp
  have "elided (sql_text q r) = elided (elide_numbers False (sql_bare q r))"
    by (simp add: elided_def leading_keyword_numbers leading_keyword_bare [OF assms])
  then show ?thesis
    using sql_bare_count [OF assms] by (simp add: elide_literals_def out elide_numbers_count Let_def)
qed

end
