(* ===== verification/Trace_Properties.thy ===== *)
theory Trace_Properties
  imports Type_Spelling Trace_Literals
begin

text \<open>
  What the source allowlist guarantees: it agrees with the check of \<open>--where\<close>, admits every
  statement of the planner, counts exactly what it refused, and records statements without their
  literals.
\<close>

subsection \<open>The trace\<close>

lemma trace_call_frame: "tr_shapes (fst (trace_call c t)) = tr_shapes t"
  by (cases c) (simp_all add: check_def refuse_call_def record_stmt_def Let_def)

definition trace_inv :: "tracer \<Rightarrow> bool" where
  "trace_inv t \<longleftrightarrow> tr_violations t = length (filter ts_refused (tr_trace t))
     \<and> map_option vi_sql (tr_first t) = map_option ts_sql (find ts_refused (tr_trace t))"

lemma find_append: "find P (xs @ ys) = (case find P xs of None \<Rightarrow> find P ys | Some x \<Rightarrow> Some x)"
  by (induction xs) auto

lemma record_inv: "trace_inv t \<Longrightarrow> trace_inv (record_stmt s outside t)"
  by (auto simp: trace_inv_def record_stmt_def Let_def find_append split: option.splits)

lemma trace_call_inv: "trace_inv t \<Longrightarrow> trace_inv (fst (trace_call c t))"
  by (cases c) (simp_all add: check_def refuse_call_def Let_def record_inv)

lemma trace_calls_inv: "trace_inv t \<Longrightarrow> trace_inv (trace_calls cs t)"
  by (induction cs arbitrary: t) (simp_all add: trace_call_inv)


text \<open>What one call adds to the trace, and when the call is let through.\<close>

lemma trace_call_entry:
  "\<exists>e. tr_trace (fst (trace_call c t)) = tr_trace t @ [e] \<and> (ts_refused e \<longleftrightarrow> \<not> snd (trace_call c t))
     \<and> (ts_refused e \<longrightarrow> ts_shape e = []) \<and> (\<not> ts_refused e \<longrightarrow> ts_shape e \<noteq> [])"
  by (cases c) (auto simp: check_def refuse_call_def record_stmt_def Let_def)

lemma trace_call_alive:
  "snd (trace_call c t) \<Longrightarrow> c = ConnectStart
    \<or> (\<exists>tx sql s. c = QueryStart tx sql \<and> s \<in> set (tr_shapes t) \<and> accepts (snd s) (normalise_sql sql)
        \<and> (tx = TxIdle \<longrightarrow> opens_transaction (normalise_sql sql)))"
proof (cases c)
  case (QueryStart tx sql)
  assume "snd (trace_call c t)"
  then have m: "match_shape t (normalise_sql sql) \<noteq> []"
      "tx = TxIdle \<longrightarrow> opens_transaction (normalise_sql sql)"
    using QueryStart by (auto simp: check_def Let_def)
  then obtain s where "find (\<lambda>s. accepts (snd s) (normalise_sql sql)) (tr_shapes t) = Some s"
    by (auto simp: match_shape_def split: option.splits)
  then have "s \<in> set (tr_shapes t) \<and> accepts (snd s) (normalise_sql sql)" by (auto simp: find_Some_iff)
  with m QueryStart show ?thesis by blast
qed (simp_all add: refuse_call_def)

section \<open>The properties\<close>

text \<open>
  C28: the check of \<open>--where\<close> and the \<open>{where}\<close> placeholder of the allowlist admit the same predicates: whatever the
  check lets through the placeholder admits, and a predicate without a zero byte that the
  placeholder admits passes the check.
\<close>

theorem where_check_agrees_with_shape:
  assumes "w \<noteq> []" and "CHR 0x00 \<notin> set w"
  shows "check_where w = None \<longleftrightarrow> accepts re_where w"
  using check_where_lang [OF _ assms(1)] lang_check_where [OF _ assms(2)] by (auto simp: accepts_lang)

lemma where_check_agrees_with_shape_witness:
  "accepts re_where ''id > (-1)''"
proof -
  have "check_where ''id > (-1)'' = None" by code_simp
  then show ?thesis using where_check_agrees_with_shape [of "''id > (-1)''"] by simp
qed

text \<open>
  C26: a source that registered the planner's shapes lets every statement the planner builds through: in a
  transaction, with identifiers that are not empty, counts that are not negative, a predicate that
  passed the check of \<open>--where\<close>, and key columns whose types are spelled by one or two names, at most
  two unsigned modifiers and the words of the built-in types, no statement is refused and no
  violation is counted. A type spelled otherwise is not covered and can be refused, as
  \<open>numeric(3,-5)\<close> and \<open>geometry(Point,4326)\<close> are (\<open>signed_scale_refused\<close>).
\<close>

theorem planner_statements_admitted:
  assumes "has_plan_shapes t" and "stmt_ok st" and "tx \<noteq> TxIdle"
  shows "snd (check tx (stmt_sql st) t)
    \<and> tr_violations (fst (check tx (stmt_sql st) t)) = tr_violations t"
  using check_stmt [OF assms(1) stmt_ok_casts [OF assms(2)] assms(3)] by simp

definition plan_tracer :: tracer where
  "plan_tracer = (case new_tracer plan_shapes of Inr t \<Rightarrow> t | Inl _ \<Rightarrow> no_tracer)"

lemma plan_tracer_shapes: "has_plan_shapes plan_tracer"
proof -
  obtain cs where cs: "compile_all plan_shapes = Inr cs" using registered by blast
  then have "tr_shapes plan_tracer = cs"
    by (simp add: plan_tracer_def new_tracer_def register_def no_tracer_def)
  then show ?thesis using cs compile_all_named [OF cs] by (auto simp: has_plan_shapes_def)
qed

definition numeric_type :: key_type where
  "numeric_type = \<lparr>kt_kind = KindOther, kt_array_cast = ''::text[]'', kt_type_name = ''numeric(10,2)''\<rparr>"

lemma numeric_type_ok: "type_ok numeric_type"
proof -
  let ?sp = "\<lparr>sp_schema = None, sp_name = PlainName (CHR ''n'') ''umeric'', sp_mods = [10, 2], sp_words = [],
    sp_array = False\<rparr>"
  have "spelling_ok ?sp" "kt_type_name numeric_type = spelling_text ?sp" by code_simp+
  then show ?thesis unfolding type_ok_def by (intro conjI impI exI [of _ ?sp]) (simp_all add: numeric_type_def)
qed

lemma planner_statements_admitted_witness:
  "snd (check TxActive (stmt_sql (MapKeys (TableRef ''public'' ''order lines'') [''price''] [numeric_type] [''id''] [numeric_type] [])) plan_tracer)"
proof -
  have "stmt_ok (MapKeys (TableRef ''public'' ''order lines'') [''price''] [numeric_type] [''id''] [numeric_type] [])"
    by (simp add: stmt_ok_def table_ok_def names_ok_def numeric_type_ok)
  from planner_statements_admitted [OF plan_tracer_shapes this, of TxActive] show ?thesis by simp
qed

text \<open>
  C29: whatever the calls, the violations counted are the trace entries marked refused, the violation reported is
  the first of them, and there is one exactly when an entry is refused.
\<close>

theorem violations_are_the_refused:
  assumes "new_tracer shapes = Inr t0" and "t = trace_calls cs t0"
  shows "tr_violations t = length (filter ts_refused (tr_trace t))
    \<and> (case violation t of
         None \<Rightarrow> filter ts_refused (tr_trace t) = []
       | Some (err, msg) \<Rightarrow> map_option fst msg = map_option ts_sql (find ts_refused (tr_trace t))
           \<and> msg \<noteq> None \<and> filter ts_refused (tr_trace t) \<noteq> [])"
proof -
  have "trace_inv t0"
    using assms(1) by (auto simp: new_tracer_def register_def no_tracer_def trace_inv_def result_simps)
  then have "trace_inv t" using trace_calls_inv assms(2) by simp
  then have n: "tr_violations t = length (filter ts_refused (tr_trace t))"
    and f: "map_option vi_sql (tr_first t) = map_option ts_sql (find ts_refused (tr_trace t))"
    by (simp_all add: trace_inv_def)
  show ?thesis
  proof (cases "tr_violations t = 0")
    case True
    then show ?thesis using n by (simp add: violation_def)
  next
    case False
    then have ne: "filter ts_refused (tr_trace t) \<noteq> []" using n by auto
    then have "find ts_refused (tr_trace t) \<noteq> None" by (auto simp: find_None_iff filter_empty_conv)
    then obtain x where "tr_first t = Some x" using f by (cases "tr_first t") auto
    then show ?thesis using False n f ne by (simp add: violation_def)
  qed
qed

lemma violations_are_the_refused_witness:
  "tr_violations (trace_calls [QueryStart TxIdle ''SELECT 1'', BatchStart] no_tracer) = 2"
proof -
  have "new_tracer [] = Inr no_tracer" by (simp add: new_tracer_def register_def no_tracer_def)
  from violations_are_the_refused [OF this refl, of "[QueryStart TxIdle ''SELECT 1'', BatchStart]"]
  show ?thesis by (simp add: check_def refuse_call_def record_stmt_def no_tracer_def match_shape_def Let_def)
qed

text \<open>
  C27: a call reaches the source only when it opens a connection or is a statement that matches a registered shape,
  and an idle connection takes nothing but the statement that opens the transaction. A call
  that does not is recorded as refused, without a shape.
\<close>

theorem only_admitted_calls_reach_the_source:
  assumes "trace_call c t = (t', alive)"
  shows "(\<exists>e. tr_trace t' = tr_trace t @ [e] \<and> (ts_refused e \<longleftrightarrow> \<not> alive) \<and> (ts_shape e = [] \<longleftrightarrow> \<not> alive))
    \<and> tr_shapes t' = tr_shapes t
    \<and> (alive \<longrightarrow> c = ConnectStart
        \<or> (\<exists>tx sql s. c = QueryStart tx sql \<and> s \<in> set (tr_shapes t) \<and> normalise_sql sql \<in> lang (snd s)
            \<and> (tx = TxIdle \<longrightarrow> opens_transaction (normalise_sql sql))))"
  using trace_call_alive [of c t] trace_call_entry [of c t] trace_call_frame [of c t] assms
  by (auto simp: accepts_lang)

lemma only_admitted_calls_reach_the_source_witness:
  "tr_shapes (fst (trace_call BatchStart plan_tracer)) = tr_shapes plan_tracer"
  using only_admitted_calls_reach_the_source [OF prod.collapse [symmetric], of BatchStart plan_tracer]
  by (elim conjE)

text \<open>
  C30: no literal reaches the trace of a statement whose single quotes are those of its string literals. A
  statement made of plain text and literals in turn -- quoted strings with any content, their quotes
  doubled, and numbers that stand alone -- is recorded as the text with each literal replaced by a
  mark that says nothing of its content, or, when it holds a backslash or what is left looks like a
  dollar quote, as the leading keyword of that text and no more. So two statements that differ in
  their literals alone are recorded alike, unless one has a backslash and the other has not. The
  claim ends where a quote stands inside a quoted identifier: \<open>quoted_identifier_leaks\<close> below.
\<close>

theorem trace_carries_no_literal:
  assumes "literals_apart q r"
  shows "elide_literals (sql_text q r) =
     (let bare = elide_numbers False (sql_bare q r) in
      if backslash \<in> set (sql_text q r) \<or> has_dollar_quote bare then elided bare else bare)"
  by (rule elide_literals_text [OF assms])

lemma trace_carries_no_literal_witness:
  "elide_literals (sql_text ''WHERE a = '' [(Quoted [CHR ''O'', squote, CHR ''H''], '' AND k = ''), (Number ''42'' ''5'', [])])
     = ''WHERE a = '' @ [squote, CHR ''?'', squote] @ '' AND k = ?''"
proof -
  have ok: "literals_apart ''WHERE a = '' [(Quoted [CHR ''O'', squote, CHR ''H''], '' AND k = ''), (Number ''42'' ''5'', [])]"
    by code_simp
  have "backslash \<notin> set (sql_text ''WHERE a = '' [(Quoted [CHR ''O'', squote, CHR ''H''], '' AND k = ''), (Number ''42'' ''5'', [])])"
    "\<not> has_dollar_quote (elide_numbers False
        (sql_bare ''WHERE a = '' [(Quoted [CHR ''O'', squote, CHR ''H''], '' AND k = ''), (Number ''42'' ''5'', [])]))"
    "elide_numbers False (sql_bare ''WHERE a = '' [(Quoted [CHR ''O'', squote, CHR ''H''], '' AND k = ''), (Number ''42'' ''5'', [])])
      = ''WHERE a = '' @ [squote, CHR ''?'', squote] @ '' AND k = ?''"
    by code_simp+
  then show ?thesis using trace_carries_no_literal [OF ok] by (simp only: Let_def) simp
qed

text \<open>A column named \<open>O'x\<close>: the scanner takes the quote of the identifier for one that opens a string, and
  records the literal.\<close>

definition leaking_statement :: string where
  "leaking_statement =
     ''SELECT '' @ [dquote] @ ''O'' @ [squote] @ ''x'' @ [dquote] @ '' FROM t WHERE a = ''
       @ [squote] @ ''secret'' @ [squote] @ '' AND '' @ [dquote] @ ''O'' @ [squote] @ ''y'' @ [dquote] @ '' = 1''"

lemma quoted_identifier_leaks: "index_of (elide_literals leaking_statement) ''secret'' \<noteq> None"
proof -
  have "(index_of (elide_literals leaking_statement) ''secret'' = None) = False" by code_simp
  then show ?thesis by simp
qed

end
