(* ===== verification/Mask_Base.thy ===== *)
theory Mask_Base
  imports Strings
begin

text \<open>
  The types of the \<open>mask\<close> module (\<open>mask/mask.go\<close>) and the arithmetic and column facts of
  \<open>mask/domain.go\<close>. Categories, masker ids, roles and type tags are Go strings and stay strings.
  A Go \<open>int64\<close> count is an integer; where the code saturates at \<open>math.MaxInt64\<close> the model writes
  the bound out.
\<close>

subsection \<open>Values and constraints\<close>

record mask_value =
  mv_null :: bool
  mv_text :: string
  mv_bytes :: bytes

abbreviation text_value :: "string \<Rightarrow> mask_value" where
  "text_value s \<equiv> \<lparr>mv_null = False, mv_text = s, mv_bytes = []\<rparr>"

abbreviation bytes_value :: "bytes \<Rightarrow> mask_value" where
  "bytes_value b \<equiv> \<lparr>mv_null = False, mv_text = [], mv_bytes = b\<rparr>"

abbreviation null_value :: mask_value where
  "null_value \<equiv> \<lparr>mv_null = True, mv_text = [], mv_bytes = []\<rparr>"

definition value_empty :: "mask_value \<Rightarrow> bool" where
  "value_empty v \<longleftrightarrow> \<not> mv_null v \<and> mv_text v = [] \<and> length (mv_bytes v) = 0"

definition value_bytes :: "mask_value \<Rightarrow> bytes" where
  "value_bytes v = (if 0 < length (mv_bytes v) then mv_bytes v else bytes_of_string (mv_text v))"

record constraints =
  co_tag :: string
  co_max_len :: int
  co_enum_labels :: "string list"
  co_checks :: "string list"
  co_nullable :: bool
  co_unique :: bool
  co_rows :: int
  co_distinct :: int
  co_region :: string
  co_role :: string

definition role_full :: string where "role_full = []"
definition role_given :: string where "role_given = ''given''"
definition role_family :: string where "role_family = ''family''"

definition no_constraints :: constraints where
  "no_constraints = \<lparr>co_tag = [], co_max_len = 0, co_enum_labels = [], co_checks = [],
     co_nullable = False, co_unique = False, co_rows = 0, co_distinct = 0, co_region = [], co_role = []\<rparr>"

text \<open>The module's errors, without the text they are printed with. \<open>NoRoomError\<close> and
  \<open>DomainError\<close> carry the fields a caller reads.\<close>

record domain_error =
  de_category :: string
  de_id :: string
  de_domain :: int
  de_required :: int
  de_rows :: int

record no_room_error =
  nr_category :: string
  nr_id :: string
  nr_tag :: string
  nr_max_len :: int

datatype mask_error =
    ErrUnknownMasker
  | ErrNoCategory
  | ErrNoRoom
  | ErrKeyLength
  | ErrRowCountUnknown
  | ErrPassthrough
  | ErrMaskerPanic
  | ErrMaskerFailed
  | NoRoomError no_room_error
  | DomainError domain_error

subsection \<open>Saturating arithmetic\<close>

definition max_int64 :: int where "max_int64 = 9223372036854775807"

definition sat_mul :: "int \<Rightarrow> int \<Rightarrow> int" where
  "sat_mul a b =
     (if a \<le> 0 \<or> b \<le> 0 then 0
      else if max_int64 div b < a then max_int64
      else a * b)"

fun sat_pow_from :: "int \<Rightarrow> nat \<Rightarrow> int \<Rightarrow> int" where
  "sat_pow_from b 0 out = out"
| "sat_pow_from b (Suc n) out =
     (let out' = sat_mul out b in if out' = max_int64 then out' else sat_pow_from b n out')"

definition sat_pow :: "int \<Rightarrow> int \<Rightarrow> int" where
  "sat_pow b n = sat_pow_from b (nat n) 1"

definition sat_add :: "int \<Rightarrow> int \<Rightarrow> int" where
  "sat_add a b = (if max_int64 - b < a then max_int64 else a + b)"

definition pow10 :: "int \<Rightarrow> int" where "pow10 n = sat_pow 10 n"

lemma sat_mul_min:
  assumes "0 < a" and "0 < b"
  shows "sat_mul a b = min (a * b) max_int64"
proof (cases "max_int64 div b < a")
  case True
  then have "max_int64 div b + 1 \<le> a" by simp
  then have "(max_int64 div b + 1) * b \<le> a * b" using assms by simp
  moreover have "max_int64 < (max_int64 div b + 1) * b"
    unfolding distrib_right
    using assms div_mult_mod_eq [of max_int64 b] pos_mod_bound [of b max_int64] by linarith
  ultimately have "max_int64 < a * b" by simp
  then show ?thesis using assms True by (simp add: sat_mul_def)
next
  case False
  then have "a * b \<le> (max_int64 div b) * b" using assms by simp
  also have "\<dots> \<le> max_int64"
    using assms div_mult_mod_eq [of max_int64 b] pos_mod_sign [of b max_int64] by linarith
  finally have "a * b \<le> max_int64" .
  then show ?thesis using assms False by (simp add: sat_mul_def)
qed

lemma sat_mul_nonneg: "0 \<le> sat_mul a b"
  by (simp add: sat_mul_def max_int64_def)

lemma sat_mul_le: "sat_mul a b \<le> max_int64"
  by (cases "0 < a \<and> 0 < b") (auto simp: sat_mul_min, auto simp: sat_mul_def max_int64_def)

lemma sat_mul_pos: "0 < a \<Longrightarrow> 0 < b \<Longrightarrow> 0 < sat_mul a b"
  by (simp add: sat_mul_min max_int64_def)

lemma sat_pow_from_min:
  assumes "0 < b" and "0 < out" and "out \<le> max_int64"
  shows "sat_pow_from b n out = min (out * b ^ n) max_int64"
  using assms(2, 3)
proof (induction n arbitrary: out)
  case (Suc n)
  let ?out = "sat_mul out b"
  have out: "?out = min (out * b) max_int64" using Suc.prems assms(1) by (simp add: sat_mul_min)
  have pow: "1 \<le> b ^ n" using assms(1) by (simp add: one_le_power)
  show ?case
  proof (cases "?out = max_int64")
    case True
    then have "max_int64 \<le> out * b" using out by simp
    also have "out * b \<le> out * b * b ^ n"
      using mult_left_mono [OF pow, of "out * b"] Suc.prems assms(1) by simp
    finally show ?thesis using True by (simp add: mult.assoc)
  next
    case False
    then have "?out = out * b" using out by (auto simp: min_def split: if_splits)
    moreover have "0 < out * b" using Suc.prems assms(1) by simp
    moreover have "out * b \<noteq> max_int64" "out * b \<le> max_int64" using False out by auto
    ultimately show ?thesis
      using Suc.IH [of "out * b"] by (simp add: mult.assoc)
  qed
qed simp

lemma sat_pow_min: "0 < b \<Longrightarrow> sat_pow b n = min (b ^ nat n) max_int64"
  by (simp add: sat_pow_def sat_pow_from_min max_int64_def)

lemma sat_pow_pos: "0 < b \<Longrightarrow> 0 < sat_pow b n"
  by (simp add: sat_pow_min max_int64_def)

lemma pow10_pos: "0 < pow10 n"
  by (simp add: pow10_def sat_pow_pos)

subsection \<open>Type tags and room\<close>

abbreviation "fam_text \<equiv> ''text''"
abbreviation "fam_varchar \<equiv> ''varchar''"
abbreviation "fam_bpchar \<equiv> ''bpchar''"
abbreviation "fam_citext \<equiv> ''citext''"
abbreviation "fam_boolean \<equiv> ''boolean''"
abbreviation "fam_integer \<equiv> ''integer''"
abbreviation "fam_bigint \<equiv> ''bigint''"
abbreviation "fam_numeric \<equiv> ''numeric''"
abbreviation "fam_float \<equiv> ''float''"
abbreviation "fam_date \<equiv> ''date''"
abbreviation "fam_timestamp \<equiv> ''timestamp''"
abbreviation "fam_uuid \<equiv> ''uuid''"
abbreviation "fam_inet \<equiv> ''inet''"
abbreviation "fam_cidr \<equiv> ''cidr''"
abbreviation "fam_macaddr \<equiv> ''macaddr''"
abbreviation "fam_bytea \<equiv> ''bytea''"
abbreviation "fam_json \<equiv> ''json''"
abbreviation "fam_jsonb \<equiv> ''jsonb''"
abbreviation "fam_hstore \<equiv> ''hstore''"
abbreviation "fam_tsvector \<equiv> ''tsvector''"

definition numeric_family :: "string \<Rightarrow> bool" where
  "numeric_family tag \<longleftrightarrow> tag \<in> set [fam_integer, fam_bigint, fam_numeric, fam_float]"

definition room :: "constraints \<Rightarrow> int" where
  "room c = (if co_max_len c < 0 then 0 else co_max_len c)"

definition fits_column :: "string \<Rightarrow> constraints \<Rightarrow> bool" where
  "fits_column s c \<longleftrightarrow> co_max_len c \<le> 0 \<or> int (length s) \<le> co_max_len c"

text \<open>\<open>fits(strings.Repeat("x", n), c)\<close>.\<close>

definition width_fits :: "int \<Rightarrow> constraints \<Rightarrow> bool" where
  "width_fits n c \<longleftrightarrow> fits_column (replicate (nat n) (CHR ''x'')) c"

definition digit_budget :: "constraints \<Rightarrow> int \<Rightarrow> int" where
  "digit_budget c want =
     (let n = (if co_tag c = fam_integer then min want 9
               else if co_tag c \<in> set [fam_bigint, fam_numeric, fam_float] then min want 18
               else if 0 < co_max_len c then min want (co_max_len c)
               else want)
      in if 0 < co_max_len c then min n (co_max_len c) else n)"

subsection \<open>The values a CHECK spells out\<close>

text \<open>
  The four expressions \<open>domain.go\<close> searches a CHECK with. Each is deterministic, so a match at a
  position is a scan that returns what follows it, and the search takes the first position that
  matches. Keywords are matched in any ASCII case.
\<close>

definition is_check_space :: "char \<Rightarrow> bool" where
  "is_check_space c \<longleftrightarrow> c \<in> set [CHR '' '', CHR 0x09, CHR 0x0A, CHR 0x0C, CHR 0x0D]"

definition is_check_word :: "char \<Rightarrow> bool" where
  "is_check_word c \<longleftrightarrow> is_upper c \<or> is_lower c \<or> is_digit c \<or> c = CHR ''_''"

definition eat_spaces :: "string \<Rightarrow> string" where
  "eat_spaces s = dropWhile is_check_space s"

definition eat_word :: "string \<Rightarrow> string \<Rightarrow> string option" where
  "eat_word w s =
     (if length w \<le> length s \<and> to_lower (take (length w) s) = w then Some (drop (length w) s) else None)"

definition eat_char :: "char \<Rightarrow> string \<Rightarrow> string option" where
  "eat_char c s = (case s of [] \<Rightarrow> None | d # r \<Rightarrow> if d = c then Some r else None)"

text \<open>Blanks, then this character.\<close>

definition eat_next :: "char \<Rightarrow> string \<Rightarrow> string option" where
  "eat_next c s = eat_char c (eat_spaces s)"

definition eat_spaced_word :: "string \<Rightarrow> string \<Rightarrow> string option" where
  "eat_spaced_word w s =
     (if eat_spaces s = s then None else eat_word w (eat_spaces s))"

definition is_paren :: "char \<Rightarrow> bool" where
  "is_paren c \<longleftrightarrow> c = CHR ''('' \<or> c = CHR '')''"

text \<open>\<open>\s*\(([^()]*)\)\<close>: what is between the parentheses, and what follows.\<close>

definition eat_parens :: "string \<Rightarrow> (string \<times> string) option" where
  "eat_parens s =
     Option.bind (eat_next (CHR ''('') s) (\<lambda>r.
       map_option (\<lambda>rest. (takeWhile (\<lambda>c. \<not> is_paren c) r, rest))
         (eat_char (CHR '')'') (dropWhile (\<lambda>c. \<not> is_paren c) r)))"

definition match_in :: "string \<Rightarrow> (string \<times> string) option" where
  "match_in s = Option.bind (eat_word ''in'' s) eat_parens"

definition match_not_in :: "string \<Rightarrow> (string \<times> string) option" where
  "match_not_in s =
     Option.bind (eat_word ''not'' s) (\<lambda>r. Option.bind (eat_spaced_word ''in'' r) eat_parens)"

text \<open>\<open>=\s*ANY\s*\(\s*ARRAY\s*\[([^\]]*)\]\<close>.\<close>

definition match_any :: "string \<Rightarrow> (string \<times> string) option" where
  "match_any s =
     Option.bind (eat_char (CHR ''='') s) (\<lambda>r1.
     Option.bind (eat_word ''any'' (eat_spaces r1)) (\<lambda>r2.
     Option.bind (eat_next (CHR ''('') r2) (\<lambda>r3.
     Option.bind (eat_word ''array'' (eat_spaces r3)) (\<lambda>r4.
     Option.bind (eat_next (CHR ''['') r4) (\<lambda>r5.
       map_option (\<lambda>rest. (takeWhile (\<lambda>c. c \<noteq> CHR '']'') r5, rest))
         (eat_char (CHR '']'') (dropWhile (\<lambda>c. c \<noteq> CHR '']'') r5)))))))"

text \<open>
  \<open>NOT\s*\(\s*[^()]*=\s*ANY ...\]\s*\)\s*\)\<close>: between the first parenthesis and the next one there
  is an equals sign from which the array matches and is closed. \<open>last_any\<close> looks for it, the
  rightmost one first, as the greedy run does.
\<close>

definition closed_any :: "string \<Rightarrow> string option" where
  "closed_any s =
     Option.bind (match_any s) (\<lambda>(body, r). Option.bind (eat_next (CHR '')'') r) (eat_next (CHR '')'')))"

fun last_any :: "string \<Rightarrow> string option" where
  "last_any [] = None"
| "last_any (c # s) =
     (if is_paren c then None
      else case last_any s of Some r \<Rightarrow> Some r | None \<Rightarrow> closed_any (c # s))"

definition match_not_any :: "string \<Rightarrow> (string \<times> string) option" where
  "match_not_any s =
     Option.bind (eat_word ''not'' s) (\<lambda>r1. Option.bind (eat_next (CHR ''('') r1) (\<lambda>r2.
       map_option (\<lambda>r. ([], r)) (last_any r2)))"

text \<open>The search. \<open>bounded\<close> asks for the word boundary of a leading \<open>\b\<close>; \<open>prev\<close> says whether the
  character before is a word character.\<close>

fun find_match ::
  "bool \<Rightarrow> (string \<Rightarrow> (string \<times> string) option) \<Rightarrow> bool \<Rightarrow> string \<Rightarrow> string option" where
  "find_match bounded m prev [] = None"
| "find_match bounded m prev (c # s) =
     (case if bounded \<and> prev then None else m (c # s) of
        Some (body, rest) \<Rightarrow> Some body
      | None \<Rightarrow> find_match bounded m (is_check_word c) s)"

text \<open>\<open>ReplaceAllString(chk, "")\<close>, by the length of the match so that the recursion is on the
  text.\<close>

fun drop_matches :: "(string \<Rightarrow> (string \<times> string) option) \<Rightarrow> nat \<Rightarrow> bool \<Rightarrow> string \<Rightarrow> string" where
  "drop_matches m skip prev [] = []"
| "drop_matches m skip prev (c # s) =
     (if 0 < skip then drop_matches m (skip - 1) (is_check_word c) s
      else case if prev then None else m (c # s) of
             Some (body, rest) \<Rightarrow> drop_matches m (length s - length rest) (is_check_word c) s
           | None \<Rightarrow> c # drop_matches m 0 (is_check_word c) s)"

text \<open>\<open>'((?:[^']|'')*)'\<close>, past the opening quote: the longest body that a quote closes.\<close>

fun quoted_body :: "string \<Rightarrow> (string \<times> string) option" where
  "quoted_body [] = None"
| "quoted_body (c # s) =
     (if c \<noteq> CHR 0x27 then map_option (apfst ((#) c)) (quoted_body s)
      else case s of
             d # t \<Rightarrow>
               if d = CHR 0x27
               then (case quoted_body t of
                       Some (b, r) \<Rightarrow> Some (c # d # b, r)
                     | None \<Rightarrow> Some ([], s))
               else Some ([], s)
           | [] \<Rightarrow> Some ([], []))"

fun unquote_body :: "string \<Rightarrow> string" where
  "unquote_body [] = []"
| "unquote_body (c # s) =
     (if c = CHR 0x27 then
        (case s of
           d # t \<Rightarrow> if d = CHR 0x27 then c # unquote_body t else c # unquote_body s
         | [] \<Rightarrow> [c])
      else c # unquote_body s)"

fun literals_from :: "nat \<Rightarrow> string \<Rightarrow> string list" where
  "literals_from skip [] = []"
| "literals_from skip (c # s) =
     (if 0 < skip then literals_from (skip - 1) s
      else case if c = CHR 0x27 then quoted_body s else None of
             Some (b, r) \<Rightarrow> unquote_body b # literals_from (length s - length r) s
           | None \<Rightarrow> literals_from 0 s)"

text \<open>\<open>checkValues\<close> on one CHECK, and on the list.\<close>

definition values_of_check :: "string \<Rightarrow> string list" where
  "values_of_check chk =
     (let chk' = drop_matches match_not_in 0 False (drop_matches match_not_any 0 False chk) in
      case find_match False match_any False chk' of
        Some body \<Rightarrow> literals_from 0 body
      | None \<Rightarrow>
          (case find_match True match_in False chk' of
             Some body \<Rightarrow> literals_from 0 body
           | None \<Rightarrow> []))"

fun check_values_in :: "string list \<Rightarrow> string list" where
  "check_values_in [] = []"
| "check_values_in (chk # chks) =
     (if values_of_check chk \<noteq> [] then values_of_check chk else check_values_in chks)"

definition check_values :: "constraints \<Rightarrow> string list" where
  "check_values c = check_values_in (co_checks c)"

text \<open>\<open>reLenEq\<close>: the digits an exact-length CHECK compares with.\<close>

definition match_len_eq :: "string \<Rightarrow> (string \<times> string) option" where
  "match_len_eq s =
     Option.bind (case eat_word ''char_length'' s of
                    Some r \<Rightarrow> Some r
                  | None \<Rightarrow> (case eat_word ''length'' s of
                               Some r \<Rightarrow> Some r | None \<Rightarrow> eat_word ''octet_length'' s)) (\<lambda>r1.
     Option.bind (eat_parens r1) (\<lambda>(arg, r2).
     Option.bind (eat_next (CHR ''='') r2) (\<lambda>r3.
       (let ds = takeWhile is_digit (eat_spaces r3) in
        if ds = [] then None else Some (ds, dropWhile is_digit (eat_spaces r3))))))"

definition max_fit :: int where "max_fit = 32"

fun bounded_number :: "int \<Rightarrow> string \<Rightarrow> int" where
  "bounded_number n [] = n"
| "bounded_number n (r # s) =
     (let n' = n * 10 + int (digit_value r) in
      if max_fit * 32 < n' then 0 else bounded_number n' s)"

fun check_length_in :: "string list \<Rightarrow> int" where
  "check_length_in [] = 0"
| "check_length_in (chk # chks) =
     (case find_match True match_len_eq False chk of
        Some ds \<Rightarrow> bounded_number 0 ds
      | None \<Rightarrow> check_length_in chks)"

definition check_length :: "constraints \<Rightarrow> int" where
  "check_length c = check_length_in (co_checks c)"

definition labels :: "constraints \<Rightarrow> string list" where
  "labels c = (if co_enum_labels c \<noteq> [] then co_enum_labels c else check_values c)"

subsection \<open>How many values a column can hold\<close>

definition label_domain :: "constraints \<Rightarrow> int option" where
  "label_domain c = (if labels c = [] then None else Some (int (length (labels c))))"

definition small_domain_ceiling :: int where "small_domain_ceiling = 64"

definition small_domain :: "int \<Rightarrow> constraints \<Rightarrow> bool" where
  "small_domain d c =
     (if 0 < co_distinct c then d < 2 * co_distinct c
      else if labels c \<noteq> [] then True
      else d \<le> small_domain_ceiling)"

definition column_domain :: "constraints \<Rightarrow> int" where
  "column_domain c =
     (if labels c \<noteq> [] then int (length (labels c))
      else if co_tag c = fam_boolean then 2
      else if co_tag c = fam_integer then 4294967296
      else if co_tag c = fam_date then max_int64
      else if co_tag c \<in> set [fam_bytea, fam_bigint, fam_numeric, fam_float, fam_uuid, fam_inet,
          fam_cidr, fam_json, fam_jsonb, fam_hstore, fam_tsvector, fam_timestamp] then max_int64
      else if co_tag c = fam_macaddr then max_int64
      else if 0 < room c then sat_pow 95 (room c)
      else max_int64)"

definition epsilon_denominator :: int where "epsilon_denominator = 500000"

definition required :: "int \<Rightarrow> int" where
  "required rows = (if rows \<le> 0 then 0 else sat_mul (sat_mul rows rows) epsilon_denominator)"

end
