(* ===== verification/Mask_Stream.thy ===== *)
theory Mask_Stream
  imports Mask_Base
begin

text \<open>
  \<open>mask/stream.go\<close>: the draws a generator makes from its digest. The stream is SHA-256 in counter
  mode; the hash is a parameter, which the stream carries. \<open>intn\<close> rejects the draws that would
  bias it, a loop that is not bounded, so a draw that never returns is \<open>None\<close>.
\<close>

record stream =
  st_sha :: "bytes \<Rightarrow> bytes"
  st_h :: bytes
  st_buf :: bytes
  st_used :: nat
  st_ctr :: "32 word"

definition sha_size :: nat where "sha_size = 32"

definition new_stream :: "(bytes \<Rightarrow> bytes) \<Rightarrow> bytes \<Rightarrow> stream" where
  "new_stream sha h =
     \<lparr>st_sha = sha, st_h = h, st_buf = replicate sha_size 0, st_used = sha_size, st_ctr = 0\<rparr>"

text \<open>\<open>binary.BigEndian.PutUint32\<close> and \<open>Uint64\<close>.\<close>

definition put_uint32 :: "32 word \<Rightarrow> bytes" where
  "put_uint32 w = map (\<lambda>i. ucast (drop_bit i w)) [24, 16, 8, 0]"

definition get_uint64 :: "bytes \<Rightarrow> 64 word" where
  "get_uint64 b = foldl (\<lambda>w x. push_bit 8 w + ucast x) 0 b"

definition refill :: "stream \<Rightarrow> stream" where
  "refill s =
     s\<lparr>st_buf := st_sha s (st_h s @ put_uint32 (st_ctr s)), st_ctr := st_ctr s + 1, st_used := 0\<rparr>"

text \<open>\<open>read\<close>, a byte at a time: the buffer is refilled when it is used up.\<close>

fun read_bytes :: "nat \<Rightarrow> stream \<Rightarrow> bytes \<times> stream" where
  "read_bytes 0 s = ([], s)"
| "read_bytes (Suc n) s =
     (let s1 = (if st_used s = sha_size then refill s else s);
          b = st_buf s1 ! st_used s1;
          (bs, s2) = read_bytes n (s1\<lparr>st_used := Suc (st_used s1)\<rparr>)
      in (b # bs, s2))"

definition draw_uint64 :: "stream \<Rightarrow> 64 word \<times> stream" where
  "draw_uint64 s = apfst get_uint64 (read_bytes 8 s)"

subsection \<open>Draws\<close>

type_synonym 'a draw = "stream \<Rightarrow> ('a \<times> stream) option"

definition draw_return :: "'a \<Rightarrow> 'a draw" where
  "draw_return x s = Some (x, s)"

definition draw_bind :: "'a draw \<Rightarrow> ('a \<Rightarrow> 'b draw) \<Rightarrow> 'b draw" where
  "draw_bind m f s = (case m s of None \<Rightarrow> None | Some (x, s') \<Rightarrow> f x s')"

text \<open>The loop of \<open>intn\<close>: draws until one is at most the limit.\<close>

partial_function (option) draw_below :: "64 word \<Rightarrow> 64 word draw" where
  "draw_below limit s =
     (let (v, s') = draw_uint64 s in if v \<le> limit then Some (v, s') else draw_below limit s')"

declare draw_below.simps [code]

definition intn_limit :: "64 word \<Rightarrow> 64 word" where
  "intn_limit un = - 1 - (- 1 mod un) - 1"

definition intn :: "int \<Rightarrow> int draw" where
  "intn n =
     (if n \<le> 1 then draw_return 0
      else draw_bind (draw_below (intn_limit (of_int n)))
             (\<lambda>v. draw_return (uint (v mod of_int n))))"

text \<open>A symbol of an alphabet, and \<open>n\<close> of them.\<close>

definition draw_symbol :: "string \<Rightarrow> char draw" where
  "draw_symbol alphabet =
     draw_bind (intn (int (length alphabet))) (\<lambda>i. draw_return (alphabet ! nat i))"

fun draw_symbols :: "string \<Rightarrow> nat \<Rightarrow> string draw" where
  "draw_symbols alphabet 0 = draw_return []"
| "draw_symbols alphabet (Suc n) =
     draw_bind (draw_symbol alphabet) (\<lambda>c.
     draw_bind (draw_symbols alphabet n) (\<lambda>cs. draw_return (c # cs)))"

definition decimal_digits :: string where "decimal_digits = ''0123456789''"

definition digits :: "int \<Rightarrow> bool \<Rightarrow> string draw" where
  "digits n leading_zero =
     (if n \<le> 0 then draw_return []
      else if leading_zero then draw_symbols decimal_digits (nat n)
      else draw_bind (intn 9) (\<lambda>i.
           draw_bind (draw_symbols decimal_digits (nat n - 1)) (\<lambda>cs.
             draw_return (decimal_digits ! nat (1 + i) # cs))))"

definition b32_alphabet :: string where "b32_alphabet = ''abcdefghijklmnopqrstuvwxyz234567''"

definition base32 :: "int \<Rightarrow> string draw" where
  "base32 n = (if n \<le> 0 then draw_return [] else draw_symbols b32_alphabet (nat n))"

definition hex_alphabet :: string where "hex_alphabet = ''0123456789abcdef''"

definition hexdigits :: "int \<Rightarrow> string draw" where
  "hexdigits n = (if n \<le> 0 then draw_return [] else draw_symbols hex_alphabet (nat n))"

definition draw_bytes :: "nat \<Rightarrow> bytes draw" where
  "draw_bytes n s = Some (read_bytes n s)"

subsection \<open>What every draw satisfies\<close>

definition yields :: "'a draw \<Rightarrow> ('a \<Rightarrow> bool) \<Rightarrow> bool" where
  "yields m P \<longleftrightarrow> (\<forall>s x s'. m s = Some (x, s') \<longrightarrow> P x)"

named_theorems draws \<open>what a draw yields\<close>

lemma yieldsD: "yields m P \<Longrightarrow> m s = Some (x, s') \<Longrightarrow> P x"
  by (auto simp: yields_def)

lemma yields_weaken: "yields m P \<Longrightarrow> (\<And>x. P x \<Longrightarrow> Q x) \<Longrightarrow> yields m Q"
  by (auto simp: yields_def)

lemma yields_return [draws]: "P x \<Longrightarrow> yields (draw_return x) P"
  by (simp add: yields_def draw_return_def)

lemma yields_bind:
  "yields m P \<Longrightarrow> (\<And>x. P x \<Longrightarrow> yields (f x) Q) \<Longrightarrow> yields (draw_bind m f) Q"
  unfolding yields_def draw_bind_def by (fastforce split: option.splits)

lemma yields_intn [draws]:
  assumes "n \<le> max_int64"
  shows "yields (intn n) (\<lambda>i. 0 \<le> i \<and> (1 < n \<longrightarrow> i < n) \<and> (n \<le> 1 \<longrightarrow> i = 0))"
proof (cases "n \<le> 1")
  case True
  then show ?thesis by (simp add: intn_def yields_return)
next
  case False
  have "uint (v mod of_int n :: 64 word) < n" for v :: "64 word"
  proof -
    have "uint (of_int n :: 64 word) = n"
      using False assms by (simp add: max_int64_def uint_word_of_int_eq take_bit_int_eq_self)
    then show ?thesis using False pos_mod_bound [of n "uint v"] by (simp add: uint_mod)
  qed
  then have "yields (draw_bind m (\<lambda>v. draw_return (uint (v mod of_int n :: 64 word))))
      (\<lambda>i. 0 \<le> i \<and> (1 < n \<longrightarrow> i < n) \<and> (n \<le> 1 \<longrightarrow> i = 0))" for m :: "64 word draw"
    using False by (intro yields_bind [where P = "\<lambda>_. True"] yields_return) (auto simp: yields_def)
  then show ?thesis using False by (simp add: intn_def)
qed

lemma yields_intn_nat:
  assumes "0 < n" and "int n \<le> max_int64"
  shows "yields (intn (int n)) (\<lambda>i. 0 \<le> i \<and> nat i < n)"
  by (rule yields_weaken [OF yields_intn [OF assms(2)]]) (use assms(1) in auto)

lemma yields_draw_symbol:
  assumes "alphabet \<noteq> []" and "int (length alphabet) \<le> max_int64"
  shows "yields (draw_symbol alphabet) (\<lambda>c. c \<in> set alphabet)"
  unfolding draw_symbol_def
  using assms yields_intn_nat [of "length alphabet"]
  by (intro yields_bind [where P = "\<lambda>i. 0 \<le> i \<and> nat i < length alphabet"]) (auto intro: yields_return)

lemma yields_draw_symbols:
  assumes "alphabet \<noteq> []" and "int (length alphabet) \<le> max_int64"
  shows "yields (draw_symbols alphabet n) (\<lambda>s. length s = n \<and> set s \<subseteq> set alphabet)"
proof (induction n)
  case (Suc n)
  show ?case
    unfolding draw_symbols.simps
    by (rule yields_bind [OF yields_draw_symbol [OF assms]], rule yields_bind [OF Suc],
        rule yields_return) auto
qed (simp add: yields_return)

definition decimal :: "string \<Rightarrow> bool" where
  "decimal s \<longleftrightarrow> list_all is_digit s"

lemma decimal_alphabet: "set decimal_digits = {c. is_digit c}"
proof -
  have "is_digit c \<longleftrightarrow> of_char c \<in> {48..57 :: nat}" for c
    by (simp add: is_digit_def less_eq_char_def)
  then have "{c. is_digit c} = char_of ` {48..57 :: nat}" by (force simp: image_iff)
  moreover have "{48..57 :: nat} = set [48..<58]" by (simp only: set_upt) auto
  ultimately have "{c. is_digit c} = char_of ` set [48..<58 :: nat]" by simp
  also have "\<dots> = set decimal_digits" by code_simp
  finally show ?thesis by simp
qed

lemma yields_digits [draws]:
  "yields (digits n z) (\<lambda>s. int (length s) = max 0 n \<and> decimal s)"
proof -
  have symbols: "yields (draw_symbols decimal_digits k) (\<lambda>s. length s = k \<and> decimal s)" for k
  proof (rule yields_weaken [OF yields_draw_symbols])
    show "length s = k \<and> decimal s" if "length s = k \<and> set s \<subseteq> set decimal_digits" for s
      using that by (auto simp: decimal_def list_all_iff decimal_alphabet)
  qed (simp_all add: decimal_digits_def max_int64_def)
  have first: "is_digit (decimal_digits ! nat (1 + i))" if "0 \<le> i" "i < 9" for i
  proof -
    have "decimal_digits ! nat (1 + i) \<in> set decimal_digits"
      using that by (intro nth_mem) (simp add: decimal_digits_def)
    then show ?thesis by (simp add: decimal_alphabet)
  qed
  have "yields (draw_bind (intn 9) (\<lambda>i. draw_bind (draw_symbols decimal_digits (nat n - 1)) (\<lambda>cs.
             draw_return (decimal_digits ! nat (1 + i) # cs))))
      (\<lambda>s. int (length s) = max 0 n \<and> decimal s)" if "0 < n"
    using that
    by (intro yields_bind [OF yields_intn [of 9]] yields_bind [OF symbols] yields_return)
      (auto simp: max_int64_def decimal_def first)
  moreover have "yields (draw_symbols decimal_digits (nat n)) (\<lambda>s. int (length s) = max 0 n \<and> decimal s)"
    if "0 < n" by (rule yields_weaken [OF symbols]) (use that in auto)
  ultimately show ?thesis by (simp add: digits_def yields_return decimal_def)
qed

lemma yields_base32 [draws]:
  "yields (base32 n) (\<lambda>s. int (length s) = max 0 n \<and> set s \<subseteq> set b32_alphabet)"
proof -
  have "yields (draw_symbols b32_alphabet (nat n)) (\<lambda>s. int (length s) = max 0 n \<and> set s \<subseteq> set b32_alphabet)"
    if "0 < n"
    by (rule yields_weaken [OF yields_draw_symbols]) (use that in \<open>auto simp: b32_alphabet_def max_int64_def\<close>)
  then show ?thesis by (simp add: base32_def yields_return)
qed

lemma yields_hexdigits [draws]:
  "yields (hexdigits n) (\<lambda>s. int (length s) = max 0 n \<and> set s \<subseteq> set hex_alphabet)"
proof -
  have "yields (draw_symbols hex_alphabet (nat n)) (\<lambda>s. int (length s) = max 0 n \<and> set s \<subseteq> set hex_alphabet)"
    if "0 < n"
    by (rule yields_weaken [OF yields_draw_symbols]) (use that in \<open>auto simp: hex_alphabet_def max_int64_def\<close>)
  then show ?thesis by (simp add: hexdigits_def yields_return)
qed

lemma length_read_bytes: "length (fst (read_bytes n s)) = n"
  by (induction n s rule: read_bytes.induct) (simp_all add: Let_def split_beta)

lemma yields_draw_bytes [draws]: "yields (draw_bytes n) (\<lambda>b. length b = n)"
  using length_read_bytes [of n] by (auto simp: yields_def draw_bytes_def) (metis fst_conv)

end
