(* ===== verification/Mask_Words.thy ===== *)
theory Mask_Words
  imports Mask_Stream Mask_Corpus Stable_Sort
begin

text \<open>
  \<open>mask/words.go\<close>: the word lists a generator draws from, ordered by length so that the words
  that fit a budget are a prefix, the pairs of words that fit one, and the filler text of
  \<open>gen_text.go\<close>.
\<close>

text \<open>\<open>strings.Fields\<close>.\<close>

function split_fields :: "string \<Rightarrow> string list" where
  "split_fields s =
     (case dropWhile is_space s of
        [] \<Rightarrow> []
      | c # r \<Rightarrow> (c # takeWhile (\<lambda>d. \<not> is_space d) r) # split_fields (dropWhile (\<lambda>d. \<not> is_space d) r))"
  by pat_completeness auto
termination
proof (relation "measure length", goal_cases)
  case (2 s c r)
  have "length (c # r) \<le> length s" using 2 by (metis length_dropWhile_le)
  then show ?case using length_dropWhile_le [of "\<lambda>d. \<not> is_space d" r] by simp
qed simp

declare split_fields.simps [simp del]

record word_list =
  wl_words :: "string list"
  wl_fit :: "nat list"

definition word_before :: "string \<Rightarrow> string \<Rightarrow> bool" where
  "word_before x y = (if length x \<noteq> length y then length x < length y else x < y)"

definition new_word_list :: "string \<Rightarrow> word_list" where
  "new_word_list s =
     (let ws = sort_by word_before (split_fields s) in
      \<lparr>wl_words = ws, wl_fit = map (\<lambda>m. length (filter (\<lambda>x. length x \<le> m) ws)) [0..<33]\<rparr>)"

definition word_count :: "word_list \<Rightarrow> int \<Rightarrow> int" where
  "word_count w budget =
     (if budget < 0 then 0
      else if budget = 0 \<or> max_fit < budget then int (length (wl_words w))
      else int (wl_fit w ! nat budget))"

definition longest_word :: "word_list \<Rightarrow> int" where
  "longest_word w = int (length (last (wl_words w)))"

definition shortest_word :: "word_list \<Rightarrow> int" where
  "shortest_word w = int (length (hd (wl_words w)))"

definition given_names :: word_list where "given_names = new_word_list census_given_words"
definition surnames :: word_list where "surnames = new_word_list census_surname_words"
definition streets :: word_list where "streets = new_word_list street_words"
definition suffixes :: word_list where "suffixes = new_word_list suffix_words"
definition fillers :: word_list where "fillers = new_word_list filler_words"

definition without_words :: "string \<Rightarrow> string \<Rightarrow> string" where
  "without_words ws dropped = join '' '' (filter (\<lambda>w. w \<notin> set (split_fields dropped)) (split_fields ws))"

definition fitted_fillers :: word_list where
  "fitted_fillers = new_word_list (without_words filler_words filler_state_words)"

fun split_threes :: "string \<Rightarrow> string list" where
  "split_threes (a # b # c # s) = [a, b, c] # split_threes s"
| "split_threes s = []"

definition area_codes :: "string list" where "area_codes = split_threes nanp_area_codes"

definition email_hosts :: "string list" where
  "email_hosts = [''example.com'', ''example.net'', ''example.org'']"

definition doc_prefixes :: "string list" where
  "doc_prefixes = [''192.0.2.'', ''198.51.100.'', ''203.0.113.'']"

subsection \<open>Pairs\<close>

fun pair_total :: "word_list \<Rightarrow> int \<Rightarrow> int \<Rightarrow> string list \<Rightarrow> int" where
  "pair_total b sep budget [] = 0"
| "pair_total b sep budget (x # xs) =
     (let r = budget - sep - int (length x) in
      if r < shortest_word b then 0 else word_count b r + pair_total b sep budget xs)"

definition pair_wide :: "word_list \<Rightarrow> word_list \<Rightarrow> int \<Rightarrow> int \<Rightarrow> bool" where
  "pair_wide a b sep budget \<longleftrightarrow> budget = 0 \<or> longest_word a + sep + longest_word b \<le> budget"

definition pair_count :: "word_list \<Rightarrow> word_list \<Rightarrow> int \<Rightarrow> int \<Rightarrow> int" where
  "pair_count a b sep budget =
     (if budget < 0 then 0
      else if pair_wide a b sep budget
      then int (length (wl_words a)) * int (length (wl_words b))
      else pair_total b sep budget (wl_words a))"

fun pair_pick ::
  "word_list \<Rightarrow> int \<Rightarrow> int \<Rightarrow> int \<Rightarrow> string list \<Rightarrow> (string \<times> string) option" where
  "pair_pick b sep budget n [] = None"
| "pair_pick b sep budget n (x # xs) =
     (let r = budget - sep - int (length x) in
      if r < shortest_word b then None
      else if n < word_count b r then Some (x, wl_words b ! nat n)
      else pair_pick b sep budget (n - word_count b r) xs)"

definition pair_at :: "word_list \<Rightarrow> word_list \<Rightarrow> int \<Rightarrow> int \<Rightarrow> int \<Rightarrow> string \<times> string" where
  "pair_at a b sep budget n =
     (if pair_wide a b sep budget
      then let wide = int (length (wl_words b))
           in (wl_words a ! nat (n div wide), wl_words b ! nat (n mod wide))
      else case pair_pick b sep budget n (wl_words a) of
             Some p \<Rightarrow> p
           | None \<Rightarrow> (wl_words a ! 0, wl_words b ! 0))"

subsection \<open>Word lists are ordered by length\<close>

definition word_list_ok :: "word_list \<Rightarrow> bool" where
  "word_list_ok w \<longleftrightarrow>
     wl_words w \<noteq> [] \<and> [] \<notin> set (wl_words w)
     \<and> length (wl_words w) \<le> 400000
     \<and> (\<forall>x \<in> set (wl_words w). int (length x) \<le> max_fit)
     \<and> sorted_wrt (\<lambda>x y. length x \<le> length y) (wl_words w)
     \<and> wl_fit w = map (\<lambda>m. length (filter (\<lambda>x. length x \<le> m) (wl_words w))) [0..<33]"

lemma word_before_asym: "word_before x y \<Longrightarrow> \<not> word_before y x"
  by (auto simp: word_before_def split: if_splits)

lemma word_before_weak: "word_before x z \<Longrightarrow> word_before x y \<or> word_before y z"
  by (auto simp: word_before_def split: if_splits)

lemma sorted_by_length: "sorted_wrt (\<lambda>x y. length x \<le> length y) (sort_by word_before ws)"
proof -
  have "sorted_wrt (\<lambda>x y. \<not> word_before y x) (sort_by word_before ws)"
    by (rule sort_by_sorted [OF word_before_weak word_before_asym])
  then show ?thesis
    by (rule sorted_wrt_mono_rel [rotated]) (auto simp: word_before_def split: if_splits)
qed

lemma split_fields_none: "dropWhile is_space s = [] \<Longrightarrow> split_fields s = []"
  by (subst split_fields.simps) (simp only: list.case)

lemma split_fields_some:
  "dropWhile is_space s = c # r \<Longrightarrow>
     split_fields s = (c # takeWhile (\<lambda>d. \<not> is_space d) r) # split_fields (dropWhile (\<lambda>d. \<not> is_space d) r)"
  by (subst split_fields.simps) (simp only: list.case)

lemma split_fields_not_empty: "w \<in> set (split_fields s) \<Longrightarrow> w \<noteq> []"
proof (induction s rule: split_fields.induct)
  case (1 s)
  show ?case
  proof (cases "dropWhile is_space s")
    case (Cons c r)
    then show ?thesis using 1(1) [OF Cons] 1(2) unfolding split_fields_some [OF Cons] by auto
  qed (use 1(2) split_fields_none in auto)
qed

lemma split_fields_eq_Nil: "split_fields s = [] \<longleftrightarrow> list_all is_space s"
proof -
  have "dropWhile is_space s = [] \<longleftrightarrow> list_all is_space s" by (simp add: list_all_iff dropWhile_eq_Nil_conv)
  moreover have "split_fields s = [] \<longleftrightarrow> dropWhile is_space s = []"
  proof (cases "dropWhile is_space s")
    case Nil
    show ?thesis unfolding split_fields_none [OF Nil] Nil by blast
  next
    case (Cons c r)
    show ?thesis unfolding split_fields_some [OF Cons] Cons by (simp only: list.distinct)
  qed
  ultimately show ?thesis by (simp only:)
qed

lemma length_split_fields: "length (split_fields s) \<le> length s"
proof (induction s rule: split_fields.induct)
  case (1 s)
  show ?case
  proof (cases "dropWhile is_space s")
    case Nil
    then show ?thesis unfolding split_fields_none [OF Nil] by simp
  next
    case (Cons c r)
    have "length (c # r) \<le> length s" using length_dropWhile_le [of is_space s] unfolding Cons .
    then show ?thesis
      using 1 [OF Cons] length_dropWhile_le [of "\<lambda>d. \<not> is_space d" r]
      unfolding split_fields_some [OF Cons] by simp
  qed
qed

text \<open>No run between blanks is longer than \<open>n\<close>; a scan that compares with the blank alone.\<close>

fun gaps_ok :: "nat \<Rightarrow> nat \<Rightarrow> string \<Rightarrow> bool" where
  "gaps_ok m n [] = True"
| "gaps_ok m n (c # s) =
     (if c = CHR '' '' then gaps_ok m m s
      else case n of 0 \<Rightarrow> False | Suc k \<Rightarrow> gaps_ok m k s)"

lemma gaps_ok_mono: "gaps_ok m n s \<Longrightarrow> n \<le> k \<Longrightarrow> gaps_ok m k s"
  by (induction s arbitrary: n k) (auto split: if_splits nat.splits)

lemma gaps_ok_run:
  assumes "gaps_ok m n s" and "n \<le> m"
  shows "length (takeWhile (\<lambda>c. \<not> is_space c) s) \<le> n"
    and "gaps_ok m m (dropWhile (\<lambda>c. \<not> is_space c) s)"
proof -
  have "length (takeWhile (\<lambda>c. \<not> is_space c) s) \<le> n \<and> gaps_ok m m (dropWhile (\<lambda>c. \<not> is_space c) s)"
    using assms
  proof (induction s arbitrary: n)
    case (Cons c s)
    show ?case
    proof (cases "is_space c")
      case True
      then show ?thesis using gaps_ok_mono [OF Cons.prems] by simp
    next
      case False
      then have "c \<noteq> CHR '' ''" by (auto simp: is_space_def)
      then obtain k where "n = Suc k" "gaps_ok m k s" using Cons.prems by (cases n) auto
      then show ?thesis using Cons.IH [of k] Cons.prems(2) False by simp
    qed
  qed simp
  then show "length (takeWhile (\<lambda>c. \<not> is_space c) s) \<le> n"
    and "gaps_ok m m (dropWhile (\<lambda>c. \<not> is_space c) s)" by simp_all
qed

lemma gaps_ok_tail: "gaps_ok m m (c # s) \<Longrightarrow> gaps_ok m m s"
  using gaps_ok_mono [of m _ s m] by (cases m) (auto split: if_splits)

lemma gaps_ok_blank: "gaps_ok m m s \<Longrightarrow> gaps_ok m m (dropWhile is_space s)"
  by (induction s) (auto dest: gaps_ok_tail simp del: gaps_ok.simps(2))

lemma gaps_ok_fields:
  assumes "gaps_ok m m s" and "w \<in> set (split_fields s)"
  shows "length w \<le> m"
  using assms
proof (induction s rule: split_fields.induct)
  case (1 s)
  show ?case
  proof (cases "dropWhile is_space s")
    case Nil
    then show ?thesis using 1(3) unfolding split_fields_none [OF Nil] by simp
  next
    case (Cons c r)
    have c: "\<not> is_space c" using Cons by (metis hd_dropWhile list.distinct(1) list.sel(1))
    have g: "gaps_ok m m (c # r)" using gaps_ok_blank [OF 1(2)] unfolding Cons .
    have run: "length (c # takeWhile (\<lambda>d. \<not> is_space d) r) \<le> m"
      and rest: "gaps_ok m m (dropWhile (\<lambda>d. \<not> is_space d) r)"
      using gaps_ok_run [OF g] c by (simp_all del: gaps_ok.simps)
    from 1(3) consider "w = c # takeWhile (\<lambda>d. \<not> is_space d) r"
      | "w \<in> set (split_fields (dropWhile (\<lambda>d. \<not> is_space d) r))"
      unfolding split_fields_some [OF Cons] by auto
    then show ?thesis
    proof cases
      case 1
      then show ?thesis using run by (simp only:)
    next
      case 2
      then show ?thesis using 1(1) [OF Cons rest] by (simp only:)
    qed
  qed
qed

lemma new_word_list_ok:
  assumes "gaps_ok 32 32 s" and "\<not> list_all is_space s" and "length s \<le> 400000"
  shows "word_list_ok (new_word_list s)"
proof -
  let ?w = "sort_by word_before (split_fields s)"
  have "length ?w \<le> 400000" using length_split_fields [of s] assms(3) by simp
  moreover have "int (length x) \<le> max_fit" if "x \<in> set ?w" for x
    using gaps_ok_fields [OF assms(1), of x] that by (simp add: max_fit_def)
  moreover have "[] \<notin> set ?w" using split_fields_not_empty by fastforce
  moreover have "?w \<noteq> []" using assms(2) by (simp add: split_fields_eq_Nil)
  ultimately show ?thesis
    using sorted_by_length [of "split_fields s"]
    unfolding word_list_ok_def new_word_list_def Let_def by simp
qed

text \<open>The blanks as a list, so that a concrete word is decided by comparing characters.\<close>

lemma is_space_iff: "is_space c \<longleftrightarrow> c \<in> set [CHR '' '', CHR 0x09, CHR 0x0A, CHR 0x0B, CHR 0x0C, CHR 0x0D]"
proof -
  have "is_space c \<longleftrightarrow> c = CHR '' '' \<or> of_char c \<in> {9..13 :: nat}"
    by (simp add: is_space_def less_eq_char_def)
  also have "of_char c \<in> {9..13 :: nat} \<longleftrightarrow> c \<in> char_of ` {9..13 :: nat}" by (force simp: image_iff)
  also have "{9..13 :: nat} = set [9..<14]" by (simp only: set_upt) auto
  also have "char_of ` set [9..<14 :: nat] = set [CHR 0x09, CHR 0x0A, CHR 0x0B, CHR 0x0C, CHR 0x0D]" by code_simp
  finally show ?thesis by simp
qed

text \<open>The lists are joined words, none longer than 32 bytes.\<close>

lemma gaps_ok_append: "length w \<le> n \<Longrightarrow> n \<le> m \<Longrightarrow> gaps_ok m 0 s \<Longrightarrow> gaps_ok m n (w @ s)"
proof (induction w arbitrary: n)
  case Nil
  then show ?case by (auto intro: gaps_ok_mono)
next
  case (Cons c w)
  then obtain k where k: "n = Suc k" "length w \<le> k" by (cases n) auto
  then have "gaps_ok m k (w @ s)" using Cons by simp
  then show ?case using k Cons.prems(2) gaps_ok_mono [of m k "w @ s" m] by simp
qed

lemma gaps_ok_join: "list_all (\<lambda>w. length w \<le> m) ws \<Longrightarrow> gaps_ok m m (join '' '' ws)"
proof (induction "'' ''" ws rule: join.induct [case_names Nil One Two])
  case (One w)
  then show ?case using gaps_ok_append [of w m m "[]"] by simp
next
  case (Two w v ws)
  then have "gaps_ok m 0 (CHR '' '' # join '' '' (v # ws))" by simp
  then show ?case using Two.prems gaps_ok_append [of w m m "CHR '' '' # join '' '' (v # ws)"] by simp
qed simp

lemma length_join: "list_all (\<lambda>w. length w \<le> m) ws \<Longrightarrow> length (join '' '' ws) \<le> Suc m * length ws"
  by (induction "'' ''" ws rule: join.induct) auto

lemma joined_words_ok:
  assumes "list_all (\<lambda>w. length w \<le> 32) (w # ws)" and "length (w # ws) \<le> 10000"
    and "w = c # u" and "\<not> is_space c"
  shows "word_list_ok (new_word_list (join '' '' (w # ws)))"
proof (rule new_word_list_ok)
  show "gaps_ok 32 32 (join '' '' (w # ws))" using assms(1) by (rule gaps_ok_join)
  have "length (join '' '' (w # ws)) \<le> 33 * length (w # ws)" using length_join [OF assms(1)] by simp
  then show "length (join '' '' (w # ws)) \<le> 400000" using assms(2) by simp
  show "\<not> list_all is_space (join '' '' (w # ws))" using assms(3, 4) by (cases ws) simp_all
qed

lemma given_names_ok: "word_list_ok given_names"
  unfolding given_names_def census_given_words_def
  by (rule joined_words_ok, simp, simp, rule refl, simp add: is_space_iff)

lemma surnames_ok: "word_list_ok surnames"
  unfolding surnames_def census_surname_words_def
  by (rule joined_words_ok, simp, simp, rule refl, simp add: is_space_iff)

lemma streets_ok: "word_list_ok streets"
  unfolding streets_def street_words_def
  by (rule joined_words_ok, simp, simp, rule refl, simp add: is_space_iff)

lemma suffixes_ok: "word_list_ok suffixes"
  unfolding suffixes_def suffix_words_def
  by (rule joined_words_ok, simp, simp, rule refl, simp add: is_space_iff)

lemma fillers_ok: "word_list_ok fillers"
  unfolding fillers_def filler_words_def
  by (rule joined_words_ok, simp, simp, rule refl, simp add: is_space_iff)

lemma split_fields_word:
  assumes "list_all (\<lambda>c. \<not> is_space c) w" and "w \<noteq> []"
  shows "split_fields (w @ CHR '' '' # s) = w # split_fields (CHR '' '' # s)"
proof -
  obtain c u where w: "w = c # u" using assms(2) by (cases w) auto
  have d: "dropWhile is_space (w @ CHR '' '' # s) = c # u @ CHR '' '' # s" using assms(1) w by simp
  have u: "\<forall>c \<in> set u. \<not> is_space c" using assms(1) w by (simp add: list_all_iff)
  have b: "is_space CHR '' ''" by (simp add: is_space_iff)
  show ?thesis
    unfolding split_fields_some [OF d] using u b w by (simp add: takeWhile_append dropWhile_append)
qed

lemma split_fields_last:
  assumes "list_all (\<lambda>c. \<not> is_space c) w" and "w \<noteq> []"
  shows "split_fields w = [w]"
proof -
  obtain c u where w: "w = c # u" using assms(2) by (cases w) auto
  have d: "dropWhile is_space w = c # u" using assms(1) w by simp
  have u: "takeWhile (\<lambda>c. \<not> is_space c) u = u" "dropWhile (\<lambda>c. \<not> is_space c) u = []"
    using assms(1) w by (simp_all add: list_all_iff takeWhile_eq_all_conv)
  have "split_fields [] = []" by (simp add: split_fields_none)
  then show ?thesis unfolding split_fields_some [OF d] u using w by simp
qed

lemma split_fields_skip: "split_fields (CHR '' '' # s) = split_fields s"
proof -
  have "dropWhile is_space (CHR '' '' # s) = dropWhile is_space s" by (simp add: is_space_def)
  then show ?thesis by (subst (1 2) split_fields.simps) (simp only:)
qed

lemma split_fields_join:
  "list_all (\<lambda>w. w \<noteq> [] \<and> list_all (\<lambda>c. \<not> is_space c) w) ws \<Longrightarrow> split_fields (join '' '' ws) = ws"
proof (induction "'' ''" ws rule: join.induct [case_names Nil One Two])
  case Nil
  show ?case by (simp add: split_fields_none)
next
  case (One w)
  then show ?case using split_fields_last by simp
next
  case (Two w v ws)
  then have "split_fields (w @ CHR '' '' # join '' '' (v # ws)) = w # split_fields (join '' '' (v # ws))"
    using split_fields_word [of w] split_fields_skip by simp
  then show ?case using Two by simp
qed

lemma kept_words_ok:
  assumes "list_all (\<lambda>w. w \<noteq> [] \<and> list_all (\<lambda>c. \<not> is_space c) w \<and> length w \<le> 32) ws"
    and "length ws \<le> 10000" and "v \<in> set ws" and "P v"
  shows "word_list_ok (new_word_list (join '' '' (filter P ws)))"
proof -
  obtain w us where k: "filter P ws = w # us" using assms(3, 4) by (cases "filter P ws") (auto simp: filter_empty_conv)
  then have "w \<in> set (filter P ws)" by simp
  then have "w \<in> set ws" by simp
  then have "w \<noteq> []" "list_all (\<lambda>c. \<not> is_space c) w" using assms(1) by (auto simp: list_all_iff)
  then obtain c u where w: "w = c # u" "\<not> is_space c" by (cases w) auto
  have "set (w # us) \<subseteq> set ws" using k by (metis filter_is_subset)
  then have "list_all (\<lambda>w. length w \<le> 32) (w # us)" using assms(1) by (auto simp: list_all_iff)
  moreover have "length (w # us) \<le> 10000" using assms(2) length_filter_le [of P ws] k by simp
  ultimately show ?thesis unfolding k using w by (intro joined_words_ok)
qed

lemma fitted_fillers_ok: "word_list_ok fitted_fillers"
proof -
  have dropped: "split_fields filler_state_words
      = [''default'', ''input'', ''level'', ''output'', ''session'', ''stage'', ''system'', ''token'',
         ''trace'', ''value'']"
    unfolding filler_state_words_def by (subst split_fields_join) (simp_all add: is_space_iff)
  show ?thesis
    unfolding fitted_fillers_def without_words_def dropped filler_words_def
    by (subst split_fields_join; (rule kept_words_ok [where v = "''aggregate''"])?)
      (simp_all add: is_space_iff)
qed

subsection \<open>What a list gives fits the budget\<close>

lemma prefix_fits:
  assumes "sorted_wrt (\<lambda>x y. length x \<le> length y) ws"
    and "i < length (filter (\<lambda>x. length x \<le> m) ws)"
  shows "length (ws ! i) \<le> m"
  using assms
proof (induction ws arbitrary: i)
  case (Cons w ws)
  show ?case
  proof (cases "length w \<le> m")
    case True
    then show ?thesis using Cons by (cases i) auto
  next
    case False
    then have "filter (\<lambda>x. length x \<le> m) ws = []" using Cons.prems(1) by (auto simp: filter_empty_conv)
    then show ?thesis using Cons.prems(2) False by simp
  qed
qed simp

lemma word_fit_nth:
  assumes "word_list_ok w" and "0 \<le> b" and "b \<le> max_fit"
  shows "wl_fit w ! nat b = length (filter (\<lambda>x. length x \<le> nat b) (wl_words w))"
proof -
  have "nat b < 33" using assms(2, 3) by (simp add: max_fit_def)
  then show ?thesis using assms(1) by (simp add: word_list_ok_def del: upt_Suc)
qed

lemma word_count_range:
  assumes "word_list_ok w"
  shows "0 \<le> word_count w b" and "word_count w b \<le> int (length (wl_words w))"
  using word_fit_nth [OF assms, of b] by (auto simp: word_count_def not_le not_less)

lemma word_count_fits:
  assumes ok: "word_list_ok w" and i: "0 \<le> i" "i < word_count w b"
  shows "wl_words w ! nat i \<in> set (wl_words w)"
    and "0 < b \<Longrightarrow> int (length (wl_words w ! nat i)) \<le> b"
proof -
  have lt: "nat i < length (wl_words w)" using word_count_range(2) [OF ok, of b] i by linarith
  then show m: "wl_words w ! nat i \<in> set (wl_words w)" by (rule nth_mem)
  show "int (length (wl_words w ! nat i)) \<le> b" if b: "0 < b"
  proof (cases "max_fit < b")
    case True
    then show ?thesis using ok m by (fastforce simp: word_list_ok_def)
  next
    case False
    then have "nat i < length (filter (\<lambda>x. length x \<le> nat b) (wl_words w))"
      using word_fit_nth [OF ok, of b] i b by (simp add: word_count_def nat_less_iff)
    then have "length (wl_words w ! nat i) \<le> nat b"
      using ok by (intro prefix_fits) (simp_all add: word_list_ok_def)
    then show ?thesis using b by linarith
  qed
qed

lemma longest_word_bound:
  assumes "word_list_ok w" and "x \<in> set (wl_words w)"
  shows "int (length x) \<le> longest_word w"
proof -
  have s: "sorted_wrt (\<lambda>x y. length x \<le> length y) (wl_words w)" "wl_words w \<noteq> []"
    using assms(1) by (simp_all add: word_list_ok_def)
  obtain i where i: "i < length (wl_words w)" "wl_words w ! i = x"
    using assms(2) by (auto simp: in_set_conv_nth)
  have "length x \<le> length (last (wl_words w))"
  proof (cases "i = length (wl_words w) - 1")
    case True
    then show ?thesis using i s(2) by (simp add: last_conv_nth)
  next
    case False
    then have "i < length (wl_words w) - 1" "length (wl_words w) - 1 < length (wl_words w)" using i by auto
    from sorted_wrt_nth_less [OF s(1) this] show ?thesis using i(2) s(2) by (simp add: last_conv_nth)
  qed
  then show ?thesis by (simp add: longest_word_def)
qed

lemma shortest_word_pos: "word_list_ok w \<Longrightarrow> 0 < shortest_word w"
  by (cases "wl_words w") (auto simp: word_list_ok_def shortest_word_def)

definition pair_fits :: "word_list \<Rightarrow> word_list \<Rightarrow> int \<Rightarrow> int \<Rightarrow> string \<times> string \<Rightarrow> bool" where
  "pair_fits a b sep budget p \<longleftrightarrow>
     fst p \<in> set (wl_words a) \<and> snd p \<in> set (wl_words b)
     \<and> (0 < budget \<longrightarrow> int (length (fst p)) + sep + int (length (snd p)) \<le> budget)"

lemma pair_pick_fits:
  assumes b: "word_list_ok b" and "0 \<le> n" and "n < pair_total b sep budget xs"
  shows "\<exists>x y. pair_pick b sep budget n xs = Some (x, y) \<and> x \<in> set xs \<and> y \<in> set (wl_words b)
    \<and> int (length x) + sep + int (length y) \<le> budget"
  using assms(2, 3)
proof (induction xs arbitrary: n)
  case (Cons x xs)
  let ?r = "budget - sep - int (length x)"
  have r: "shortest_word b \<le> ?r" using Cons.prems by (auto simp: Let_def split: if_splits)
  then have "0 < ?r" using shortest_word_pos [OF b] by simp
  show ?case
  proof (cases "n < word_count b ?r")
    case True
    then show ?thesis
      using word_count_fits [OF b Cons.prems(1) True] \<open>0 < ?r\<close> r by (simp add: Let_def)
  next
    case False
    then have "\<exists>u y. pair_pick b sep budget (n - word_count b ?r) xs = Some (u, y) \<and> u \<in> set xs
        \<and> y \<in> set (wl_words b) \<and> int (length u) + sep + int (length y) \<le> budget"
      using Cons.prems r by (intro Cons.IH) (simp_all add: Let_def)
    then show ?thesis using False r by (auto simp: Let_def)
  qed
qed simp

lemma pair_at_fits:
  assumes a: "word_list_ok a" and b: "word_list_ok b" and n: "0 \<le> n" "n < pair_count a b sep budget"
  shows "pair_fits a b sep budget (pair_at a b sep budget n)"
proof (cases "pair_wide a b sep budget")
  case True
  let ?wide = "int (length (wl_words b))"
  have budget: "0 \<le> budget" using n by (simp add: pair_count_def split: if_splits)
  then have "n < int (length (wl_words a)) * ?wide" using n True by (simp add: pair_count_def)
  moreover have wide: "0 < ?wide" using b by (simp add: word_list_ok_def)
  moreover have "(n div ?wide) * ?wide \<le> n"
    using div_mult_mod_eq [of n ?wide] pos_mod_sign [OF wide, of n] by linarith
  ultimately have "(n div ?wide) * ?wide < int (length (wl_words a)) * ?wide" by linarith
  then have "n div ?wide < int (length (wl_words a))" using wide by simp
  then have "nat (n div ?wide) < length (wl_words a)" "nat (n mod ?wide) < length (wl_words b)"
    using n(1) wide by (simp_all add: pos_imp_zdiv_nonneg_iff nat_less_iff)
  then have "wl_words a ! nat (n div ?wide) \<in> set (wl_words a)"
    "wl_words b ! nat (n mod ?wide) \<in> set (wl_words b)" by simp_all
  then show ?thesis
    using longest_word_bound [OF a] longest_word_bound [OF b] True
    by (fastforce simp: pair_fits_def pair_at_def pair_wide_def Let_def)
next
  case False
  then have "n < pair_total b sep budget (wl_words a)"
    using n by (simp add: pair_count_def split: if_splits)
  from pair_pick_fits [OF b n(1) this] False show ?thesis
    by (auto simp: pair_fits_def pair_at_def)
qed

lemma pair_total_bound:
  assumes "word_list_ok b"
  shows "0 \<le> pair_total b sep budget xs"
    and "pair_total b sep budget xs \<le> int (length xs) * int (length (wl_words b))"
  using word_count_range [OF assms]
  by (induction xs) (auto simp: Let_def distrib_right intro!: add_mono mult_nonneg_nonneg)

lemma pair_count_bound:
  assumes "word_list_ok a" and "word_list_ok b"
  shows "0 \<le> pair_count a b sep budget" and "pair_count a b sep budget \<le> max_int64"
proof -
  have "int (length (wl_words a)) * int (length (wl_words b)) \<le> 400000 * 400000"
    using assms by (intro mult_mono) (simp_all add: word_list_ok_def)
  then show "0 \<le> pair_count a b sep budget" "pair_count a b sep budget \<le> max_int64"
    using pair_total_bound [OF assms(2), of sep budget "wl_words a"]
    by (simp_all add: pair_count_def max_int64_def)
qed

end
