(* ===== verification/Mask_Gen.thy ===== *)
theory Mask_Gen
  imports Mask_Words Regex
begin

text \<open>
  The generators of the \<open>mask\<close> module: \<open>gen_email.go\<close>, \<open>gen_number.go\<close>, \<open>gen_phone.go\<close>,
  \<open>gen_text.go\<close>, \<open>gen_net.go\<close>, \<open>gen_credential.go\<close>, \<open>gen_fixed.go\<close> and \<open>gen_derived.go\<close>. Each has a
  \<open>Domain\<close>, how many values it can emit under a column's constraints, and a draw, what it emits.
  What is not the module's own is a parameter: the hash, Unicode folding, \<open>net/netip\<close> and
  \<open>encoding/json\<close>.
\<close>

text \<open>A decoded document, with the members of an object in the order of their names.\<close>

datatype json =
    JNull
  | JBool bool
  | JNumber string
  | JString string
  | JArray "json list"
  | JObject "(string \<times> json) list"

text \<open>\<open>lb_runes\<close> is the length of the folded text in runes, \<open>lb_v6\<close> whether a text is an IPv6
  address or prefix that is no mapped IPv4 one.\<close>

record mask_lib =
  lb_sha :: "bytes \<Rightarrow> bytes"
  lb_fold :: "string \<Rightarrow> string"
  lb_runes :: "string \<Rightarrow> int"
  lb_v6 :: "string \<Rightarrow> bool"
  lb_decode :: "string \<Rightarrow> json option"
  lb_encode :: "json \<Rightarrow> string option"

type_synonym masked = "mask_error + mask_value"

definition emit :: "string \<Rightarrow> masked draw" where
  "emit s = draw_return (Inr (text_value s))"

definition refuse_draw :: "masked draw" where
  "refuse_draw = draw_return (Inl ErrNoRoom)"

text \<open>\<open>labelDomain\<close> and \<open>labelValue\<close> in front of a generator.\<close>

definition with_label_domain :: "constraints \<Rightarrow> int \<Rightarrow> int" where
  "with_label_domain c d = (case label_domain c of Some n \<Rightarrow> n | None \<Rightarrow> d)"

definition with_labels :: "constraints \<Rightarrow> masked draw \<Rightarrow> masked draw" where
  "with_labels c d =
     (if labels c = [] then d
      else draw_bind (intn (int (length (labels c)))) (\<lambda>i. emit (labels c ! nat i)))"

definition title_ascii :: "string \<Rightarrow> string" where
  "title_ascii s = (case s of [] \<Rightarrow> [] | c # r \<Rightarrow> upper_char c # r)"

subsection \<open>Email\<close>

definition host_len :: int where "host_len = 12"
definition unique_suffix :: int where "unique_suffix = 13"
definition plain_suffix :: int where "plain_suffix = 8"

definition fit_budget :: "int \<Rightarrow> int \<Rightarrow> int" where
  "fit_budget b k = (if b \<le> 0 then 0 else if b - k < 1 then -1 else b - k)"

record email_shape =
  es_ok :: bool
  es_names :: bool
  es_budget :: int
  es_suffix :: int

definition no_email :: email_shape where
  "no_email = \<lparr>es_ok = False, es_names = False, es_budget = 0, es_suffix = 0\<rparr>"

definition email_shape_in :: "constraints \<Rightarrow> int \<Rightarrow> email_shape" where
  "email_shape_in c loc =
     (if co_unique c then
        (let nb = fit_budget loc (1 + unique_suffix) in
         if 0 < pair_count given_names surnames 1 nb
         then \<lparr>es_ok = True, es_names = True, es_budget = nb, es_suffix = unique_suffix\<rparr>
         else let s = (if 0 < loc then min unique_suffix loc else unique_suffix)
              in \<lparr>es_ok = 0 < s, es_names = False, es_budget = 0, es_suffix = s\<rparr>)
      else if 0 < pair_count given_names surnames 1 loc
      then \<lparr>es_ok = True, es_names = True, es_budget = loc, es_suffix = 0\<rparr>
      else let s = (if 0 < loc then min plain_suffix loc else plain_suffix)
           in \<lparr>es_ok = 0 < s, es_names = False, es_budget = 0, es_suffix = s\<rparr>)"

definition email_shape_for :: "constraints \<Rightarrow> email_shape" where
  "email_shape_for c =
     (if 0 < co_max_len c
      then if co_max_len c - host_len < 1 then no_email
           else email_shape_in c (co_max_len c - host_len)
      else email_shape_in c 0)"

definition email_domain :: "constraints \<Rightarrow> int" where
  "email_domain c = with_label_domain c
     (let sh = email_shape_for c in
      if \<not> es_ok sh then 0
      else let n = int (length email_hosts);
               n = (if es_names sh
                    then sat_mul n (pair_count given_names surnames 1 (es_budget sh)) else n)
           in if 0 < es_suffix sh
              then sat_mul n (sat_pow (int (length b32_alphabet)) (es_suffix sh)) else n)"

definition email_names :: "email_shape \<Rightarrow> string draw" where
  "email_names sh =
     (if es_names sh then
        draw_bind (intn (pair_count given_names surnames 1 (es_budget sh))) (\<lambda>n.
          draw_return (case pair_at given_names surnames 1 (es_budget sh) n of
                         (g, sn) \<Rightarrow> g @ ''.'' @ sn))
      else draw_return [])"

definition email_tail :: "email_shape \<Rightarrow> string \<Rightarrow> string draw" where
  "email_tail sh local =
     (if 0 < es_suffix sh then
        draw_bind (base32 (es_suffix sh)) (\<lambda>b.
          draw_return ((if local \<noteq> [] then local @ ''.'' else local) @ b))
      else draw_return local)"

definition email_mask :: "constraints \<Rightarrow> masked draw" where
  "email_mask c = with_labels c
     (let sh = email_shape_for c in
      if \<not> es_ok sh then refuse_draw
      else draw_bind (intn (int (length email_hosts))) (\<lambda>h.
           draw_bind (email_names sh) (\<lambda>names.
           draw_bind (email_tail sh names) (\<lambda>local.
             (let out = local @ ''@'' @ email_hosts ! nat h in
              if fits_column out c then emit out else refuse_draw)))))"

subsection \<open>Numbers and dates\<close>

definition pad_number :: "int \<Rightarrow> int \<Rightarrow> string" where
  "pad_number n width =
     (let s = itoa n in
      if width \<le> int (length s) then s
      else replicate (nat (width - int (length s))) (CHR ''0'') @ s)"

definition national_id_digits :: int where "national_id_digits = 9"

definition national_id_len :: "constraints \<Rightarrow> int" where
  "national_id_len c =
     (let l = check_length c in
      if 0 < l \<and> (co_max_len c \<le> 0 \<or> l \<le> co_max_len c) then l
      else digit_budget c national_id_digits)"

definition national_id_domain :: "constraints \<Rightarrow> int" where
  "national_id_domain c = with_label_domain c
     (let n = national_id_len c in if n < 1 then 0 else sat_mul 9 (pow10 (n - 1)))"

definition national_id_mask :: "constraints \<Rightarrow> masked draw" where
  "national_id_mask c = with_labels c
     (let n = national_id_len c in
      if n < 1 then refuse_draw else draw_bind (digits n False) emit)"

definition financial_digits :: int where "financial_digits = 16"

definition financial_len :: "constraints \<Rightarrow> int" where
  "financial_len c =
     (let l = check_length c in
      if 0 < l \<and> (co_max_len c \<le> 0 \<or> l \<le> co_max_len c) then l
      else digit_budget c financial_digits)"

definition financial_domain :: "constraints \<Rightarrow> int" where
  "financial_domain c = with_label_domain c
     (let n = financial_len c in if n < 2 then 0 else sat_mul 9 (pow10 (n - 2)))"

text \<open>The loop of \<open>luhnCheckDigit\<close>, from the last digit.\<close>

fun luhn_sum :: "bool \<Rightarrow> string \<Rightarrow> int" where
  "luhn_sum dbl [] = 0"
| "luhn_sum dbl (c # s) =
     (let d = int (digit_value c);
          d = (if dbl then (if 9 < d * 2 then d * 2 - 9 else d * 2) else d)
      in d + luhn_sum (\<not> dbl) s)"

definition luhn_check_digit :: "string \<Rightarrow> string" where
  "luhn_check_digit body = itoa ((10 - luhn_sum True (rev body) mod 10) mod 10)"

definition financial_mask :: "constraints \<Rightarrow> masked draw" where
  "financial_mask c = with_labels c
     (let n = financial_len c in
      if n < 2 then refuse_draw
      else draw_bind (digits (n - 1) False) (\<lambda>body. emit (body @ luhn_check_digit body)))"

text \<open>\<open>dateStart.AddDate(0, 0, n)\<close>, from 1940: whole years, then whole months.\<close>

definition leap_year :: "nat \<Rightarrow> bool" where
  "leap_year y \<longleftrightarrow> y mod 4 = 0 \<and> (y mod 100 \<noteq> 0 \<or> y mod 400 = 0)"

definition month_days :: "nat \<Rightarrow> nat list" where
  "month_days y = [31, if leap_year y then 29 else 28, 31, 30, 31, 30, 31, 31, 30, 31, 30, 31]"

definition year_days :: "nat \<Rightarrow> nat" where "year_days y = (if leap_year y then 366 else 365)"

function date_from :: "nat \<Rightarrow> nat \<Rightarrow> nat \<times> nat" where
  "date_from y d = (if d < year_days y then (y, d) else date_from (Suc y) (d - year_days y))"
  by pat_completeness auto
termination
  by (relation "measure snd") (auto simp: year_days_def split: if_splits)

declare date_from.simps [simp del]

fun month_from :: "nat \<Rightarrow> nat list \<Rightarrow> nat \<Rightarrow> nat \<times> nat" where
  "month_from m [] d = (m, Suc d)"
| "month_from m (l # ls) d = (if d < l then (m, Suc d) else month_from (Suc m) ls (d - l))"

definition format_date :: "nat \<Rightarrow> nat \<Rightarrow> nat \<Rightarrow> string" where
  "format_date y m d =
     pad_number (int y) 4 @ ''-'' @ pad_number (int m) 2 @ ''-'' @ pad_number (int d) 2"

definition date_start_year :: nat where "date_start_year = 1940"
definition date_days :: int where "date_days = 25568"
definition seconds_per_day :: int where "seconds_per_day = 86400"

definition date_after :: "nat \<Rightarrow> string" where
  "date_after n =
     (case date_from date_start_year n of
        (y, d) \<Rightarrow> (case month_from 1 (month_days y) d of (m, day) \<Rightarrow> format_date y m day))"

definition format_time :: "nat \<Rightarrow> string" where
  "format_time t =
     pad_number (int (t div 3600)) 2 @ '':'' @ pad_number (int (t div 60 mod 60)) 2 @ '':''
     @ pad_number (int (t mod 60)) 2"

definition draw_date :: "constraints \<Rightarrow> masked draw" where
  "draw_date c =
     draw_bind (intn date_days) (\<lambda>d.
       if co_tag c = fam_timestamp
       then draw_bind (intn seconds_per_day) (\<lambda>t.
              emit (date_after (nat d) @ '' '' @ format_time (nat t)))
       else emit (date_after (nat d)))"

definition person_date_width :: "constraints \<Rightarrow> int" where
  "person_date_width c = (if co_tag c = fam_timestamp then 19 else 10)"

definition person_date_domain :: "constraints \<Rightarrow> int" where
  "person_date_domain c = with_label_domain c
     (if co_tag c \<noteq> fam_date \<and> co_tag c \<noteq> fam_timestamp \<and> \<not> width_fits (person_date_width c) c then 0
      else if co_tag c = fam_timestamp then sat_mul date_days seconds_per_day
      else date_days)"

definition person_date_mask :: "constraints \<Rightarrow> masked draw" where
  "person_date_mask c = with_labels c
     (if person_date_domain c = 0 then refuse_draw else draw_date c)"

subsection \<open>Phone numbers\<close>

definition nanp_domain :: int where "nanp_domain = int (length area_codes) * 100"
definition phone_national_digits :: int where "phone_national_digits = 10"
definition phone_country_digits :: int where "phone_country_digits = phone_national_digits + 1"

datatype phone_shape = PhoneNone | PhoneE164 | PhoneDigits | PhoneNational

definition phone_shape_for :: "constraints \<Rightarrow> phone_shape" where
  "phone_shape_for c =
     (if numeric_family (co_tag c) then
        (if phone_country_digits \<le> digit_budget c phone_country_digits then PhoneDigits
         else if phone_national_digits \<le> digit_budget c phone_national_digits then PhoneNational
         else PhoneNone)
      else let n = room c in
        if n = 0 \<or> 12 \<le> n then PhoneE164
        else if 11 \<le> n then PhoneDigits
        else if 10 \<le> n then PhoneNational
        else PhoneNone)"

definition phone_domain :: "constraints \<Rightarrow> int" where
  "phone_domain c = with_label_domain c
     (if phone_shape_for c = PhoneNone then 0 else nanp_domain)"

definition phone_text :: "phone_shape \<Rightarrow> string \<Rightarrow> string" where
  "phone_text shape national =
     (case shape of
        PhoneE164 \<Rightarrow> ''+1'' @ national
      | PhoneDigits \<Rightarrow> ''1'' @ national
      | _ \<Rightarrow> national)"

definition phone_mask :: "constraints \<Rightarrow> masked draw" where
  "phone_mask c = with_labels c
     (let shape = phone_shape_for c in
      if shape = PhoneNone then refuse_draw
      else draw_bind (intn (int (length area_codes))) (\<lambda>i.
           draw_bind (digits 2 True) (\<lambda>ds.
             emit (phone_text shape (area_codes ! nat i @ ''555'' @ ''01'' @ ds)))))"

definition unique_phone_digits :: int where "unique_phone_digits = 12"

definition unique_phone_shape :: "constraints \<Rightarrow> int \<times> string" where
  "unique_phone_shape c =
     (if numeric_family (co_tag c) then
        (let d = digit_budget c (unique_phone_digits + 1) - 1 in
         if d < 1 then (0, []) else (min d unique_phone_digits, ''1''))
      else let n = room c in
        if n = 0 then (unique_phone_digits, ''+1'')
        else let d = min unique_phone_digits (n - 2) in if d < 1 then (0, []) else (d, ''+1''))"

definition phone_unique_domain :: "constraints \<Rightarrow> int" where
  "phone_unique_domain c = with_label_domain c
     (let d = fst (unique_phone_shape c) in if d \<le> 0 then 0 else sat_pow 10 d)"

definition phone_unique_mask :: "constraints \<Rightarrow> masked draw" where
  "phone_unique_mask c = with_labels c
     (case unique_phone_shape c of (d, prefix) \<Rightarrow>
        if d \<le> 0 then refuse_draw
        else draw_bind (digits d True) (\<lambda>ds. emit (prefix @ ds)))"

end
