(* ===== verification/Mask_Text.thy ===== *)
theory Mask_Text
  imports Mask_Gen
begin

text \<open>
  The rest of the generators: names, addresses, coordinates, filler text and online ids of
  \<open>gen_text.go\<close>, addresses of \<open>gen_net.go\<close>, fixed values, documents and special categories of
  \<open>gen_fixed.go\<close>, \<open>gen_number.go\<close> and \<open>gen_text.go\<close>. The two loops that build filler text draw a
  word a turn and are not bounded by their form, so they are partial functions.
\<close>

subsection \<open>Names\<close>

definition name_domain_floor :: int where "name_domain_floor = 400"

definition name_floor :: "constraints \<Rightarrow> word_list \<Rightarrow> word_list option \<times> bool \<times> int" where
  "name_floor c l =
     (let k = word_count l (room c) in
      if name_domain_floor \<le> k then (Some l, False, k) else (None, False, 0))"

definition person_name_form :: "constraints \<Rightarrow> word_list option \<times> bool \<times> int" where
  "person_name_form c =
     (if co_role c = role_given then name_floor c given_names
      else if co_role c = role_family then name_floor c surnames
      else let k = pair_count given_names surnames 1 (room c) in
           if name_domain_floor \<le> k then (None, True, k) else name_floor c given_names)"

definition person_name_domain :: "constraints \<Rightarrow> int" where
  "person_name_domain c = with_label_domain c (snd (snd (person_name_form c)))"

definition title_pair :: "string \<times> string \<Rightarrow> string" where
  "title_pair p = title_ascii (fst p) @ '' '' @ title_ascii (snd p)"

definition person_name_mask :: "constraints \<Rightarrow> masked draw" where
  "person_name_mask c = with_labels c
     (case person_name_form c of (l, pair, n) \<Rightarrow>
        if n = 0 then refuse_draw
        else if pair
        then draw_bind (intn n) (\<lambda>i.
               emit (title_pair (pair_at given_names surnames 1 (room c) i)))
        else (case l of
                Some w \<Rightarrow> draw_bind (intn n) (\<lambda>i. emit (title_ascii (wl_words w ! nat i)))
              | None \<Rightarrow> refuse_draw))"

subsection \<open>Addresses\<close>

definition addr_number_digits :: int where "addr_number_digits = 4"
definition addr_number_domain :: int where "addr_number_domain = 9000"
definition addr_code_max :: int where "addr_code_max = 7"
definition addr_code_alphabet :: string where
  "addr_code_alphabet = ''0123456789ABCDEFGHIJKLMNOPQRSTUVWXYZ''"

definition address_street_budget :: "constraints \<Rightarrow> int" where
  "address_street_budget c = fit_budget (room c) (addr_number_digits + 1)"

definition address_code_len :: "constraints \<Rightarrow> int" where
  "address_code_len c = (if 0 < room c then min addr_code_max (room c) else addr_code_max)"

definition address_domain :: "constraints \<Rightarrow> int" where
  "address_domain c = with_label_domain c
     (let n = pair_count streets suffixes 1 (address_street_budget c) in
      if 0 < n then sat_mul addr_number_domain n
      else if 0 < address_code_len c
      then sat_pow (int (length addr_code_alphabet)) (address_code_len c)
      else 0)"

definition address_mask :: "constraints \<Rightarrow> masked draw" where
  "address_mask c = with_labels c
     (let budget = address_street_budget c; n = pair_count streets suffixes 1 budget in
      if 0 < n then
        draw_bind (digits addr_number_digits False) (\<lambda>number.
        draw_bind (intn n) (\<lambda>i.
          emit (number @ '' '' @ title_pair (pair_at streets suffixes 1 budget i))))
      else let k = address_code_len c in
        if k \<le> 0 then refuse_draw
        else draw_bind (draw_symbols addr_code_alphabet (nat k)) emit)"

subsection \<open>Coordinates\<close>

definition geo_decimals :: int where "geo_decimals = 6"

definition geo_places :: "constraints \<Rightarrow> int" where
  "geo_places c =
     (if numeric_family (co_tag c) \<or> co_max_len c \<le> 0 then geo_decimals
      else let d = co_max_len c - 4 in if d < 0 then -1 else min geo_decimals d)"

definition geo_domain :: "constraints \<Rightarrow> int" where
  "geo_domain c = with_label_domain c
     (let d = geo_places c in if d < 0 then 0 else sat_mul 180 (pow10 d) + 1)"

definition geo_text :: "int \<Rightarrow> int \<Rightarrow> int \<Rightarrow> string" where
  "geo_text scale d n =
     (if n < 0 then ''-'' else []) @ itoa (\<bar>n\<bar> div scale)
     @ (if 0 < d then ''.'' @ pad_number (\<bar>n\<bar> mod scale) d else [])"

definition geo_mask :: "constraints \<Rightarrow> masked draw" where
  "geo_mask c = with_labels c
     (let d = geo_places c in
      if d < 0 then refuse_draw
      else let scale = pow10 d in
        draw_bind (intn (sat_mul 180 scale + 1)) (\<lambda>i. emit (geo_text scale d (i - sat_mul 90 scale))))"

subsection \<open>Filler text\<close>

definition free_text_cap :: int where "free_text_cap = 4096"

definition free_text_exact :: "constraints \<Rightarrow> int" where
  "free_text_exact c =
     (let l = check_length c in
      if 0 < l \<and> (co_max_len c \<le> 0 \<or> l \<le> co_max_len c) then l else 0)"

definition free_text_max :: "constraints \<Rightarrow> int" where
  "free_text_max c =
     (if 0 < co_max_len c then min free_text_cap (co_max_len c) else free_text_cap)"

definition filler_initials :: int where
  "filler_initials = int (card (hd ` set (wl_words fitted_fillers)))"

definition free_text_input_len :: "mask_lib \<Rightarrow> mask_value \<Rightarrow> int" where
  "free_text_input_len lib v = max 1 (lb_runes lib (mv_text v))"

text \<open>The loop of \<open>fillerFrom\<close>: words, a blank before each but the first, until there are \<open>n\<close> bytes.\<close>

partial_function (option) filler_loop :: "word_list \<Rightarrow> int \<Rightarrow> string \<Rightarrow> string draw" where
  "filler_loop w n b s =
     (if int (length b) < n
      then (case intn (int (length (wl_words w))) s of
              None \<Rightarrow> None
            | Some (i, s') \<Rightarrow>
                filler_loop w n ((if b = [] then b else b @ '' '') @ wl_words w ! nat i) s')
      else Some (b, s))"

declare filler_loop.simps [code]

definition cut_filler :: "int \<Rightarrow> string \<Rightarrow> string" where
  "cut_filler n b =
     (let out = take (nat n) b in
      if has_suffix out '' '' then take (nat (n - 1)) out @ ''x'' else out)"

definition filler_from :: "word_list \<Rightarrow> int \<Rightarrow> string draw" where
  "filler_from w n = draw_bind (filler_loop w n []) (\<lambda>b. draw_return (cut_filler n b))"

definition filler :: "int \<Rightarrow> string draw" where "filler n = filler_from fillers n"

text \<open>The loop of \<open>fillerAbout\<close>: whole words that fit under the limit, up to \<open>n\<close> bytes.\<close>

partial_function (option) about_loop :: "word_list \<Rightarrow> int \<Rightarrow> int \<Rightarrow> string \<Rightarrow> string draw" where
  "about_loop w limit n b s =
     (if int (length b) < n
      then (let r = (if b = [] then limit - int (length b) else limit - int (length b) - 1) in
            if r < shortest_word w then Some (b, s)
            else (case intn (word_count w r) s of
                    None \<Rightarrow> None
                  | Some (i, s') \<Rightarrow>
                      about_loop w limit n ((if b = [] then b else b @ '' '') @ wl_words w ! nat i) s'))
      else Some (b, s))"

declare about_loop.simps [code]

definition filler_about :: "int \<Rightarrow> string draw" where
  "filler_about n =
     about_loop fitted_fillers (max n (longest_word fitted_fillers)) n []"

definition filler_range_domain :: "constraints \<Rightarrow> int" where
  "filler_range_domain c = with_label_domain c
     (let l = free_text_exact c in
      if 0 < l then max 1 (word_count fillers l)
      else fold (\<lambda>l total. sat_add total (max 1 (word_count fillers l)))
             (map int [1..<Suc (nat (free_text_max c))]) 0)"

definition free_text_domain :: "constraints \<Rightarrow> int" where
  "free_text_domain c = with_label_domain c
     (let l = free_text_exact c in
      if 0 < l then max 1 (word_count fillers l)
      else if free_text_max c < 1 then 0
      else if free_text_max c < longest_word fitted_fillers then filler_initials
      else int (length (wl_words fitted_fillers)))"

definition free_text_mask :: "mask_lib \<Rightarrow> mask_value \<Rightarrow> constraints \<Rightarrow> masked draw" where
  "free_text_mask lib v c = with_labels c
     (let l = free_text_exact c in
      if 0 < l then draw_bind (filler l) emit
      else let m = free_text_max c; n = free_text_input_len lib v in
        if m < 1 then refuse_draw
        else if m < n then draw_bind (intn m) (\<lambda>i. draw_bind (filler (1 + i)) emit)
        else if m < longest_word fitted_fillers then draw_bind (filler_from fitted_fillers n) emit
        else draw_bind (filler_about n) emit)"

subsection \<open>Online ids\<close>

definition url_prefix :: string where "url_prefix = ''https://example.invalid/''"
definition uuid_len :: int where "uuid_len = 36"

definition re_hex :: regex where
  "re_hex = Cls False [(CHR ''0'', CHR ''9''), (CHR ''A'', CHR ''F''), (CHR ''a'', CHR ''f'')]"

definition re_uuid :: regex where
  "re_uuid = Cats (concat (map (\<lambda>(n, dash). replicate n re_hex @ (if dash then [Opt (exactly (CHR ''-''))] else []))
     [(8, True), (4, True), (4, True), (4, True), (12, False)]))"

definition re_mac :: regex where
  "re_mac = Cats ([re_hex, re_hex] @ concat (replicate 5
     [Cls False [(CHR '':'', CHR '':''), (CHR ''-'', CHR ''-'')], re_hex, re_hex]))"

datatype online_shape = OnlineNone | OnlineUUID | OnlineURL int | OnlineHandle int

definition url_tail :: "constraints \<Rightarrow> int" where
  "url_tail c =
     (if 0 < room c then min unique_suffix (room c - int (length url_prefix)) else unique_suffix)"

definition handle_tail :: "constraints \<Rightarrow> int" where
  "handle_tail c =
     (let n = (if 0 < room c then min unique_suffix (room c - shortest_word fillers - 1) else unique_suffix)
      in if n < 1 \<or> word_count fillers (fit_budget (room c) (n + 1)) = 0 then 0 else n)"

definition url_like :: "string \<Rightarrow> bool" where
  "url_like t \<longleftrightarrow> index_of t ''://'' \<noteq> None \<or> has_prefix (to_lower t) ''www.''"

definition online_shape_for :: "mask_value \<Rightarrow> constraints \<Rightarrow> online_shape" where
  "online_shape_for v c =
     (if co_tag c = fam_uuid then OnlineUUID
      else let t = trim_space (mv_text v) in
        if accepts re_uuid t \<and> width_fits uuid_len c then OnlineUUID
        else if url_like t \<and> 1 \<le> url_tail c then OnlineURL (url_tail c)
        else if handle_tail c < 1 then OnlineNone
        else OnlineHandle (handle_tail c))"

definition online_domain :: "constraints \<Rightarrow> int" where
  "online_domain c = with_label_domain c
     (if co_tag c = fam_uuid then sat_pow 2 122
      else let n = handle_tail c in
        if n < 1 then 0
        else let d = sat_mul (word_count fillers (fit_budget (room c) (n + 1)))
                       (sat_pow (int (length b32_alphabet)) n);
                 d = (if 1 \<le> url_tail c
                      then min d (sat_pow (int (length b32_alphabet)) (url_tail c)) else d)
             in if width_fits uuid_len c then min d (sat_pow 2 122) else d)"

definition hex_char :: "byte \<Rightarrow> char" where
  "hex_char b = hex_alphabet ! unat b"

definition hex_pair :: "byte \<Rightarrow> string" where
  "hex_pair x = [hex_char (drop_bit 4 x), hex_char (and x 0x0F)]"

definition uuid_text :: "bytes \<Rightarrow> string" where
  "uuid_text b =
     (let b = b[6 := or (and (b ! 6) 0x0F) 0x40];
          b = b[8 := or (and (b ! 8) 0x3F) 0x80]
      in concat (map (\<lambda>i. (if i \<in> set [4, 6, 8, 10] then ''-'' else []) @ hex_pair (b ! i)) [0..<16]))"

definition uuid_from :: "string draw" where
  "uuid_from = draw_bind (draw_bytes 16) (\<lambda>b. draw_return (uuid_text b))"

definition online_mask :: "mask_value \<Rightarrow> constraints \<Rightarrow> masked draw" where
  "online_mask v c = with_labels c
     (case online_shape_for v c of
        OnlineUUID \<Rightarrow> draw_bind uuid_from emit
      | OnlineURL n \<Rightarrow> draw_bind (base32 n) (\<lambda>b. emit (url_prefix @ b))
      | OnlineHandle n \<Rightarrow>
          (let k = word_count fillers (fit_budget (room c) (n + 1)) in
           if k = 0 then refuse_draw
           else draw_bind (intn k) (\<lambda>i.
                draw_bind (base32 n) (\<lambda>b. emit (wl_words fillers ! nat i @ ''_'' @ b))))
      | OnlineNone \<Rightarrow> refuse_draw)"

subsection \<open>Network addresses\<close>

definition v6_prefix :: string where "v6_prefix = ''2001:0db8:''"
definition mac_prefix :: string where "mac_prefix = ''00:00:5e:00:53:''"
definition v6_groups :: nat where "v6_groups = 6"
definition v6_len :: int where "v6_len = 39"
definition mac_len :: int where "mac_len = 17"
definition max_v4_len :: int where "max_v4_len = 14"
definition v4_domain :: int where "v4_domain = 3 * 256"
definition mac_domain :: int where "mac_domain = 256"

datatype net_shape = NetNone | NetV4 | NetV6 | NetMAC

definition net_shape_len :: "net_shape \<Rightarrow> constraints \<Rightarrow> int" where
  "net_shape_len shape c =
     (let cidr = (co_tag c = fam_cidr) in
      case shape of
        NetV4 \<Rightarrow> if cidr then max_v4_len + 3 else max_v4_len
      | NetV6 \<Rightarrow> if cidr then v6_len + 4 else v6_len
      | NetMAC \<Rightarrow> mac_len
      | NetNone \<Rightarrow> 0)"

definition mac_admissible :: "constraints \<Rightarrow> bool" where
  "mac_admissible c \<longleftrightarrow> co_tag c \<noteq> fam_inet \<and> co_tag c \<noteq> fam_cidr \<and> width_fits mac_len c"

definition net_shape_for :: "mask_lib \<Rightarrow> mask_value \<Rightarrow> constraints \<Rightarrow> net_shape" where
  "net_shape_for lib v c =
     (let t = trim_space (mv_text v);
          shape = (if co_tag c = fam_macaddr then NetMAC
                   else if lb_v6 lib t then NetV6
                   else if mac_admissible c \<and> accepts re_mac t then NetMAC
                   else NetV4)
      in if width_fits (net_shape_len shape c) c then shape else NetNone)"

definition network_domain :: "constraints \<Rightarrow> int" where
  "network_domain c = with_label_domain c
     (if co_tag c = fam_macaddr then (if width_fits mac_len c then mac_domain else 0)
      else if \<not> width_fits (net_shape_len NetV4 c) c then 0
      else if mac_admissible c then min v4_domain mac_domain
      else v4_domain)"

definition with_prefix_len :: "string \<Rightarrow> constraints \<Rightarrow> string \<Rightarrow> string" where
  "with_prefix_len addr c suffix = (if co_tag c = fam_cidr then addr @ suffix else addr)"

fun v6_tail :: "nat \<Rightarrow> string draw" where
  "v6_tail 0 = draw_return []"
| "v6_tail (Suc n) =
     draw_bind (hexdigits 4) (\<lambda>g.
     draw_bind (v6_tail n) (\<lambda>r. draw_return (g @ (if n = 0 then [] else '':'') @ r)))"

definition v6_address :: "string draw" where
  "v6_address = draw_bind (v6_tail v6_groups) (\<lambda>t. draw_return (v6_prefix @ t))"

definition network_mask :: "mask_lib \<Rightarrow> mask_value \<Rightarrow> constraints \<Rightarrow> masked draw" where
  "network_mask lib v c = with_labels c
     (case net_shape_for lib v c of
        NetNone \<Rightarrow> refuse_draw
      | NetMAC \<Rightarrow> draw_bind (hexdigits 2) (\<lambda>h. emit (mac_prefix @ h))
      | NetV6 \<Rightarrow> draw_bind v6_address (\<lambda>a. emit (with_prefix_len a c ''/128''))
      | NetV4 \<Rightarrow>
          draw_bind (intn (int (length doc_prefixes))) (\<lambda>i.
          draw_bind (intn 256) (\<lambda>k.
            emit (with_prefix_len (doc_prefixes ! nat i @ itoa k) c ''/32''))))"

definition ip_unique_domain :: "constraints \<Rightarrow> int" where
  "ip_unique_domain c = with_label_domain c
     (if co_tag c \<noteq> fam_inet \<and> co_tag c \<noteq> fam_cidr \<and> \<not> width_fits v6_len c then 0
      else if co_tag c = fam_macaddr then 0
      else sat_pow 2 96)"

definition ip_unique_mask :: "constraints \<Rightarrow> masked draw" where
  "ip_unique_mask c = with_labels c
     (if ip_unique_domain c = 0 then refuse_draw
      else draw_bind v6_address (\<lambda>a. emit (with_prefix_len a c ''/128'')))"

end
