(* ===== verification/Mask_Registry.thy ===== *)
theory Mask_Registry
  imports Mask_Text
begin

text \<open>
  The generators that do not draw from a vocabulary (\<open>gen_fixed.go\<close>, \<open>gen_derived.go\<close>,
  \<open>gen_credential.go\<close> and the special categories of \<open>gen_number.go\<close> and \<open>gen_text.go\<close>), and the
  registry over all of them: \<open>registry.go\<close>, \<open>register.go\<close> and \<open>writable.go\<close>.
\<close>

subsection \<open>Fixed and empty values\<close>

definition credential_literal :: string where "credential_literal = ''$lazyslice$invalid''"
definition fixed_prefix :: string where "fixed_prefix = ''fixed:''"
definition credential_masker :: string where "credential_masker = fixed_prefix @ credential_literal"

definition fixed_mask :: "string \<Rightarrow> constraints \<Rightarrow> masked draw" where
  "fixed_mask literal c =
     (let lit = (if 0 < co_max_len c \<and> co_max_len c < int (length literal)
                 then take (nat (co_max_len c)) literal else literal)
      in if co_tag c = fam_bytea then draw_return (Inr (bytes_value (bytes_of_string lit)))
         else emit lit)"

definition zero_value :: "constraints \<Rightarrow> mask_value" where
  "zero_value c =
     (if labels c \<noteq> [] then text_value (labels c ! 0)
      else if co_tag c = fam_boolean then text_value ''false''
      else if numeric_family (co_tag c) then text_value ''0''
      else if co_tag c = fam_date then text_value ''1970-01-01''
      else if co_tag c = fam_timestamp then text_value ''1970-01-01 00:00:00''
      else if co_tag c = fam_uuid then text_value ''00000000-0000-0000-0000-000000000000''
      else if co_tag c = fam_bytea then bytes_value []
      else if co_tag c = fam_json \<or> co_tag c = fam_jsonb then text_value ''{}''
      else if co_tag c = fam_inet \<or> co_tag c = fam_cidr then text_value ''192.0.2.0''
      else if co_tag c = fam_macaddr then text_value ''00:00:5e:00:53:00''
      else text_value [])"

definition null_mask :: "constraints \<Rightarrow> masked draw" where
  "null_mask c = draw_return (Inr (if co_nullable c then null_value else zero_value c))"

definition derived_text_domain :: "constraints \<Rightarrow> int" where
  "derived_text_domain c = (if co_tag c \<noteq> fam_tsvector then 0 else 1)"

definition derived_text_mask :: "constraints \<Rightarrow> masked draw" where
  "derived_text_mask c = (if co_tag c \<noteq> fam_tsvector then refuse_draw else emit [])"

subsection \<open>Unique credentials\<close>

definition credential_unique_prefix :: string where
  "credential_unique_prefix = ''lazyslice-invalid-''"

definition credential_unique_suffix :: int where "credential_unique_suffix = 13"

definition credential_unique_symbols :: "constraints \<Rightarrow> int" where
  "credential_unique_symbols c =
     (if 0 < co_max_len c then
        (let budget = co_max_len c - int (length credential_unique_prefix) in
         if budget < 1 then 0 else min credential_unique_suffix budget)
      else credential_unique_suffix)"

definition credential_unique_domain :: "constraints \<Rightarrow> int" where
  "credential_unique_domain c = with_label_domain c
     (let n = credential_unique_symbols c in
      if n = 0 then 0 else sat_pow (int (length b32_alphabet)) n)"

definition credential_unique_mask :: "constraints \<Rightarrow> masked draw" where
  "credential_unique_mask c = with_labels c
     (let n = credential_unique_symbols c in
      if n = 0 then refuse_draw
      else draw_bind (base32 n) (\<lambda>b.
        let out = credential_unique_prefix @ b in
        if \<not> fits_column out c then refuse_draw
        else if co_tag c = fam_bytea then draw_return (Inr (bytes_value (bytes_of_string out)))
        else emit out))"

subsection \<open>Documents\<close>

text \<open>\<open>maskJSON\<close>: every scalar leaf is redrawn, in the order of the member names.\<close>

definition json_fraction :: "string \<Rightarrow> bool" where
  "json_fraction n \<longleftrightarrow> list_ex (\<lambda>c. c \<in> set ''.eE'') n"

fun mask_json :: "json \<Rightarrow> json draw"
  and mask_json_list :: "json list \<Rightarrow> json list draw"
  and mask_json_members :: "(string \<times> json) list \<Rightarrow> (string \<times> json) list draw" where
  "mask_json (JObject ms) = draw_bind (mask_json_members ms) (\<lambda>ms. draw_return (JObject ms))"
| "mask_json (JArray xs) = draw_bind (mask_json_list xs) (\<lambda>xs. draw_return (JArray xs))"
| "mask_json (JString s) =
     draw_bind (intn 24) (\<lambda>i. draw_bind (filler (1 + i)) (\<lambda>f. draw_return (JString f)))"
| "mask_json (JNumber n) =
     (if json_fraction n
      then draw_bind (digits 3 False) (\<lambda>a. draw_bind (digits 2 True) (\<lambda>b.
             draw_return (JNumber (a @ ''.'' @ b))))
      else draw_bind (intn 6) (\<lambda>i. draw_bind (digits (1 + i) False) (\<lambda>d. draw_return (JNumber d))))"
| "mask_json (JBool b) = draw_bind (intn 2) (\<lambda>i. draw_return (JBool (i = 1)))"
| "mask_json JNull = draw_return JNull"
| "mask_json_list [] = draw_return []"
| "mask_json_list (x # xs) =
     draw_bind (mask_json x) (\<lambda>x. draw_bind (mask_json_list xs) (\<lambda>xs. draw_return (x # xs)))"
| "mask_json_members [] = draw_return []"
| "mask_json_members (kv # ms) =
     draw_bind (mask_json (snd kv)) (\<lambda>x. draw_bind (mask_json_members ms) (\<lambda>ms.
       draw_return ((fst kv, x) # ms)))"

definition empty_document :: string where "empty_document = ''{}''"

definition semi_structured_domain :: "constraints \<Rightarrow> int" where
  "semi_structured_domain c = with_label_domain c
     (if co_tag c = fam_hstore then 1 else filler_range_domain no_constraints)"

definition semi_structured_mask :: "mask_lib \<Rightarrow> mask_value \<Rightarrow> constraints \<Rightarrow> masked draw" where
  "semi_structured_mask lib v c = with_labels c
     (if co_tag c = fam_hstore then emit []
      else case lb_decode lib (mv_text v) of
             None \<Rightarrow> emit empty_document
           | Some doc \<Rightarrow>
               draw_bind (mask_json doc) (\<lambda>out.
                 emit (case lb_encode lib out of Some s \<Rightarrow> s | None \<Rightarrow> empty_document)))"

subsection \<open>Special categories\<close>

definition generic_domain :: "constraints \<Rightarrow> int" where
  "generic_domain c =
     (if labels c \<noteq> [] then int (length (labels c))
      else if co_tag c = fam_boolean then 2
      else if numeric_family (co_tag c) then
        (let n = digit_budget c national_id_digits in if n < 1 then 0 else sat_mul 9 (pow10 (n - 1)))
      else if co_tag c = fam_date \<or> co_tag c = fam_timestamp then person_date_domain c
      else if co_tag c = fam_uuid then sat_pow 2 122
      else if co_tag c = fam_bytea then sat_pow 2 64
      else if co_tag c \<in> set [fam_json, fam_jsonb, fam_hstore] then filler_range_domain no_constraints
      else filler_range_domain c)"

definition quoted_filler :: "string \<Rightarrow> string \<Rightarrow> masked draw" where
  "quoted_filler before after = draw_bind (filler 16) (\<lambda>f. emit (before @ f @ after))"

definition generic_mask :: "constraints \<Rightarrow> masked draw" where
  "generic_mask c = with_labels c
     (if co_tag c = fam_boolean then
        draw_bind (intn 2) (\<lambda>i. emit (if i = 1 then ''true'' else ''false''))
      else if numeric_family (co_tag c) then
        (let n = digit_budget c national_id_digits in
         if n < 1 then refuse_draw else draw_bind (digits n False) emit)
      else if co_tag c = fam_date \<or> co_tag c = fam_timestamp then draw_date c
      else if co_tag c = fam_uuid then draw_bind uuid_from emit
      else if co_tag c = fam_bytea then draw_bind (draw_bytes 16) (\<lambda>b. draw_return (Inr (bytes_value b)))
      else if co_tag c = fam_json \<or> co_tag c = fam_jsonb
      then quoted_filler (''{'' @ [CHR 0x22] @ ''value'' @ [CHR 0x22, CHR '':'', CHR 0x22]) [CHR 0x22, CHR 0x7D]
      else if co_tag c = fam_hstore
      then quoted_filler ([CHR 0x22] @ ''value'' @ [CHR 0x22] @ ''=>'' @ [CHR 0x22]) [CHR 0x22]
      else let n = free_text_max c in
        if n < 1 then refuse_draw
        else draw_bind (intn n) (\<lambda>i. draw_bind (filler (1 + i)) emit))"

definition special_collapses :: "constraints \<Rightarrow> bool" where
  "special_collapses c = small_domain (generic_domain c) c"

definition collapsed :: "constraints \<Rightarrow> mask_value" where
  "collapsed c =
     (if labels c \<noteq> [] then text_value (labels c ! 0)
      else if co_nullable c then null_value
      else zero_value c)"

definition special_domain :: "constraints \<Rightarrow> int" where
  "special_domain c = (if special_collapses c then 1 else generic_domain c)"

definition special_mask :: "constraints \<Rightarrow> masked draw" where
  "special_mask c = (if special_collapses c then draw_return (Inr (collapsed c)) else generic_mask c)"

subsection \<open>The registry\<close>

datatype masker =
    EmailMasker
  | PersonNameMasker
  | PhoneMasker
  | PhoneUniqueMasker
  | AddressMasker
  | GeoMasker
  | PersonDateMasker
  | NationalIDMasker
  | FinancialAccountMasker
  | NetworkIDMasker
  | IPUniqueMasker
  | OnlineIDMasker
  | FixedMasker string
  | CredentialUniqueMasker
  | FreeTextMasker
  | SpecialCategoryMasker
  | NullMasker
  | SemiStructuredMasker
  | DerivedTextMasker

fun masker_domain :: "masker \<Rightarrow> constraints \<Rightarrow> int" where
  "masker_domain EmailMasker c = email_domain c"
| "masker_domain PersonNameMasker c = person_name_domain c"
| "masker_domain PhoneMasker c = phone_domain c"
| "masker_domain PhoneUniqueMasker c = phone_unique_domain c"
| "masker_domain AddressMasker c = address_domain c"
| "masker_domain GeoMasker c = geo_domain c"
| "masker_domain PersonDateMasker c = person_date_domain c"
| "masker_domain NationalIDMasker c = national_id_domain c"
| "masker_domain FinancialAccountMasker c = financial_domain c"
| "masker_domain NetworkIDMasker c = network_domain c"
| "masker_domain IPUniqueMasker c = ip_unique_domain c"
| "masker_domain OnlineIDMasker c = online_domain c"
| "masker_domain (FixedMasker l) c = 1"
| "masker_domain CredentialUniqueMasker c = credential_unique_domain c"
| "masker_domain FreeTextMasker c = free_text_domain c"
| "masker_domain SpecialCategoryMasker c = special_domain c"
| "masker_domain NullMasker c = 1"
| "masker_domain SemiStructuredMasker c = semi_structured_domain c"
| "masker_domain DerivedTextMasker c = derived_text_domain c"

fun masker_draw :: "masker \<Rightarrow> mask_lib \<Rightarrow> mask_value \<Rightarrow> constraints \<Rightarrow> masked draw" where
  "masker_draw EmailMasker lib v c = email_mask c"
| "masker_draw PersonNameMasker lib v c = person_name_mask c"
| "masker_draw PhoneMasker lib v c = phone_mask c"
| "masker_draw PhoneUniqueMasker lib v c = phone_unique_mask c"
| "masker_draw AddressMasker lib v c = address_mask c"
| "masker_draw GeoMasker lib v c = geo_mask c"
| "masker_draw PersonDateMasker lib v c = person_date_mask c"
| "masker_draw NationalIDMasker lib v c = national_id_mask c"
| "masker_draw FinancialAccountMasker lib v c = financial_mask c"
| "masker_draw NetworkIDMasker lib v c = network_mask lib v c"
| "masker_draw IPUniqueMasker lib v c = ip_unique_mask c"
| "masker_draw OnlineIDMasker lib v c = online_mask v c"
| "masker_draw (FixedMasker l) lib v c = fixed_mask l c"
| "masker_draw CredentialUniqueMasker lib v c = credential_unique_mask c"
| "masker_draw FreeTextMasker lib v c = free_text_mask lib v c"
| "masker_draw SpecialCategoryMasker lib v c = special_mask c"
| "masker_draw NullMasker lib v c = null_mask c"
| "masker_draw SemiStructuredMasker lib v c = semi_structured_mask lib v c"
| "masker_draw DerivedTextMasker lib v c = derived_text_mask c"

text \<open>\<open>Mask(h, in, c)\<close>: the draw over the digest's stream. \<open>None\<close> is a draw that never returns.\<close>

definition run_masker ::
  "masker \<Rightarrow> mask_lib \<Rightarrow> bytes \<Rightarrow> mask_value \<Rightarrow> constraints \<Rightarrow> masked option" where
  "run_masker m lib h v c = map_option fst (masker_draw m lib v c (new_stream (lb_sha lib) h))"

text \<open>\<open>init\<close>: id, category and generator, in registration order.\<close>

definition registry :: "(string \<times> string \<times> masker) list" where
  "registry =
     [(''email'', ''email'', EmailMasker),
      (''person_name'', ''person_name'', PersonNameMasker),
      (''phone'', ''phone'', PhoneMasker),
      (''phone_unique'', ''phone'', PhoneUniqueMasker),
      (''address'', ''address'', AddressMasker),
      (''geo'', ''geo'', GeoMasker),
      (''person_date'', ''person_date'', PersonDateMasker),
      (''national_id'', ''national_id'', NationalIDMasker),
      (''financial_account'', ''financial_account'', FinancialAccountMasker),
      (''network_id'', ''network_id'', NetworkIDMasker),
      (''ip_unique'', ''network_id'', IPUniqueMasker),
      (''online_id'', ''online_id'', OnlineIDMasker),
      (credential_masker, ''credential'', FixedMasker credential_literal),
      (''credential_unique'', ''credential'', CredentialUniqueMasker),
      (''free_text'', ''free_text'', FreeTextMasker),
      (''special_category'', ''special_category'', SpecialCategoryMasker),
      (''null'', ''binary_personal'', NullMasker),
      (''semi_structured'', ''semi_structured'', SemiStructuredMasker),
      (''derived_text'', ''derived_text'', DerivedTextMasker)]"

definition get_masker :: "string \<Rightarrow> masker option" where
  "get_masker mid =
     (if has_prefix mid fixed_prefix then Some (FixedMasker (drop (length fixed_prefix) mid))
      else map_option (snd \<circ> snd) (find (\<lambda>e. fst e = mid) registry))"

definition candidates :: "string \<Rightarrow> string list" where
  "candidates cat = map fst (filter (\<lambda>e. fst (snd e) = cat) registry)"

definition admissible :: "string \<Rightarrow> constraints \<Rightarrow> int" where
  "admissible mid c =
     (case get_masker mid of
        None \<Rightarrow> 0
      | Some m \<Rightarrow> min (column_domain c) (masker_domain m c))"

definition no_room_for :: "string \<Rightarrow> string \<Rightarrow> constraints \<Rightarrow> mask_error" where
  "no_room_for cat mid c =
     NoRoomError \<lparr>nr_category = cat, nr_id = mid, nr_tag = co_tag c, nr_max_len = co_max_len c\<rparr>"

text \<open>The widest candidate, the first of them among equals.\<close>

fun best_candidate :: "constraints \<Rightarrow> string \<times> int \<Rightarrow> string list \<Rightarrow> string \<times> int" where
  "best_candidate c best [] = best"
| "best_candidate c best (mid # ids) =
     (let d = admissible mid c in
      best_candidate c (if snd best < d then (mid, d) else best) ids)"

definition pick_masker :: "string \<Rightarrow> constraints \<Rightarrow> mask_error + string" where
  "pick_masker cat c =
     (case candidates cat of
        [] \<Rightarrow> Inl ErrNoCategory
      | mid # ids \<Rightarrow>
          if \<not> co_unique c then
            (if admissible mid c \<le> 0 then Inl (no_room_for cat mid c) else Inr mid)
          else
            (case best_candidate c (mid, admissible mid c) ids of (best, d) \<Rightarrow>
               if d \<le> 0 then Inl (no_room_for cat best c)
               else if co_rows c \<le> 0 then Inl ErrRowCountUnknown
               else if d < required (co_rows c) then
                 Inl (DomainError \<lparr>de_category = cat, de_id = best, de_domain = d,
                        de_required = required (co_rows c), de_rows = co_rows c\<rparr>)
               else Inr best))"

definition small_masker :: "string \<Rightarrow> constraints \<Rightarrow> bool" where
  "small_masker mid c =
     (if mid = ''derived_text'' then False else small_domain (admissible mid c) c)"

definition text_tags :: "string list" where
  "text_tags = [fam_text, fam_varchar, fam_bpchar, fam_citext]"

definition writable_tags :: "(string \<times> string list) list" where
  "writable_tags =
     [(''email'', text_tags),
      (''person_name'', text_tags),
      (''phone'', text_tags @ [fam_bigint, fam_integer, fam_numeric]),
      (''address'', text_tags),
      (''geo'', text_tags @ [fam_numeric, fam_float]),
      (''person_date'', [fam_date, fam_timestamp, fam_text, fam_varchar, fam_bpchar]),
      (''national_id'', text_tags @ [fam_bigint, fam_integer, fam_numeric]),
      (''financial_account'', text_tags @ [fam_bigint, fam_integer, fam_numeric]),
      (''network_id'', [fam_inet, fam_cidr, fam_macaddr] @ text_tags),
      (''online_id'', text_tags @ [fam_uuid]),
      (''credential'', text_tags @ [fam_bytea]),
      (''free_text'', text_tags),
      (''special_category'', text_tags @ [fam_boolean, fam_integer, fam_bigint, fam_numeric, fam_float,
         fam_date, fam_timestamp, fam_uuid, fam_bytea, fam_json, fam_jsonb, fam_hstore]),
      (''binary_personal'', [fam_bytea]),
      (''semi_structured'', [fam_json, fam_jsonb, fam_hstore]),
      (''derived_text'', [fam_tsvector])]"

definition writable :: "string \<Rightarrow> string \<Rightarrow> constraints \<Rightarrow> bool" where
  "writable cat mid c \<longleftrightarrow>
     0 < admissible mid c
     \<and> (labels c \<noteq> []
        \<or> (case map_of writable_tags cat of Some tags \<Rightarrow> co_tag c \<in> set tags | None \<Rightarrow> False))"

end
