(* ===== verification/Mask_Fit.thy ===== *)
theory Mask_Fit
  imports Mask_Registry
begin

text \<open>
  Why a masked value can be loaded: for every generator that is writable into a column, whatever
  it draws is a value the column's type accepts and its width holds, and it is never a refusal.
\<close>

subsection \<open>What a column accepts\<close>

definition decimal_text :: "string \<Rightarrow> bool" where
  "decimal_text s \<longleftrightarrow>
     (\<exists>sign a b. s = sign @ a @ b \<and> sign \<in> {[], ''-''} \<and> decimal a \<and> a \<noteq> []
        \<and> (b = [] \<or> (\<exists>ds. b = CHR ''.'' # ds \<and> decimal ds)))"

definition date_text :: "string \<Rightarrow> bool" where
  "date_text s \<longleftrightarrow>
     (\<exists>y m d. s = format_date y m d \<and> 1000 \<le> y \<and> y \<le> 9999 \<and> 1 \<le> m \<and> m \<le> 12
        \<and> 1 \<le> d \<and> d \<le> month_days y ! (m - 1))"

definition time_text :: "string \<Rightarrow> bool" where
  "time_text s \<longleftrightarrow> (\<exists>d t. s = d @ '' '' @ format_time t \<and> date_text d \<and> t < 86400)"

definition hex_text :: "nat \<Rightarrow> string \<Rightarrow> bool" where
  "hex_text n s \<longleftrightarrow> length s = n \<and> set s \<subseteq> set hex_alphabet"

definition uuid_shape :: "string \<Rightarrow> bool" where
  "uuid_shape s \<longleftrightarrow>
     (\<exists>a b c d e. s = a @ ''-'' @ b @ ''-'' @ c @ ''-'' @ d @ ''-'' @ e
        \<and> hex_text 8 a \<and> hex_text 4 b \<and> hex_text 4 c \<and> hex_text 4 d \<and> hex_text 12 e)"

text \<open>An address of the documentation ranges.\<close>

definition v4_text :: "string \<Rightarrow> bool" where
  "v4_text s \<longleftrightarrow> (\<exists>p k. s = p @ itoa k \<and> p \<in> set doc_prefixes \<and> 0 \<le> k \<and> k < 256)"

definition v6_text :: "string \<Rightarrow> bool" where
  "v6_text s \<longleftrightarrow>
     (\<exists>gs. s = v6_prefix @ join '':'' gs \<and> length gs = 6 \<and> list_all (hex_text 4) gs)"

definition mac_text :: "string \<Rightarrow> bool" where
  "mac_text s \<longleftrightarrow> (\<exists>h. s = mac_prefix @ h \<and> hex_text 2 h)"

definition tag_accepts :: "string \<Rightarrow> string \<Rightarrow> bool" where
  "tag_accepts tag s =
     (if tag = fam_boolean then s = ''true'' \<or> s = ''false''
      else if tag = fam_integer then decimal s \<and> s \<noteq> [] \<and> length s \<le> 9
      else if tag = fam_bigint then decimal s \<and> s \<noteq> [] \<and> length s \<le> 18
      else if tag = fam_numeric \<or> tag = fam_float then decimal_text s
      else if tag = fam_date then date_text s
      else if tag = fam_timestamp then time_text s
      else if tag = fam_uuid then uuid_shape s
      else if tag = fam_inet then v4_text s \<or> v6_text s
      else if tag = fam_cidr then
        (\<exists>a. (s = a @ ''/32'' \<and> v4_text a) \<or> (s = a @ ''/128'' \<and> v6_text a))
      else if tag = fam_macaddr then mac_text s
      else if tag = fam_tsvector then s = []
      else True)"

definition column_accepts :: "constraints \<Rightarrow> mask_value \<Rightarrow> bool" where
  "column_accepts c v =
     (if mv_null v then co_nullable c
      else if labels c \<noteq> [] then mv_bytes v = [] \<and> mv_text v \<in> set (labels c)
      else if co_tag c = fam_bytea then mv_text v = []
      else mv_bytes v = [] \<and> fits_column (mv_text v) c \<and> tag_accepts (co_tag c) (mv_text v))"

text \<open>What the schema reader guarantees of a column: only a character type has a width, a length
  check is on a character type, and nothing is longer than a Go \<open>int\<close> can count.\<close>

definition constraints_ok :: "constraints \<Rightarrow> bool" where
  "constraints_ok c \<longleftrightarrow>
     (0 < co_max_len c \<longrightarrow> co_tag c \<in> set [fam_varchar, fam_bpchar, fam_citext])
     \<and> (numeric_family (co_tag c) \<longrightarrow> check_length c = 0)
     \<and> int (length (labels c)) \<le> max_int64"

definition document_tag :: "string \<Rightarrow> bool" where
  "document_tag tag \<longleftrightarrow> tag \<in> set [fam_json, fam_jsonb, fam_hstore]"

definition gives :: "constraints \<Rightarrow> masked \<Rightarrow> bool" where
  "gives c r \<longleftrightarrow> (\<exists>v. r = Inr v \<and> column_accepts c v)"

abbreviation text_column :: "constraints \<Rightarrow> bool" where
  "text_column c \<equiv> labels c = [] \<and> co_tag c \<in> set text_tags"

lemma accepts_text [simp]:
  "text_column c \<Longrightarrow> column_accepts c (text_value s) \<longleftrightarrow> fits_column s c"
  by (auto simp: column_accepts_def tag_accepts_def text_tags_def)

lemma yields_emit:
  "column_accepts c (text_value s) \<Longrightarrow> yields (emit s) (gives c)"
  by (simp add: emit_def gives_def yields_return)

lemma emit_text: "text_column c \<Longrightarrow> fits_column s c \<Longrightarrow> yields (emit s) (gives c)"
  by (rule yields_emit) simp

lemma yields_with_labels:
  assumes "constraints_ok c" and "labels c = [] \<Longrightarrow> yields d (gives c)"
  shows "yields (with_labels c d) (gives c)"
proof (cases "labels c = []")
  case False
  have "yields (draw_bind (intn (int (length (labels c)))) (\<lambda>i. emit (labels c ! nat i))) (gives c)"
  proof (rule yields_bind [OF yields_intn_nat])
    show "yields (emit (labels c ! nat i)) (gives c)" if "0 \<le> i \<and> nat i < length (labels c)" for i
      using that False by (intro yields_emit) (auto simp: column_accepts_def)
  qed (use False assms(1) in \<open>simp_all add: constraints_ok_def\<close>)
  then show ?thesis using False by (simp add: with_labels_def)
qed (use assms in \<open>simp add: with_labels_def\<close>)

lemma with_label_domain_open [simp]: "labels c = [] \<Longrightarrow> with_label_domain c d = d"
  by (simp add: with_label_domain_def label_domain_def)

lemma fits_iff: "fits_column s c \<longleftrightarrow> (0 < co_max_len c \<longrightarrow> int (length s) \<le> co_max_len c)"
  by (auto simp: fits_column_def)

lemma room_fits: "fits_column s c \<longleftrightarrow> (0 < room c \<longrightarrow> int (length s) \<le> room c)"
  by (auto simp: fits_column_def room_def)

lemma width_fits_iff: "width_fits n c \<longleftrightarrow> (0 < co_max_len c \<longrightarrow> n \<le> co_max_len c)"
  by (auto simp: width_fits_def fits_column_def)

subsection \<open>Email\<close>

lemma yields_pair:
  assumes "word_list_ok a" and "word_list_ok b" and "0 < pair_count a b 1 budget"
  shows "yields (intn (pair_count a b 1 budget)) (\<lambda>n. pair_fits a b 1 budget (pair_at a b 1 budget n))"
proof -
  have "yields (intn (pair_count a b 1 budget)) (\<lambda>i. 0 \<le> i \<and> i < pair_count a b 1 budget)"
    by (rule yields_weaken [OF yields_intn [OF pair_count_bound(2) [OF assms(1, 2)]]]) (use assms(3) in auto)
  then show ?thesis by (rule yields_weaken) (auto intro: pair_at_fits [OF assms(1, 2)])
qed

definition email_local_len :: "constraints \<Rightarrow> int" where
  "email_local_len c = (if 0 < co_max_len c then co_max_len c - host_len else 0)"

lemma email_shape_fits:
  assumes "es_ok (email_shape_for c)"
  defines "sh \<equiv> email_shape_for c" and "loc \<equiv> email_local_len c"
  shows "es_names sh \<Longrightarrow> 0 < pair_count given_names surnames 1 (es_budget sh)"
    and "es_names sh \<Longrightarrow> 0 < loc \<Longrightarrow>
           0 < es_budget sh \<and> es_budget sh + (if 0 < es_suffix sh then 1 + es_suffix sh else 0) \<le> loc"
    and "\<not> es_names sh \<Longrightarrow> 0 < es_suffix sh \<and> (0 < loc \<longrightarrow> es_suffix sh \<le> loc)"
    and "0 < co_max_len c \<Longrightarrow> 0 < loc"
  using assms
  by (auto simp: email_shape_for_def email_shape_in_def email_local_len_def no_email_def Let_def
      fit_budget_def unique_suffix_def plain_suffix_def pair_count_def split: if_splits)

lemma email_gives:
  assumes "text_column c" and "constraints_ok c" and "0 < email_domain c"
  shows "yields (email_mask c) (gives c)"
proof -
  define sh where "sh = email_shape_for c"
  define loc where "loc = email_local_len c"
  have ok: "es_ok sh"
    using assms by (auto simp: email_domain_def sh_def Let_def split: if_splits)
  note shape = email_shape_fits [OF ok [unfolded sh_def], folded sh_def loc_def]
  have hosts: "length (email_hosts ! nat i) = 11" if "0 \<le> i \<and> nat i < length email_hosts" for i
  proof -
    have "email_hosts ! nat i \<in> set email_hosts" using that by simp
    then show ?thesis by (auto simp: email_hosts_def)
  qed
  have n: "0 < length email_hosts" "int (length email_hosts) \<le> max_int64"
    by (simp_all add: email_hosts_def max_int64_def)
  have names: "yields (email_names sh) (\<lambda>s. (0 < loc \<longrightarrow> int (length s) \<le> (if es_names sh then es_budget sh else 0))
      \<and> (\<not> es_names sh \<longrightarrow> s = []))"
  proof (cases "es_names sh")
    case True
    show ?thesis
      unfolding email_names_def using True shape(2) [OF True]
      by (auto simp: pair_fits_def intro!: yields_bind [OF yields_pair [OF given_names_ok surnames_ok shape(1) [OF True]]]
          yields_return split: prod.splits)
  qed (simp add: email_names_def yields_return)
  have tail: "yields (email_tail sh s) (\<lambda>t. 0 < loc \<longrightarrow> int (length t) \<le> loc)"
    if s: "(0 < loc \<longrightarrow> int (length s) \<le> (if es_names sh then es_budget sh else 0))
      \<and> (\<not> es_names sh \<longrightarrow> s = [])" for s
  proof (cases "0 < es_suffix sh")
    case True
    show ?thesis
      unfolding email_tail_def using True s shape(2, 3)
      by (auto intro!: yields_bind [OF yields_base32] yields_return split: if_splits)
  next
    case False
    then have "es_names sh" using shape(3) by auto
    then show ?thesis using False s shape(2) by (auto simp: email_tail_def intro!: yields_return)
  qed
  have fit: "fits_column (t @ ''@'' @ email_hosts ! nat i) c"
    if "0 \<le> i \<and> nat i < length email_hosts" "0 < loc \<longrightarrow> int (length t) \<le> loc" for i t
    using that hosts [OF that(1)] shape(4)
    by (auto simp: fits_iff loc_def email_local_len_def host_len_def)
  have out: "yields (let out = t @ ''@'' @ email_hosts ! nat i in
      if fits_column out c then emit out else refuse_draw) (gives c)"
    if "0 \<le> i \<and> nat i < length email_hosts" "0 < loc \<longrightarrow> int (length t) \<le> loc" for i t
    using fit [OF that] assms(1) emit_text by (simp add: Let_def)
  show ?thesis
    unfolding email_mask_def
  proof (rule yields_with_labels [OF assms(2)])
    show "yields (let sh = email_shape_for c in
      if \<not> es_ok sh then refuse_draw
      else draw_bind (intn (int (length email_hosts))) (\<lambda>h.
           draw_bind (email_names sh) (\<lambda>names.
           draw_bind (email_tail sh names) (\<lambda>local.
             (let out = local @ ''@'' @ email_hosts ! nat h in
              if fits_column out c then emit out else refuse_draw))))) (gives c)"
      unfolding sh_def [symmetric] Let_def using ok
      by (simp only: not_True_eq_False if_False)
        (intro yields_bind [OF yields_intn_nat [OF n]] yields_bind [OF names] yields_bind [OF tail]
          out [unfolded Let_def])
  qed
qed

subsection \<open>Numbers\<close>

lemma decimal_is_text: "decimal s \<Longrightarrow> s \<noteq> [] \<Longrightarrow> decimal_text s"
  unfolding decimal_text_def by (rule exI [of _ "[]"]) auto

lemma accepts_number:
  assumes "labels c = []" and "co_tag c \<in> set text_tags \<or> numeric_family (co_tag c)"
    and "decimal s" and "s \<noteq> []" and "fits_column s c"
    and "co_tag c = fam_integer \<Longrightarrow> length s \<le> 9" and "co_tag c = fam_bigint \<Longrightarrow> length s \<le> 18"
  shows "column_accepts c (text_value s)"
  using assms(2)
proof
  assume "co_tag c \<in> set text_tags"
  then show ?thesis using assms by simp
next
  assume "numeric_family (co_tag c)"
  then show ?thesis
    using assms decimal_is_text [OF assms(3, 4)]
    by (auto simp: numeric_family_def column_accepts_def tag_accepts_def)
qed

lemma digit_budget_bounds:
  "digit_budget c n \<le> n"
  "0 < co_max_len c \<Longrightarrow> digit_budget c n \<le> co_max_len c"
  "co_tag c = fam_integer \<Longrightarrow> digit_budget c n \<le> 9"
  "co_tag c = fam_bigint \<Longrightarrow> digit_budget c n \<le> 18"
  by (auto simp: digit_budget_def Let_def)

lemma numeric_tags [simp]:
  "numeric_family fam_integer" "numeric_family fam_bigint" "numeric_family fam_numeric"
  "numeric_family fam_float"
  by (simp_all add: numeric_family_def)

lemma length_checked:
  assumes "constraints_ok c"
    and "n = (let l = check_length c in
      if 0 < l \<and> (co_max_len c \<le> 0 \<or> l \<le> co_max_len c) then l else digit_budget c w)"
  shows "0 < co_max_len c \<Longrightarrow> n \<le> co_max_len c"
    and "co_tag c = fam_integer \<Longrightarrow> n \<le> 9" and "co_tag c = fam_bigint \<Longrightarrow> n \<le> 18"
  using assms digit_budget_bounds [of c w] by (auto simp: constraints_ok_def Let_def)

lemma yields_number:
  assumes "labels c = []" and "co_tag c \<in> set text_tags \<or> numeric_family (co_tag c)"
    and "1 \<le> n" and "0 < co_max_len c \<Longrightarrow> n \<le> co_max_len c"
    and "co_tag c = fam_integer \<Longrightarrow> n \<le> 9" and "co_tag c = fam_bigint \<Longrightarrow> n \<le> 18"
  shows "yields (draw_bind (digits n z) emit) (gives c)"
proof (rule yields_bind [OF yields_digits])
  fix s assume "int (length s) = max 0 n \<and> decimal s"
  then show "yields (emit s) (gives c)"
    using assms by (intro yields_emit accepts_number) (auto simp: fits_iff)
qed

lemma national_id_gives:
  assumes "labels c = []" and "co_tag c \<in> set text_tags \<or> numeric_family (co_tag c)"
    and "constraints_ok c" and "0 < national_id_domain c"
  shows "yields (national_id_mask c) (gives c)"
proof -
  define n where "n = national_id_len c"
  have n: "1 \<le> n" using assms(1, 4) by (auto simp: national_id_domain_def n_def Let_def split: if_splits)
  note bounds = length_checked [OF assms(3) n_def [unfolded national_id_len_def]]
  show ?thesis
    unfolding national_id_mask_def Let_def n_def [symmetric]
    by (rule yields_with_labels [OF assms(3)])
      (use n yields_number [OF assms(1, 2) n bounds] in auto)
qed

text \<open>The check digit makes the Luhn sum a multiple of ten.\<close>

lemma nat_digits_small: "n < 10 \<Longrightarrow> nat_digits n = [digit_char n]"
  by (simp add: nat_digits.simps)

lemma digit_char_decimal: "n < 10 \<Longrightarrow> is_digit (digit_char n) \<and> digit_value (digit_char n) = n"
  by (simp add: is_digit_def digit_char_def digit_value_def less_eq_char_def)

lemma itoa_digit:
  assumes "0 \<le> i" and "i < 10"
  shows "itoa i = [digit_char (nat i)]"
  using assms by (simp add: itoa_def nat_digits_small)

lemma luhn_check_digit_decimal: "length (luhn_check_digit b) = 1 \<and> decimal (luhn_check_digit b)"
  using digit_char_decimal [of "nat ((10 - luhn_sum True (rev b) mod 10) mod 10)"]
  by (simp add: luhn_check_digit_def itoa_digit decimal_def nat_less_iff)

lemma financial_gives:
  assumes "labels c = []" and "co_tag c \<in> set text_tags \<or> numeric_family (co_tag c)"
    and "constraints_ok c" and "0 < financial_domain c"
  shows "yields (financial_mask c) (gives c)"
proof -
  define n where "n = financial_len c"
  have n: "2 \<le> n" using assms(1, 4) by (auto simp: financial_domain_def n_def Let_def split: if_splits)
  note bounds = length_checked [OF assms(3) n_def [unfolded financial_len_def]]
  have "yields (draw_bind (digits (n - 1) False) (\<lambda>body. emit (body @ luhn_check_digit body))) (gives c)"
  proof (rule yields_bind [OF yields_digits])
    fix s assume s: "int (length s) = max 0 (n - 1) \<and> decimal s"
    then have "int (length (s @ luhn_check_digit s)) = n" "decimal (s @ luhn_check_digit s)"
      using n luhn_check_digit_decimal [of s] by (auto simp: decimal_def)
    moreover from this have "s @ luhn_check_digit s \<noteq> []" using n by auto
    ultimately show "yields (emit (s @ luhn_check_digit s)) (gives c)"
      using assms(1, 2) bounds by (intro yields_emit accepts_number) (auto simp: fits_iff)
  qed
  then show ?thesis
    unfolding financial_mask_def Let_def n_def [symmetric]
    by (intro yields_with_labels [OF assms(3)]) (use n in auto)
qed

subsection \<open>Dates\<close>

lemma date_from_year:
  "date_from y d = (y', d') \<Longrightarrow> y \<le> y' \<and> d' < year_days y' \<and> 365 * (y' - y) \<le> d"
proof (induction y d rule: date_from.induct)
  case (1 y d)
  show ?case
  proof (cases "d < year_days y")
    case True
    then show ?thesis using 1(2) by (auto simp: date_from.simps [of y])
  next
    case False
    then have "date_from (Suc y) (d - year_days y) = (y', d')" using 1(2) by (simp add: date_from.simps [of y])
    from 1(1) [OF False this] have "Suc y \<le> y'" "d' < year_days y'" "365 * (y' - Suc y) \<le> d - year_days y" by auto
    moreover have "365 \<le> year_days y" by (simp add: year_days_def)
    ultimately show ?thesis using False by auto
  qed
qed

lemma month_from_range:
  assumes "d < sum_list ls" and "month_from m ls d = (m', d')"
  shows "m \<le> m' \<and> m' < m + length ls \<and> 1 \<le> d' \<and> d' \<le> ls ! (m' - m)"
  using assms
proof (induction ls arbitrary: m d)
  case (Cons l ls)
  show ?case
  proof (cases "d < l")
    case False
    then have "d - l < sum_list ls" "month_from (Suc m) ls (d - l) = (m', d')" using Cons.prems by auto
    from Cons.IH [OF this] show ?thesis by (auto simp: nth_Cons' Suc_diff_le)
  qed (use Cons.prems in auto)
qed simp

lemma sum_month_days: "sum_list (month_days y) = year_days y"
  by (simp add: month_days_def year_days_def)

lemma date_after_text:
  assumes "n < 25568"
  shows "date_text (date_after n)"
proof -
  obtain y d where yd: "date_from date_start_year n = (y, d)" by fastforce
  obtain m day where md: "month_from 1 (month_days y) d = (m, day)" by fastforce
  have y: "1940 \<le> y" "d < year_days y" "365 * (y - 1940) \<le> n"
    using date_from_year [OF yd] by (auto simp: date_start_year_def)
  then have "y \<le> 9999" using assms by simp
  moreover have "1 \<le> m \<and> m < 1 + length (month_days y) \<and> 1 \<le> day \<and> day \<le> month_days y ! (m - 1)"
    using month_from_range [of d "month_days y" 1 m day] y(2) md sum_month_days by simp
  moreover have "length (month_days y) = 12" by (simp add: month_days_def)
  ultimately show ?thesis
    using yd md y(1) unfolding date_text_def date_after_def
    by (intro exI [of _ y] exI [of _ m] exI [of _ day]) simp
qed

lemma length_pad_number:
  assumes "0 \<le> i" and "i < 10 ^ w" and "0 < w"
  shows "length (pad_number i (int w)) = w"
proof -
  have "length (nat_digits n) \<le> k" if "n < 10 ^ k" "0 < k" for n k
    using that
  proof (induction n arbitrary: k rule: nat_digits.induct)
    case (1 n)
    show ?case
    proof (cases "n < 10")
      case False
      then obtain j where k: "k = Suc j" "0 < j" using 1(2, 3) by (cases k; cases "k - 1") auto
      then have "n div 10 < 10 ^ j" using 1(2) by (simp add: div_less_iff_less_mult mult.commute)
      then show ?thesis using 1(1) [OF False _ k(2)] k by (simp add: nat_digits.simps [of n] False)
    qed (use 1(3) in \<open>simp add: nat_digits.simps [of n]\<close>)
  qed
  moreover have "nat i < 10 ^ w" using assms by (simp add: nat_less_iff)
  ultimately have "length (itoa i) \<le> w" using assms by (simp add: itoa_def)
  then show ?thesis by (auto simp: pad_number_def Let_def)
qed

lemma length_date_text: "date_text s \<Longrightarrow> length s = 10"
proof -
  assume "date_text s"
  then obtain y m d where s: "s = format_date y m d" "1000 \<le> y" "y \<le> 9999" "1 \<le> m" "m \<le> 12"
    "1 \<le> d" "d \<le> month_days y ! (m - 1)" by (auto simp: date_text_def)
  have "m - 1 < length (month_days y)" using s by (simp add: month_days_def)
  then have "month_days y ! (m - 1) \<in> set (month_days y)" by simp
  then have "d \<le> 31" using s(7) by (auto simp: month_days_def split: if_splits)
  then show ?thesis
    using s length_pad_number [of "int y" 4] length_pad_number [of "int m" 2] length_pad_number [of "int d" 2]
    by (simp add: format_date_def)
qed

lemma yields_draw_date:
  assumes "labels c = []" and "co_tag c \<in> set [fam_date, fam_timestamp] \<or> (text_column c \<and> width_fits 10 c)"
    and "constraints_ok c"
  shows "yields (draw_date c) (gives c)"
proof -
  have w: "co_tag c \<in> set [fam_date, fam_timestamp] \<Longrightarrow> co_max_len c \<le> 0"
    using assms(3) by (auto simp: constraints_ok_def)
  have days: "yields (intn date_days) (\<lambda>d. date_text (date_after (nat d)))"
    by (rule yields_weaken [OF yields_intn]) (auto simp: date_days_def max_int64_def intro!: date_after_text)
  have time: "yields (intn seconds_per_day) (\<lambda>t. nat t < 86400)"
    by (rule yields_weaken [OF yields_intn]) (auto simp: seconds_per_day_def max_int64_def)
  show ?thesis
  proof (cases "co_tag c = fam_timestamp")
    case True
    then have "column_accepts c (text_value (d @ '' '' @ format_time t))" if "date_text d" "t < 86400" for d t
      using that assms(1) w by (auto simp: column_accepts_def tag_accepts_def fits_iff time_text_def)
    then show ?thesis
      unfolding draw_date_def if_P [OF True]
      by (intro yields_bind [OF days] yields_bind [OF time] yields_emit)
  next
    case False
    have "column_accepts c (text_value d)" if "date_text d" for d
    proof (cases "co_tag c = fam_date")
      case True
      then show ?thesis using that assms(1) w by (auto simp: column_accepts_def tag_accepts_def fits_iff)
    next
      case other: False
      then show ?thesis
        using False that assms(2) length_date_text [OF that] by (auto simp: fits_iff width_fits_iff)
    qed
    then show ?thesis
      unfolding draw_date_def if_not_P [OF False]
      by (intro yields_bind [OF days] yields_emit)
  qed
qed

lemma person_date_gives:
  assumes "labels c = []" and "co_tag c \<in> set [fam_date, fam_timestamp, fam_text, fam_varchar, fam_bpchar]"
    and "constraints_ok c" and "0 < person_date_domain c"
  shows "yields (person_date_mask c) (gives c)"
proof -
  have "co_tag c \<in> set [fam_date, fam_timestamp] \<or> (text_column c \<and> width_fits 10 c)"
    using assms(1, 2, 4)
    by (auto simp: text_tags_def person_date_domain_def person_date_width_def split: if_splits)
  then show ?thesis
    unfolding person_date_mask_def
    by (intro yields_with_labels [OF assms(3)])
      (use assms(4) yields_draw_date [OF assms(1) _ assms(3)] in auto)
qed

subsection \<open>Phone numbers\<close>

lemma area_code: "i < length area_codes \<Longrightarrow> length (area_codes ! i) = 3 \<and> decimal (area_codes ! i)"
proof -
  have "list_all (\<lambda>a. length a = 3 \<and> decimal a) area_codes" by code_simp
  then show "i < length area_codes \<Longrightarrow> length (area_codes ! i) = 3 \<and> decimal (area_codes ! i)"
    by (simp add: list_all_length)
qed

lemma area_codes_length: "length area_codes = 447"
  by (simp add: area_codes_def nanp_area_codes_def)

lemma phone_gives:
  assumes "labels c = []" and "co_tag c \<in> set text_tags \<or> numeric_family (co_tag c)"
    and "constraints_ok c" and "0 < phone_domain c"
  shows "yields (phone_mask c) (gives c)"
proof -
  define shape where "shape = phone_shape_for c"
  have shape: "shape \<noteq> PhoneNone"
    using assms(1, 4) by (auto simp: phone_domain_def shape_def split: if_splits)
  have out: "column_accepts c (text_value (phone_text shape (area_codes ! nat i @ ''555'' @ ''01'' @ ds)))"
    if i: "0 \<le> i \<and> nat i < length area_codes" and ds: "int (length ds) = max 0 2 \<and> decimal ds" for i ds
  proof -
    let ?n = "area_codes ! nat i @ ''555'' @ ''01'' @ ds"
    have area: "length (area_codes ! nat i) = 3" "decimal (area_codes ! nat i)" using area_code i by auto
    have five: "decimal ''555''" "decimal ''01''" "decimal ''1''" by code_simp+
    have n: "length ?n = 10" "decimal ?n" using area ds five by (auto simp: decimal_def)
    show ?thesis
    proof (cases "numeric_family (co_tag c)")
      case True
      have tags: "co_tag c \<noteq> fam_integer"
      proof
        assume t: "co_tag c = fam_integer"
        show False
          using shape digit_budget_bounds(3) [OF t, of 11] digit_budget_bounds(3) [OF t, of 10] True
          by (auto simp: shape_def phone_shape_for_def phone_country_digits_def phone_national_digits_def
              split: if_splits)
      qed
      have "shape = PhoneDigits \<or> shape = PhoneNational" "co_max_len c \<le> 0"
        using shape True assms(3)
        by (auto simp: shape_def phone_shape_for_def constraints_ok_def numeric_family_def split: if_splits)
      then show ?thesis
        using n five tags assms(1) True
        by (intro accepts_number) (auto simp: phone_text_def decimal_def fits_iff)
    next
      case False
      then have "shape = PhoneE164 \<and> (0 < room c \<longrightarrow> 12 \<le> room c)
          \<or> shape = PhoneDigits \<and> 11 \<le> room c \<or> shape = PhoneNational \<and> 10 \<le> room c"
        using shape by (auto simp: shape_def phone_shape_for_def Let_def split: if_splits)
      then have "fits_column (phone_text shape ?n) c"
        using n(1) by (auto simp: phone_text_def room_fits)
      then show ?thesis using assms(1, 2) False by simp
    qed
  qed
  have area: "yields (intn (int (length area_codes))) (\<lambda>i. 0 \<le> i \<and> nat i < length area_codes)"
    by (rule yields_intn_nat) (simp_all add: area_codes_length max_int64_def)
  show ?thesis
    unfolding phone_mask_def Let_def shape_def [symmetric] if_not_P [OF shape]
    by (intro yields_with_labels [OF assms(3)] yields_bind [OF area] yields_bind [OF yields_digits]
        yields_emit out)
qed

lemma phone_unique_gives:
  assumes "labels c = []" and "co_tag c \<in> set text_tags \<or> numeric_family (co_tag c)"
    and "constraints_ok c" and "0 < phone_unique_domain c"
  shows "yields (phone_unique_mask c) (gives c)"
proof -
  obtain d prefix where sh: "unique_phone_shape c = (d, prefix)" by fastforce
  have d: "0 < d" using assms(1, 4) sh by (auto simp: phone_unique_domain_def Let_def split: if_splits)
  have five: "decimal ''1''" by code_simp
  have out: "column_accepts c (text_value (prefix @ ds))" if ds: "int (length ds) = max 0 d \<and> decimal ds" for ds
  proof (cases "numeric_family (co_tag c)")
    case True
    then have p: "prefix = ''1''" "d + 1 \<le> digit_budget c 13"
      using sh d by (auto simp: unique_phone_shape_def unique_phone_digits_def Let_def split: if_splits)
    then show ?thesis
      using ds d five digit_budget_bounds [of c 13] assms(1) True
      by (intro accepts_number) (auto simp: decimal_def fits_iff)
  next
    case False
    then have "length prefix = 2" "0 < room c \<longrightarrow> d + 2 \<le> room c"
      using sh d by (auto simp: unique_phone_shape_def Let_def room_def split: if_splits)
    then have "fits_column (prefix @ ds) c" using ds d by (auto simp: room_fits)
    then show ?thesis using assms(1, 2) False by simp
  qed
  have "yields (if d \<le> 0 then refuse_draw else draw_bind (digits d True) (\<lambda>ds. emit (prefix @ ds))) (gives c)"
    using d by (auto intro!: yields_bind [OF yields_digits] yields_emit out)
  then show ?thesis
    unfolding phone_unique_mask_def sh prod.case by (rule yields_with_labels [OF assms(3)])
qed

subsection \<open>Names and addresses\<close>

lemma length_title_ascii [simp]: "length (title_ascii s) = length s"
  by (simp add: title_ascii_def split: list.splits)

lemma length_title_pair: "int (length (title_pair p)) = int (length (fst p)) + 1 + int (length (snd p))"
  by (simp add: title_pair_def)

lemma person_name_gives:
  assumes "text_column c" and "constraints_ok c" and "0 < person_name_domain c"
  shows "yields (person_name_mask c) (gives c)"
proof -
  obtain l pair n where f: "person_name_form c = (l, pair, n)" by (cases "person_name_form c") auto
  have n: "0 < n" using assms(1, 3) f by (simp add: person_name_domain_def)
  have pairs: "yields (draw_bind (intn n) (\<lambda>i. emit (title_pair (pair_at given_names surnames 1 (room c) i)))) (gives c)"
    if "n = pair_count given_names surnames 1 (room c)"
    unfolding that
    by (rule yields_bind [OF yields_pair [OF given_names_ok surnames_ok]])
      (use n that assms(1) in \<open>auto simp: pair_fits_def room_fits length_title_pair intro!: emit_text\<close>)
  have words: "yields (draw_bind (intn n) (\<lambda>i. emit (title_ascii (wl_words w ! nat i)))) (gives c)"
    if w: "word_list_ok w" "n = word_count w (room c)" for w
  proof -
    have "n \<le> max_int64" using word_count_range(2) [OF w(1), of "room c"] w by (simp add: word_list_ok_def max_int64_def)
    then have "yields (intn n) (\<lambda>i. 0 \<le> i \<and> i < n)"
      by (rule yields_weaken [OF yields_intn]) (use n in auto)
    then show ?thesis
      by (rule yields_bind)
        (use w word_count_fits(2) [OF w(1)] assms(1) in \<open>auto simp: room_fits intro!: emit_text\<close>)
  qed
  have floor: "(\<exists>w. l = Some w \<and> word_list_ok w \<and> n = word_count w (room c)) \<and> \<not> pair"
    if "name_floor c w = (l, pair, n)" "word_list_ok w" for w
    using that n by (auto simp: name_floor_def Let_def split: if_splits)
  have "pair \<and> n = pair_count given_names surnames 1 (room c)
      \<or> (\<exists>w. l = Some w \<and> word_list_ok w \<and> n = word_count w (room c)) \<and> \<not> pair"
    using f floor [OF _ given_names_ok] floor [OF _ surnames_ok]
    by (auto simp: person_name_form_def Let_def split: if_splits)
  then have "yields (if n = 0 then refuse_draw
        else if pair
        then draw_bind (intn n) (\<lambda>i. emit (title_pair (pair_at given_names surnames 1 (room c) i)))
        else (case l of
                Some w \<Rightarrow> draw_bind (intn n) (\<lambda>i. emit (title_ascii (wl_words w ! nat i)))
              | None \<Rightarrow> refuse_draw)) (gives c)"
    using n pairs words by auto
  then show ?thesis
    unfolding person_name_mask_def f prod.case by (rule yields_with_labels [OF assms(2)])
qed

lemma address_gives:
  assumes "text_column c" and "constraints_ok c" and "0 < address_domain c"
  shows "yields (address_mask c) (gives c)"
proof -
  define budget where "budget = address_street_budget c"
  define n where "n = pair_count streets suffixes 1 budget"
  have street: "yields (draw_bind (digits addr_number_digits False) (\<lambda>number.
        draw_bind (intn n) (\<lambda>i.
          emit (number @ '' '' @ title_pair (pair_at streets suffixes 1 budget i))))) (gives c)" if "0 < n"
  proof (intro yields_bind [OF yields_digits])
    fix s assume s: "int (length s) = max 0 addr_number_digits \<and> decimal s"
    have "0 < room c \<longrightarrow> 0 < budget \<and> budget + 5 \<le> room c"
      using that unfolding n_def budget_def
      by (auto simp: address_street_budget_def fit_budget_def addr_number_digits_def pair_count_def split: if_splits)
    then have "fits_column (s @ '' '' @ title_pair p) c" if "pair_fits streets suffixes 1 budget p" for p
      using that s by (auto simp: pair_fits_def room_fits length_title_pair addr_number_digits_def)
    then show "yields (draw_bind (intn n) (\<lambda>i.
          emit (s @ '' '' @ title_pair (pair_at streets suffixes 1 budget i)))) (gives c)"
      unfolding n_def using that assms(1)
      by (intro yields_bind [OF yields_pair [OF streets_ok suffixes_ok]] emit_text) (auto simp: n_def)
  qed
  have code: "yields (draw_bind (draw_symbols addr_code_alphabet (nat k)) emit) (gives c)"
    if k: "k = address_code_len c" "0 < k" for k
  proof (rule yields_bind [OF yields_draw_symbols])
    show "addr_code_alphabet \<noteq> []" "int (length addr_code_alphabet) \<le> max_int64"
      by (simp_all add: addr_code_alphabet_def max_int64_def)
    fix s assume "length s = nat k \<and> set s \<subseteq> set addr_code_alphabet"
    then have "fits_column s c" using k by (auto simp: address_code_len_def room_fits split: if_splits)
    then show "yields (emit s) (gives c)" using assms(1) by (intro emit_text)
  qed
  have "0 < n \<or> 0 < address_code_len c"
    using assms(1, 3) by (auto simp: address_domain_def n_def budget_def Let_def split: if_splits)
  then show ?thesis
    unfolding address_mask_def Let_def budget_def [symmetric] n_def [symmetric]
    by (intro yields_with_labels [OF assms(2)]) (use street code in auto)
qed

subsection \<open>Coordinates\<close>

lemma nat_digits_decimal: "decimal (nat_digits n) \<and> nat_digits n \<noteq> []"
proof (induction n rule: nat_digits.induct)
  case (1 n)
  show ?case
  proof (cases "n < 10")
    case True
    then show ?thesis using digit_char_decimal by (simp add: nat_digits.simps [of n] decimal_def)
  next
    case False
    then show ?thesis
      using 1 [OF False] digit_char_decimal [of "n mod 10"] by (simp add: nat_digits.simps [of n] decimal_def)
  qed
qed

lemma itoa_decimal: "0 \<le> i \<Longrightarrow> decimal (itoa i) \<and> itoa i \<noteq> []"
  using nat_digits_decimal by (simp add: itoa_def)

lemma pad_number_decimal: "0 \<le> i \<Longrightarrow> decimal (pad_number i w)"
proof -
  assume "0 \<le> i"
  moreover have "is_digit (CHR ''0'')" by code_simp
  ultimately show ?thesis using itoa_decimal by (auto simp: pad_number_def decimal_def Let_def list_all_iff)
qed

lemma geo_text_decimal:
  assumes "0 < scale"
  shows "decimal_text (geo_text scale d n)"
  unfolding decimal_text_def
proof (intro exI conjI)
  let ?b = "if 0 < d then ''.'' @ pad_number (\<bar>n\<bar> mod scale) d else []"
  show "geo_text scale d n = (if n < 0 then ''-'' else []) @ itoa (\<bar>n\<bar> div scale) @ ?b"
    by (simp add: geo_text_def)
  show "(if n < 0 then ''-'' else []) \<in> {[], ''-''}" by simp
  show "decimal (itoa (\<bar>n\<bar> div scale))" "itoa (\<bar>n\<bar> div scale) \<noteq> []"
    using itoa_decimal assms by (simp_all add: pos_imp_zdiv_nonneg_iff)
  show "?b = [] \<or> (\<exists>ds. ?b = CHR ''.'' # ds \<and> decimal ds)"
    using pad_number_decimal assms by simp
qed

lemma geo_text_length:
  assumes d: "0 \<le> d" "d \<le> 6" and scale: "scale = 10 ^ nat d" and n: "- 90 * scale \<le> n" "n \<le> 90 * scale"
  shows "int (length (geo_text scale d n)) \<le> 4 + d"
proof -
  have pos: "0 < scale" using scale by simp
  have "\<bar>n\<bar> div scale \<le> 90" using n pos zdiv_mono1 [of "\<bar>n\<bar>" "90 * scale" scale] by simp
  then have "length (pad_number (\<bar>n\<bar> div scale) 2) = 2"
    using pos length_pad_number [of "\<bar>n\<bar> div scale" 2] by (simp add: pos_imp_zdiv_nonneg_iff)
  then have whole: "length (itoa (\<bar>n\<bar> div scale)) \<le> 2"
    by (auto simp: pad_number_def Let_def split: if_splits)
  have "0 < d \<Longrightarrow> length (pad_number (\<bar>n\<bar> mod scale) d) = nat d"
    using length_pad_number [of "\<bar>n\<bar> mod scale" "nat d"] pos scale pos_mod_bound [OF pos, of "\<bar>n\<bar>"] by simp
  then have frac: "int (length (if 0 < d then ''.'' @ pad_number (\<bar>n\<bar> mod scale) d else [])) \<le> 1 + d"
    using d by auto
  show ?thesis unfolding geo_text_def using whole frac by (simp only: length_append) auto
qed

lemma geo_gives:
  assumes "labels c = []" and "co_tag c \<in> set (text_tags @ [fam_numeric, fam_float])"
    and "constraints_ok c" and "0 < geo_domain c"
  shows "yields (geo_mask c) (gives c)"
proof -
  define d where "d = geo_places c"
  define scale where "scale = pow10 d"
  have d: "0 \<le> d" "d \<le> 6"
    using assms(1, 4) by (auto simp: geo_domain_def d_def geo_places_def geo_decimals_def Let_def split: if_splits)
  then have "(10 :: int) ^ nat d \<le> 10 ^ 6" by (intro power_increasing) auto
  then have scale: "scale = 10 ^ nat d" "0 < scale" "scale \<le> 1000000"
    by (simp_all add: scale_def pow10_def sat_pow_min max_int64_def)
  then have sats: "sat_mul 180 scale = 180 * scale" "sat_mul 90 scale = 90 * scale"
    by (simp_all add: sat_mul_min max_int64_def)
  have out: "column_accepts c (text_value (geo_text scale d (i - 90 * scale)))" if "0 \<le> i" "i \<le> 180 * scale" for i
  proof (cases "numeric_family (co_tag c)")
    case True
    then have "co_max_len c \<le> 0" "co_tag c = fam_numeric \<or> co_tag c = fam_float"
      using assms(2, 3) by (auto simp: text_tags_def numeric_family_def constraints_ok_def)
    then show ?thesis
      using geo_text_decimal [OF scale(2)] assms(1)
      by (auto simp: column_accepts_def tag_accepts_def fits_iff)
  next
    case False
    have "0 < co_max_len c \<longrightarrow> 4 + d \<le> co_max_len c"
      using False d by (auto simp: d_def geo_places_def Let_def split: if_splits)
    then have "fits_column (geo_text scale d (i - 90 * scale)) c"
      using geo_text_length [OF d scale(1), of "i - 90 * scale"] that by (auto simp: fits_iff)
    then show ?thesis using False assms(1, 2) by (auto simp: text_tags_def)
  qed
  have draw: "yields (intn (180 * scale + 1)) (\<lambda>i. 0 \<le> i \<and> i \<le> 180 * scale)"
    by (rule yields_weaken [OF yields_intn]) (use scale in \<open>auto simp: max_int64_def\<close>)
  have "yields (if d < 0 then refuse_draw
      else draw_bind (intn (180 * scale + 1)) (\<lambda>i. emit (geo_text scale d (i - 90 * scale)))) (gives c)"
    using d by (auto intro!: yields_bind [OF draw] yields_emit out)
  then show ?thesis
    unfolding geo_mask_def Let_def d_def [symmetric] scale_def [symmetric] sats
    by (rule yields_with_labels [OF assms(3)])
qed

subsection \<open>Filler text\<close>

lemma filler_loop_length:
  assumes "filler_loop w n b s = Some r"
  shows "n \<le> int (length (fst r))"
proof (rule filler_loop.raw_induct [rotated, where P = "\<lambda>w n b s r. n \<le> int (length (fst r))"])
  show "filler_loop w n b s = Some r" by (rule assms)
  show "n \<le> int (length (fst r))"
    if ih: "\<And>w n b s r. f w n b s = Some r \<Longrightarrow> n \<le> int (length (fst r))"
      and body: "(if int (length b) < n
        then case intn (int (length (wl_words w))) s of
               None \<Rightarrow> None
             | Some (i, s') \<Rightarrow> f w n ((if b = [] then b else b @ '' '') @ wl_words w ! nat i) s'
        else Some (b, s)) = Some r" for f w n b s r
    using body ih by (auto split: if_splits option.splits prod.splits)
qed

lemma length_cut_filler: "1 \<le> n \<Longrightarrow> n \<le> int (length b) \<Longrightarrow> int (length (cut_filler n b)) = n"
  by (auto simp: cut_filler_def Let_def)

lemma yields_filler [draws]: "1 \<le> n \<Longrightarrow> yields (filler_from w n) (\<lambda>s. int (length s) = n)"
  unfolding filler_from_def
  by (rule yields_bind [where P = "\<lambda>b. n \<le> int (length b)"])
    (auto simp: yields_def length_cut_filler draw_return_def dest: filler_loop_length)

lemma word_count_pos:
  assumes "word_list_ok w" and "shortest_word w \<le> k"
  shows "0 < word_count w k"
proof -
  have k: "0 < k" using assms shortest_word_pos [OF assms(1)] by simp
  obtain x xs where w: "wl_words w = x # xs" using assms(1) by (cases "wl_words w") (auto simp: word_list_ok_def)
  then have "length x \<le> nat k" using assms(2) by (simp add: shortest_word_def)
  then have "k \<le> max_fit \<Longrightarrow> 0 < wl_fit w ! nat k"
    using word_fit_nth [OF assms(1), of k] k w by simp
  then show ?thesis using k w by (auto simp: word_count_def)
qed

lemma about_loop_length:
  assumes "about_loop w limit n b s = Some r" and "word_list_ok w" and "int (length b) \<le> limit"
  shows "int (length (fst r)) \<le> limit"
proof -
  have "word_list_ok w \<longrightarrow> int (length b) \<le> limit \<longrightarrow> int (length (fst r)) \<le> limit"
  proof (rule about_loop.raw_induct [rotated,
        where P = "\<lambda>w limit n b s r. word_list_ok w \<longrightarrow> int (length b) \<le> limit \<longrightarrow> int (length (fst r)) \<le> limit"])
    show "about_loop w limit n b s = Some r" by (rule assms(1))
    fix f w limit n b s r
    assume ih: "\<And>w limit n b s r. f w limit n b s = Some r
        \<Longrightarrow> word_list_ok w \<longrightarrow> int (length b) \<le> limit \<longrightarrow> int (length (fst r)) \<le> limit"
      and body: "(if int (length b) < n
        then let r = if b = [] then limit - int (length b) else limit - int (length b) - 1 in
             if r < shortest_word w then Some (b, s)
             else case intn (word_count w r) s of
                    None \<Rightarrow> None
                  | Some (i, s') \<Rightarrow>
                      f w limit n ((if b = [] then b else b @ '' '') @ wl_words w ! nat i) s'
        else Some (b, s)) = Some r"
    show "word_list_ok w \<longrightarrow> int (length b) \<le> limit \<longrightarrow> int (length (fst r)) \<le> limit"
    proof (intro impI)
      assume w: "word_list_ok w" and b: "int (length b) \<le> limit"
      define k where "k = (if b = [] then limit - int (length b) else limit - int (length b) - 1)"
      show "int (length (fst r)) \<le> limit"
      proof (cases "int (length b) < n \<and> \<not> k < shortest_word w")
        case True
        then obtain i s' where i: "intn (word_count w k) s = Some (i, s')"
          and rec: "f w limit n ((if b = [] then b else b @ '' '') @ wl_words w ! nat i) s' = Some r"
          using body unfolding k_def [symmetric] Let_def by (auto split: option.splits)
        have k: "0 < k" using True shortest_word_pos [OF w] by simp
        have "word_count w k \<le> max_int64"
          using word_count_range(2) [OF w, of k] w by (simp add: word_list_ok_def max_int64_def)
        from yieldsD [OF yields_intn [OF this] i]
        have "0 \<le> i" "1 < word_count w k \<longrightarrow> i < word_count w k" "word_count w k \<le> 1 \<longrightarrow> i = 0" by auto
        moreover have "0 < word_count w k" using True by (intro word_count_pos [OF w]) simp
        ultimately have "int (length (wl_words w ! nat i)) \<le> k"
          using k by (intro word_count_fits(2) [OF w]) auto
        then have "int (length ((if b = [] then b else b @ '' '') @ wl_words w ! nat i)) \<le> limit"
          by (auto simp: k_def split: if_splits)
        then show ?thesis using ih [OF rec] w by blast
      next
        case False
        then have "r = (b, s)" using body unfolding k_def [symmetric] Let_def by (auto split: if_splits)
        then show ?thesis using b by simp
      qed
    qed
  qed
  then show ?thesis using assms by blast
qed

end
