(* ===== verification/Mask_Accepts.thy ===== *)
theory Mask_Accepts
  imports Mask_Fit
begin

text \<open>
  The second half of what the generators emit: free text, online ids, network addresses, special
  categories and fixed values, and with them every id the registry can pick.
\<close>

lemma free_text_max_pos: "1 \<le> free_text_max c"
  by (auto simp: free_text_max_def free_text_cap_def)

lemma free_text_max_fits: "int (length s) \<le> free_text_max c \<Longrightarrow> fits_column s c"
  by (auto simp: free_text_max_def fits_iff split: if_splits)

lemma yields_filler_fits:
  assumes "text_column c" and "1 \<le> n" and "n \<le> free_text_max c"
  shows "yields (draw_bind (filler_from w n) emit) (gives c)"
  by (rule yields_bind [OF yields_filler [OF assms(2)]])
    (use assms in \<open>auto intro!: emit_text free_text_max_fits\<close>)

lemma yields_short_filler:
  assumes "text_column c" and "m = free_text_max c"
  shows "yields (draw_bind (intn m) (\<lambda>i. draw_bind (filler (1 + i)) emit)) (gives c)"
proof -
  have m: "1 \<le> m" "m \<le> max_int64"
    using assms(2) free_text_max_pos [of c] by (auto simp: free_text_max_def free_text_cap_def max_int64_def)
  have "yields (intn m) (\<lambda>i. 0 \<le> i \<and> i < m)"
    by (rule yields_weaken [OF yields_intn [OF m(2)]]) (use m(1) in auto)
  then show ?thesis
    by (rule yields_bind) (use assms in \<open>auto simp: filler_def intro!: yields_filler_fits\<close>)
qed

lemma free_text_gives:
  assumes "text_column c" and "constraints_ok c"
  shows "yields (free_text_mask lib v c) (gives c)"
proof -
  define l where "l = free_text_exact c"
  define m where "m = free_text_max c"
  define n where "n = free_text_input_len lib v"
  have n: "1 \<le> n" by (simp add: n_def free_text_input_len_def)
  have m: "1 \<le> m" using free_text_max_pos by (simp add: m_def)
  have exact: "yields (draw_bind (filler l) emit) (gives c)" if "0 < l"
  proof (unfold filler_def, rule yields_bind [OF yields_filler])
    show "1 \<le> l" using that by simp
    fix s :: string assume "int (length s) = l"
    then have "fits_column s c"
      using that by (auto simp: l_def free_text_exact_def Let_def fits_iff split: if_splits)
    then show "yields (emit s) (gives c)" using assms(1) by (intro emit_text)
  qed
  have about: "yields (draw_bind (filler_about n) emit) (gives c)"
    if "n \<le> m" "longest_word fitted_fillers \<le> m"
  proof (rule yields_bind [where P = "\<lambda>s. int (length s) \<le> max n (longest_word fitted_fillers)"])
    show "yields (filler_about n) (\<lambda>s. int (length s) \<le> max n (longest_word fitted_fillers))"
      using about_loop_length [OF _ fitted_fillers_ok] n
      by (fastforce simp: yields_def filler_about_def)
    show "yields (emit s) (gives c)" if "int (length s) \<le> max n (longest_word fitted_fillers)" for s
      using that \<open>n \<le> m\<close> \<open>longest_word fitted_fillers \<le> m\<close> assms(1)
      by (intro emit_text free_text_max_fits) (auto simp: m_def)
  qed
  have "yields (if 0 < l then draw_bind (filler l) emit
      else if m < 1 then refuse_draw
      else if m < n then draw_bind (intn m) (\<lambda>i. draw_bind (filler (1 + i)) emit)
      else if m < longest_word fitted_fillers then draw_bind (filler_from fitted_fillers n) emit
      else draw_bind (filler_about n) emit) (gives c)"
    using exact about m yields_short_filler [OF assms(1) m_def] yields_filler_fits [OF assms(1) n]
    by (auto simp: m_def)
  then show ?thesis
    unfolding free_text_mask_def Let_def l_def [symmetric] m_def [symmetric] n_def [symmetric]
    by (rule yields_with_labels [OF assms(2)])
qed

subsection \<open>Online ids\<close>

lemma hex_text_append: "hex_text m a \<Longrightarrow> hex_text n b \<Longrightarrow> hex_text (m + n) (a @ b)"
  by (auto simp: hex_text_def)

lemma hex_char_in:
  assumes "unat b < 16"
  shows "hex_char b \<in> set hex_alphabet"
proof -
  have "unat b < length hex_alphabet" using assms by (simp add: hex_alphabet_def)
  then show ?thesis unfolding hex_char_def by (rule nth_mem)
qed

lemma hex_pair_text: "hex_text 2 (hex_pair x)"
proof -
  have "unat (drop_bit 4 x) < 16"
    using unsigned_less [of x, where ?'a = nat] by (simp add: drop_bit_eq_div unat_div less_mult_imp_div_less)
  moreover have "unat (and x 0x0F) < 16"
  proof -
    have "and x 0x0F = take_bit 4 x" by (simp add: take_bit_eq_mask mask_eq_exp_minus_1)
    then show ?thesis using take_bit_nat_less_exp [of 4 "unat x"] by (simp add: unsigned_take_bit_eq)
  qed
  ultimately show ?thesis using hex_char_in by (simp add: hex_text_def hex_pair_def)
qed

lemma hex_pairs_text: "hex_text (2 * length bs) (concat (map hex_pair bs))"
proof (induction bs)
  case (Cons b bs)
  then show ?case using hex_text_append [OF hex_pair_text Cons.IH] by simp
qed (simp add: hex_text_def)

lemma uuid_text_shape:
  assumes "length b = 16"
  shows "uuid_shape (uuid_text b)"
proof -
  define x where "x = (b[6 := or (and (b ! 6) 0x0F) 0x40])[8 := or (and (b[6 := or (and (b ! 6) 0x0F) 0x40] ! 8) 0x3F) 0x80]"
  have upto: "[0..<16] = [0, 1, 2, 3, 4, 5, 6, 7, 8, 9, 10, 11, 12, 13, 14, 15 :: nat]"
    "[0..<4] = [0, 1, 2, 3 :: nat]" "[4..<6] = [4, 5 :: nat]" "[6..<8] = [6, 7 :: nat]" "[8..<10] = [8, 9 :: nat]"
    "[10..<16] = [10, 11, 12, 13, 14, 15 :: nat]" by code_simp+
  let ?h = "\<lambda>i j. concat (map hex_pair (map ((!) x) [i..<j]))"
  have "uuid_text b = concat (map (\<lambda>i. (if i \<in> set [4, 6, 8, 10] then ''-'' else []) @ hex_pair (x ! i)) [0..<16])"
    by (simp only: uuid_text_def x_def Let_def)
  also have "\<dots> = ?h 0 4 @ ''-'' @ ?h 4 6 @ ''-'' @ ?h 6 8 @ ''-'' @ ?h 8 10 @ ''-'' @ ?h 10 16"
    unfolding upto by simp
  finally have t: "uuid_text b = ?h 0 4 @ ''-'' @ ?h 4 6 @ ''-'' @ ?h 6 8 @ ''-'' @ ?h 8 10 @ ''-'' @ ?h 10 16" .
  have h: "hex_text (2 * (j - i)) (?h i j)" for i j
    using hex_pairs_text [of "map ((!) x) [i..<j]"] by simp
  show ?thesis
    unfolding uuid_shape_def
    using h [of 4 0] h [of 6 4] h [of 8 6] h [of 10 8] h [of 16 10]
    by (intro exI conjI) (rule t, simp_all)
qed

lemma yields_uuid: "yields uuid_from uuid_shape"
  unfolding uuid_from_def
  by (rule yields_bind [OF yields_draw_bytes]) (auto intro: yields_return uuid_text_shape)

lemma length_uuid_shape: "uuid_shape s \<Longrightarrow> length s = 36"
  by (auto simp: uuid_shape_def hex_text_def)

lemma accepts_uuid:
  assumes "labels c = []" and "constraints_ok c" and "uuid_shape s"
    and "co_tag c = fam_uuid \<or> (co_tag c \<in> set text_tags \<and> width_fits uuid_len c)"
  shows "column_accepts c (text_value s)"
proof (cases "co_tag c = fam_uuid")
  case True
  then have "co_max_len c \<le> 0" using assms(2) by (auto simp: constraints_ok_def)
  then show ?thesis using True assms by (simp add: column_accepts_def tag_accepts_def fits_iff)
next
  case False
  then show ?thesis
    using assms length_uuid_shape [OF assms(3)] by (simp add: width_fits_iff fits_iff uuid_len_def)
qed

lemma online_gives:
  assumes "labels c = []" and "co_tag c \<in> set (text_tags @ [fam_uuid])"
    and "constraints_ok c" and "0 < online_domain c"
  shows "yields (online_mask v c) (gives c)"
proof -
  have handle: "1 \<le> handle_tail c" if "co_tag c \<noteq> fam_uuid"
    using assms(1, 4) that by (auto simp: online_domain_def Let_def split: if_splits)
  have draw: "yields (case online_shape_for v c of
        OnlineUUID \<Rightarrow> draw_bind uuid_from emit
      | OnlineURL n \<Rightarrow> draw_bind (base32 n) (\<lambda>b. emit (url_prefix @ b))
      | OnlineHandle n \<Rightarrow>
          (let k = word_count fillers (fit_budget (room c) (n + 1)) in
           if k = 0 then refuse_draw
           else draw_bind (intn k) (\<lambda>i.
                draw_bind (base32 n) (\<lambda>b. emit (wl_words fillers ! nat i @ ''_'' @ b))))
      | OnlineNone \<Rightarrow> refuse_draw) (gives c)"
  proof (cases "online_shape_for v c")
    case OnlineUUID
    then have "co_tag c = fam_uuid \<or> (co_tag c \<in> set text_tags \<and> width_fits uuid_len c)"
      using assms(2) by (auto simp: online_shape_for_def Let_def split: if_splits)
    then show ?thesis
      using OnlineUUID assms(1, 3) by (auto intro!: yields_bind [OF yields_uuid] yields_emit accepts_uuid)
  next
    case (OnlineURL n)
    then have n: "text_column c" "n = url_tail c" "1 \<le> n"
      using assms(1, 2) by (auto simp: online_shape_for_def Let_def split: if_splits)
    have "fits_column (url_prefix @ b) c" if "int (length b) = max 0 n" for b
      using n that by (auto simp: url_tail_def room_fits split: if_splits)
    then show ?thesis
      using OnlineURL n(1) by (auto intro!: yields_bind [OF yields_base32] emit_text)
  next
    case (OnlineHandle n)
    then have n: "text_column c" "n = handle_tail c" "1 \<le> n"
      using assms(1, 2) by (auto simp: online_shape_for_def Let_def split: if_splits)
    define budget where "budget = fit_budget (room c) (n + 1)"
    define k where "k = word_count fillers budget"
    have k: "0 < k" "k \<le> max_int64"
      using n word_count_range [OF fillers_ok, of budget] fillers_ok
      by (auto simp: handle_tail_def k_def budget_def word_list_ok_def max_int64_def Let_def split: if_splits)
    have "yields (intn k) (\<lambda>i. 0 \<le> i \<and> i < k)"
      by (rule yields_weaken [OF yields_intn [OF k(2)]]) (use k(1) in auto)
    moreover have "fits_column (wl_words fillers ! nat i @ ''_'' @ b) c"
      if i: "0 \<le> i \<and> i < k" and b: "int (length b) = max 0 n" for i b
    proof -
      have "0 < room c \<longrightarrow> 0 < budget \<and> budget = room c - (n + 1)"
        using k(1) by (auto simp: k_def budget_def fit_budget_def word_count_def split: if_splits)
      then show ?thesis
        using word_count_fits(2) [OF fillers_ok, of i budget] i b n(3) by (auto simp: room_fits k_def)
    qed
    ultimately have "yields (draw_bind (intn k) (\<lambda>i.
        draw_bind (base32 n) (\<lambda>b. emit (wl_words fillers ! nat i @ ''_'' @ b)))) (gives c)"
      using n(1) by (auto intro!: yields_bind [where m = "intn k"] yields_bind [OF yields_base32] emit_text)
    then show ?thesis
      using OnlineHandle k(1) by (simp add: k_def budget_def Let_def)
  next
    case OnlineNone
    then show ?thesis using handle by (auto simp: online_shape_for_def Let_def split: if_splits)
  qed
  then show ?thesis unfolding online_mask_def by (rule yields_with_labels [OF assms(3)])
qed


subsection \<open>Network addresses\<close>

lemma itoa_length:
  assumes "0 \<le> i" and "i < 10 ^ w" and "0 < w"
  shows "length (itoa i) \<le> w"
  using length_pad_number [OF assms] by (auto simp: pad_number_def Let_def split: if_splits)

lemma v4_length: "v4_text s \<Longrightarrow> length s \<le> 14"
  using itoa_length [where w = 3] by (fastforce simp: v4_text_def doc_prefixes_def)

lemma hex_text_join:
  "list_all (hex_text n) gs \<Longrightarrow> gs \<noteq> [] \<Longrightarrow> Suc (length (join '':'' gs)) = Suc n * length gs"
  by (induction gs rule: induct_list012) (auto simp: hex_text_def)

lemma v6_length: "v6_text s \<Longrightarrow> length s = 39"
proof -
  assume "v6_text s"
  then obtain gs where s: "s = v6_prefix @ join '':'' gs" "length gs = 6" "list_all (hex_text 4) gs"
    by (auto simp: v6_text_def)
  have "Suc (length (join '':'' gs)) = Suc 4 * length gs" by (rule hex_text_join) (use s in auto)
  then show ?thesis using s by (simp add: v6_prefix_def)
qed

lemma mac_length: "mac_text s \<Longrightarrow> length s = 17"
  by (auto simp: mac_text_def hex_text_def mac_prefix_def)

lemma yields_hex_text: "yields (hexdigits (int n)) (hex_text n)"
  by (rule yields_weaken [OF yields_hexdigits]) (auto simp: hex_text_def)

lemma yields_v6_tail:
  "yields (v6_tail n) (\<lambda>t. \<exists>gs. t = join '':'' gs \<and> length gs = n \<and> list_all (hex_text 4) gs)"
proof (induction n)
  case 0
  show ?case by (auto intro!: yields_return exI [of _ "[]"])
next
  case (Suc n)
  have g: "yields (hexdigits 4) (hex_text 4)" using yields_hex_text [of 4] by simp
  have more: "\<exists>hs. x @ (if n = 0 then [] else '':'') @ t = join '':'' hs \<and> length hs = Suc n \<and> list_all (hex_text 4) hs"
    if x: "hex_text 4 x" and t: "\<exists>gs. t = join '':'' gs \<and> length gs = n \<and> list_all (hex_text 4) gs" for x t
  proof -
    obtain gs where gs: "t = join '':'' gs" "length gs = n" "list_all (hex_text 4) gs" using t by blast
    then show ?thesis using x by (intro exI [of _ "x # gs"]) (cases gs; auto)
  qed
  show ?case
    unfolding v6_tail.simps
    by (intro yields_bind [OF g] yields_bind [OF Suc] yields_return more)
qed

lemma yields_v6_address: "yields v6_address v6_text"
  unfolding v6_address_def
  by (rule yields_bind [OF yields_v6_tail]) (auto simp: v6_text_def v6_groups_def intro!: yields_return)

definition net_tags :: "string list" where
  "net_tags = [fam_inet, fam_cidr, fam_macaddr] @ text_tags"

lemma net_no_width: "constraints_ok c \<Longrightarrow> co_tag c \<in> set [fam_inet, fam_cidr, fam_macaddr] \<Longrightarrow> co_max_len c \<le> 0"
  by (auto simp: constraints_ok_def)

lemma accepts_v4:
  assumes "labels c = []" and "constraints_ok c" and "co_tag c \<in> set net_tags" and "co_tag c \<noteq> fam_macaddr"
    and "v4_text s" and "width_fits (net_shape_len NetV4 c) c"
  shows "column_accepts c (text_value (with_prefix_len s c ''/32''))"
  using assms v4_length [OF assms(5)] net_no_width [OF assms(2)]
  by (auto simp: column_accepts_def tag_accepts_def with_prefix_len_def fits_iff net_tags_def
      text_tags_def width_fits_iff net_shape_len_def max_v4_len_def)

lemma accepts_v6:
  assumes "labels c = []" and "constraints_ok c" and "co_tag c \<in> set net_tags" and "co_tag c \<noteq> fam_macaddr"
    and "v6_text s" and "co_tag c \<in> set [fam_inet, fam_cidr] \<or> width_fits v6_len c"
  shows "column_accepts c (text_value (with_prefix_len s c ''/128''))"
  using assms v6_length [OF assms(5)] net_no_width [OF assms(2)]
  by (auto simp: column_accepts_def tag_accepts_def with_prefix_len_def fits_iff net_tags_def
      text_tags_def width_fits_iff v6_len_def)

lemma accepts_mac:
  assumes "labels c = []" and "constraints_ok c" and "co_tag c \<in> set net_tags"
    and "co_tag c \<notin> set [fam_inet, fam_cidr]" and "mac_text s" and "width_fits mac_len c"
  shows "column_accepts c (text_value s)"
  using assms mac_length [OF assms(5)]
  by (auto simp: column_accepts_def tag_accepts_def fits_iff net_tags_def text_tags_def width_fits_iff mac_len_def)

lemma network_gives:
  assumes "labels c = []" and "co_tag c \<in> set net_tags" and "constraints_ok c"
    and "net_shape_for lib v c \<noteq> NetNone"
  shows "yields (network_mask lib v c) (gives c)"
proof -
  define shape where "shape = net_shape_for lib v c"
  have w: "width_fits (net_shape_len shape c) c"
    using assms(4) by (auto simp: shape_def net_shape_for_def Let_def split: if_splits)
  have mac: "co_tag c \<notin> set [fam_inet, fam_cidr]" if "shape = NetMAC"
    using that by (auto simp: shape_def net_shape_for_def mac_admissible_def Let_def split: if_splits)
  have not_mac: "co_tag c \<noteq> fam_macaddr" if "shape \<noteq> NetMAC"
    using that assms(4) by (auto simp: shape_def net_shape_for_def Let_def split: if_splits)
  have hex: "yields (hexdigits 2) (hex_text 2)" using yields_hex_text [of 2] by simp
  have hosts: "yields (intn (int (length doc_prefixes))) (\<lambda>i. 0 \<le> i \<and> nat i < length doc_prefixes)"
    by (rule yields_intn_nat) (simp_all add: doc_prefixes_def max_int64_def)
  have last: "yields (intn 256) (\<lambda>k. 0 \<le> k \<and> k < 256)"
    by (rule yields_weaken [OF yields_intn]) (simp_all add: max_int64_def)
  have v4: "v4_text (doc_prefixes ! nat i @ itoa k)"
    if "0 \<le> i \<and> nat i < length doc_prefixes" "0 \<le> k \<and> k < 256" for i k
    using that nth_mem unfolding v4_text_def by blast
  have "yields (case shape of
        NetNone \<Rightarrow> refuse_draw
      | NetMAC \<Rightarrow> draw_bind (hexdigits 2) (\<lambda>h. emit (mac_prefix @ h))
      | NetV6 \<Rightarrow> draw_bind v6_address (\<lambda>a. emit (with_prefix_len a c ''/128''))
      | NetV4 \<Rightarrow>
          draw_bind (intn (int (length doc_prefixes))) (\<lambda>i.
          draw_bind (intn 256) (\<lambda>k.
            emit (with_prefix_len (doc_prefixes ! nat i @ itoa k) c ''/32'')))) (gives c)"
  proof (cases shape)
    case NetNone
    then show ?thesis using assms(4) by (simp add: shape_def)
  next
    case NetV4
    show ?thesis
      unfolding NetV4 net_shape.case using NetV4 w not_mac
      by (intro yields_bind [OF hosts] yields_bind [OF last] yields_emit
          accepts_v4 [OF assms(1, 3, 2)] v4) auto
  next
    case NetV6
    have "co_tag c \<in> set [fam_inet, fam_cidr] \<or> width_fits v6_len c"
      using w NetV6 by (auto simp: net_shape_len_def Let_def split: if_splits)
    then show ?thesis
      unfolding NetV6 net_shape.case using NetV6 not_mac
      by (intro yields_bind [OF yields_v6_address] yields_emit accepts_v6 [OF assms(1, 3, 2)]) auto
  next
    case NetMAC
    have "width_fits mac_len c" using w NetMAC by (simp add: net_shape_len_def)
    then show ?thesis
      unfolding NetMAC net_shape.case using mac [OF NetMAC]
      by (intro yields_bind [OF hex] yields_emit accepts_mac [OF assms(1, 3, 2)])
        (auto simp: mac_text_def)
  qed
  then show ?thesis
    unfolding network_mask_def shape_def [symmetric] by (rule yields_with_labels [OF assms(3)])
qed

lemma ip_unique_gives:
  assumes "labels c = []" and "co_tag c \<in> set net_tags" and "constraints_ok c"
    and "0 < ip_unique_domain c"
  shows "yields (ip_unique_mask c) (gives c)"
proof -
  have "co_tag c \<noteq> fam_macaddr" "co_tag c \<in> set [fam_inet, fam_cidr] \<or> width_fits v6_len c"
    using assms(1, 4) by (auto simp: ip_unique_domain_def split: if_splits)
  then have "yields (draw_bind v6_address (\<lambda>a. emit (with_prefix_len a c ''/128''))) (gives c)"
    by (intro yields_bind [OF yields_v6_address] yields_emit accepts_v6 [OF assms(1, 3, 2)]) auto
  then show ?thesis
    unfolding ip_unique_mask_def by (intro yields_with_labels [OF assms(3)]) (use assms(4) in auto)
qed

subsection \<open>Credentials and empty values\<close>

lemma accepts_bytes: "labels c = [] \<Longrightarrow> co_tag c = fam_bytea \<Longrightarrow> column_accepts c (bytes_value b)"
  by (simp add: column_accepts_def)

lemma fixed_gives:
  assumes "labels c = []" and "co_tag c \<in> set (text_tags @ [fam_bytea])"
  shows "yields (fixed_mask literal c) (gives c)"
proof (cases "co_tag c = fam_bytea")
  case True
  then show ?thesis
    using accepts_bytes [OF assms(1)] by (simp add: fixed_mask_def gives_def yields_return)
next
  case False
  then have "text_column c" using assms by auto
  then show ?thesis
    using False by (auto simp: fixed_mask_def Let_def fits_iff intro!: emit_text)
qed

lemma credential_unique_gives:
  assumes "labels c = []" and "co_tag c \<in> set (text_tags @ [fam_bytea])" and "constraints_ok c"
    and "0 < credential_unique_domain c"
  shows "yields (credential_unique_mask c) (gives c)"
proof -
  define n where "n = credential_unique_symbols c"
  have n: "1 \<le> n" "n \<noteq> 0"
    using assms(1, 4)
    by (auto simp: credential_unique_domain_def n_def credential_unique_symbols_def
        credential_unique_suffix_def Let_def split: if_splits)
  have fit: "fits_column (credential_unique_prefix @ b) c" if "int (length b) = max 0 n" for b
    using n(1) that
    by (auto simp: n_def credential_unique_symbols_def fits_iff Let_def split: if_splits)
  have "yields (draw_bind (base32 n) (\<lambda>b.
        let out = credential_unique_prefix @ b in
        if \<not> fits_column out c then refuse_draw
        else if co_tag c = fam_bytea then draw_return (Inr (bytes_value (bytes_of_string out)))
        else emit out)) (gives c)"
  proof (rule yields_bind [OF yields_base32])
    fix b assume "int (length b) = max 0 n \<and> set b \<subseteq> set b32_alphabet"
    then show "yields (let out = credential_unique_prefix @ b in
        if \<not> fits_column out c then refuse_draw
        else if co_tag c = fam_bytea then draw_return (Inr (bytes_value (bytes_of_string out)))
        else emit out) (gives c)"
      using fit [of b] assms(1, 2) accepts_bytes [OF assms(1)]
      by (auto simp: Let_def gives_def intro!: yields_return emit_text)
  qed
  then show ?thesis
    unfolding credential_unique_mask_def Let_def n_def [symmetric] if_not_P [OF n(2)]
    by (intro yields_with_labels [OF assms(3)])
qed

lemma null_gives:
  assumes "labels c \<noteq> [] \<or> co_tag c = fam_bytea"
  shows "yields (null_mask c) (gives c)"
  using assms nth_mem [of 0 "labels c"]
  by (auto simp: null_mask_def gives_def zero_value_def column_accepts_def numeric_family_def
      intro!: yields_return)

lemma derived_gives:
  assumes "labels c = []" and "co_tag c = fam_tsvector" and "constraints_ok c"
  shows "yields (derived_text_mask c) (gives c)"
  using assms
  by (auto simp: derived_text_mask_def column_accepts_def tag_accepts_def fits_iff intro!: yields_emit)

subsection \<open>Special categories\<close>

definition special_tags :: "string list" where
  "special_tags = text_tags @ [fam_boolean, fam_integer, fam_bigint, fam_numeric, fam_float,
     fam_date, fam_timestamp, fam_uuid, fam_bytea]"

lemma zero_date: "date_text ''1970-01-01''"
proof -
  have "format_date 1970 1 1 = ''1970-01-01''" by code_simp
  then show ?thesis unfolding date_text_def by (intro exI [of _ 1970] exI [of _ 1]) (simp add: month_days_def)
qed

lemma zero_time: "time_text ''1970-01-01 00:00:00''"
proof -
  have "format_time 0 = ''00:00:00''" by code_simp
  then have "''1970-01-01 00:00:00'' = ''1970-01-01'' @ '' '' @ format_time 0" by simp
  then show ?thesis using zero_date unfolding time_text_def by (intro exI [of _ "''1970-01-01''"] exI [of _ 0]) auto
qed

lemma zero_uuid: "uuid_shape ''00000000-0000-0000-0000-000000000000''"
  unfolding uuid_shape_def
  by (rule exI [of _ "''00000000''"], rule exI [of _ "''0000''"], rule exI [of _ "''0000''"],
      rule exI [of _ "''0000''"], rule exI [of _ "''000000000000''"]) (simp add: hex_text_def hex_alphabet_def)

lemma zero_accepted:
  assumes "labels c = []" and "constraints_ok c" and "co_tag c \<in> set special_tags"
  shows "column_accepts c (zero_value c)"
proof -
  have zero: "decimal ''0''" by code_simp
  then have "decimal_text ''0''" using decimal_is_text by simp
  moreover have "co_tag c \<notin> set text_tags \<Longrightarrow> co_max_len c \<le> 0"
    using assms(2) by (auto simp: constraints_ok_def text_tags_def)
  ultimately show ?thesis
    using assms zero zero_date zero_time zero_uuid
    by (auto simp: special_tags_def text_tags_def zero_value_def column_accepts_def tag_accepts_def
        numeric_family_def fits_iff)
qed

lemma collapsed_accepted:
  assumes "labels c \<noteq> [] \<or> co_tag c \<in> set special_tags" and "constraints_ok c"
  shows "column_accepts c (collapsed c)"
  using assms zero_accepted [OF _ assms(2)] nth_mem [of 0 "labels c"]
  by (auto simp: collapsed_def column_accepts_def)

lemma generic_gives:
  assumes "labels c = []" and "co_tag c \<in> set special_tags" and "constraints_ok c" and "0 < generic_domain c"
  shows "yields (generic_mask c) (gives c)"
proof -
  consider (bool) "co_tag c = fam_boolean" | (num) "numeric_family (co_tag c)"
    | (date) "co_tag c \<in> set [fam_date, fam_timestamp]" | (uuid) "co_tag c = fam_uuid"
    | (bytea) "co_tag c = fam_bytea" | (chars) "co_tag c \<in> set text_tags"
    using assms(2) by (auto simp: special_tags_def numeric_family_def text_tags_def)
  then show ?thesis
  proof cases
    case bool
    then have "co_max_len c \<le> 0" using assms(3) by (auto simp: constraints_ok_def)
    then have "yields (draw_bind (intn 2) (\<lambda>i. emit (if i = 1 then ''true'' else ''false''))) (gives c)"
      using bool assms(1)
      by (intro yields_bind [OF yields_intn [of 2]] yields_emit)
        (auto simp: max_int64_def column_accepts_def tag_accepts_def fits_iff)
    then show ?thesis unfolding generic_mask_def if_P [OF bool] by (intro yields_with_labels [OF assms(3)])
  next
    case num
    define n where "n = digit_budget c national_id_digits"
    have n: "1 \<le> n"
      using assms(1, 4) num
      by (auto simp: generic_domain_def n_def numeric_family_def Let_def split: if_splits)
    have b: "co_tag c \<noteq> fam_boolean" using num by (auto simp: numeric_family_def)
    have "yields (if n < 1 then refuse_draw else draw_bind (digits n False) emit) (gives c)"
      using n num digit_budget_bounds [of c national_id_digits] assms(1)
      by (auto simp: n_def intro!: yields_number)
    then show ?thesis
      unfolding generic_mask_def if_not_P [OF b] if_P [OF num] Let_def n_def [symmetric]
      by (intro yields_with_labels [OF assms(3)])
  next
    case date
    then show ?thesis
      unfolding generic_mask_def
      using yields_draw_date [OF assms(1) _ assms(3)]
      by (intro yields_with_labels [OF assms(3)]) (auto simp: numeric_family_def)
  next
    case uuid
    then show ?thesis
      unfolding generic_mask_def
      by (intro yields_with_labels [OF assms(3)])
        (auto simp: numeric_family_def intro!: yields_bind [OF yields_uuid] yields_emit
          accepts_uuid [OF assms(1, 3)])
  next
    case bytea
    then show ?thesis
      unfolding generic_mask_def
      by (intro yields_with_labels [OF assms(3)])
        (auto simp: numeric_family_def gives_def intro!: yields_bind [OF yields_draw_bytes] yields_return
          accepts_bytes [OF assms(1)])
  next
    case chars
    then show ?thesis
      unfolding generic_mask_def
      using yields_short_filler [OF _ refl, of c] free_text_max_pos [of c] assms(1)
      by (intro yields_with_labels [OF assms(3)])
        (auto simp: numeric_family_def text_tags_def Let_def)
  qed
qed

lemma generic_labels: "labels c \<noteq> [] \<Longrightarrow> constraints_ok c \<Longrightarrow> yields (generic_mask c) (gives c)"
  unfolding generic_mask_def by (rule yields_with_labels) auto

lemma special_gives:
  assumes "labels c \<noteq> [] \<or> co_tag c \<in> set special_tags" and "constraints_ok c" and "0 < special_domain c"
  shows "yields (special_mask c) (gives c)"
proof (cases "special_collapses c")
  case True
  then show ?thesis
    using collapsed_accepted [OF assms(1, 2)] by (simp add: special_mask_def gives_def yields_return)
next
  case False
  then have "0 < generic_domain c" using assms(3) by (simp add: special_domain_def)
  then show ?thesis
    using False assms(1, 2) generic_gives generic_labels by (auto simp: special_mask_def)
qed

end
