(* ===== verification/Mask_Properties.thy ===== *)
theory Mask_Properties
  imports Mask_Accepts
begin

text \<open>
  What the registry promises of the column it masks: the id it picks covers the column, and what
  that id's generator emits can be loaded.
\<close>

subsection \<open>Every registered generator\<close>

lemma registered_masker:
  assumes "mid \<in> set (candidates cat)"
  obtains m where "(mid, cat, m) \<in> set registry"
  using assms by (auto simp: candidates_def)

lemma get_registered: "(mid, cat, m) \<in> set registry \<Longrightarrow> get_masker mid = Some m"
proof -
  have "list_all (\<lambda>e. get_masker (fst e) = Some (snd (snd e))) registry" by code_simp
  then show "(mid, cat, m) \<in> set registry \<Longrightarrow> get_masker mid = Some m" by (auto simp: list_all_iff)
qed

lemma writable_domain:
  assumes "writable cat mid c" and "get_masker mid = Some m"
  shows "0 < masker_domain m c"
  using assms by (auto simp: writable_def admissible_def split: if_splits)

fun home_category :: "masker \<Rightarrow> string" where
  "home_category EmailMasker = ''email''"
| "home_category PersonNameMasker = ''person_name''"
| "home_category PhoneMasker = ''phone''"
| "home_category PhoneUniqueMasker = ''phone''"
| "home_category AddressMasker = ''address''"
| "home_category GeoMasker = ''geo''"
| "home_category PersonDateMasker = ''person_date''"
| "home_category NationalIDMasker = ''national_id''"
| "home_category FinancialAccountMasker = ''financial_account''"
| "home_category NetworkIDMasker = ''network_id''"
| "home_category IPUniqueMasker = ''network_id''"
| "home_category OnlineIDMasker = ''online_id''"
| "home_category (FixedMasker l) = ''credential''"
| "home_category CredentialUniqueMasker = ''credential''"
| "home_category FreeTextMasker = ''free_text''"
| "home_category SpecialCategoryMasker = ''special_category''"
| "home_category NullMasker = ''binary_personal''"
| "home_category SemiStructuredMasker = ''semi_structured''"
| "home_category DerivedTextMasker = ''derived_text''"

lemma registered_under:
  assumes "(mid, cat, m) \<in> set registry"
  shows "cat = home_category m"
    and "m = FixedMasker l \<Longrightarrow> mid = credential_masker"
    and "m = DerivedTextMasker \<Longrightarrow> mid = ''derived_text''"
    and "m = NetworkIDMasker \<Longrightarrow> mid = ''network_id''"
proof -
  have "list_all (\<lambda>(mid, cat, m). cat = home_category m
      \<and> (case m of FixedMasker l \<Rightarrow> mid = credential_masker | DerivedTextMasker \<Rightarrow> mid = ''derived_text''
         | NetworkIDMasker \<Rightarrow> mid = ''network_id'' | _ \<Rightarrow> True)) registry"
    by code_simp
  then have "cat = home_category m
      \<and> (case m of FixedMasker l \<Rightarrow> mid = credential_masker | DerivedTextMasker \<Rightarrow> mid = ''derived_text''
         | NetworkIDMasker \<Rightarrow> mid = ''network_id'' | _ \<Rightarrow> True)"
    using assms by (auto simp: list_all_iff)
  then show "cat = home_category m" "m = FixedMasker l \<Longrightarrow> mid = credential_masker"
    "m = DerivedTextMasker \<Longrightarrow> mid = ''derived_text''" "m = NetworkIDMasker \<Longrightarrow> mid = ''network_id''"
    by auto
qed

definition home_tags :: "masker \<Rightarrow> string list" where
  "home_tags m = the (map_of writable_tags (home_category m))"

lemma home_tags_simps [simp]:
  "home_tags EmailMasker = text_tags"
  "home_tags PersonNameMasker = text_tags"
  "home_tags PhoneMasker = text_tags @ [fam_bigint, fam_integer, fam_numeric]"
  "home_tags PhoneUniqueMasker = text_tags @ [fam_bigint, fam_integer, fam_numeric]"
  "home_tags AddressMasker = text_tags"
  "home_tags GeoMasker = text_tags @ [fam_numeric, fam_float]"
  "home_tags PersonDateMasker = [fam_date, fam_timestamp, fam_text, fam_varchar, fam_bpchar]"
  "home_tags NationalIDMasker = text_tags @ [fam_bigint, fam_integer, fam_numeric]"
  "home_tags FinancialAccountMasker = text_tags @ [fam_bigint, fam_integer, fam_numeric]"
  "home_tags NetworkIDMasker = net_tags"
  "home_tags IPUniqueMasker = net_tags"
  "home_tags OnlineIDMasker = text_tags @ [fam_uuid]"
  "home_tags (FixedMasker l) = text_tags @ [fam_bytea]"
  "home_tags CredentialUniqueMasker = text_tags @ [fam_bytea]"
  "home_tags FreeTextMasker = text_tags"
  "home_tags SpecialCategoryMasker = special_tags @ [fam_json, fam_jsonb, fam_hstore]"
  "home_tags NullMasker = [fam_bytea]"
  "home_tags SemiStructuredMasker = [fam_json, fam_jsonb, fam_hstore]"
  "home_tags DerivedTextMasker = [fam_tsvector]"
  by (simp_all add: home_tags_def writable_tags_def net_tags_def special_tags_def)

lemma writable_home:
  assumes "writable cat mid c" and "labels c = []" and "(mid, cat, m) \<in> set registry"
  shows "co_tag c \<in> set (home_tags m)"
  using assms registered_under(1) [OF assms(3)]
  by (auto simp: writable_def home_tags_def split: option.splits)

lemma labelled_gives:
  assumes "labels c \<noteq> []" and "constraints_ok c" and "\<And>l. m \<noteq> FixedMasker l"
    and "m \<noteq> DerivedTextMasker" and "0 < masker_domain m c"
  shows "yields (masker_draw m lib v c) (gives c)"
proof -
  have l: "yields (with_labels c d) (gives c)" for d
    by (rule yields_with_labels) (use assms in auto)
  show ?thesis
    using assms(1, 3-5) null_gives [of c] special_gives [OF _ assms(2)]
    by (cases m)
      (simp_all only: masker_draw.simps masker_domain.simps email_mask_def person_name_mask_def phone_mask_def
        phone_unique_mask_def address_mask_def geo_mask_def person_date_mask_def national_id_mask_def
        financial_mask_def network_mask_def ip_unique_mask_def online_mask_def credential_unique_mask_def
        free_text_mask_def semi_structured_mask_def l simp_thms masker.distinct, auto)
qed

lemma unlabelled_gives:
  assumes labels: "labels c = []" and ok: "constraints_ok c" and tag: "co_tag c \<in> set (home_tags m)"
    and dom: "0 < masker_domain m c" and doc: "\<not> document_tag (co_tag c)"
    and net: "m = NetworkIDMasker \<Longrightarrow> net_shape_for lib v c \<noteq> NetNone"
  shows "yields (masker_draw m lib v c) (gives c)"
proof -
  have number: "co_tag c \<in> set text_tags \<or> numeric_family (co_tag c)"
    if "m \<in> {PhoneMasker, PhoneUniqueMasker, NationalIDMasker, FinancialAccountMasker}"
    using that tag by (auto simp: numeric_family_def)
  show ?thesis
  proof (cases m)
    case EmailMasker
    then show ?thesis using labels ok tag dom by (simp add: email_gives)
  next
    case PersonNameMasker
    then show ?thesis using labels ok tag dom by (simp add: person_name_gives)
  next
    case PhoneMasker
    then show ?thesis using labels ok number dom by (simp add: phone_gives)
  next
    case PhoneUniqueMasker
    then show ?thesis using labels ok number dom by (simp add: phone_unique_gives)
  next
    case AddressMasker
    then show ?thesis using labels ok tag dom by (simp add: address_gives)
  next
    case GeoMasker
    then show ?thesis using tag dom by (simp add: geo_gives [OF labels _ ok])
  next
    case PersonDateMasker
    then show ?thesis using tag dom by (simp add: person_date_gives [OF labels _ ok])
  next
    case NationalIDMasker
    then show ?thesis using labels ok number dom by (simp add: national_id_gives)
  next
    case FinancialAccountMasker
    then show ?thesis using labels ok number dom by (simp add: financial_gives)
  next
    case NetworkIDMasker
    then show ?thesis using tag net by (simp add: network_gives [OF labels _ ok])
  next
    case IPUniqueMasker
    then show ?thesis using tag dom by (simp add: ip_unique_gives [OF labels _ ok])
  next
    case OnlineIDMasker
    then show ?thesis using tag dom by (simp add: online_gives [OF labels _ ok])
  next
    case (FixedMasker l)
    then show ?thesis using tag by (simp add: fixed_gives [OF labels])
  next
    case CredentialUniqueMasker
    then show ?thesis using tag dom by (simp add: credential_unique_gives [OF labels _ ok])
  next
    case FreeTextMasker
    then show ?thesis using labels ok tag by (simp add: free_text_gives)
  next
    case SpecialCategoryMasker
    have "co_tag c \<in> set special_tags"
      using tag doc unfolding SpecialCategoryMasker home_tags_simps document_tag_def by auto
    then show ?thesis using SpecialCategoryMasker ok dom by (simp add: special_gives)
  next
    case NullMasker
    then show ?thesis using tag by (simp add: null_gives)
  next
    case SemiStructuredMasker
    then show ?thesis using tag doc unfolding SemiStructuredMasker home_tags_simps document_tag_def by auto
  next
    case DerivedTextMasker
    then show ?thesis using tag by (simp add: derived_gives [OF labels _ ok])
  qed
qed

lemma network_refusal:
  assumes "labels c = []" and "net_shape_for lib v c = NetNone"
  shows "yields (network_mask lib v c) (\<lambda>r. r = Inl ErrNoRoom)"
  using assms by (simp add: network_mask_def with_labels_def refuse_draw_def yields_return)

subsection \<open>What the choice covers\<close>

lemma best_candidate_max:
  assumes "best_candidate c (mid, admissible mid c) ids = (best, d)"
  shows "best \<in> set (mid # ids) \<and> d = admissible best c \<and> (\<forall>i\<in>set (mid # ids). admissible i c \<le> d)"
  using assms
proof (induction ids arbitrary: mid)
  case (Cons i ids)
  show ?case
  proof (cases "admissible mid c < admissible i c")
    case True
    then have "best_candidate c (i, admissible i c) ids = (best, d)" using Cons.prems by (simp add: Let_def)
    from Cons.IH [OF this] show ?thesis using True by auto
  next
    case False
    then have "best_candidate c (mid, admissible mid c) ids = (best, d)" using Cons.prems by (simp add: Let_def)
    from Cons.IH [OF this] show ?thesis using False by force
  qed
qed simp

lemma required_min: "0 < n \<Longrightarrow> required n = min (n * n * epsilon_denominator) max_int64"
proof -
  assume n: "0 < n"
  have "sat_mul n n = min (n * n) max_int64" using n by (simp add: sat_mul_min)
  moreover have "0 < sat_mul n n" using n by (rule sat_mul_pos [OF _ n])
  moreover have "n * n \<le> n * n * epsilon_denominator" using n by (simp add: epsilon_denominator_def)
  ultimately show ?thesis
    using n by (auto simp: required_def sat_mul_min epsilon_denominator_def max_int64_def min_def)
qed

lemma pick_candidate: "pick_masker cat c = Inr mid \<Longrightarrow> mid \<in> set (candidates cat)"
  using best_candidate_max [of c]
  by (fastforce simp: pick_masker_def split: list.splits if_splits prod.splits)

text \<open>C32: \<open>Pick\<close> gives a generator that covers the column or a refusal that says why none does: on a
  column under a unique index the id it returns emits at least \<open>n\<^sup>2 / 2\<epsilon>\<close> distinct values for the
  \<open>n\<close> rows (saturated at the largest \<open>int64\<close>) and no candidate emits more; a category without
  maskers, a column nothing fits, a missing row count and a domain that is too narrow are told
  apart, and each refusal is about every candidate.\<close>

theorem pick_masker_covers:
  "(\<forall>mid. pick_masker cat c = Inr mid \<longrightarrow>
      mid \<in> set (candidates cat) \<and> 0 < admissible mid c
      \<and> (\<not> co_unique c \<longrightarrow> mid = hd (candidates cat))
      \<and> (co_unique c \<longrightarrow> 0 < co_rows c
          \<and> min (co_rows c * co_rows c * epsilon_denominator) max_int64 \<le> admissible mid c
          \<and> (\<forall>i\<in>set (candidates cat). admissible i c \<le> admissible mid c)))
   \<and> (\<forall>e. pick_masker cat c = Inl e \<longrightarrow>
      (e = ErrNoCategory \<and> candidates cat = [])
      \<or> (\<exists>mid. e = no_room_for cat mid c \<and> mid \<in> set (candidates cat) \<and> admissible mid c \<le> 0
          \<and> (co_unique c \<longrightarrow> (\<forall>i\<in>set (candidates cat). admissible i c \<le> 0)))
      \<or> (e = ErrRowCountUnknown \<and> co_unique c \<and> co_rows c \<le> 0)
      \<or> (\<exists>r. e = DomainError r \<and> co_unique c \<and> 0 < co_rows c \<and> de_id r \<in> set (candidates cat)
          \<and> de_domain r = admissible (de_id r) c
          \<and> de_required r = min (co_rows c * co_rows c * epsilon_denominator) max_int64
          \<and> (\<forall>i\<in>set (candidates cat). admissible i c < de_required r)))"
proof (cases "candidates cat")
  case Nil
  then show ?thesis by (simp add: pick_masker_def)
next
  case (Cons mid ids)
  obtain best d where b: "best_candidate c (mid, admissible mid c) ids = (best, d)" by fastforce
  note bm = best_candidate_max [OF b]
  have pick: "pick_masker cat c =
     (if \<not> co_unique c then if admissible mid c \<le> 0 then Inl (no_room_for cat mid c) else Inr mid
      else if d \<le> 0 then Inl (no_room_for cat best c)
      else if co_rows c \<le> 0 then Inl ErrRowCountUnknown
      else if d < required (co_rows c) then
        Inl (DomainError \<lparr>de_category = cat, de_id = best, de_domain = d,
               de_required = required (co_rows c), de_rows = co_rows c\<rparr>)
      else Inr best)"
    by (simp add: pick_masker_def Cons b)
  consider (plain) "\<not> co_unique c" | (room) "co_unique c" "d \<le> 0"
    | (rows) "co_unique c" "0 < d" "co_rows c \<le> 0"
    | (narrow) "co_unique c" "0 < d" "0 < co_rows c" "d < required (co_rows c)"
    | (covered) "co_unique c" "0 < d" "0 < co_rows c" "required (co_rows c) \<le> d"
    by linarith
  then show ?thesis
  proof cases
    case plain
    show ?thesis
    proof (cases "admissible mid c \<le> 0")
      case True
      then show ?thesis unfolding pick Cons using plain by auto
    next
      case False
      then show ?thesis unfolding pick Cons using plain by auto
    qed
  next
    case room
    have "admissible i c \<le> 0" if "i \<in> set (mid # ids)" for i
      using bm that room(2) by force
    then show ?thesis using bm room unfolding pick Cons by auto
  next
    case rows
    then show ?thesis by (simp add: pick)
  next
    case narrow
    have "admissible i c < required (co_rows c)" if "i \<in> set (mid # ids)" for i
      using bm that narrow(4) by force
    then show ?thesis using bm narrow required_min [OF narrow(3)] unfolding pick Cons by auto
  next
    case covered
    then have "pick_masker cat c = Inr best" by (simp add: pick)
    moreover have "required (co_rows c) \<le> admissible best c" using covered(4) bm by simp
    ultimately show ?thesis
      using bm covered unfolding required_min [OF covered(3)] by (auto simp: Cons)
  qed
qed

definition shop_column :: constraints where
  "shop_column = no_constraints \<lparr>co_tag := fam_date\<rparr>"

lemma pick_masker_covers_witness:
  "pick_masker ''person_date'' (shop_column \<lparr>co_unique := True, co_rows := 3\<rparr>)
     = Inl (DomainError \<lparr>de_category = ''person_date'', de_id = ''person_date'', de_domain = 25568,
              de_required = 4500000, de_rows = 3\<rparr>)
   \<and> list_all (\<lambda>i. admissible i (shop_column \<lparr>co_unique := True, co_rows := 3\<rparr>) < 4500000)
         (candidates ''person_date'')"
proof -
  have p: "pick_masker ''person_date'' (shop_column \<lparr>co_unique := True, co_rows := 3\<rparr>)
     = Inl (DomainError \<lparr>de_category = ''person_date'', de_id = ''person_date'', de_domain = 25568,
              de_required = 4500000, de_rows = 3\<rparr>)"
    by code_simp
  from pick_masker_covers [of "''person_date''" "shop_column \<lparr>co_unique := True, co_rows := 3\<rparr>", THEN conjunct2,
      rule_format, OF p]
  show ?thesis using p by (auto simp: no_room_for_def list_all_iff)
qed

text \<open>C31: What a generator emits can be loaded. When \<open>Pick\<close> gave an id for a column, \<open>Writable\<close> said
  yes and the column's facts are as the schema reader gives them, then every value that id's
  generator returns under any digest and for any source value is one the column's type accepts and
  its width holds, a label where the column has labels, and never a refusal -- with one exception,
  which is stated: a \<open>network_id\<close> column of a character type too narrow for an IPv6 address refuses
  a source value that is one. Credentials and emptied text vectors under labels, and documents, are
  outside the claim.\<close>

theorem masked_value_accepted:
  assumes "constraints_ok c" and "pick_masker cat c = Inr mid" and "writable cat mid c"
    and "labels c \<noteq> [] \<Longrightarrow> mid \<notin> {credential_masker, ''derived_text''}"
    and "labels c = [] \<Longrightarrow> \<not> document_tag (co_tag c)"
    and "get_masker mid = Some m" and "run_masker m lib h v c = Some r"
  shows "(\<exists>w. r = Inr w \<and> column_accepts c w)
    \<or> (r = Inl ErrNoRoom \<and> mid = ''network_id'' \<and> net_shape_for lib v c = NetNone)"
proof -
  obtain m' where reg': "(mid, cat, m') \<in> set registry" using registered_masker [OF pick_candidate [OF assms(2)]] .
  then have reg: "(mid, cat, m) \<in> set registry" using get_registered assms(6) by force
  note under = registered_under [OF reg]
  note dom = writable_domain [OF assms(3, 6)]
  obtain s' where run: "masker_draw m lib v c (new_stream (lb_sha lib) h) = Some (r, s')"
    using assms(7) by (auto simp: run_masker_def)
  show ?thesis
  proof (cases "labels c = []")
    case True
    show ?thesis
    proof (cases "m = NetworkIDMasker \<and> net_shape_for lib v c = NetNone")
      case none: True
      then have "mid = ''network_id''" using under(4) by blast
      then show ?thesis using none yieldsD [OF network_refusal [OF True, of lib v]] run by simp
    next
      case False
      then have "yields (masker_draw m lib v c) (gives c)"
        using unlabelled_gives [OF True assms(1) writable_home [OF assms(3) True reg] dom] assms(5) True
        by blast
      from yieldsD [OF this run] show ?thesis by (simp add: gives_def)
    qed
  next
    case False
    have "m \<noteq> FixedMasker l" for l using assms(4) False under(2) by blast
    moreover have "m \<noteq> DerivedTextMasker" using assms(4) False under(3) by blast
    ultimately have "yields (masker_draw m lib v c) (gives c)"
      using labelled_gives [OF False assms(1)] dom by blast
    from yieldsD [OF this run] show ?thesis by (simp add: gives_def)
  qed
qed

definition zero_lib :: mask_lib where
  "zero_lib = \<lparr>lb_sha = (\<lambda>b. replicate 32 0), lb_fold = to_lower, lb_runes = (\<lambda>s. int (length s)),
     lb_v6 = (\<lambda>s. False), lb_decode = (\<lambda>s. None), lb_encode = (\<lambda>j. None)\<rparr>"

lemma masked_value_accepted_witness:
  "run_masker PersonDateMasker zero_lib [] (text_value ''1971-02-03'') shop_column
     = Some (Inr (text_value ''1940-01-01''))
   \<and> column_accepts shop_column (text_value ''1940-01-01'')"
proof -
  have run: "run_masker PersonDateMasker zero_lib [] (text_value ''1971-02-03'') shop_column
     = Some (Inr (text_value ''1940-01-01''))"
    by code_simp
  have "(\<exists>w. Inr (text_value ''1940-01-01'') = (Inr w :: masked) \<and> column_accepts shop_column w)
    \<or> ((Inr (text_value ''1940-01-01'') :: masked) = Inl ErrNoRoom \<and> ''person_date'' = ''network_id''
       \<and> net_shape_for zero_lib (text_value ''1971-02-03'') shop_column = NetNone)"
  proof (rule masked_value_accepted [OF _ _ _ _ _ _ run])
    show "constraints_ok shop_column" by code_simp
    show "pick_masker ''person_date'' shop_column = Inr ''person_date''" by code_simp
    show "writable ''person_date'' ''person_date'' shop_column" by code_simp
    show "get_masker ''person_date'' = Some PersonDateMasker" by code_simp
    show "\<not> document_tag (co_tag shop_column)" by code_simp
    show "''person_date'' \<notin> {credential_masker, ''derived_text''}" by code_simp
  qed
  then show ?thesis using run by simp
qed

text \<open>What the comment of \<open>Writable\<close> says of every generator does not hold of the fixed literal: a
  labelled credential column is writable and is given a value that is none of its labels.\<close>

lemma labelled_credential_not_accepted:
  "\<exists>c. constraints_ok c \<and> pick_masker ''credential'' c = Inr credential_masker
     \<and> writable ''credential'' credential_masker c \<and> labels c = [''open'', ''shut'']
     \<and> run_masker (FixedMasker credential_literal) zero_lib [] (text_value ''open'') c
         = Some (Inr (text_value credential_literal))
     \<and> \<not> column_accepts c (text_value credential_literal)"
proof (intro exI conjI)
  let ?c = "no_constraints \<lparr>co_tag := fam_text, co_enum_labels := [''open'', ''shut'']\<rparr>"
  show "constraints_ok ?c" by code_simp
  show "pick_masker ''credential'' ?c = Inr credential_masker" by code_simp
  show "writable ''credential'' credential_masker ?c" by code_simp
  show "labels ?c = [''open'', ''shut'']" by code_simp
  show "run_masker (FixedMasker credential_literal) zero_lib [] (text_value ''open'') ?c
      = Some (Inr (text_value credential_literal))" by code_simp
  show "\<not> column_accepts ?c (text_value credential_literal)"
    by (simp add: column_accepts_def labels_def no_constraints_def credential_literal_def)
qed

lemma narrow_network_refused:
  "\<exists>c lib v. constraints_ok c \<and> pick_masker ''network_id'' c = Inr ''network_id''
     \<and> writable ''network_id'' ''network_id'' c
     \<and> run_masker NetworkIDMasker lib [] v c = Some (Inl ErrNoRoom)"
  by (rule exI [of _ "no_constraints \<lparr>co_tag := fam_varchar, co_max_len := 20\<rparr>"],
      rule exI [of _ "zero_lib \<lparr>lb_v6 := (\<lambda>s. s = ''2001:db8::1'')\<rparr>"],
      rule exI [of _ "text_value ''2001:db8::1''"]) code_simp

end
