(* ===== verification/Card.thy ===== *)
theory Card
  imports Strings
begin

text \<open>
  The payment-card readings of \<open>internal/textsig\<close>: \<open>validLuhn\<close> of \<open>textsig.go\<close> and \<open>validCard\<close>
  with its issuer table of \<open>card.go\<close>. A value is its UTF-8 bytes; of the separators only the
  non-breaking space is outside ASCII, and it is the two bytes \<open>C2 A0\<close>. The spellings a caller tries
  one after the other (\<open>Candidates\<close>) are not part of this: these are the tests one spelling passes.
\<close>

definition is_card_separator :: "char \<Rightarrow> bool" where
  "is_card_separator c \<longleftrightarrow> c \<in> set '' -./''"

text \<open>The reading loop: digits are kept, separators dropped, anything else ends it.\<close>

fun card_digits :: "string \<Rightarrow> string option" where
  "card_digits [] = Some []"
| "card_digits (c # s) =
     (if is_digit c then map_option ((#) c) (card_digits s)
      else if is_card_separator c then card_digits s
      else if c = CHR 0xC2
      then (case s of
              d # t \<Rightarrow> if d = CHR 0xA0 then card_digits t else None
            | [] \<Rightarrow> None)
      else None)"

text \<open>The summing loop, from the last digit.\<close>

fun card_sum :: "bool \<Rightarrow> int list \<Rightarrow> int" where
  "card_sum dbl [] = 0"
| "card_sum dbl (d # ds) =
     (let d = (if dbl then (let e = d * 2 in if 9 < e then e - 9 else e) else d)
      in d + card_sum (\<not> dbl) ds)"

definition valid_luhn :: "string \<Rightarrow> bool" where
  "valid_luhn s \<longleftrightarrow>
     (case card_digits s of
        None \<Rightarrow> False
      | Some ds \<Rightarrow>
          12 \<le> length ds \<and> length ds \<le> 19
          \<and> card_sum False (rev (map (int \<circ> digit_value) ds)) mod 10 = 0)"

subsection \<open>Issuers\<close>

text \<open>A row is the range of the first digits and the lengths issued. A set of lengths is a list of
  them where the code has a bit each.\<close>

definition len_12to19 :: "nat list" where "len_12to19 = [12..<20]"
definition len_14to19 :: "nat list" where "len_14to19 = [14..<20]"
definition len_16to19 :: "nat list" where "len_16to19 = [16..<20]"
definition len_15 :: "nat list" where "len_15 = [15]"
definition len_16 :: "nat list" where "len_16 = [16]"
definition len_19 :: "nat list" where "len_19 = [19]"
definition len_16or18or19 :: "nat list" where "len_16or18or19 = [16, 18, 19]"

definition issuer_ranges :: "(string \<times> string \<times> nat list) list" where
  "issuer_ranges =
     [(''34'', ''34'', len_15),
      (''37'', ''37'', len_15),
      (''5610'', ''5610'', len_16),
      (''560221'', ''560225'', len_16),
      (''31'', ''31'', len_19),
      (''62'', ''62'', len_16to19),
      (''30'', ''30'', len_14to19),
      (''36'', ''36'', len_14to19),
      (''38'', ''39'', len_14to19),
      (''55'', ''55'', len_16),
      (''6011'', ''6011'', len_16to19),
      (''644'', ''649'', len_16to19),
      (''65'', ''65'', len_16to19),
      (''622126'', ''622925'', len_16to19),
      (''60400100'', ''60420099'', len_16to19),
      (''60'', ''60'', len_16),
      (''65'', ''65'', len_16),
      (''81'', ''82'', len_16),
      (''508'', ''508'', len_16),
      (''353'', ''353'', len_16),
      (''356'', ''356'', len_16),
      (''636'', ''636'', len_16to19),
      (''637'', ''639'', len_16),
      (''3528'', ''3589'', len_16to19),
      (''357111'', ''357111'', len_16),
      (''6304'', ''6304'', len_16to19),
      (''6706'', ''6706'', len_16to19),
      (''6709'', ''6709'', len_16to19),
      (''6771'', ''6771'', len_16to19),
      (''6759'', ''6759'', len_12to19),
      (''676770'', ''676770'', len_12to19),
      (''676774'', ''676774'', len_12to19),
      (''5018'', ''5018'', len_12to19),
      (''5020'', ''5020'', len_12to19),
      (''5038'', ''5038'', len_12to19),
      (''5893'', ''5893'', len_12to19),
      (''6304'', ''6304'', len_12to19),
      (''6759'', ''6759'', len_12to19),
      (''6761'', ''6763'', len_12to19),
      (''5019'', ''5019'', len_16),
      (''4571'', ''4571'', len_16),
      (''2200'', ''2204'', len_16to19),
      (''2205'', ''2205'', len_16),
      (''6054740'', ''6054744'', len_16),
      (''2221'', ''2720'', len_16),
      (''51'', ''55'', len_16),
      (''6334'', ''6334'', len_16or18or19),
      (''6767'', ''6767'', len_16or18or19),
      (''4903'', ''4903'', len_16or18or19),
      (''4905'', ''4905'', len_16or18or19),
      (''4911'', ''4911'', len_16or18or19),
      (''4936'', ''4936'', len_16or18or19),
      (''564182'', ''564182'', len_16or18or19),
      (''633110'', ''633110'', len_16or18or19),
      (''6333'', ''6333'', len_16or18or19),
      (''6759'', ''6759'', len_16or18or19),
      (''65'', ''65'', len_16),
      (''9792'', ''9792'', len_16),
      (''4'', ''4'', [13, 16, 19]),
      (''4026'', ''4026'', len_16),
      (''417500'', ''417500'', len_16),
      (''4844'', ''4844'', len_16),
      (''4913'', ''4913'', len_16),
      (''4917'', ''4917'', len_16),
      (''1'', ''1'', len_15),
      (''506099'', ''506198'', len_16or18or19),
      (''650002'', ''650027'', len_16or18or19),
      (''507865'', ''507964'', len_16or18or19),
      (''8600'', ''8600'', len_16),
      (''5614'', ''5614'', len_16),
      (''9860'', ''9860'', len_16),
      (''1946'', ''1946'', len_16or18or19),
      (''50'', ''50'', len_16or18or19),
      (''56'', ''56'', len_16or18or19),
      (''58'', ''58'', len_16or18or19),
      (''60'', ''63'', len_16or18or19),
      (''9704'', ''9704'', [16, 19]),
      (''960046'', ''960046'', len_19)]"

definition keep_digits :: "string \<Rightarrow> string" where
  "keep_digits s = filter is_digit s"

definition issuer_match :: "bool \<Rightarrow> string \<Rightarrow> string \<times> string \<times> nat list \<Rightarrow> bool" where
  "issuer_match exact ds row =
     (case row of (lo, hi, ns) \<Rightarrow>
        length lo \<le> length ds
        \<and> \<not> (take (length lo) ds < lo \<or> hi < take (length lo) ds)
        \<and> (exact \<longrightarrow> length ds \<in> set ns))"

definition valid_card :: "bool \<Rightarrow> string \<Rightarrow> bool" where
  "valid_card exact s \<longleftrightarrow> valid_luhn s \<and> list_ex (issuer_match exact (keep_digits s)) issuer_ranges"

end
