(* ===== verification/Card_Properties.thy ===== *)
theory Card_Properties
  imports Card Mask_Accepts
begin

text \<open>
  The check digit the financial generator appends and the check the detectors make of a card
  number are written twice in the code, in two modules. Here they are one: the number a masked
  account gets passes the detectors' check, and no other last digit does.
\<close>

lemma card_digits_decimal: "decimal s \<Longrightarrow> card_digits s = Some s"
  by (induction s) (auto simp: decimal_def)

lemma card_sum_luhn: "card_sum dbl (map (int \<circ> digit_value) ds) = luhn_sum dbl ds"
  by (induction ds arbitrary: dbl) (auto simp: Let_def mult.commute)

lemma valid_luhn_last:
  assumes "decimal body" and "is_digit d"
  shows "valid_luhn (body @ [d]) \<longleftrightarrow>
    11 \<le> length body \<and> length body \<le> 18 \<and> (int (digit_value d) + luhn_sum True (rev body)) mod 10 = 0"
proof -
  have "decimal (body @ [d])" using assms by (simp add: decimal_def)
  then show ?thesis
    using card_sum_luhn [of False "d # rev body"]
    by (auto simp: valid_luhn_def card_digits_decimal rev_map Let_def)
qed

lemma digit_value_lt: "is_digit d \<Longrightarrow> digit_value d < 10"
  by (auto simp: is_digit_def digit_value_def less_eq_char_def)

lemma digit_char_value: "is_digit d \<Longrightarrow> digit_char (digit_value d) = d"
  by (simp add: is_digit_def digit_value_def digit_char_def less_eq_char_def)

lemma complement_mod:
  fixes x y :: int
  assumes "0 \<le> x" and "x < 10"
  shows "(x + y) mod 10 = 0 \<longleftrightarrow> x = (10 - y mod 10) mod 10"
proof -
  define r where "r = y mod 10"
  have r: "0 \<le> r" "r < 10" by (simp_all add: r_def)
  have "(x + y) mod 10 = (x + r) mod 10" by (simp add: r_def mod_add_right_eq)
  also have "\<dots> = (if x + r < 10 then x + r else x + r - 10)"
  proof (cases "x + r < 10")
    case False
    have A: "(x + r) mod 10 = (x + r - 10) mod 10" by (metis mod_diff_right_eq diff_zero mod_self)
    have B: "(x + r - 10) mod 10 = x + r - 10" using False assms r by (intro mod_pos_pos_trivial) auto
    show ?thesis by (simp only: A B False if_False)
  qed (use assms r in simp)
  finally have "(x + y) mod 10 = (if x + r < 10 then x + r else x + r - 10)" .
  moreover have "(10 - r) mod 10 = (if r = 0 then 0 else 10 - r)"
  proof (cases "r = 0")
    case False
    have "(10 - r) mod 10 = 10 - r" using False r by (intro mod_pos_pos_trivial) auto
    then show ?thesis by (simp only: False if_False)
  qed simp
  ultimately show ?thesis using assms r unfolding r_def [symmetric] by (auto split: if_splits)
qed

lemma luhn_check_digit_value:
  "luhn_check_digit b = [digit_char (nat ((10 - luhn_sum True (rev b) mod 10) mod 10))]"
  by (simp add: luhn_check_digit_def itoa_digit)

lemma valid_luhn_iff:
  assumes "decimal body" and "is_digit d" and "11 \<le> length body" and "length body \<le> 18"
  shows "valid_luhn (body @ [d]) \<longleftrightarrow> luhn_check_digit body = [d]"
proof -
  let ?e = "(10 - luhn_sum True (rev body) mod 10) mod 10"
  have e: "0 \<le> ?e" "?e < 10" by simp_all
  have "luhn_check_digit body = [d] \<longleftrightarrow> int (digit_value d) = ?e"
  proof
    assume "luhn_check_digit body = [d]"
    then have "d = digit_char (nat ?e)" by (simp add: luhn_check_digit_value)
    then show "int (digit_value d) = ?e" using digit_char_decimal [of "nat ?e"] e by simp
  next
    assume "int (digit_value d) = ?e"
    then have "nat ?e = digit_value d" by (metis nat_int)
    then have "digit_char (nat ?e) = d" using digit_char_value [OF assms(2)] by simp
    then show "luhn_check_digit body = [d]" by (simp add: luhn_check_digit_value)
  qed
  then show ?thesis
    using valid_luhn_last [OF assms(1, 2)] digit_value_lt [OF assms(2)] assms(3, 4)
      complement_mod [of "int (digit_value d)" "luhn_sum True (rev body)"]
    by simp
qed

lemma financial_body:
  assumes "labels c = []" and "2 \<le> financial_len c" and "financial_mask c s = Some (r, s')"
  shows "\<exists>body. r = Inr (text_value (body @ luhn_check_digit body)) \<and> decimal body
    \<and> int (length body) = financial_len c - 1"
proof -
  have "yields (financial_mask c) (\<lambda>r. \<exists>body. r = Inr (text_value (body @ luhn_check_digit body))
      \<and> decimal body \<and> int (length body) = financial_len c - 1)"
    using assms(1, 2)
    by (auto simp: financial_mask_def with_labels_def Let_def emit_def
        intro!: yields_bind [OF yields_digits] yields_return)
  then show ?thesis by (rule yieldsD) (rule assms(3))
qed

text \<open>C40: A masked card number is a card number to the detectors, and by its check digit alone: on an
  open column whose account length is one a card can have, the generator emits digits of that length
  which pass \<open>validLuhn\<close>, and putting any other digit in the last place makes them fail it.\<close>

theorem masked_card_passes_luhn:
  assumes "labels c = []" and "12 \<le> financial_len c" and "financial_len c \<le> 19"
    and "financial_mask c s = Some (r, s')"
  shows "\<exists>w. r = Inr (text_value w) \<and> int (length w) = financial_len c \<and> valid_luhn w
    \<and> (\<forall>d. is_digit d \<longrightarrow> (valid_luhn (butlast w @ [d]) \<longleftrightarrow> d = last w))"
proof -
  have two: "2 \<le> financial_len c" using assms(2) by simp
  obtain body where b: "r = Inr (text_value (body @ luhn_check_digit body))" "decimal body"
      "int (length body) = financial_len c - 1"
    using financial_body [OF assms(1) two assms(4)] by blast
  obtain e where e: "luhn_check_digit body = [e]" "is_digit e"
    using luhn_check_digit_decimal [of body] by (auto simp: decimal_def length_Suc_conv)
  have len: "11 \<le> length body" "length body \<le> 18" using b(3) assms(2, 3) by auto
  note valid = valid_luhn_iff [OF b(2) _ len]
  show ?thesis
    using b e valid by (intro exI [of _ "body @ [e]"]) auto
qed

definition card_column :: constraints where
  "card_column = no_constraints \<lparr>co_tag := fam_text\<rparr>"

definition zero_stream :: stream where
  "zero_stream = new_stream (\<lambda>b. replicate 32 0) []"

lemma masked_card_passes_luhn_witness:
  "map_option fst (financial_mask card_column zero_stream) = Some (Inr (text_value ''1000000000000008''))
   \<and> valid_luhn ''1000000000000008'' \<and> \<not> valid_luhn ''1000000000000007''"
proof -
  have run: "map_option fst (financial_mask card_column zero_stream) = Some (Inr (text_value ''1000000000000008''))"
    by code_simp
  then obtain s' where s': "financial_mask card_column zero_stream = Some (Inr (text_value ''1000000000000008''), s')"
    by auto
  have "labels card_column = []" "12 \<le> financial_len card_column" "financial_len card_column \<le> 19"
    by code_simp+
  from masked_card_passes_luhn [OF this s'] have w: "valid_luhn ''1000000000000008''"
    "\<And>d. is_digit d \<Longrightarrow> valid_luhn (''100000000000000'' @ [d]) \<longleftrightarrow> d = CHR ''8''" by auto
  have "is_digit (CHR ''7'')" by code_simp
  from w(2) [OF this] show ?thesis using run w(1) by simp
qed

end
