(* ===== verification/Fold.thy ===== *)
theory Fold
  imports Prelude
begin

text \<open>
  The comparison the passthrough guard of \<open>mask/mask.go\<close> makes: the letters and digits of two byte
  strings, in order and without case (\<open>foldEqual\<close>, \<open>nextFoldRune\<close>), and the sentinel input it tries
  a generator with (\<open>probeValue\<close>, \<open>stepByte\<close>). \<open>utf8.DecodeRune\<close> is written out; what Unicode says of
  a rune outside ASCII is a parameter: \<open>Some\<close> of its lower case when it is a letter or a digit.
\<close>

type_synonym rune = nat
type_synonym rune_table = "rune \<Rightarrow> rune option"

subsection \<open>Decoding\<close>

definition rune_error :: rune where "rune_error = 0xFFFD"

definition rune_size :: "nat \<Rightarrow> nat" where
  "rune_size x =
     (if x < 0x80 then 1
      else if 0xC2 \<le> x \<and> x \<le> 0xDF then 2
      else if 0xE0 \<le> x \<and> x \<le> 0xEF then 3
      else if 0xF0 \<le> x \<and> x \<le> 0xF4 then 4
      else 0)"

definition is_cont :: "byte \<Rightarrow> bool" where
  "is_cont b \<longleftrightarrow> 0x80 \<le> unat b \<and> unat b \<le> 0xBF"

text \<open>\<open>acceptRanges\<close>: the second byte of a lead byte.\<close>

definition second_ok :: "nat \<Rightarrow> byte \<Rightarrow> bool" where
  "second_ok x b \<longleftrightarrow>
     (if x = 0xE0 then 0xA0 else if x = 0xF0 then 0x90 else 0x80) \<le> unat b
     \<and> unat b \<le> (if x = 0xED then 0x9F else if x = 0xF4 then 0x8F else 0xBF)"

definition low6 :: "byte \<Rightarrow> nat" where "low6 b = unat b mod 64"

definition decode_rune :: "bytes \<Rightarrow> rune \<times> nat" where
  "decode_rune s =
     (case s of
        [] \<Rightarrow> (rune_error, 0)
      | b # r \<Rightarrow>
          (let x = unat b; n = rune_size x in
           if n = 1 then (x, 1)
           else if n = 0 \<or> length s < n then (rune_error, 1)
           else if \<not> second_ok x (s ! 1) then (rune_error, 1)
           else if n = 2 then (x mod 32 * 64 + low6 (s ! 1), 2)
           else if \<not> is_cont (s ! 2) then (rune_error, 1)
           else if n = 3 then (x mod 16 * 4096 + low6 (s ! 1) * 64 + low6 (s ! 2), 3)
           else if \<not> is_cont (s ! 3) then (rune_error, 1)
           else (x mod 8 * 262144 + low6 (s ! 1) * 4096 + low6 (s ! 2) * 64 + low6 (s ! 3), 4)))"

lemma decode_rune_advances: "s \<noteq> [] \<Longrightarrow> 1 \<le> snd (decode_rune s)"
  by (cases s) (simp_all add: decode_rune_def Let_def)

subsection \<open>Folding\<close>

definition ascii_fold :: "rune \<Rightarrow> rune option" where
  "ascii_fold r =
     (if 48 \<le> r \<and> r \<le> 57 \<or> 97 \<le> r \<and> r \<le> 122 then Some r
      else if 65 \<le> r \<and> r \<le> 90 then Some (r + 32)
      else None)"

definition fold_rune :: "rune_table \<Rightarrow> rune_table" where
  "fold_rune uni r = (if r < 0x80 then ascii_fold r else uni r)"

text \<open>\<open>nextFoldRune\<close>: the next letter or digit and what is left behind it.\<close>

function next_fold_rune :: "rune_table \<Rightarrow> bytes \<Rightarrow> (rune \<times> bytes) option" where
  "next_fold_rune uni s =
     (if s = [] then None
      else case decode_rune s of
             (r, n) \<Rightarrow>
               (case fold_rune uni r of
                  Some l \<Rightarrow> Some (l, drop n s)
                | None \<Rightarrow> next_fold_rune uni (drop n s)))"
  by pat_completeness auto
termination
proof (relation "measure (length \<circ> snd)", goal_cases)
  case (2 uni s r n)
  moreover have "snd (decode_rune s) = n" using 2 by (metis snd_conv)
  ultimately show ?case using decode_rune_advances [of s] by auto
qed simp

declare next_fold_rune.simps [simp del]

lemma next_fold_rune_shorter:
  "next_fold_rune uni s = Some (l, t) \<Longrightarrow> length t < length s"
proof (induction uni s rule: next_fold_rune.induct)
  case (1 uni s)
  obtain r n where d: "decode_rune s = (r, n)" by fastforce
  have s: "s \<noteq> []" using 1(2) by (auto simp: next_fold_rune.simps [of _ s])
  then have n: "1 \<le> n" "0 < length s" using decode_rune_advances [OF s] d by auto
  show ?case
  proof (cases "fold_rune uni r")
    case None
    then have "next_fold_rune uni (drop n s) = Some (l, t)"
      using 1(2) s d by (simp add: next_fold_rune.simps [of _ s])
    from 1(1) [OF s d [symmetric] None this] show ?thesis using n by simp
  next
    case (Some a)
    then have "t = drop n s" using 1(2) s d by (simp add: next_fold_rune.simps [of _ s])
    then show ?thesis using n by simp
  qed
qed

function fold_equal :: "rune_table \<Rightarrow> bytes \<Rightarrow> bytes \<Rightarrow> bool" where
  "fold_equal uni a b =
     (case next_fold_rune uni a of
        None \<Rightarrow> next_fold_rune uni b = None
      | Some (x, a') \<Rightarrow>
          (case next_fold_rune uni b of
             None \<Rightarrow> False
           | Some (y, b') \<Rightarrow> if x \<noteq> y then False else fold_equal uni a' b'))"
  by pat_completeness auto
termination
  by (relation "measure (\<lambda>(uni, a, b). length a)") (auto dest: next_fold_rune_shorter)

declare fold_equal.simps [simp del]

subsection \<open>The sentinel\<close>

definition step_byte :: "byte \<Rightarrow> byte" where
  "step_byte c =
     (if 48 \<le> c \<and> c \<le> 57 then 48 + (c - 48 + 1) mod 10
      else if 97 \<le> c \<and> c \<le> 122 then 97 + (c - 97 + 1) mod 26
      else if 65 \<le> c \<and> c \<le> 90 then 65 + (c - 65 + 1) mod 26
      else c)"

definition probe_bytes :: "bytes \<Rightarrow> bytes" where
  "probe_bytes s = (let b = map step_byte s in if b = s then s @ [55] else b)"

subsection \<open>What the comparison sees\<close>

text \<open>All runes of a byte string, and what folding keeps of them.\<close>

function all_runes :: "bytes \<Rightarrow> rune list" where
  "all_runes s = (if s = [] then [] else case decode_rune s of (r, n) \<Rightarrow> r # all_runes (drop n s))"
  by pat_completeness auto
termination
proof (relation "measure length", goal_cases)
  case (2 s r n)
  moreover have "snd (decode_rune s) = n" using 2 by (metis snd_conv)
  ultimately show ?case using decode_rune_advances [of s] by auto
qed simp

declare all_runes.simps [simp del]

lemma all_runes_Nil [simp]: "all_runes [] = []"
  by (simp add: all_runes.simps)

lemma all_runes_step: "s \<noteq> [] \<Longrightarrow> all_runes s = fst (decode_rune s) # all_runes (drop (snd (decode_rune s)) s)"
  by (subst all_runes.simps) (simp add: case_prod_beta)

definition folded :: "rune_table \<Rightarrow> bytes \<Rightarrow> rune list" where
  "folded uni s = List.map_filter (fold_rune uni) (all_runes s)"

lemma map_filter_Cons: "List.map_filter f (x # xs) = (case f x of None \<Rightarrow> [] | Some y \<Rightarrow> [y]) @ List.map_filter f xs"
  by (simp add: List.map_filter_simps split: option.splits)

lemma folded_next:
  "folded uni s = (case next_fold_rune uni s of None \<Rightarrow> [] | Some (l, t) \<Rightarrow> l # folded uni t)"
proof (induction uni s rule: next_fold_rune.induct)
  case (1 uni s)
  show ?case
  proof (cases "s = []")
    case True
    then show ?thesis by (simp add: folded_def next_fold_rune.simps List.map_filter_simps)
  next
    case False
    obtain r n where d: "decode_rune s = (r, n)" by fastforce
    show ?thesis
      using 1 [OF False d [symmetric]] False d
      by (auto simp: folded_def all_runes_step [OF False] map_filter_Cons next_fold_rune.simps [of _ s]
          split: option.splits)
  qed
qed

lemma fold_equal_iff: "fold_equal uni a b \<longleftrightarrow> folded uni a = folded uni b"
proof (induction uni a b rule: fold_equal.induct)
  case (1 uni a b)
  show ?case
    using 1 by (subst fold_equal.simps, subst (1 2) folded_next) (auto split: option.splits)
qed

subsection \<open>The sentinel never folds to the value it is made from\<close>

definition step_rune :: "rune \<Rightarrow> rune" where
  "step_rune r = (if r < 0x80 then unat (step_byte (of_nat r)) else r)"

lemma unat_step:
  fixes b :: byte
  assumes "lo \<le> unat b" and "unat b < lo + n" and "lo + n \<le> 128" and "0 < n"
  shows "unat (of_nat lo + (b - of_nat lo + 1) mod of_nat n) = lo + (unat b - lo + 1) mod n"
proof -
  have nats: "unat (of_nat k :: byte) = k" if "k \<le> 128" for k
    using that by (simp add: unat_of_nat take_bit_nat_eq_self)
  have "unat (b - of_nat lo) = unat b - lo"
    using assms nats [of lo] by (simp add: unat_sub_if')
  then have "unat (b - of_nat lo + 1) = unat b - lo + 1"
    using assms by (simp add: unat_word_ariths)
  then have "unat ((b - of_nat lo + 1) mod of_nat n) = (unat b - lo + 1) mod n"
    using nats [of n] assms by (simp add: unat_mod)
  moreover have "(unat b - lo + 1) mod n < n" using assms by simp
  moreover from this have "(lo + (unat b - lo + 1) mod n) mod 256 = lo + (unat b - lo + 1) mod n"
    using assms(3) by (intro mod_less) linarith
  ultimately show ?thesis using nats [of lo] assms by (subst unat_word_ariths(1)) simp
qed

lemma unat_step_byte:
  "unat (step_byte b) =
     (let x = unat b in
      if 48 \<le> x \<and> x \<le> 57 then 48 + (x - 48 + 1) mod 10
      else if 97 \<le> x \<and> x \<le> 122 then 97 + (x - 97 + 1) mod 26
      else if 65 \<le> x \<and> x \<le> 90 then 65 + (x - 65 + 1) mod 26
      else x)"
  using unat_step [of 48 b 10] unat_step [of 97 b 26] unat_step [of 65 b 26]
  by (simp add: step_byte_def Let_def word_le_nat_alt)

lemma stepped_in:
  fixes x n lo :: nat
  assumes "lo \<le> x" and "x < lo + n" and "1 < n"
  shows "lo \<le> lo + (x - lo + 1) mod n \<and> lo + (x - lo + 1) mod n < lo + n \<and> lo + (x - lo + 1) mod n \<noteq> x"
proof (cases "x = lo + n - 1")
  case True
  then have "(x - lo + 1) mod n = 0" using assms by simp
  then show ?thesis using True assms by simp
next
  case False
  then have "(x - lo + 1) mod n = x - lo + 1" using assms by simp
  then show ?thesis using False assms by simp
qed

lemma step_byte_cases:
  obtains "step_byte b = b" "ascii_fold (unat b) = None"
  | lo n where "(lo, n) \<in> {(48, 10), (97, 26), (65, 26)}" "lo \<le> unat b" "unat b < lo + n"
      "lo \<le> unat (step_byte b)" "unat (step_byte b) < lo + n" "unat (step_byte b) \<noteq> unat b"
proof -
  let ?in = "\<lambda>lo n. lo \<le> unat b \<and> unat b < lo + n"
  consider "?in 48 10" | "?in 97 26" | "?in 65 26"
    | (other) "\<not> ?in 48 10" "\<not> ?in 97 26" "\<not> ?in 65 26" by blast
  then show thesis
  proof cases
    case 1
    then show thesis using that(2) [of 48 10] stepped_in [of 48 "unat b" 10] by (simp add: unat_step_byte Let_def)
  next
    case 2
    then show thesis using that(2) [of 97 26] stepped_in [of 97 "unat b" 26] by (simp add: unat_step_byte Let_def)
  next
    case 3
    then show thesis using that(2) [of 65 26] stepped_in [of 65 "unat b" 26] by (simp add: unat_step_byte Let_def)
  next
    case other
    then have "\<not> (48 \<le> unat b \<and> unat b \<le> 57)" "\<not> (97 \<le> unat b \<and> unat b \<le> 122)"
      "\<not> (65 \<le> unat b \<and> unat b \<le> 90)" by linarith+
    then have "unat (step_byte b) = unat b" unfolding unat_step_byte Let_def by (simp only: if_False)
    then have "step_byte b = b" by (simp add: word_unat_eq_iff)
    then show thesis using that(1) other by (auto simp: ascii_fold_def)
  qed
qed

lemma step_byte_ascii: "unat b < 0x80 \<longleftrightarrow> unat (step_byte b) < 0x80"
  by (rule step_byte_cases [of b]) auto

lemma step_byte_other: "0x80 \<le> unat b \<Longrightarrow> step_byte b = b"
  by (rule step_byte_cases [of b]) auto

lemma step_byte_fold:
  "ascii_fold (unat (step_byte b)) = None \<longleftrightarrow> ascii_fold (unat b) = None"
  "step_byte b \<noteq> b \<Longrightarrow> ascii_fold (unat (step_byte b)) \<noteq> ascii_fold (unat b)"
  by (rule step_byte_cases [of b]; fastforce simp: ascii_fold_def)+

lemma step_byte_cont: "is_cont (step_byte b) = is_cont b" "second_ok x (step_byte b) = second_ok x b"
proof -
  have "\<not> is_cont b" "\<not> second_ok x b" if "unat b < 0x80" for b
    using that by (auto simp: is_cont_def second_ok_def)
  then show "is_cont (step_byte b) = is_cont b" "second_ok x (step_byte b) = second_ok x b"
    using step_byte_ascii [of b] step_byte_other [of b] by (metis not_less)+
qed

lemma low_bytes: "second_ok x b \<Longrightarrow> step_byte b = b" "is_cont b \<Longrightarrow> step_byte b = b"
  using step_byte_other [of b] by (auto simp: second_ok_def is_cont_def split: if_splits)

lemma decode_rune_wide:
  assumes "s \<noteq> []" and "x = unat (hd s)" and "n = rune_size x" and "1 < n" and "n \<le> length s"
  shows "decode_rune s =
    (if \<not> second_ok x (s ! 1) then (rune_error, 1)
     else if n = 2 then (x mod 32 * 64 + low6 (s ! 1), 2)
     else if \<not> is_cont (s ! 2) then (rune_error, 1)
     else if n = 3 then (x mod 16 * 4096 + low6 (s ! 1) * 64 + low6 (s ! 2), 3)
     else if \<not> is_cont (s ! 3) then (rune_error, 1)
     else (x mod 8 * 262144 + low6 (s ! 1) * 4096 + low6 (s ! 2) * 64 + low6 (s ! 3), 4))"
  using assms by (cases s) (simp_all add: decode_rune_def Let_def)

lemma mod_above:
  fixes x m q :: nat
  assumes "m * q \<le> x" and "x < m * q + m"
  shows "x mod m = x - m * q"
proof -
  obtain k where "x = m * q + k" using assms(1) le_Suc_ex by blast
  then show ?thesis using assms(2) by simp
qed

lemma wide_rune:
  assumes "s \<noteq> []" and "x = unat (hd s)" and "1 < rune_size x" and "rune_size x \<le> length s"
  shows "0x80 \<le> fst (decode_rune s)"
proof -
  have x: "rune_size x = 2 \<Longrightarrow> 2 \<le> x mod 32"
    using mod_above [of 32 6 x] by (auto simp: rune_size_def split: if_splits)
  have y: "rune_size x = 3 \<Longrightarrow> x \<noteq> 0xE0 \<Longrightarrow> 1 \<le> x mod 16"
    using mod_above [of 16 14 x] by (auto simp: rune_size_def split: if_splits)
  have z: "rune_size x \<noteq> 2 \<Longrightarrow> rune_size x \<noteq> 3 \<Longrightarrow> x \<noteq> 0xF0 \<Longrightarrow> 1 \<le> x mod 8"
    using mod_above [of 8 30 x] assms(3) by (auto simp: rune_size_def split: if_splits)
  have low: "second_ok x b \<Longrightarrow> x = 0xE0 \<Longrightarrow> 32 \<le> low6 b" "second_ok x b \<Longrightarrow> x = 0xF0 \<Longrightarrow> 16 \<le> low6 b" for b
    using mod_above [of 64 2 "unat b"] by (auto simp: second_ok_def low6_def)
  have three: "128 \<le> x mod 16 * 4096 + low6 b * 64" if "second_ok x b" "rune_size x = 3" for b
  proof (cases "x = 0xE0")
    case True
    then show ?thesis using low(1) [OF that(1)] by simp
  next
    case False
    then show ?thesis using y [OF that(2)] by simp
  qed
  have four: "128 \<le> x mod 8 * 262144 + low6 b * 4096" if "second_ok x b" "rune_size x \<noteq> 2" "rune_size x \<noteq> 3" for b
  proof (cases "x = 0xF0")
    case True
    then show ?thesis using low(2) [OF that(1)] by simp
  next
    case False
    then show ?thesis using z [OF that(2, 3)] by simp
  qed
  show ?thesis
    unfolding decode_rune_wide [OF assms(1, 2) refl assms(3, 4)]
    using x three [of "s ! 1"] four [of "s ! 1"] by (auto simp: rune_error_def split: if_splits)
qed

text \<open>Stepping steps the runes one by one.\<close>

lemma decode_rune_step:
  assumes "s \<noteq> []"
  shows "decode_rune (map step_byte s) = apfst step_rune (decode_rune s)"
proof -
  obtain b r where s: "s = b # r" using assms by (cases s) auto
  show ?thesis
  proof (cases "unat b < 0x80")
    case True
    then show ?thesis
      using step_byte_ascii [of b]
      by (simp add: s decode_rune_def rune_size_def step_rune_def)
  next
    case False
    have b: "step_byte b = b" using False by (intro step_byte_other) simp
    have err: "step_rune rune_error = rune_error" by (simp add: step_rune_def rune_error_def)
    have wide: "step_rune x = x" if "0x80 \<le> x" for x using that by (simp add: step_rune_def)
    let ?m = "map step_byte s"
    have nth: "?m ! i = step_byte (s ! i)" if "i < length s" for i using that by simp
    show ?thesis
    proof (cases "rune_size (unat b) = 0 \<or> length s < rune_size (unat b)")
      case True
      then show ?thesis
        using False b err by (auto simp: s decode_rune_def rune_size_def Let_def)
    next
      case long: False
      then have two: "1 < length s" "rune_size (unat b) \<noteq> 1"
        using False by (auto simp: rune_size_def split: if_splits)
      have m: "?m \<noteq> []" "unat b = unat (hd ?m)" "unat b = unat (hd s)" "s \<noteq> []" by (simp_all add: s b)
      have n: "1 < rune_size (unat b)" "rune_size (unat b) \<le> length s" "rune_size (unat b) \<le> length ?m"
        using long two by auto
      have n4: "rune_size (unat b) \<in> {2, 3, 4}" using n(1) by (auto simp: rune_size_def split: if_splits)
      note second = step_byte_cont(2) [of "unat b" "s ! 1"] low_bytes(1) [of "unat b" "s ! 1"]
      note conts = step_byte_cont(1) [of "s ! 2"] low_bytes(2) [of "s ! 2"]
        step_byte_cont(1) [of "s ! 3"] low_bytes(2) [of "s ! 3"]
      have "decode_rune ?m = decode_rune s"
        unfolding decode_rune_wide [OF m(1, 2) refl n(1, 3)] decode_rune_wide [OF m(4, 3) refl n(1, 2)]
        using second conts nth [of 1] nth [of 2] nth [of 3] n two n4 by auto
      then show ?thesis
        using wide [OF wide_rune [OF m(4, 3) n(1, 2)]] by (simp add: apfst_def prod_eq_iff)
    qed
  qed
qed

lemma all_runes_map_step: "all_runes (map step_byte s) = map step_rune (all_runes s)"
proof (induction s rule: all_runes.induct)
  case (1 s)
  show ?case
  proof (cases "s = []")
    case False
    then have m: "map step_byte s \<noteq> []" by simp
    obtain r n where d: "decode_rune s = (r, n)" by fastforce
    then have d': "decode_rune (map step_byte s) = (step_rune r, n)"
      using decode_rune_step [OF False] by simp
    show ?thesis
      using 1 [OF False d [symmetric]] d d'
      by (simp add: all_runes_step [OF False] all_runes_step [OF m] drop_map)
  qed simp
qed

text \<open>An ASCII byte is a rune of its own wherever it stands.\<close>

lemma decode_rune_bytes:
  assumes "s \<noteq> []" and "decode_rune s = (r, n)" and "b \<in> set (take n s)" and "unat b < 0x80"
  shows "r = unat b"
proof -
  have low: "\<not> is_cont c" "\<not> second_ok x c" if "unat c < 0x80" for c x
    using that by (auto simp: is_cont_def second_ok_def)
  obtain a t where s: "s = a # t" using assms(1) by (cases s) auto
  show ?thesis
  proof (cases "rune_size (unat a) = 1 \<or> n = 1")
    case True
    then have n: "n = 1" using assms(2) by (auto simp: s decode_rune_def Let_def)
    have "b = a" using assms(3) unfolding s n by simp
    then show ?thesis using assms(2, 4) by (simp add: s decode_rune_def rune_size_def)
  next
    case False
    define m where "m = rune_size (unat a)"
    have m: "m = 2 \<or> m = 3 \<or> m = 4" "m \<le> length s"
      using False assms(2) by (auto simp: m_def s decode_rune_def rune_size_def Let_def split: if_splits)
    then have "1 < m" by auto
    from decode_rune_wide [OF assms(1) _ m_def this m(2)]
    have cont: "second_ok (unat a) (s ! 1)" "3 \<le> n \<longrightarrow> is_cont (s ! 2)" "4 \<le> n \<longrightarrow> is_cont (s ! 3)"
      "n \<le> 4" "n \<le> length s"
      using assms(2) False m by (auto simp: s split: if_splits)
    obtain i where i: "i < n" "i < length s" "s ! i = b" using assms(3) by (auto simp: in_set_conv_nth)
    have "0x80 \<le> unat a" using False by (auto simp: rune_size_def split: if_splits)
    then have "i \<noteq> 0" using i(3) assms(4) by (intro notI) (simp add: s)
    then have "i = 1 \<or> i = 2 \<or> i = 3" using i(1) cont(4) by auto
    then show ?thesis using cont i low [OF assms(4)] by auto
  qed
qed

lemma ascii_rune: "b \<in> set s \<Longrightarrow> unat b < 0x80 \<Longrightarrow> unat b \<in> set (all_runes s)"
proof (induction s rule: all_runes.induct)
  case (1 s)
  have s: "s \<noteq> []" using 1(2) by auto
  obtain r n where d: "decode_rune s = (r, n)" by fastforce
  have "b \<in> set (take n s) \<or> b \<in> set (drop n s)"
    using 1(2) by (metis append_take_drop_id Un_iff set_append)
  then show ?case
    using 1(1) [OF s d [symmetric]] 1(3) decode_rune_bytes [OF s d] d by (auto simp: all_runes_step [OF s])
qed

lemma decode_rune_append:
  assumes "s \<noteq> []" and "unat b < 0x80"
  shows "decode_rune (s @ [b]) = decode_rune s"
proof -
  have low: "\<not> is_cont b" "\<not> second_ok x b" for x
    using assms(2) by (auto simp: is_cont_def second_ok_def)
  obtain a t where s: "s = a # t" using assms(1) by (cases s) auto
  have n: "rune_size (unat a) \<in> {0, 1, 2, 3, 4}" by (simp add: rune_size_def)
  show ?thesis
  proof (cases "length s < rune_size (unat a)")
    case True
    then have "rune_size (unat a) = 2 \<or> rune_size (unat a) = 3 \<or> rune_size (unat a) = 4" using n s by auto
    moreover have "t = [] \<or> (\<exists>y. t = [y]) \<or> (\<exists>y z. t = [y, z])"
      using True n s by (cases t; cases "tl t"; cases "tl (tl t)") auto
    ultimately show ?thesis using low True by (elim disjE exE) (auto simp: s decode_rune_def Let_def)
  next
    case False
    show ?thesis
    proof (cases "1 < rune_size (unat a)")
      case True
      have nth: "(s @ [b]) ! i = s ! i" if "i < rune_size (unat a)" for i
        using False that by (simp add: nth_append)
      have heads: "s \<noteq> []" "s @ [b] \<noteq> []" "unat a = unat (hd s)" "unat a = unat (hd (s @ [b]))"
        "rune_size (unat a) \<le> length s" "rune_size (unat a) \<le> length (s @ [b])"
        using False by (simp_all add: s)
      show ?thesis
        unfolding decode_rune_wide [OF heads(1, 3) refl True heads(5)]
          decode_rune_wide [OF heads(2, 4) refl True heads(6)]
        using nth [of 1] nth [of 2] nth [of 3] n True by auto
    next
      case False
      then show ?thesis using n by (auto simp: s decode_rune_def)
    qed
  qed
qed

lemma decode_rune_within: "s \<noteq> [] \<Longrightarrow> snd (decode_rune s) \<le> length s"
proof -
  assume "s \<noteq> []"
  then obtain a t where s: "s = a # t" by (cases s) auto
  have "rune_size (unat a) \<in> {0, 1, 2, 3, 4}" by (simp add: rune_size_def)
  then show ?thesis by (auto simp: s decode_rune_def Let_def Suc_le_eq)
qed

lemma map_filter_app: "List.map_filter f (xs @ ys) = List.map_filter f xs @ List.map_filter f ys"
  by (simp add: List.map_filter_def)

lemma all_runes_append: "unat b < 0x80 \<Longrightarrow> all_runes (s @ [b]) = all_runes s @ [unat b]"
proof (induction s rule: all_runes.induct)
  case (1 s)
  show ?case
  proof (cases "s = []")
    case True
    then show ?thesis using 1(2) by (simp add: all_runes.simps [of "[b]"] decode_rune_def rune_size_def)
  next
    case False
    obtain r n where d: "decode_rune s = (r, n)" by fastforce
    have d': "decode_rune (s @ [b]) = (r, n)" using decode_rune_append [OF False 1(2)] d by simp
    have n: "n \<le> length s" using decode_rune_within [OF False] d by simp
    show ?thesis
      using 1(1) [OF False d [symmetric] 1(2)] d d' False n
      by (simp add: all_runes_step [of s] all_runes_step [of "s @ [b]"])
  qed
qed

lemma map_filter_step:
  assumes "\<And>r. r \<in> set rs \<Longrightarrow> f (g r) = None \<longleftrightarrow> f r = None"
    and "List.map_filter f (map g rs) = List.map_filter f rs" and "r \<in> set rs"
  shows "f (g r) = f r"
  using assms
proof (induction rs)
  case (Cons x rs)
  have x: "f (g x) = None \<longleftrightarrow> f x = None" using Cons.prems(1) by simp
  have "f (g x) = f x \<and> List.map_filter f (map g rs) = List.map_filter f rs"
    using x Cons.prems(2) by (cases "f x"; cases "f (g x)") (auto simp: map_filter_Cons)
  then show ?case using Cons by auto
qed simp

lemma step_rune_fold: "fold_rune uni (step_rune r) = None \<longleftrightarrow> fold_rune uni r = None"
proof (cases "r < 0x80")
  case True
  then have "unat (of_nat r :: byte) = r" by (simp add: unat_of_nat take_bit_nat_eq_self)
  then show ?thesis
    using True step_byte_ascii [of "of_nat r"] step_byte_fold(1) [of "of_nat r"]
    by (simp add: fold_rune_def step_rune_def)
qed (simp add: step_rune_def)

lemma probe_folds_apart: "folded uni (probe_bytes s) \<noteq> folded uni s"
proof (cases "map step_byte s = s")
  case True
  have "ascii_fold 55 = Some 55" by (simp add: ascii_fold_def)
  then have "folded uni (s @ [55]) = folded uni s @ [55]"
    using all_runes_append [of 55 s]
    by (simp add: folded_def map_filter_app fold_rune_def map_filter_Cons List.map_filter_simps)
  then show ?thesis using True by (simp add: probe_bytes_def)
next
  case False
  then obtain b where b: "b \<in> set s" "step_byte b \<noteq> b" by (metis map_idI)
  then have low: "unat b < 0x80" using step_byte_other [of b] by force
  have r: "unat b \<in> set (all_runes s)" using ascii_rune [OF b(1) low] .
  have s: "step_rune (unat b) = unat (step_byte b)" using low by (simp add: step_rune_def)
  have "fold_rune uni (step_rune (unat b)) \<noteq> fold_rune uni (unat b)"
    using step_byte_fold(2) [OF b(2)] low step_byte_ascii [of b] by (simp add: s fold_rune_def)
  then have "folded uni (map step_byte s) \<noteq> folded uni s"
    using map_filter_step [where f = "fold_rune uni" and g = step_rune, OF step_rune_fold _ r] by (auto simp: folded_def all_runes_map_step)
  then show ?thesis using False by (simp add: probe_bytes_def)
qed

lemma probe_not_empty: "s \<noteq> [] \<Longrightarrow> probe_bytes s \<noteq> []"
  by (simp add: probe_bytes_def Let_def)

end
