(* ===== verification/Mask_Key.thy ===== *)
theory Mask_Key
  imports Mask_Stream
begin

text \<open>
  \<open>mask/key.go\<close>: the run key, the digest of a cell and the length-prefixed encoding of what is
  hashed. SHA-256, HMAC and HKDF are parameters; the encoding is proved to be unambiguous, which is
  what the digest and the residual filter rely on.
\<close>

record key_lib =
  kl_sha :: "bytes \<Rightarrow> bytes"
  kl_hmac :: "bytes \<Rightarrow> bytes \<Rightarrow> bytes"
  kl_hkdf :: "bytes \<Rightarrow> string \<Rightarrow> bytes option"

definition key_len :: nat where "key_len = 32"
definition hkdf_info :: string where "hkdf_info = ''lazyslice/v1/''"

subsection \<open>The text form of a key\<close>

definition hex_digit_value :: "char \<Rightarrow> nat option" where
  "hex_digit_value c =
     (if is_digit c then Some (digit_value c)
      else if CHR ''a'' \<le> c \<and> c \<le> CHR ''f'' then Some (of_char c - 87)
      else if CHR ''A'' \<le> c \<and> c \<le> CHR ''F'' then Some (of_char c - 55)
      else None)"

text \<open>\<open>hex.DecodeString\<close>.\<close>

fun hex_decode :: "string \<Rightarrow> bytes option" where
  "hex_decode [] = Some []"
| "hex_decode [c] = None"
| "hex_decode (c # d # s) =
     (case (hex_digit_value c, hex_digit_value d, hex_decode s) of
        (Some x, Some y, Some b) \<Rightarrow> Some (of_nat (16 * x + y) # b)
      | _ \<Rightarrow> None)"

definition hex_byte :: "byte \<Rightarrow> string" where
  "hex_byte b = [hex_alphabet ! (unat b div 16), hex_alphabet ! (unat b mod 16)]"

definition hex_encode :: "bytes \<Rightarrow> string" where
  "hex_encode b = concat (map hex_byte b)"

definition parse_key :: "string \<Rightarrow> mask_error + bytes" where
  "parse_key s =
     (case hex_decode (trim_space s) of
        None \<Rightarrow> Inl ErrKeyLength
      | Some b \<Rightarrow> if length b \<noteq> key_len then Inl ErrKeyLength else Inr b)"

definition fingerprint :: "key_lib \<Rightarrow> bytes \<Rightarrow> string" where
  "fingerprint lib k = hex_encode (take 4 (kl_sha lib k))"

subsection \<open>The digest\<close>

definition encode_fields :: "bytes list \<Rightarrow> bytes" where
  "encode_fields fs = concat (map (\<lambda>f. put_uint32 (of_nat (length f)) @ f) fs)"

definition category_key :: "key_lib \<Rightarrow> bytes \<Rightarrow> string \<Rightarrow> bytes option" where
  "category_key lib k cat = kl_hkdf lib k (hkdf_info @ cat)"

definition cell_digest :: "key_lib \<Rightarrow> bytes \<Rightarrow> string \<Rightarrow> string \<Rightarrow> bytes \<Rightarrow> bytes option" where
  "cell_digest lib k cat tag canonical =
     map_option (\<lambda>ck. kl_hmac lib ck (encode_fields [bytes_of_string tag, canonical]))
       (category_key lib k cat)"

subsection \<open>The encoding is unambiguous\<close>

definition field_ok :: "bytes \<Rightarrow> bool" where
  "field_ok f \<longleftrightarrow> length f < 2 ^ 32"

lemma length_put_uint32 [simp]: "length (put_uint32 w) = 4"
  by (simp add: put_uint32_def)

lemma put_uint32_inj: "put_uint32 v = put_uint32 w \<Longrightarrow> v = w"
proof (rule bit_word_eqI)
  fix n assume e: "put_uint32 v = put_uint32 w" and n: "n < LENGTH(32)"
  have part: "bit v n = bit w n" if "ucast (drop_bit k v) = (ucast (drop_bit k w) :: 8 word)" "k \<le> n" "n < k + 8" for k
  proof -
    have "bit (ucast (drop_bit k v) :: 8 word) (n - k) = bit (ucast (drop_bit k w) :: 8 word) (n - k)"
      using that(1) by simp
    moreover have "n - k < 8" using that(2, 3) by linarith
    ultimately show ?thesis using that(2, 3) n by (simp add: bit_simps)
  qed
  have "n < 8 \<or> 8 \<le> n \<and> n < 16 \<or> 16 \<le> n \<and> n < 24 \<or> 24 \<le> n \<and> n < 32" using n by auto
  then show "bit v n = bit w n"
    using e part [of 0] part [of 8] part [of 16] part [of 24] by (auto simp: put_uint32_def)
qed

lemma encode_fields_inj:
  assumes "list_all field_ok fs" and "list_all field_ok gs" and "encode_fields fs = encode_fields gs"
  shows "fs = gs"
  using assms
proof (induction fs arbitrary: gs)
  case Nil
  then show ?case by (cases gs) (auto simp: encode_fields_def put_uint32_def)
next
  case (Cons f fs)
  then obtain g hs where gs: "gs = g # hs"
    by (cases gs) (auto simp: encode_fields_def put_uint32_def)
  have e: "put_uint32 (of_nat (length f)) @ f @ encode_fields fs
      = put_uint32 (of_nat (length g)) @ g @ encode_fields hs"
    using Cons.prems(3) by (simp add: encode_fields_def gs)
  then have p: "put_uint32 (of_nat (length f)) = put_uint32 (of_nat (length g))"
    and r: "f @ encode_fields fs = g @ encode_fields hs"
    by (simp_all add: append_eq_append_conv)
  have "unat (of_nat (length f) :: 32 word) = unat (of_nat (length g) :: 32 word)"
    using put_uint32_inj [OF p] by simp
  then have "length f = length g"
    using Cons.prems(1, 2) gs by (simp add: field_ok_def unat_of_nat take_bit_nat_eq_self)
  then have "f = g" "encode_fields fs = encode_fields hs" using r by simp_all
  then show ?case using Cons.IH [of hs] Cons.prems gs by simp
qed

end
