(* ===== verification/Mask_Apply.thy ===== *)
theory Mask_Apply
  imports Fold Mask_Key Mask_Registry
begin

text \<open>
  \<open>mask/mask.go\<close>: \<open>Apply\<close>, the one way a cell is masked, and the guard around a generator
  (\<open>maskCell\<close>): a panic and a returned error become errors of the module's own, and a generator whose
  output follows its input is refused. A generator here is anything that implements \<open>Masker\<close>, the
  registered ones and a caller's own, so it is a function that returns a value, returns an error or
  panics. The canonical form (\<open>canonical.go\<close>: Unicode folding, phone numbers, dates), the JSON
  decoder and the Unicode tables are parameters.
\<close>

subsection \<open>Generators\<close>

text \<open>What \<open>errors.As\<close> and \<open>errors.Is\<close> find in a returned error; its text is never read.\<close>

record masker_error =
  me_no_room :: bool
  me_domain :: bool
  me_is :: "mask_error list"

datatype mask_outcome = Returned mask_value | Failed masker_error | Panicked

record cell_masker =
  cm_mask :: "bytes \<Rightarrow> mask_value \<Rightarrow> constraints \<Rightarrow> mask_outcome"
  cm_vocabulary :: bool

record apply_lib =
  al_runes :: rune_table
  al_json :: "bytes \<Rightarrow> json option"
  al_canonical :: "string \<Rightarrow> mask_value \<Rightarrow> constraints \<Rightarrow> (mask_value \<times> string) option"
  al_keys :: key_lib
  al_get :: "string \<Rightarrow> cell_masker option"

datatype apply_error = MaskError mask_error | CanonicalFailed | KeyFailed

record mask_result =
  mr_out :: mask_value
  mr_canonical :: bytes
  mr_tag :: string
  mr_masked :: bool

definition unmasked :: "mask_value \<Rightarrow> mask_result" where
  "unmasked v = \<lparr>mr_out = v, mr_canonical = [], mr_tag = [], mr_masked = False\<rparr>"

subsection \<open>Errors\<close>

definition masker_sentinels :: "mask_error list" where
  "masker_sentinels =
     [ErrNoRoom, ErrUnknownMasker, ErrNoCategory, ErrRowCountUnknown, ErrPassthrough, ErrMaskerPanic,
      ErrMaskerFailed]"

text \<open>\<open>wrapMaskerError\<close>: every field of the result is the caller's or is computed here.\<close>

definition wrap_masker_error :: "string \<Rightarrow> string \<Rightarrow> constraints \<Rightarrow> masker_error \<Rightarrow> mask_error" where
  "wrap_masker_error cat mid c e =
     (if me_no_room e then no_room_for cat mid c
      else if me_domain e then
        DomainError \<lparr>de_category = cat, de_id = mid, de_domain = column_domain c,
          de_required = required (co_rows c), de_rows = co_rows c\<rparr>
      else case find (\<lambda>s. s \<in> set (me_is e)) masker_sentinels of
             Some s \<Rightarrow> s
           | None \<Rightarrow> ErrMaskerFailed)"

subsection \<open>The guard\<close>

definition looks_like_input ::
  "rune_table \<Rightarrow> mask_value \<Rightarrow> mask_value \<Rightarrow> mask_value \<Rightarrow> bool" where
  "looks_like_input uni out v canon \<longleftrightarrow>
     (if mv_null out \<or> value_empty out then False
      else value_bytes out = value_bytes v \<or> value_bytes out = value_bytes canon
        \<or> fold_equal uni (value_bytes out) (value_bytes v)
        \<or> fold_equal uni (value_bytes out) (value_bytes canon))"

definition probe_value :: "mask_value \<Rightarrow> mask_value" where
  "probe_value v =
     (let b = probe_bytes (value_bytes v) in
      if 0 < length (mv_bytes v) then bytes_value b else text_value (string_of_bytes b))"

fun has_scalar_leaf :: "json \<Rightarrow> bool" where
  "has_scalar_leaf (JObject ms) = list_ex (\<lambda>kv. has_scalar_leaf (snd kv)) ms"
| "has_scalar_leaf (JArray xs) = list_ex has_scalar_leaf xs"
| "has_scalar_leaf JNull = False"
| "has_scalar_leaf v = True"

definition nothing_to_mask :: "apply_lib \<Rightarrow> mask_value \<Rightarrow> bool" where
  "nothing_to_mask lib v =
     (case al_json lib (value_bytes v) of
        None \<Rightarrow> False
      | Some doc \<Rightarrow>
          (case doc of
             JObject ms \<Rightarrow> \<not> has_scalar_leaf doc
           | JArray xs \<Rightarrow> \<not> has_scalar_leaf doc
           | _ \<Rightarrow> False))"

definition redraws :: nat where "redraws = 8"
definition redraw_info :: string where "redraw_info = ''lazyslice/redraw''"

definition redraw_digest :: "apply_lib \<Rightarrow> bytes \<Rightarrow> byte \<Rightarrow> bytes" where
  "redraw_digest lib h i = kl_sha (al_keys lib) (h @ bytes_of_string redraw_info @ [i])"

text \<open>The loop of \<open>redraw\<close> over the turns that are left; a panic inside it is \<open>maskCell\<close>'s.\<close>

fun redraw ::
  "apply_lib \<Rightarrow> cell_masker \<Rightarrow> string \<Rightarrow> string \<Rightarrow> bytes \<Rightarrow> mask_value \<Rightarrow> mask_value \<Rightarrow> constraints
    \<Rightarrow> nat list \<Rightarrow> mask_value \<Rightarrow> mask_error + mask_value" where
  "redraw lib m cat mid h v canon c [] out = Inr out"
| "redraw lib m cat mid h v canon c (i # is) out =
     (case cm_mask m (redraw_digest lib h (of_nat i)) v c of
        Panicked \<Rightarrow> Inl ErrMaskerPanic
      | Failed e \<Rightarrow> Inl (wrap_masker_error cat mid c e)
      | Returned next \<Rightarrow>
          if \<not> looks_like_input (al_runes lib) next v canon then Inr next
          else redraw lib m cat mid h v canon c is next)"

definition mask_cell ::
  "apply_lib \<Rightarrow> cell_masker \<Rightarrow> string \<Rightarrow> string \<Rightarrow> bytes \<Rightarrow> mask_value \<Rightarrow> mask_value \<Rightarrow> constraints
    \<Rightarrow> mask_error + mask_value" where
  "mask_cell lib m cat mid h v canon c =
     (let finish = (\<lambda>out.
        if cm_vocabulary m then redraw lib m cat mid h v canon c [1..<Suc redraws] out else Inr out)
      in case cm_mask m h v c of
           Panicked \<Rightarrow> Inl ErrMaskerPanic
         | Failed e \<Rightarrow> Inl (wrap_masker_error cat mid c e)
         | Returned out \<Rightarrow>
             if \<not> looks_like_input (al_runes lib) out v canon then Inr out
             else if nothing_to_mask lib v then Inr out
             else
               (let p = probe_value v in
                case cm_mask m h p c of
                  Panicked \<Rightarrow> Inl ErrMaskerPanic
                | Failed e \<Rightarrow> finish out
                | Returned probed \<Rightarrow>
                    if looks_like_input (al_runes lib) probed p p then Inl ErrPassthrough
                    else finish out))"

definition apply_mask ::
  "apply_lib \<Rightarrow> bytes \<Rightarrow> string \<Rightarrow> string \<Rightarrow> mask_value \<Rightarrow> constraints \<Rightarrow> apply_error + mask_result" where
  "apply_mask lib k cat mid v c =
     (if mv_null v then Inr (unmasked v)
      else if value_empty v then Inr (unmasked v)
      else case al_get lib mid of
        None \<Rightarrow> Inl (MaskError ErrUnknownMasker)
      | Some m \<Rightarrow>
          (case al_canonical lib cat v c of
             None \<Rightarrow> Inl CanonicalFailed
           | Some (canon, tag) \<Rightarrow>
               (case cell_digest (al_keys lib) k cat tag (value_bytes canon) of
                  None \<Rightarrow> Inl KeyFailed
                | Some h \<Rightarrow>
                    (case mask_cell lib m cat mid h v canon c of
                       Inl e \<Rightarrow> Inl (MaskError e)
                     | Inr out \<Rightarrow>
                         Inr \<lparr>mr_out = out, mr_canonical = value_bytes canon, mr_tag = tag,
                           mr_masked = True\<rparr>))))"

subsection \<open>The sentinel as a value\<close>

definition reads_as :: "rune_table \<Rightarrow> mask_value \<Rightarrow> mask_value \<Rightarrow> bool" where
  "reads_as uni out v \<longleftrightarrow>
     \<not> mv_null out \<and> \<not> value_empty out \<and> fold_equal uni (value_bytes out) (value_bytes v)"

lemma fold_equal_refl [simp]: "fold_equal uni a a"
  by (simp add: fold_equal_iff)

lemma value_bytes_empty: "\<not> mv_null v \<Longrightarrow> \<not> value_empty v \<Longrightarrow> value_bytes v \<noteq> []"
  by (auto simp: value_empty_def value_bytes_def bytes_of_string_def)

lemma string_of_bytes_eq_Nil [simp]: "string_of_bytes b = [] \<longleftrightarrow> b = []"
  by (simp add: string_of_bytes_def)

lemma probe_value_bytes:
  assumes "\<not> mv_null v" and "\<not> value_empty v"
  shows "value_bytes (probe_value v) = probe_bytes (value_bytes v)"
    and "\<not> mv_null (probe_value v)" and "\<not> value_empty (probe_value v)"
  using probe_not_empty [OF value_bytes_empty [OF assms]]
  by (auto simp: probe_value_def value_bytes_def value_empty_def Let_def)

lemma looks_like_reads: "reads_as uni out v \<Longrightarrow> looks_like_input uni out v canon"
  by (simp add: reads_as_def looks_like_input_def)

lemma looks_like_folded:
  "looks_like_input uni out v canon \<Longrightarrow>
     folded uni (value_bytes out) = folded uni (value_bytes v)
     \<or> folded uni (value_bytes out) = folded uni (value_bytes canon)"
  by (auto simp: looks_like_input_def fold_equal_iff split: if_splits)

lemma redraw_returns:
  assumes "\<And>h. \<exists>out. cm_mask m h v c = Returned out"
  shows "\<exists>out. redraw lib m cat mid h v canon c is out0 = Inr out"
proof (induction "is" arbitrary: out0)
  case (Cons i "is")
  obtain n where "cm_mask m (redraw_digest lib h (of_nat i)) v c = Returned n" using assms by blast
  then show ?case using Cons by simp
qed simp

end
