(* ===== verification/Apply_Properties.thy ===== *)
theory Apply_Properties
  imports Mask_Apply
begin

text \<open>What the guard around a generator refuses, and what it lets through.\<close>

lemma mask_cell_echo:
  assumes v: "\<not> mv_null v" "\<not> value_empty v" and doc: "\<not> nothing_to_mask lib v"
    and echo: "\<And>w. \<not> mv_null w \<Longrightarrow> \<not> value_empty w \<Longrightarrow>
      \<exists>out. cm_mask m h w c = Returned out \<and> reads_as (al_runes lib) out w"
  shows "mask_cell lib m cat mid h v canon c = Inl ErrPassthrough"
proof -
  obtain out where out: "cm_mask m h v c = Returned out" "reads_as (al_runes lib) out v"
    using echo [OF v] by blast
  obtain p where p: "cm_mask m h (probe_value v) c = Returned p" "reads_as (al_runes lib) p (probe_value v)"
    using echo [OF probe_value_bytes(2, 3) [OF v]] by blast
  show ?thesis
    using out p doc looks_like_reads [OF out(2)] looks_like_reads [OF p(2)]
    by (simp add: mask_cell_def Let_def)
qed

lemma mask_cell_independent:
  assumes v: "\<not> mv_null v" "\<not> value_empty v"
    and same: "\<And>g. \<exists>out. cm_mask m g v c = Returned out \<and> cm_mask m g (probe_value v) c = Returned out"
    and canon: "folded (al_runes lib) (value_bytes canon) = folded (al_runes lib) (value_bytes v)"
  shows "\<exists>out. mask_cell lib m cat mid h v canon c = Inr out"
proof -
  obtain out where out: "cm_mask m h v c = Returned out" "cm_mask m h (probe_value v) c = Returned out"
    using same by blast
  have returns: "\<exists>out. cm_mask m g v c = Returned out" for g using same by blast
  show ?thesis
  proof (cases "looks_like_input (al_runes lib) out v canon \<and> \<not> nothing_to_mask lib v")
    case True
    then have "folded (al_runes lib) (value_bytes out) = folded (al_runes lib) (value_bytes v)"
      using looks_like_folded canon by metis
    then have "\<not> looks_like_input (al_runes lib) out (probe_value v) (probe_value v)"
      using looks_like_folded probe_value_bytes(1) [OF v] probe_folds_apart by metis
    then show ?thesis
      using out True redraw_returns [OF returns] by (auto simp: mask_cell_def Let_def)
  qed (use out in \<open>auto simp: mask_cell_def Let_def\<close>)
qed

text \<open>C33: \<open>Apply\<close> tells a passthrough from a coincidence. A generator that hands back what it was
  given -- in any case, spacing or punctuation -- is refused with \<open>ErrPassthrough\<close> on every value that
  is not null, not empty and not a document without leaves, so its cell is never recorded as masked.
  A generator that does not read the value (it answers the sentinel as it answers the value) is never
  refused, even when its output is by chance the value itself, where the canonical form keeps the
  letters and digits of the value: the sentinel always differs from the value in those.\<close>

theorem passthrough_guard:
  assumes "\<not> mv_null v" and "\<not> value_empty v" and "al_get lib mid = Some m"
    and "al_canonical lib cat v c = Some (canon, tag)"
    and "cell_digest (al_keys lib) k cat tag (value_bytes canon) = Some h"
  shows "(\<not> nothing_to_mask lib v
      \<and> (\<forall>w. \<not> mv_null w \<longrightarrow> \<not> value_empty w \<longrightarrow>
           (\<exists>out. cm_mask m h w c = Returned out \<and> reads_as (al_runes lib) out w))
      \<longrightarrow> apply_mask lib k cat mid v c = Inl (MaskError ErrPassthrough))
    \<and> ((\<forall>g. \<exists>out. cm_mask m g v c = Returned out \<and> cm_mask m g (probe_value v) c = Returned out)
        \<and> folded (al_runes lib) (value_bytes canon) = folded (al_runes lib) (value_bytes v)
      \<longrightarrow> (\<exists>r. apply_mask lib k cat mid v c = Inr r \<and> mr_masked r \<and> mr_canonical r = value_bytes canon))"
proof (intro conjI impI)
  assume "\<not> nothing_to_mask lib v
      \<and> (\<forall>w. \<not> mv_null w \<longrightarrow> \<not> value_empty w \<longrightarrow>
           (\<exists>out. cm_mask m h w c = Returned out \<and> reads_as (al_runes lib) out w))"
  then have "mask_cell lib m cat mid h v canon c = Inl ErrPassthrough"
    by (intro mask_cell_echo [OF assms(1, 2)]) blast+
  then show "apply_mask lib k cat mid v c = Inl (MaskError ErrPassthrough)"
    using assms by (simp add: apply_mask_def)
next
  assume "(\<forall>g. \<exists>out. cm_mask m g v c = Returned out \<and> cm_mask m g (probe_value v) c = Returned out)
        \<and> folded (al_runes lib) (value_bytes canon) = folded (al_runes lib) (value_bytes v)"
  then obtain out where "mask_cell lib m cat mid h v canon c = Inr out"
    using mask_cell_independent [OF assms(1, 2)] by blast
  then show "\<exists>r. apply_mask lib k cat mid v c = Inr r \<and> mr_masked r \<and> mr_canonical r = value_bytes canon"
    using assms by (simp add: apply_mask_def)
qed

definition echo_masker :: cell_masker where
  "echo_masker = \<lparr>cm_mask = (\<lambda>h v c. Returned v), cm_vocabulary = False\<rparr>"

definition constant_masker :: cell_masker where
  "constant_masker = \<lparr>cm_mask = (\<lambda>h v c. Returned (text_value ''bob'')), cm_vocabulary = False\<rparr>"

definition small_lib :: apply_lib where
  "small_lib = \<lparr>al_runes = (\<lambda>r. None), al_json = (\<lambda>b. None), al_canonical = (\<lambda>cat v c. Some (v, ''text'')),
     al_keys = \<lparr>kl_sha = (\<lambda>b. []), kl_hmac = (\<lambda>k b. []), kl_hkdf = (\<lambda>k i. Some [])\<rparr>,
     al_get = (\<lambda>mid. if mid = ''echo'' then Some echo_masker
                else if mid = ''constant'' then Some constant_masker else None)\<rparr>"

lemma passthrough_guard_witness:
  "apply_mask small_lib [] ''email'' ''echo'' (text_value ''bob'') no_constraints
     = Inl (MaskError ErrPassthrough)
   \<and> (\<exists>r. apply_mask small_lib [] ''email'' ''constant'' (text_value ''bob'') no_constraints = Inr r
        \<and> mr_masked r \<and> mr_canonical r = bytes_of_string ''bob'')"
proof
  have bob: "\<not> mv_null (text_value ''bob'')" "\<not> value_empty (text_value ''bob'')"
    by (simp_all add: value_empty_def)
  have canon: "al_canonical small_lib ''email'' (text_value ''bob'') no_constraints = Some (text_value ''bob'', ''text'')"
    by (simp add: small_lib_def)
  have digest: "cell_digest (al_keys small_lib) [] ''email'' ''text'' (value_bytes (text_value ''bob'')) = Some []"
    by (simp add: small_lib_def cell_digest_def category_key_def)
  have get_echo: "al_get small_lib ''echo'' = Some echo_masker" by (simp add: small_lib_def)
  have get_const: "al_get small_lib ''constant'' = Some constant_masker" by (simp add: small_lib_def)
  show "apply_mask small_lib [] ''email'' ''echo'' (text_value ''bob'') no_constraints
      = Inl (MaskError ErrPassthrough)"
    using passthrough_guard [OF bob get_echo canon digest, THEN conjunct1]
    by (simp add: echo_masker_def nothing_to_mask_def small_lib_def reads_as_def)
  show "\<exists>r. apply_mask small_lib [] ''email'' ''constant'' (text_value ''bob'') no_constraints = Inr r
      \<and> mr_masked r \<and> mr_canonical r = bytes_of_string ''bob''"
    using passthrough_guard [OF bob get_const canon digest, THEN conjunct2]
    by (simp add: constant_masker_def value_bytes_def)
qed

end
