(* ===== verification/Residual.thy ===== *)
theory Residual
  imports Mask_Key Refs
begin

text \<open>
  \<open>internal/transform/bloom.go\<close>: the residual filter, the record of what was masked that the final
  check reads. It is a Bloom filter over a keyed hash of column, path and canonical value, with a
  count of every emitted value beside it. The arithmetic is that of \<open>uint64\<close>, wrapping; the HMAC and
  the random key are parameters. The pools and caches the code keeps its hash state in do not
  change what is computed and are not part of the state, and the locks make each operation one step.
\<close>

definition bits_per_cell :: "64 word" where "bits_per_cell = 29"
definition hashes :: nat where "hashes = 20"
definition min_bits :: "64 word" where "min_bits = 0x80000"
definition max_bits :: "64 word" where "max_bits = 0x100000000"

record bloom =
  bl_key :: bytes
  bl_words :: "64 word list"
  bl_bits :: "64 word"
  bl_cells :: int64
  bl_emitted :: "64 word \<Rightarrow> int64"

text \<open>An entry: what \<open>Add\<close>, \<open>MayContain\<close>, \<open>AddEmitted\<close> and \<open>Emitted\<close> are given.\<close>

record residual_entry =
  re_column :: column_ref
  re_path :: string
  re_canonical :: bytes

subsection \<open>Sizing\<close>

definition residual_words :: "int64 \<Rightarrow> 64 word" where
  "residual_words cells =
     (let bits = (if 0 < sint cells then cells * bits_per_cell else 0);
          bits = max bits min_bits;
          bits = min bits max_bits
      in (bits + 63) div 64)"

definition new_residual :: "bytes \<Rightarrow> int64 \<Rightarrow> bloom" where
  "new_residual key cells =
     (let n = residual_words cells in
      \<lparr>bl_key = key, bl_words = replicate (unat n) 0, bl_bits = n * 64, bl_cells = 0,
       bl_emitted = (\<lambda>k. 0)\<rparr>)"

subsection \<open>Positions\<close>

definition column_parts :: "column_ref \<Rightarrow> bytes list" where
  "column_parts c =
     map bytes_of_string [ref_schema (ref_table c), ref_name (ref_table c), ref_column c]"

definition entry_fields :: "residual_entry \<Rightarrow> bytes list" where
  "entry_fields e = column_parts (re_column e) @ [bytes_of_string (re_path e), re_canonical e]"

definition positions :: "(bytes \<Rightarrow> bytes \<Rightarrow> bytes) \<Rightarrow> bloom \<Rightarrow> residual_entry \<Rightarrow> 64 word \<times> 64 word" where
  "positions hmac b e =
     (let sum = hmac (bl_key b) (encode_fields (entry_fields e)) in
      (get_uint64 (take 8 sum), or (get_uint64 (take 8 (drop 8 sum))) 1))"

definition bit_position :: "64 word \<Rightarrow> 64 word \<Rightarrow> 64 word \<Rightarrow> nat \<Rightarrow> 64 word" where
  "bit_position bits h1 h2 i = (h1 + of_nat i * h2) mod bits"

definition entry_bits :: "(bytes \<Rightarrow> bytes \<Rightarrow> bytes) \<Rightarrow> bloom \<Rightarrow> residual_entry \<Rightarrow> 64 word list" where
  "entry_bits hmac b e =
     (case positions hmac b e of (h1, h2) \<Rightarrow> map (bit_position (bl_bits b) h1 h2) [0..<hashes])"

definition set_bit_at :: "64 word \<Rightarrow> 64 word list \<Rightarrow> 64 word list" where
  "set_bit_at p ws =
     ws[unat (p div 64) := or (ws ! unat (p div 64)) (push_bit (unat (p mod 64)) 1)]"

definition bit_at :: "64 word list \<Rightarrow> 64 word \<Rightarrow> bool" where
  "bit_at ws p \<longleftrightarrow> and (ws ! unat (p div 64)) (push_bit (unat (p mod 64)) 1) \<noteq> 0"

definition add_entry :: "(bytes \<Rightarrow> bytes \<Rightarrow> bytes) \<Rightarrow> residual_entry \<Rightarrow> bloom \<Rightarrow> bloom" where
  "add_entry hmac e b =
     b\<lparr>bl_words := fold set_bit_at (entry_bits hmac b e) (bl_words b), bl_cells := bl_cells b + 1\<rparr>"

definition may_contain :: "(bytes \<Rightarrow> bytes \<Rightarrow> bytes) \<Rightarrow> bloom \<Rightarrow> residual_entry \<Rightarrow> bool" where
  "may_contain hmac b e \<longleftrightarrow> list_all (bit_at (bl_words b)) (entry_bits hmac b e)"

subsection \<open>Emitted values\<close>

definition emitted_field :: string where "emitted_field = ''emitted''"

definition emitted_key :: "(bytes \<Rightarrow> bytes \<Rightarrow> bytes) \<Rightarrow> bloom \<Rightarrow> residual_entry \<Rightarrow> 64 word" where
  "emitted_key hmac b e =
     get_uint64 (take 8 (hmac (bl_key b) (encode_fields (bytes_of_string emitted_field # entry_fields e))))"

definition add_emitted :: "(bytes \<Rightarrow> bytes \<Rightarrow> bytes) \<Rightarrow> residual_entry \<Rightarrow> bloom \<Rightarrow> bloom" where
  "add_emitted hmac e b =
     (let k = emitted_key hmac b e in b\<lparr>bl_emitted := (bl_emitted b)(k := bl_emitted b k + 1)\<rparr>)"

definition emitted_count :: "(bytes \<Rightarrow> bytes \<Rightarrow> bytes) \<Rightarrow> bloom \<Rightarrow> residual_entry \<Rightarrow> int64" where
  "emitted_count hmac b e = bl_emitted b (emitted_key hmac b e)"

definition residual_bytes :: "bloom \<Rightarrow> int64" where
  "residual_bytes b = of_nat (length (bl_words b)) * 8"

subsection \<open>The interface\<close>

text \<open>\<open>pipeline.Residual\<close> as its users read it: adding never takes an entry out, and the count of an
  emitted value is never less than what was recorded.\<close>

locale residual_filter =
  fixes ok :: "'s \<Rightarrow> bool" and insert_entry :: "'e \<Rightarrow> 's \<Rightarrow> 's" and record_output :: "'e \<Rightarrow> 's \<Rightarrow> 's"
    and member :: "'s \<Rightarrow> 'e \<Rightarrow> bool"
  assumes ok_insert: "ok s \<Longrightarrow> ok (insert_entry e s)"
    and ok_record: "ok s \<Longrightarrow> ok (record_output e s)"
    and inserted: "ok s \<Longrightarrow> member (insert_entry e s) e"
    and kept: "ok s \<Longrightarrow> member s e \<Longrightarrow> member (insert_entry f s) e"
    and kept_record: "member (record_output f s) e \<longleftrightarrow> member s e"
begin

definition perform :: "bool \<times> 'e \<Rightarrow> 's \<Rightarrow> 's" where
  "perform a = (if fst a then insert_entry (snd a) else record_output (snd a))"

lemma ok_perform: "ok s \<Longrightarrow> ok (perform a s)"
  by (simp add: perform_def ok_insert ok_record)

lemma perform_kept: "ok s \<Longrightarrow> member s e \<Longrightarrow> member (perform a s) e"
  by (simp add: perform_def kept kept_record)

lemma no_misses:
  assumes "ok s" and "(True, e) \<in> set as \<or> member s e"
  shows "member (fold perform as s) e"
  using assms
proof (induction as arbitrary: s)
  case (Cons a as)
  have "(True, e) \<in> set as \<or> member (perform a s) e"
  proof (cases "a = (True, e)")
    case True
    then show ?thesis using inserted [OF Cons.prems(1), of e] by (simp add: perform_def)
  next
    case False
    then show ?thesis using Cons.prems(2) perform_kept [OF Cons.prems(1), of e a] by auto
  qed
  then show ?case using Cons.IH [OF ok_perform [OF Cons.prems(1)]] by simp
qed simp

end

subsection \<open>The Bloom filter provides it\<close>

definition bloom_ok :: "bloom \<Rightarrow> bool" where
  "bloom_ok b \<longleftrightarrow> unat (bl_bits b) = 64 * length (bl_words b) \<and> 0 < length (bl_words b)"

lemma residual_words_bounds: "0x2000 \<le> residual_words cells" "residual_words cells \<le> 0x4000000"
proof -
  define bits where "bits = min (max (if 0 < sint cells then cells * bits_per_cell else 0) min_bits) max_bits"
  have b: "0x80000 \<le> bits" "bits \<le> 0x100000000"
    by (auto simp: bits_def min_bits_def max_bits_def)
  have r: "residual_words cells = (bits + 63) div 64" by (simp add: residual_words_def bits_def Let_def)
  have n: "unat (bits + 63) = unat bits + 63"
    using b by (simp add: word_le_nat_alt unat_word_ariths)
  have u: "unat (residual_words cells) = (unat bits + 63) div 64" by (simp add: r unat_div n)
  show "0x2000 \<le> residual_words cells" using b by (simp add: word_le_nat_alt u)
  show "residual_words cells \<le> 0x4000000" using b by (simp add: word_le_nat_alt u)
qed

lemma new_residual_ok: "bloom_ok (new_residual key cells)"
proof -
  have n: "0x2000 \<le> unat (residual_words cells)" "unat (residual_words cells) \<le> 0x4000000"
    using residual_words_bounds [of cells] by (simp_all add: word_le_nat_alt)
  then have "unat (residual_words cells * 64) = 64 * unat (residual_words cells)"
    by (simp add: unat_word_ariths)
  then show ?thesis using n by (simp add: new_residual_def bloom_ok_def Let_def)
qed

lemma bit_position_index:
  assumes "bloom_ok b"
  shows "unat (bit_position (bl_bits b) h1 h2 i div 64) < length (bl_words b)"
proof -
  have pos: "0 < unat (bl_bits b)" using assms by (simp add: bloom_ok_def)
  have "unat (bit_position (bl_bits b) h1 h2 i) < 64 * length (bl_words b)"
    using assms mod_less_divisor [OF pos] by (simp add: bit_position_def unat_mod bloom_ok_def)
  then show ?thesis by (simp add: unat_div less_mult_imp_div_less mult.commute)
qed

lemma bit_at_iff:
  "bit_at ws p \<longleftrightarrow> bit (ws ! unat (p div 64)) (unat (p mod 64))"
  by (simp add: bit_at_def and_exp_eq_0_iff_not_bit push_bit_eq_mult)

lemma length_set_bit_at [simp]: "length (set_bit_at p ws) = length ws"
  by (simp add: set_bit_at_def)

lemma bit_at_set:
  assumes "unat (p div 64) < length ws"
  shows "bit_at (set_bit_at q ws) p \<longleftrightarrow> bit_at ws p \<or> p = q"
proof (cases "unat (p div 64) = unat (q div 64)")
  case True
  have m: "unat (p mod 64) < 64" by (simp add: unat_mod)
  have "p = q \<longleftrightarrow> unat (q mod 64) = unat (p mod 64)"
  proof
    assume "unat (q mod 64) = unat (p mod 64)"
    then have "unat p = unat q"
      using True div_mult_mod_eq [of "unat p" 64] div_mult_mod_eq [of "unat q" 64]
      by (simp only: unat_div unat_mod) simp
    then show "p = q" by (simp add: word_unat_eq_iff)
  qed simp
  then show ?thesis
    using assms True m unfolding bit_at_iff set_bit_at_def by (auto simp: bit_simps)
next
  case False
  then show ?thesis using assms unfolding bit_at_iff set_bit_at_def by (auto simp: nth_list_update)
qed

lemma bit_at_fold_set:
  assumes "unat (p div 64) < length ws"
  shows "bit_at (fold set_bit_at qs ws) p \<longleftrightarrow> bit_at ws p \<or> p \<in> set qs"
  using assms by (induction qs arbitrary: ws) (auto simp: bit_at_set)

lemma entry_bits_index: "bloom_ok b \<Longrightarrow> p \<in> set (entry_bits hmac b e) \<Longrightarrow> unat (p div 64) < length (bl_words b)"
  using bit_position_index by (auto simp: entry_bits_def split: prod.splits)

lemma length_fold_set [simp]: "length (fold set_bit_at qs ws) = length ws"
  by (induction qs arbitrary: ws) simp_all

lemma add_entry_fields [simp]:
  "bl_bits (add_entry hmac e b) = bl_bits b" "bl_key (add_entry hmac e b) = bl_key b"
  "bl_bits (add_emitted hmac e b) = bl_bits b" "bl_key (add_emitted hmac e b) = bl_key b"
  "bl_words (add_emitted hmac e b) = bl_words b" "bl_emitted (add_entry hmac e b) = bl_emitted b"
  by (simp_all add: add_entry_def add_emitted_def Let_def)

lemma entry_bits_cong [simp]:
  "entry_bits hmac (add_entry hmac f b) e = entry_bits hmac b e"
  "entry_bits hmac (add_emitted hmac f b) e = entry_bits hmac b e"
  by (simp_all add: entry_bits_def positions_def)

lemma may_contain_add:
  "bloom_ok b \<Longrightarrow> may_contain hmac (add_entry hmac f b) e \<longleftrightarrow>
    (\<forall>p\<in>set (entry_bits hmac b e). bit_at (bl_words b) p \<or> p \<in> set (entry_bits hmac b f))"
  using entry_bits_index [of b _ hmac e]
  by (auto simp: may_contain_def list_all_iff add_entry_def bit_at_fold_set entry_bits_def positions_def)

interpretation bloom: residual_filter bloom_ok "add_entry hmac" "add_emitted hmac" "may_contain hmac"
  for hmac
proof
  fix s e f
  show "bloom_ok s \<Longrightarrow> bloom_ok (add_entry hmac e s)" by (simp add: bloom_ok_def add_entry_def)
  show "bloom_ok s \<Longrightarrow> bloom_ok (add_emitted hmac e s)" by (simp add: bloom_ok_def)
  show "bloom_ok s \<Longrightarrow> may_contain hmac (add_entry hmac e s) e" by (simp add: may_contain_add)
  show "bloom_ok s \<Longrightarrow> may_contain hmac s e \<Longrightarrow> may_contain hmac (add_entry hmac f s) e"
    unfolding may_contain_add by (simp add: may_contain_def list_all_iff)
  show "may_contain hmac (add_emitted hmac f s) e = may_contain hmac s e"
    by (simp add: may_contain_def)
qed

subsection \<open>Counts\<close>

lemma emitted_key_cong [simp]:
  "emitted_key hmac (add_entry hmac f b) e = emitted_key hmac b e"
  "emitted_key hmac (add_emitted hmac f b) e = emitted_key hmac b e"
  by (simp_all add: emitted_key_def)

definition run_residual :: "(bytes \<Rightarrow> bytes \<Rightarrow> bytes) \<Rightarrow> (bool \<times> residual_entry) list \<Rightarrow> bloom \<Rightarrow> bloom" where
  "run_residual hmac = fold (bloom.perform hmac)"

lemma perform_simps [simp]:
  "bloom.perform hmac (True, e) = add_entry hmac e" "bloom.perform hmac (False, e) = add_emitted hmac e"
  by (simp_all add: bloom.perform_def)

lemma run_residual_simps [simp]:
  "run_residual hmac [] b = b"
  "run_residual hmac ((True, e) # ops) b = run_residual hmac ops (add_entry hmac e b)"
  "run_residual hmac ((False, e) # ops) b = run_residual hmac ops (add_emitted hmac e b)"
  by (simp_all add: run_residual_def)

text \<open>How often an output with this key was recorded.\<close>

definition recorded :: "(bytes \<Rightarrow> bytes \<Rightarrow> bytes) \<Rightarrow> bloom \<Rightarrow> (bool \<times> residual_entry) list \<Rightarrow> 64 word \<Rightarrow> nat" where
  "recorded hmac b ops k = length (filter (\<lambda>a. \<not> fst a \<and> emitted_key hmac b (snd a) = k) ops)"

lemma recorded_simps [simp]:
  "recorded hmac b [] k = 0"
  "recorded hmac b ((True, e) # ops) k = recorded hmac b ops k"
  "recorded hmac b ((False, e) # ops) k =
     (if emitted_key hmac b e = k then Suc (recorded hmac b ops k) else recorded hmac b ops k)"
  by (simp_all add: recorded_def)

lemma recorded_cong [simp]:
  "recorded hmac (add_entry hmac e b) ops k = recorded hmac b ops k"
  "recorded hmac (add_emitted hmac e b) ops k = recorded hmac b ops k"
  by (simp_all add: recorded_def)

lemma bl_emitted_add:
  "bl_emitted (add_emitted hmac e b) k = bl_emitted b k + (if emitted_key hmac b e = k then 1 else 0)"
  by (simp add: add_emitted_def Let_def)

lemma emitted_run:
  "bl_emitted (run_residual hmac ops b) k = bl_emitted b k + of_nat (recorded hmac b ops k)"
proof (induction ops arbitrary: b)
  case (Cons a ops)
  obtain t e where a: "a = (t, e)" by fastforce
  show ?case
    using Cons by (cases t) (auto simp: a bl_emitted_add algebra_simps)
qed simp

lemma cells_run:
  "bl_cells (run_residual hmac ops b) = bl_cells b + of_nat (length (filter fst ops))"
proof (induction ops arbitrary: b)
  case (Cons a ops)
  obtain t e where a: "a = (t, e)" by fastforce
  show ?case
    using Cons by (cases t) (auto simp: a add_entry_def add_emitted_def Let_def algebra_simps)
qed simp

lemma run_residual_key [simp]: "emitted_key hmac (run_residual hmac ops b) e = emitted_key hmac b e"
proof (induction ops arbitrary: b)
  case (Cons a ops)
  then show ?case by (cases "fst a"; cases a) auto
qed simp

subsection \<open>Positions\<close>

lemma bit_position_mod64:
  assumes "64 dvd unat bits"
  shows "uint (bit_position bits h1 h2 i) mod 64 = (uint h1 + int i * uint h2) mod 64"
proof -
  have d: "(64 :: int) dvd uint bits" using assms by (metis int_dvd_int_iff of_nat_numeral uint_nat)
  have "uint (bit_position bits h1 h2 i) mod 64 = uint (h1 + of_nat i * h2) mod 64"
    using mod_mod_cancel [OF d, of "uint (h1 + of_nat i * h2)"] by (simp add: bit_position_def uint_mod)
  also have "\<dots> = (uint h1 + uint (of_nat i :: 64 word) * uint h2) mod 64"
    by (simp add: uint_word_ariths mod_mod_cancel mod_simps)
  also have "\<dots> = (uint h1 + int i * uint h2) mod 64"
  proof -
    have m: "i mod 2 ^ 64 mod 64 = i mod 64" by (rule mod_mod_cancel) simp
    have "uint (of_nat i :: 64 word) = int (i mod 2 ^ 64)"
      by (simp add: unsigned_of_nat take_bit_eq_mod)
    then have "uint (of_nat i :: 64 word) mod 64 = int i mod 64"
      using m by (metis of_nat_mod of_nat_numeral)
    then show ?thesis by (intro mod_add_cong mod_mult_cong refl)
  qed
  finally show ?thesis .
qed

lemma bit_position_inj:
  assumes "64 dvd unat bits" and "odd (uint h2)" and "i < 64" and "j < 64"
    and "bit_position bits h1 h2 i = bit_position bits h1 h2 j"
  shows "i = j"
proof -
  have "(uint h1 + int i * uint h2) mod 64 = (uint h1 + int j * uint h2) mod 64"
    using bit_position_mod64 [OF assms(1)] assms(5) by metis
  then have "64 dvd (int i - int j) * uint h2"
    by (simp add: mod_eq_dvd_iff algebra_simps)
  moreover have "coprime (64 :: int) (uint h2)"
  proof -
    have "coprime (2 ^ 6 :: int) (uint h2)"
      using assms(2) by (simp only: coprime_power_left_iff coprime_left_2_iff_odd) simp
    then show ?thesis by simp
  qed
  ultimately have "64 dvd int i - int j" by (simp add: coprime_dvd_mult_left_iff)
  then have "int i - int j = 0"
    using dvd_imp_le_int [of "int i - int j" 64] assms(3, 4) by (cases "int i = int j") auto
  then show ?thesis by simp
qed

lemma positions_odd: "positions hmac b e = (h1, h2) \<Longrightarrow> odd (uint h2)"
proof -
  assume "positions hmac b e = (h1, h2)"
  then have "bit h2 0" by (auto simp: positions_def Let_def bit_simps)
  then show ?thesis by (simp add: bit_0 bit_uint_iff flip: bit_0)
qed

lemma distinct_entry_bits:
  assumes "bloom_ok b"
  shows "distinct (entry_bits hmac b e)"
proof -
  obtain h1 h2 where p: "positions hmac b e = (h1, h2)" by fastforce
  have "64 dvd unat (bl_bits b)" using assms by (simp add: bloom_ok_def)
  from bit_position_inj [OF this positions_odd [OF p]] show ?thesis
    by (auto simp: entry_bits_def p distinct_map inj_on_def hashes_def)
qed

end
