(* ===== verification/Residual_Properties.thy ===== *)
theory Residual_Properties
  imports Residual
begin

text \<open>What the final check may conclude from the residual filter, and how well it spreads.\<close>

lemma count_recorded: "count_list ops (False, e) \<le> recorded hmac b ops (emitted_key hmac b e)"
proof (induction ops)
  case (Cons a ops)
  obtain t f where a: "a = (t, f)" by fastforce
  show ?case using Cons by (cases t) (auto simp: a)
qed simp

lemma recorded_length: "recorded hmac b ops k \<le> length ops"
  by (simp add: recorded_def)

lemma sint_count: "n < 2 ^ 63 \<Longrightarrow> sint (of_nat n :: int64) = int n"
  by (simp add: signed_of_nat signed_take_bit_int_eq_self)

text \<open>C35: The residual filter never misses. Whatever is added to a filter of any estimate, in any
  order and with outputs recorded in between, an entry that was added is reported as one that may
  have been masked; the count of an emitted value is at least the number of times it was recorded,
  so a hit is never explained by less than was emitted; and the number of cells is exact.\<close>

theorem residual_no_misses:
  fixes hmac :: "bytes \<Rightarrow> bytes \<Rightarrow> bytes" and key :: bytes and cells :: int64
  assumes "length ops < 2 ^ 63"
  defines "b \<equiv> run_residual hmac ops (new_residual key cells)"
  shows "(\<forall>e. (True, e) \<in> set ops \<longrightarrow> may_contain hmac b e)
    \<and> (\<forall>e. int (count_list ops (False, e)) \<le> sint (emitted_count hmac b e))
    \<and> sint (bl_cells b) = int (length (filter fst ops))"
proof (intro conjI allI impI)
  fix e
  show "may_contain hmac b e" if "(True, e) \<in> set ops"
    unfolding b_def run_residual_def using that by (intro bloom.no_misses new_residual_ok) simp
  let ?k = "emitted_key hmac (new_residual key cells) e"
  have "emitted_count hmac b e = of_nat (recorded hmac (new_residual key cells) ops ?k)"
    by (simp add: b_def emitted_count_def emitted_run) (simp add: new_residual_def Let_def)
  then have "sint (emitted_count hmac b e) = int (recorded hmac (new_residual key cells) ops ?k)"
    using recorded_length [of hmac "new_residual key cells" ops ?k] assms(1) by (simp add: sint_count)
  then show "int (count_list ops (False, e)) \<le> sint (emitted_count hmac b e)"
    using count_recorded [of ops e hmac "new_residual key cells"] by simp
next
  have "length (filter fst ops) \<le> length ops" by simp
  then have "length (filter fst ops) < 2 ^ 63" using assms(1) by linarith
  moreover have "bl_cells b = of_nat (length (filter fst ops))"
    by (simp add: b_def cells_run) (simp add: new_residual_def Let_def)
  ultimately show "sint (bl_cells b) = int (length (filter fst ops))" by (simp add: sint_count)
qed

definition mail_entry :: residual_entry where
  "mail_entry = \<lparr>re_column = ColumnRef (TableRef ''public'' ''users'') ''email'', re_path = [],
     re_canonical = bytes_of_string ''a@b.com''\<rparr>"

lemma residual_no_misses_witness:
  "may_contain (\<lambda>k m. k @ m) (run_residual (\<lambda>k m. k @ m) [(False, mail_entry), (True, mail_entry)]
     (new_residual [1, 2] 5)) mail_entry"
  using residual_no_misses [of "[(False, mail_entry), (True, mail_entry)]" "\<lambda>k m. k @ m" "[1, 2]" 5] by simp

lemma run_residual_shape:
  "bl_bits (run_residual hmac ops b) = bl_bits b"
  "length (bl_words (run_residual hmac ops b)) = length (bl_words b)"
proof (induction ops arbitrary: b)
  case (Cons a ops)
  {
    case 1
    then show ?case using Cons.IH(1) by (cases "fst a"; cases a) auto
  next
    case 2
    have "length (bl_words (add_entry hmac e b)) = length (bl_words b)" for e by (simp add: add_entry_def)
    then show ?case using Cons.IH(2) by (cases "fst a"; cases a) auto
  }
qed simp_all

lemma new_residual_size:
  "64 * length (bl_words (new_residual key cells)) = 64 * unat (residual_words cells)"
  by (simp add: new_residual_def Let_def)

lemma uint_small: "0 \<le> k \<Longrightarrow> k < 2 ^ 63 \<Longrightarrow> uint (of_int k :: 64 word) = k"
  by (simp add: uint_word_of_int_eq take_bit_int_eq_self)

lemma residual_words_cover:
  assumes "0 < sint cells" and "29 * sint cells \<le> 2 ^ 32"
  shows "29 * sint cells \<le> int (64 * unat (residual_words cells))"
proof -
  define n where "n = unat cells"
  have s: "sint cells = int n"
  proof -
    have "uint cells = uint (of_int (sint cells) :: 64 word)" by simp
    also have "\<dots> = sint cells"
      by (rule uint_small) (use assms in simp_all)
    finally show ?thesis unfolding uint_nat n_def by (rule sym)
  qed
  have n: "29 * n \<le> 2 ^ 32" using assms(2) unfolding s by simp
  define bits where "bits = min (max (cells * bits_per_cell) min_bits) max_bits"
  have c: "unat (cells * bits_per_cell) = 29 * n"
    using n by (simp add: unat_word_ariths bits_per_cell_def n_def)
  have b: "29 * n \<le> unat bits" "unat bits \<le> 2 ^ 32"
    using c n by (auto simp: bits_def min_bits_def max_bits_def min_def max_def word_le_nat_alt split: if_splits)
  have r: "residual_words cells = (bits + 63) div 64"
    using assms(1) by (simp add: residual_words_def bits_def Let_def)
  have "unat (residual_words cells) = (unat bits + 63) div 64"
    using b by (simp add: r unat_div unat_word_ariths)
  moreover have "unat bits \<le> 64 * ((unat bits + 63) div 64)" by presburger
  ultimately show ?thesis using b s by linarith
qed

text \<open>C39: The twenty bits of an entry are twenty different bits of the filter. For a filter of any
  estimate, after anything was added, the positions of an entry are pairwise distinct and inside the
  filter, although the products wrap at 64 bits and the bit count need not be a power of two; and the
  filter has at least 2^19 bits, at most 2^32, and the 29 bits per estimated cell whenever that is
  within the cap.\<close>

theorem residual_positions_spread:
  fixes hmac :: "bytes \<Rightarrow> bytes \<Rightarrow> bytes" and key :: bytes and cells :: int64 and ops :: "(bool \<times> residual_entry) list"
  defines "b \<equiv> run_residual hmac ops (new_residual key cells)"
  shows "length (entry_bits hmac b e) = 20 \<and> distinct (entry_bits hmac b e)
    \<and> (\<forall>p\<in>set (entry_bits hmac b e). unat p < 64 * length (bl_words b))
    \<and> 2 ^ 19 \<le> 64 * length (bl_words b) \<and> 64 * length (bl_words b) \<le> 2 ^ 32
    \<and> (0 < sint cells \<and> 29 * sint cells \<le> 2 ^ 32
        \<longrightarrow> 29 * sint cells \<le> int (64 * length (bl_words b)))"
proof -
  let ?b = "run_residual hmac ops (new_residual key cells)"
  have ok: "bloom_ok ?b"
    using new_residual_ok [of key cells] by (simp add: bloom_ok_def run_residual_shape)
  have len: "length (entry_bits hmac ?b e) = 20"
    by (simp add: entry_bits_def hashes_def split: prod.splits)
  have range: "unat p < 64 * length (bl_words ?b)" if "p \<in> set (entry_bits hmac ?b e)" for p
  proof -
    have "0 < unat (bl_bits ?b)" using ok by (simp add: bloom_ok_def)
    then have "unat p < unat (bl_bits ?b)"
      using that mod_less_divisor by (auto simp: entry_bits_def bit_position_def unat_mod split: prod.splits)
    then show ?thesis using ok by (simp add: bloom_ok_def)
  qed
  have size: "64 * length (bl_words ?b) = 64 * unat (residual_words cells)"
    by (simp add: run_residual_shape new_residual_size)
  have bounds: "0x2000 \<le> unat (residual_words cells)" "unat (residual_words cells) \<le> 0x4000000"
    using residual_words_bounds [of cells] by (simp_all add: word_le_nat_alt)
  show ?thesis
    unfolding b_def
    using len distinct_entry_bits [OF ok] range size bounds residual_words_cover [of cells] by auto
qed

lemma residual_positions_spread_witness:
  "29 * 100000 \<le> int (64 * length (bl_words (run_residual (\<lambda>k m. []) [] (new_residual [] 100000))))
   \<and> distinct (entry_bits (\<lambda>k m. []) (run_residual (\<lambda>k m. []) [] (new_residual [] 100000)) mail_entry)"
  using residual_positions_spread [of "\<lambda>k m. []" "[]" "[]" 100000 mail_entry] by simp

end
