(* ===== verification/Array_Literal.thy ===== *)
theory Array_Literal
  imports Strings
begin

text \<open>
  \<open>internal/transform/array.go\<close>: PostgreSQL's array output form, read and written back. An array
  of an extension type arrives as one string; its elements are masked one by one and the
  literal is written again, so what is written has to read back as the same array shape. The
  parser's cursor is the rest of the text. Every error is the one refusal \<open>errArrayLiteral\<close>,
  here \<open>None\<close>; the node's flags are the constructors.
\<close>

datatype array_node = Nested "array_node list" | NullElem | Elem string

subsection \<open>Reading\<close>

definition array_space :: string where
  "array_space = [CHR '' '', CHR 0x09, CHR 0x0A, CHR 0x0D, CHR 0x0B, CHR 0x0C]"

definition is_array_space :: "char \<Rightarrow> bool" where
  "is_array_space c \<longleftrightarrow> c \<in> set array_space"

definition skip_spaces :: "string \<Rightarrow> string" where
  "skip_spaces s = dropWhile is_array_space s"

text \<open>\<open>at(c)\<close>: the next byte that is no space is \<open>c\<close>; then what follows it.\<close>

definition after :: "char \<Rightarrow> string \<Rightarrow> string option" where
  "after c s = (case skip_spaces s of d # r \<Rightarrow> if d = c then Some r else None | [] \<Rightarrow> None)"

definition trim_array_space :: "string \<Rightarrow> string" where
  "trim_array_space s = rev (dropWhile is_array_space (rev (dropWhile is_array_space s)))"

definition is_null_word :: "string \<Rightarrow> bool" where
  "is_null_word s \<longleftrightarrow> to_lower s = ''null''"

definition bare_element :: "string \<Rightarrow> array_node option" where
  "bare_element raw =
     (let text = trim_array_space raw in
      if text = [] then None
      else if is_null_word text then Some NullElem
      else Some (Elem text))"

text \<open>\<open>quoted\<close>, past the opening quote: the text, and what follows the closing one.\<close>

fun quoted_text :: "string \<Rightarrow> (string \<times> string) option" where
  "quoted_text [] = None"
| "quoted_text (c # s) =
     (if c = CHR 0x5C then
        (case s of
           [] \<Rightarrow> None
         | d # r \<Rightarrow> map_option (apfst ((#) d)) (quoted_text r))
      else if c = CHR 0x22 then Some ([], s)
      else map_option (apfst ((#) c)) (quoted_text s))"

definition ends_bare :: "char \<Rightarrow> bool" where
  "ends_bare c \<longleftrightarrow> c \<in> set [CHR '','', CHR 0x7D, CHR 0x7B, CHR 0x22]"

text \<open>The loop of \<open>element\<close>: the run up to a separator, which a backslash spoils.\<close>

fun bare_run :: "string \<Rightarrow> (string \<times> string) option" where
  "bare_run [] = None"
| "bare_run (c # s) =
     (if ends_bare c then Some ([], c # s)
      else if c = CHR 0x5C then None
      else map_option (apfst ((#) c)) (bare_run s))"

definition array_element :: "string \<Rightarrow> (array_node \<times> string) option" where
  "array_element s =
     (case skip_spaces s of
        [] \<Rightarrow> None
      | c # r \<Rightarrow>
          if c = CHR 0x22 then map_option (apfst Elem) (quoted_text r)
          else (case bare_run (c # r) of
                  None \<Rightarrow> None
                | Some (raw, rest) \<Rightarrow> map_option (\<lambda>n. (n, rest)) (bare_element raw)))"

lemma length_skip_spaces: "length (skip_spaces s) \<le> length s"
  by (simp add: skip_spaces_def length_dropWhile_le)

lemma length_after: "after c s = Some r \<Longrightarrow> length r < length s"
  using length_skip_spaces [of s] by (auto simp: after_def split: list.splits if_splits)

lemma length_quoted_text: "quoted_text s = Some (t, r) \<Longrightarrow> length r < length s"
  by (induction s arbitrary: t r rule: quoted_text.induct) (fastforce split: if_splits list.splits)+

lemma length_bare_run: "bare_run s = Some (t, r) \<Longrightarrow> length r \<le> length s"
  by (induction s arbitrary: t r rule: bare_run.induct) (fastforce split: if_splits)+

lemma length_array_element:
  assumes "array_element s = Some (n, r)"
  shows "length r \<le> length s"
proof (cases "skip_spaces s")
  case (Cons c u)
  then have le: "length (c # u) \<le> length s" using length_skip_spaces [of s] by simp
  show ?thesis
  proof (cases "c = CHR 0x22")
    case True
    then show ?thesis
      using assms le unfolding array_element_def Cons by (auto dest: length_quoted_text)
  next
    case False
    then obtain raw where "bare_run (c # u) = Some (raw, r)"
      using assms unfolding array_element_def Cons
      by (auto split: option.splits simp del: bare_run.simps)
    then show ?thesis using le length_bare_run by fastforce
  qed
qed (use assms in \<open>simp add: array_element_def\<close>)

text \<open>
  The loop of \<open>array\<close>, at an element: the elements up to the closing brace, and what follows
  it. An element that starts with a brace is an array, empty when the next byte closes it.
\<close>

function array_items :: "string \<Rightarrow> (array_node list \<times> string) option" where
  "array_items s =
     (case (case after CHR 0x7B s of
              None \<Rightarrow> array_element s
            | Some r \<Rightarrow>
                (case after CHR 0x7D r of
                   Some r' \<Rightarrow> Some (Nested [], r')
                 | None \<Rightarrow> map_option (apfst Nested) (array_items r))) of
        None \<Rightarrow> None
      | Some (child, rest) \<Rightarrow>
          (case after CHR '','' rest of
             Some r \<Rightarrow> map_option (apfst ((#) child)) (array_items r)
           | None \<Rightarrow>
               (case after CHR 0x7D rest of
                  Some r \<Rightarrow> Some ([child], r)
                | None \<Rightarrow> None)))"
  by pat_completeness auto

lemma length_array_child:
  assumes "(case after CHR 0x7B s of
              None \<Rightarrow> array_element s
            | Some r \<Rightarrow>
                (case after CHR 0x7D r of
                   Some r' \<Rightarrow> Some (Nested [], r')
                 | None \<Rightarrow> map_option (apfst Nested) (array_items r))) = Some (child, rest)"
    and "\<And>u ns r. after CHR 0x7B s = Some u \<Longrightarrow> after CHR 0x7D u = None
           \<Longrightarrow> array_items u = Some (ns, r) \<Longrightarrow> length r < length u"
  shows "length rest \<le> length s"
proof (cases "after CHR 0x7B s")
  case None
  then show ?thesis using assms(1) length_array_element by simp
next
  case (Some u)
  then have u: "length u < length s" by (rule length_after)
  show ?thesis
  proof (cases "after CHR 0x7D u")
    case None
    then obtain ms where "array_items u = Some (ms, rest)" using assms(1) Some by auto
    then show ?thesis using assms(2) [OF Some None] u by fastforce
  next
    case (Some v)
    then show ?thesis using assms(1) \<open>after CHR 0x7B s = Some u\<close> length_after [OF Some] u by simp
  qed
qed

lemma length_array_items:
  "array_items_dom s \<Longrightarrow> array_items s = Some (ns, r) \<Longrightarrow> length r < length s"
proof (induction arbitrary: ns r rule: array_items.pinduct)
  case (1 s)
  let ?child = "case after CHR 0x7B s of
              None \<Rightarrow> array_element s
            | Some r \<Rightarrow>
                (case after CHR 0x7D r of
                   Some r' \<Rightarrow> Some (Nested [], r')
                 | None \<Rightarrow> map_option (apfst Nested) (array_items r))"
  obtain child rest where child: "?child = Some (child, rest)"
    using 1(1, 4) by (auto simp: array_items.psimps split: option.splits)
  then have le: "length rest \<le> length s" by (rule length_array_child) (rule 1(2))
  show ?case
  proof (cases "after CHR '','' rest")
    case None
    then have "after CHR 0x7D rest = Some r"
      using 1(1, 4) child by (auto simp: array_items.psimps split: option.splits)
    then show ?thesis using le by (auto dest: length_after)
  next
    case (Some u)
    then obtain ms where "array_items u = Some (ms, r)"
      using 1(1, 4) child by (auto simp: array_items.psimps)
    then have "length r < length u" using 1(3) [OF child _ Some] by fastforce
    then show ?thesis using le length_after [OF Some] by simp
  qed
qed

termination array_items
proof (relation "measure length", goal_cases)
  case (2 s r)
  then show ?case by (auto dest: length_after)
next
  case (3 s x child rest r)
  then have "length rest \<le> length s"
    using length_array_child [of s child rest] length_array_items by fastforce
  with 3(3) show ?case by (auto dest: length_after)
qed simp

declare array_items.simps [simp del]

text \<open>\<open>array\<close>, past its brace.\<close>

definition parse_array :: "string \<Rightarrow> (array_node \<times> string) option" where
  "parse_array s =
     (case after CHR 0x7D s of
        Some r \<Rightarrow> Some (Nested [], r)
      | None \<Rightarrow> map_option (apfst Nested) (array_items s))"

definition split_prefix :: "string \<Rightarrow> (string \<times> string) option" where
  "split_prefix s =
     (if has_prefix s ''['' then
        map_option (\<lambda>i. (take (i + 2) s, trim_space (drop (i + 2) s))) (index_of s '']='')
      else Some ([], s))"

definition parse_array_literal :: "string \<Rightarrow> (string \<times> array_node) option" where
  "parse_array_literal text =
     (case split_prefix (trim_space text) of
        None \<Rightarrow> None
      | Some (prefix, s) \<Rightarrow>
          (case after CHR 0x7B s of
             None \<Rightarrow> None
           | Some r \<Rightarrow>
               (case parse_array r of
                  None \<Rightarrow> None
                | Some (root, rest) \<Rightarrow>
                    if skip_spaces rest = [] then Some (prefix, root) else None)))"

subsection \<open>Writing\<close>

definition needs_array_quotes :: "string \<Rightarrow> bool" where
  "needs_array_quotes s \<longleftrightarrow>
     s = [] \<or> is_null_word s
     \<or> list_ex (\<lambda>c. c \<in> set [CHR 0x7B, CHR 0x7D, CHR '','', CHR 0x22, CHR 0x5C] \<or> is_array_space c) s"

fun escape_element :: "string \<Rightarrow> string" where
  "escape_element [] = []"
| "escape_element (c # s) =
     (if c = CHR 0x22 \<or> c = CHR 0x5C then CHR 0x5C # c # escape_element s
      else c # escape_element s)"

definition quote_array_element :: "string \<Rightarrow> string" where
  "quote_array_element s =
     (if needs_array_quotes s then CHR 0x22 # escape_element s @ [CHR 0x22] else s)"

fun write_array_node :: "array_node \<Rightarrow> string" where
  "write_array_node (Nested ns) =
     CHR 0x7B # join '','' (map write_array_node ns) @ [CHR 0x7D]"
| "write_array_node NullElem = ''NULL''"
| "write_array_node (Elem t) = quote_array_element t"

definition render_array_literal :: "string \<Rightarrow> array_node \<Rightarrow> string" where
  "render_array_literal prefix root = prefix @ write_array_node root"

subsection \<open>What is written reads back\<close>

lemma quoted_text_escape: "quoted_text (escape_element t @ CHR 0x22 # r) = Some (t, r)"
  by (induction t) auto

lemma bare_run_append:
  assumes "list_all (\<lambda>c. \<not> ends_bare c \<and> c \<noteq> CHR 0x5C) t" and "ends_bare d"
  shows "bare_run (t @ d # r) = Some (t, d # r)"
  using assms by (induction t) auto

lemma after_here [simp]: "\<not> is_array_space c \<Longrightarrow> after c (c # r) = Some r"
  by (simp add: after_def skip_spaces_def)

lemma after_other [simp]: "\<not> is_array_space c \<Longrightarrow> c \<noteq> d \<Longrightarrow> after d (c # r) = None"
  by (simp add: after_def skip_spaces_def)

lemma separators_no_space [simp]:
  "\<not> is_array_space CHR 0x7B" "\<not> is_array_space CHR 0x7D" "\<not> is_array_space CHR '',''"
  "\<not> is_array_space CHR 0x22" "\<not> is_array_space CHR ''N''"
  by (simp_all add: is_array_space_def array_space_def)

lemma dropWhile_none: "list_all (\<lambda>c. \<not> P c) t \<Longrightarrow> dropWhile P t = t"
  by (cases t) auto

lemma trim_array_space_id:
  assumes "list_all (\<lambda>c. \<not> is_array_space c) t"
  shows "trim_array_space t = t"
proof -
  have "list_all (\<lambda>c. \<not> is_array_space c) (rev t)" using assms by (simp add: list_all_iff)
  then show ?thesis using assms by (simp add: trim_array_space_def dropWhile_none)
qed

text \<open>An element that is no array, before a separator.\<close>

lemma plain_element_reads_back:
  assumes "list_all (\<lambda>c. \<not> ends_bare c \<and> c \<noteq> CHR 0x5C \<and> \<not> is_array_space c) (c # t)" and "ends_bare d"
  shows "array_element ((c # t) @ d # r) = map_option (\<lambda>n. (n, d # r)) (bare_element (c # t))"
proof -
  have c: "\<not> is_array_space c" "c \<noteq> CHR 0x22" using assms(1) by (auto simp: ends_bare_def)
  have "list_all (\<lambda>c. \<not> ends_bare c \<and> c \<noteq> CHR 0x5C) (c # t)" using assms(1) by (auto simp: list_all_iff)
  from bare_run_append [OF this assms(2), of r] c show ?thesis
    by (simp add: array_element_def skip_spaces_def del: bare_run.simps)
qed

lemma needs_no_quotes:
  assumes "\<not> needs_array_quotes t"
  shows "t \<noteq> []" and "\<not> is_null_word t"
    and "list_all (\<lambda>c. \<not> ends_bare c \<and> c \<noteq> CHR 0x5C \<and> \<not> is_array_space c) t"
  using assms by (auto simp: needs_array_quotes_def list_all_iff list_ex_iff ends_bare_def)

lemma element_reads_back:
  assumes "ends_bare d"
  shows "array_element (quote_array_element t @ d # r) = Some (Elem t, d # r)"
    and "after CHR 0x7B (quote_array_element t @ d # r) = None"
proof -
  show "array_element (quote_array_element t @ d # r) = Some (Elem t, d # r)"
  proof (cases "needs_array_quotes t")
    case True
    then show ?thesis
      by (simp add: quote_array_element_def array_element_def skip_spaces_def quoted_text_escape)
  next
    case False
    note plain = needs_no_quotes [OF False]
    then obtain c u where t: "t = c # u" by (cases t) auto
    have "bare_element t = Some (Elem t)"
      using plain trim_array_space_id [of t] by (simp add: bare_element_def list_all_iff)
    then show ?thesis
      using plain_element_reads_back [of c u d r] plain(3) assms False t
      by (simp add: quote_array_element_def)
  qed
  show "after CHR 0x7B (quote_array_element t @ d # r) = None"
  proof (cases "needs_array_quotes t")
    case False
    note plain = needs_no_quotes [OF False]
    then obtain c u where t: "t = c # u" by (cases t) auto
    then have "\<not> is_array_space c" "c \<noteq> CHR 0x7B" using plain(3) by (auto simp: ends_bare_def)
    then show ?thesis using False t by (simp add: quote_array_element_def)
  qed (simp add: quote_array_element_def)
qed

lemma null_reads_back:
  assumes "ends_bare d"
  shows "array_element (''NULL'' @ d # r) = Some (NullElem, d # r)"
proof -
  have "bare_element ''NULL'' = Some NullElem" by code_simp
  moreover have "list_all (\<lambda>c. \<not> ends_bare c \<and> c \<noteq> CHR 0x5C \<and> \<not> is_array_space c) ''NULL''" by code_simp
  ultimately show ?thesis
    using plain_element_reads_back [of "CHR ''N''" "''ULL''" d r] assms by simp
qed

definition child_reads_back :: "array_node \<Rightarrow> bool" where
  "child_reads_back n \<longleftrightarrow> (\<forall>d r. ends_bare d \<longrightarrow>
     (case after CHR 0x7B (write_array_node n @ d # r) of
              None \<Rightarrow> array_element (write_array_node n @ d # r)
            | Some r \<Rightarrow>
                (case after CHR 0x7D r of
                   Some r' \<Rightarrow> Some (Nested [], r')
                 | None \<Rightarrow> map_option (apfst Nested) (array_items r))) = Some (n, d # r))"

lemma items_read_back:
  assumes "\<And>n. n \<in> set ns \<Longrightarrow> child_reads_back n" and "ns \<noteq> []"
  shows "array_items (join '','' (map write_array_node ns) @ CHR 0x7D # r) = Some (ns, r)"
  using assms
proof (induction ns)
  case (Cons n ns)
  have n: "child_reads_back n" using Cons.prems by simp
  show ?case
  proof (cases ns)
    case Nil
    have "ends_bare CHR 0x7D" by (simp add: ends_bare_def)
    with n [unfolded child_reads_back_def] show ?thesis
      using Nil by (simp add: array_items.simps [of "write_array_node n @ CHR 0x7D # r"])
  next
    case (Cons m ms)
    let ?rest = "join '','' (map write_array_node ns) @ CHR 0x7D # r"
    have s: "join '','' (map write_array_node (n # ns)) @ CHR 0x7D # r
        = write_array_node n @ CHR '','' # ?rest" using Cons by simp
    have "ends_bare CHR '',''" by (simp add: ends_bare_def)
    with n [unfolded child_reads_back_def] have "(case after CHR 0x7B (write_array_node n @ CHR '','' # ?rest) of
              None \<Rightarrow> array_element (write_array_node n @ CHR '','' # ?rest)
            | Some r \<Rightarrow>
                (case after CHR 0x7D r of
                   Some r' \<Rightarrow> Some (Nested [], r')
                 | None \<Rightarrow> map_option (apfst Nested) (array_items r))) = Some (n, CHR '','' # ?rest)"
      by blast
    moreover have "array_items ?rest = Some (ns, r)" using Cons.IH Cons.prems Cons by simp
    ultimately show ?thesis unfolding s by (subst array_items.simps) simp
  qed
qed simp

lemma write_head:
  "\<exists>c u. write_array_node n = c # u \<and> \<not> is_array_space c \<and> c \<noteq> CHR 0x7D"
proof (cases n)
  case (Elem t)
  show ?thesis
  proof (cases "needs_array_quotes t")
    case False
    note plain = needs_no_quotes [OF False]
    then show ?thesis using Elem False by (cases t) (auto simp: quote_array_element_def ends_bare_def)
  qed (simp add: Elem quote_array_element_def)
qed simp_all

lemma join_not_closed:
  assumes "ns \<noteq> []"
  shows "after CHR 0x7D (join '','' (map write_array_node ns) @ r) = None"
proof -
  obtain n ms where ns: "ns = n # ms" using assms by (cases ns) auto
  obtain c u where "write_array_node n = c # u" "\<not> is_array_space c" "c \<noteq> CHR 0x7D"
    using write_head by blast
  then show ?thesis using ns by (cases ms) simp_all
qed

lemma every_child_reads_back: "child_reads_back n"
proof (induction n)
  case (Nested ns)
  show ?case
  proof (cases "ns = []")
    case True
    then show ?thesis by (simp add: child_reads_back_def)
  next
    case False
    then show ?thesis
      using items_read_back [OF Nested.IH] join_not_closed [OF False]
      by (simp add: child_reads_back_def)
  qed
next
  case NullElem
  then show ?case using null_reads_back by (simp add: child_reads_back_def)
next
  case (Elem t)
  then show ?case using element_reads_back by (simp add: child_reads_back_def)
qed

lemma array_reads_back:
  "parse_array (join '','' (map write_array_node ns) @ CHR 0x7D # r) = Some (Nested ns, r)"
  using items_read_back [OF every_child_reads_back, of ns r] join_not_closed [of ns "CHR 0x7D # r"]
  by (cases "ns = []") (simp_all add: parse_array_def)

text \<open>The prefix \<open>parseArrayLiteral\<close> splits off: none, or a bracket up to the first \<open>]=\<close>.\<close>

definition is_prefix :: "string \<Rightarrow> bool" where
  "is_prefix p \<longleftrightarrow>
     p = [] \<or> has_prefix p ''['' \<and> (\<exists>i. length p = i + 2 \<and> (\<forall>t. index_of (p @ t) '']='' = Some i))"

lemma index_of_bound: "index_of s p = Some i \<Longrightarrow> i + length p \<le> length s"
proof (induction s arbitrary: i)
  case Nil
  then show ?case by (simp add: index_of.simps has_prefix_def split: if_splits)
next
  case (Cons c s)
  show ?case
  proof (cases "has_prefix (c # s) p")
    case True
    then have "length p \<le> length (c # s)" unfolding has_prefix_def by (metis length_take min.cobounded1)
    then show ?thesis using Cons.prems True by (simp add: index_of.simps [of "c # s"])
  next
    case False
    then show ?thesis using Cons by (auto simp: index_of.simps [of "c # s"])
  qed
qed

lemma index_of_take: "index_of s p = Some i \<Longrightarrow> index_of (take (i + length p) s @ t) p = Some i"
proof (induction s arbitrary: i)
  case Nil
  then show ?case by (simp add: index_of.simps has_prefix_def split: if_splits)
next
  case (Cons c s)
  show ?case
  proof (cases "has_prefix (c # s) p")
    case True
    then have "i = 0" using Cons.prems by (simp add: index_of.simps [of "c # s"])
    moreover have "take (length p) (c # s) = p" using True by (simp add: has_prefix_def)
    ultimately show ?thesis by (simp add: index_of.simps [of "p @ t"])
  next
    case False
    then obtain j where j: "index_of s p = Some j" "i = Suc j"
      using Cons.prems by (auto simp: index_of.simps [of "c # s"])
    from index_of_bound [OF j(1)]
    have "take (length p) (c # (take (j + length p) s @ t)) = take (length p) (c # s)"
      by (cases p) (simp_all add: min_def)
    then have "\<not> has_prefix (c # (take (j + length p) s @ t)) p" using False by (simp add: has_prefix_def)
    then show ?thesis
      using Cons.IH [OF j(1)] j(2) by (simp add: index_of.simps [of "c # _"])
  qed
qed

lemma split_prefix_is_prefix:
  assumes "split_prefix s = Some (prefix, u)"
  shows "is_prefix prefix"
proof (cases "has_prefix s ''[''")
  case True
  then obtain i where i: "index_of s '']='' = Some i" "prefix = take (i + 2) s"
    using assms by (auto simp: split_prefix_def)
  have "length prefix = i + 2" using index_of_bound [OF i(1)] i(2) by simp
  moreover have "has_prefix prefix ''[''" using True i(2) by (cases s) (auto simp: has_prefix_def)
  moreover have "index_of (prefix @ t) '']='' = Some i" for t
    using index_of_take [OF i(1), of t] i(2) by simp
  ultimately show ?thesis unfolding is_prefix_def by blast
next
  case False
  then show ?thesis using assms by (simp add: split_prefix_def is_prefix_def)
qed

lemma trim_space_braces:
  "\<not> is_space c \<Longrightarrow> \<not> is_space d \<Longrightarrow> trim_space (c # s @ [d]) = c # s @ [d]"
  by (simp add: trim_space_def)

lemma split_prefix_append:
  assumes "is_prefix p" and "trim_space s = s" and "s = CHR 0x7B # u"
  shows "split_prefix (p @ s) = Some (p, s)"
proof (cases "p = []")
  case True
  then show ?thesis using assms(3) by (simp add: split_prefix_def has_prefix_def)
next
  case False
  then obtain i where i: "has_prefix p ''[''" "length p = i + 2" "index_of (p @ s) '']='' = Some i"
    using assms(1) by (auto simp: is_prefix_def)
  then have "has_prefix (p @ s) ''[''" by (cases p) (auto simp: has_prefix_def)
  then show ?thesis using i assms(2) by (simp add: split_prefix_def)
qed

lemma literal_reads_back:
  assumes "is_prefix prefix"
  shows "parse_array_literal (render_array_literal prefix (Nested ns)) = Some (prefix, Nested ns)"
proof -
  let ?body = "join '','' (map write_array_node ns) @ [CHR 0x7D]"
  have braces: "\<not> is_space CHR 0x7B" "\<not> is_space CHR 0x7D" "\<not> is_space CHR ''[''"
    by (simp_all add: is_space_def)
  then have s: "trim_space (CHR 0x7B # ?body) = CHR 0x7B # ?body" using trim_space_braces by simp
  have "trim_space (prefix @ CHR 0x7B # ?body) = prefix @ CHR 0x7B # ?body"
  proof (cases prefix)
    case (Cons c p)
    then have "c = CHR ''[''" using assms by (auto simp: is_prefix_def has_prefix_def)
    then show ?thesis
      using Cons trim_space_braces [of c "CHR 0x7D" "p @ CHR 0x7B # join '','' (map write_array_node ns)"] braces
      by simp
  qed (use s in simp)
  with split_prefix_append [OF assms s] show ?thesis
    using array_reads_back [of ns "[]"]
    by (simp add: parse_array_literal_def render_array_literal_def skip_spaces_def)
qed

end
