(* ===== verification/Type_Names.thy ===== *)
theory Type_Names
  imports Mask_Base
begin

text \<open>
  \<open>mask/typetag.go\<close>: from the type name the catalogue prints for a column to the type tag and the
  width a generator reads. Names are byte strings; letters outside ASCII are left as they are.
\<close>

abbreviation "fam_time \<equiv> ''time''"
abbreviation "fam_interval \<equiv> ''interval''"

definition base_types :: "(string \<times> string) list" where
  "base_types =
     [(''text'', fam_text),
      (''character varying'', fam_varchar),
      (''varchar'', fam_varchar),
      (''character'', fam_bpchar),
      (''char'', fam_bpchar),
      (''bpchar'', fam_bpchar),
      (''citext'', fam_citext),
      (''name'', fam_text),
      (''boolean'', fam_boolean),
      (''bool'', fam_boolean),
      (''smallint'', fam_integer),
      (''integer'', fam_integer),
      (''int'', fam_integer),
      (''int2'', fam_integer),
      (''int4'', fam_integer),
      (''bigint'', fam_bigint),
      (''int8'', fam_bigint),
      (''numeric'', fam_numeric),
      (''decimal'', fam_numeric),
      (''money'', fam_numeric),
      (''real'', fam_float),
      (''double precision'', fam_float),
      (''float4'', fam_float),
      (''float8'', fam_float),
      (''date'', fam_date),
      (''timestamp'', fam_timestamp),
      (''timestamp without time zone'', fam_timestamp),
      (''timestamp with time zone'', fam_timestamp),
      (''timestamptz'', fam_timestamp),
      (''time'', fam_time),
      (''time without time zone'', fam_time),
      (''time with time zone'', fam_time),
      (''timetz'', fam_time),
      (''interval'', fam_interval),
      (''uuid'', fam_uuid),
      (''inet'', fam_inet),
      (''cidr'', fam_cidr),
      (''macaddr'', fam_macaddr),
      (''macaddr8'', fam_macaddr),
      (''bytea'', fam_bytea),
      (''json'', fam_json),
      (''jsonb'', fam_jsonb),
      (''hstore'', fam_hstore),
      (''tsvector'', fam_tsvector)]"

definition type_tag :: "string \<Rightarrow> string option" where
  "type_tag name = map_of base_types (to_lower (trim_space name))"

definition max_len :: "string \<Rightarrow> 32 word \<Rightarrow> int" where
  "max_len tag typmod =
     (if tag \<in> set [fam_varchar, fam_bpchar, fam_citext] \<and> 4 < sint typmod then sint typmod - 4 else 0)"

definition quote :: char where "quote = CHR 0x22"

text \<open>The loops of \<open>StripTypmod\<close> and \<open>BareTypeName\<close>: what is before the first bracket, and behind the
  last dot, that is outside quotes.\<close>

fun before_bracket :: "bool \<Rightarrow> string \<Rightarrow> string option" where
  "before_bracket quoted [] = None"
| "before_bracket quoted (c # s) =
     (if c = quote then map_option (Cons c) (before_bracket (\<not> quoted) s)
      else if c = CHR ''('' \<and> \<not> quoted then Some []
      else map_option (Cons c) (before_bracket quoted s))"

definition strip_typmod :: "string \<Rightarrow> string" where
  "strip_typmod name =
     (case before_bracket False name of Some s \<Rightarrow> trim_space s | None \<Rightarrow> name)"

definition unquote_type :: "string \<Rightarrow> string" where
  "unquote_type name = filter (\<lambda>c. c \<noteq> quote) name"

fun behind_dot :: "bool \<Rightarrow> string \<Rightarrow> string option" where
  "behind_dot quoted [] = None"
| "behind_dot quoted (c # s) =
     (case behind_dot (if c = quote then \<not> quoted else quoted) s of
        Some r \<Rightarrow> Some r
      | None \<Rightarrow> if c = CHR ''.'' \<and> \<not> quoted then Some s else None)"

definition bare_type_name :: "string \<Rightarrow> string" where
  "bare_type_name name =
     (case behind_dot False name of Some r \<Rightarrow> unquote_type r | None \<Rightarrow> unquote_type name)"

lemma max_len_tag: "0 < max_len tag typmod \<Longrightarrow> tag \<in> set [fam_varchar, fam_bpchar, fam_citext]"
  by (auto simp: max_len_def split: if_splits)

text \<open>A name the code quotes reads back as the name: a dot or a bracket inside quotes is part of it.\<close>

lemma behind_dot_quoted:
  assumes "quote \<notin> set n"
  shows "behind_dot True (n @ [quote]) = None"
  using assms by (induction n) (auto simp: quote_def)

lemma bare_type_name_quoted:
  assumes "quote \<notin> set n" and "quote \<notin> set q" and "CHR ''.'' \<notin> set q"
  shows "bare_type_name (q @ CHR ''.'' # quote # n @ [quote]) = n"
proof -
  have "behind_dot False (q @ CHR ''.'' # quote # n @ [quote]) = Some (quote # n @ [quote])"
    using assms behind_dot_quoted [OF assms(1)]
    by (induction q) (auto simp: quote_def split: option.splits)
  moreover have "filter (\<lambda>c. c \<noteq> quote) n = n" using assms(1) by (induction n) auto
  ultimately show ?thesis by (simp add: bare_type_name_def unquote_type_def)
qed

end
