(* ===== verification/Column_Shape.thy ===== *)
theory Column_Shape
  imports Run Type_Names Mask_Registry
begin

text \<open>
  One column reduced to what a generator reads of it, once by the planner (\<open>internal/plan/writeback.go\<close>)
  and once by the masking stage (\<open>internal/transform/constraints.go\<close>), over the schema's domains, enums
  and composites; and the classifier's category as the string the \<open>mask\<close> module knows.
\<close>

fun category_name :: "category \<Rightarrow> string" where
  "category_name CatNone = ''none''"
| "category_name CatPersonName = ''person_name''"
| "category_name CatEmail = ''email''"
| "category_name CatPhone = ''phone''"
| "category_name CatAddress = ''address''"
| "category_name CatGeo = ''geo''"
| "category_name CatPersonDate = ''person_date''"
| "category_name CatNationalID = ''national_id''"
| "category_name CatFinancial = ''financial_account''"
| "category_name CatNetworkID = ''network_id''"
| "category_name CatOnlineID = ''online_id''"
| "category_name CatCredential = ''credential''"
| "category_name CatFreeText = ''free_text''"
| "category_name CatSpecial = ''special_category''"
| "category_name CatBinary = ''binary_personal''"
| "category_name CatSemiStruct = ''semi_structured''"
| "category_name CatDerivedText = ''derived_text''"

subsection \<open>Type names\<close>

text \<open>The loop that takes array suffixes off a name.\<close>

function strip_arrays :: "string \<Rightarrow> string" where
  "strip_arrays name =
     (if has_suffix name ''[]'' then strip_arrays (trim_suffix name ''[]'') else name)"
  by pat_completeness auto
termination
  by (relation "measure length") (auto simp: trim_suffix_def has_suffix_def)

declare strip_arrays.simps [simp del]

text \<open>The text of a domain's base type in its CREATE DOMAIN statement: up to the first clause.\<close>

definition cut_clause :: "string \<Rightarrow> string \<Rightarrow> string" where
  "cut_clause rest clause = (case index_of rest clause of Some j \<Rightarrow> take j rest | None \<Rightarrow> rest)"

definition base_of_def :: "string \<Rightarrow> string option" where
  "base_of_def def =
     (case index_of def '' AS '' of
        None \<Rightarrow> None
      | Some i \<Rightarrow>
          (let rest = fold (\<lambda>clause r. cut_clause r clause)
                 ['' COLLATE '', '' DEFAULT '', '' NOT NULL'', '' CONSTRAINT ''] (drop (i + 4) def);
               base = trim_space rest
           in if base = [] then None else Some base))"

definition names_domain :: "string \<Rightarrow> named_def \<Rightarrow> bool" where
  "names_domain domain d \<longleftrightarrow>
     unquote_type (nd_name d) = unquote_type domain \<or> bare_type_name (nd_name d) = bare_type_name domain"

definition domain_base :: "schema \<Rightarrow> string \<Rightarrow> string option" where
  "domain_base s domain =
     (case find (names_domain domain) (sch_domains s) of
        None \<Rightarrow> None
      | Some d \<Rightarrow> base_of_def (nd_def d))"

text \<open>The name of the element type, after the arrays and the domain.\<close>

definition element_type :: "schema \<Rightarrow> column \<Rightarrow> string" where
  "element_type s col =
     (let name = strip_arrays (trim_space (col_type_name col)) in
      if col_domain col \<noteq> [] then
        (case domain_base s (col_domain col) of Some base \<Rightarrow> strip_arrays base | None \<Rightarrow> name)
      else name)"

subsection \<open>The planner's reduction\<close>

definition constraints_of :: "schema \<Rightarrow> column \<Rightarrow> constraints option" where
  "constraints_of s col =
     (case type_tag (bare_type_name (strip_typmod (element_type s col))) of
        None \<Rightarrow> None
      | Some tag \<Rightarrow>
          Some (no_constraints\<lparr>co_tag := tag, co_max_len := max_len tag (col_typmod col),
            co_checks := col_checks col, co_nullable := col_nullable col\<rparr>))"

definition composite_type :: "schema \<Rightarrow> column \<Rightarrow> string option" where
  "composite_type s col =
     (let name = unquote_type (strip_typmod (element_type s col)); bare = bare_type_name name in
      map_option nd_name (find (\<lambda>c. unquote_type (nd_name c) = name \<or> bare_type_name (nd_name c) = bare)
        (sch_composites s)))"

subsection \<open>The masking stage's reduction\<close>

record column_shape =
  cs_family :: string
  cs_array :: bool
  cs_constraints :: constraints

definition unique_column :: "table \<Rightarrow> string \<Rightarrow> bool" where
  "unique_column tbl name \<longleftrightarrow>
     length (tab_pk tbl) = 1 \<and> tab_pk tbl ! 0 = name
     \<or> list_ex (\<lambda>idx. idx_unique idx \<and> \<not> idx_partial idx \<and> \<not> idx_expression idx
          \<and> length (idx_columns idx) = 1 \<and> idx_columns idx ! 0 = name) (tab_indexes tbl)"

definition enum_labels :: "schema \<Rightarrow> string \<Rightarrow> string list option" where
  "enum_labels s name =
     (case map_of (sch_enums s) (unquote_type name) of
        Some ls \<Rightarrow> Some ls
      | None \<Rightarrow> map_option snd (find (\<lambda>e. bare_type_name (fst e) = bare_type_name name) (sch_enums s)))"

definition is_array_type :: "schema \<Rightarrow> column \<Rightarrow> bool" where
  "is_array_type s col \<longleftrightarrow>
     has_suffix (trim_space (col_type_name col)) ''[]''
     \<or> col_domain col \<noteq> [] \<and> (case domain_base s (col_domain col) of
          Some base \<Rightarrow> has_suffix base ''[]'' | None \<Rightarrow> False)"

definition shape_of :: "schema \<Rightarrow> table \<Rightarrow> column \<Rightarrow> column_shape" where
  "shape_of s tbl col =
     (let name = strip_typmod (element_type s col);
          (family, ls) =
            (case type_tag (bare_type_name name) of
               Some tag \<Rightarrow> (tag, [])
             | None \<Rightarrow> (case enum_labels s name of Some l \<Rightarrow> (''enum'', l) | None \<Rightarrow> (''other'', [])))
      in \<lparr>cs_family = family, cs_array = is_array_type s col,
          cs_constraints = no_constraints\<lparr>co_tag := family, co_max_len := max_len family (col_typmod col),
            co_enum_labels := ls, co_checks := col_checks col, co_nullable := col_nullable col,
            co_unique := unique_column tbl (col_name col)\<rparr>\<rparr>)"

definition is_document :: "string \<Rightarrow> bool" where
  "is_document family \<longleftrightarrow> family \<in> set [fam_json, fam_jsonb, fam_hstore]"

subsection \<open>The two agree\<close>

text \<open>On every column the planner judges the masking stage masks under the same constraints, but for the
  unique index, which it reads from the schema and the planner from the decision.\<close>

lemma shape_of_judged:
  assumes "constraints_of s col = Some c"
  shows "cs_constraints (shape_of s tbl col) = c\<lparr>co_unique := unique_column tbl (col_name col)\<rparr>"
    and "cs_family (shape_of s tbl col) = co_tag c"
  using assms by (auto simp: constraints_of_def shape_of_def Let_def no_constraints_def split: option.splits)

lemma constraints_of_zero:
  "constraints_of s col = Some c \<Longrightarrow>
    co_unique c = False \<and> co_rows c = 0 \<and> co_role c = [] \<and> co_enum_labels c = [] \<and> co_region c = []
    \<and> co_distinct c = 0"
  by (auto simp: constraints_of_def no_constraints_def split: option.splits)

end
