(* ===== verification/Leaf_Rule.thy ===== *)
theory Leaf_Rule
  imports Column_Shape Card
begin

text \<open>
  Which leaves of a document are replaced and under which category: the pure half of
  \<open>internal/transform/json.go\<close>, over the per-leaf part of a decision (\<open>internal/pipeline/classify.go\<close>).
  The validators of \<open>internal/textsig\<close> are parameters, but for the card readings of \<open>Card\<close>, of which
  only the spellings to try are one.
\<close>

subsection \<open>The per-leaf part of a decision\<close>

text \<open>No map and an empty map differ, as a nil map and an empty one do for the reader.\<close>

record document_decision = decision +
  dd_leaf_keys :: "(string \<Rightarrow> category option) option"
  dd_name_hit :: "category option"
  dd_log_shaped :: bool

definition leaf_name_category :: "document_decision \<Rightarrow> category option" where
  "leaf_name_category d =
     (if dc_category d \<noteq> CatSemiStruct \<or> dc_source d \<noteq> ByClassifier then None
      else if dd_name_hit d \<in> {None, Some CatNone, Some CatSemiStruct} then None
      else dd_name_hit d)"

definition leaf_map :: "document_decision \<Rightarrow> (string \<Rightarrow> category option) option" where
  "leaf_map d =
     (if dc_category d \<noteq> CatSemiStruct \<or> dc_source d \<noteq> ByClassifier \<or> leaf_name_category d \<noteq> None then None
      else dd_leaf_keys d)"

record leaf_policy =
  lp_keys :: "(string \<Rightarrow> category option) option"
  lp_name :: "category option"
  lp_region :: string
  lp_log_shaped :: bool

definition policy_of :: "document_decision \<Rightarrow> string \<Rightarrow> leaf_policy" where
  "policy_of d region =
     \<lparr>lp_keys = leaf_map d, lp_name = leaf_name_category d, lp_region = region,
      lp_log_shaped = dd_log_shaped d\<rparr>"

definition no_policy :: leaf_policy where
  "no_policy = \<lparr>lp_keys = None, lp_name = None, lp_region = [], lp_log_shaped = False\<rparr>"

subsection \<open>What a value says\<close>

record signatures =
  sg_candidates :: "string \<Rightarrow> string list"
  sg_email :: "string \<Rightarrow> bool"
  sg_phone :: "string \<Rightarrow> string \<Rightarrow> bool"
  sg_iban :: "string \<Rightarrow> bool"
  sg_ip :: "string \<Rightarrow> bool"
  sg_mac :: "string \<Rightarrow> bool"
  sg_id_structured :: "string \<Rightarrow> bool"
  sg_id_checksum :: "string \<Rightarrow> bool"
  sg_id_digits :: "string \<Rightarrow> bool"
  sg_url :: "string \<Rightarrow> bool"
  sg_secret :: "string \<Rightarrow> bool"
  sg_address :: "string \<Rightarrow> bool"
  sg_special :: "string \<Rightarrow> bool"

text \<open>The first candidate is the value itself.\<close>

definition any_candidate :: "signatures \<Rightarrow> string \<Rightarrow> (string \<Rightarrow> bool) \<Rightarrow> bool" where
  "any_candidate sg s ok \<longleftrightarrow> ok s \<or> list_ex ok (tl (sg_candidates sg s))"

definition reads_luhn :: "signatures \<Rightarrow> string \<Rightarrow> bool" where
  "reads_luhn sg s \<longleftrightarrow> any_candidate sg s valid_luhn"

definition reads_card :: "signatures \<Rightarrow> string \<Rightarrow> bool" where
  "reads_card sg s \<longleftrightarrow> any_candidate sg s (valid_card False)"

definition card_shape :: "signatures \<Rightarrow> string \<Rightarrow> bool" where
  "card_shape sg s \<longleftrightarrow> any_candidate sg s (valid_card True)"

definition leaf_value_category :: "signatures \<Rightarrow> string \<Rightarrow> string \<Rightarrow> category option" where
  "leaf_value_category sg s region =
     (if s = [] then None
      else if sg_email sg s then Some CatEmail
      else if sg_phone sg s region then Some CatPhone
      else if reads_card sg s \<or> card_shape sg s \<or> reads_luhn sg s \<or> sg_iban sg s then Some CatFinancial
      else if sg_ip sg s \<or> sg_mac sg s then Some CatNetworkID
      else if sg_id_structured sg s \<or> sg_id_checksum sg s \<or> sg_id_digits sg s then Some CatNationalID
      else if sg_url sg s then Some CatOnlineID
      else if sg_secret sg s then Some CatCredential
      else if sg_address sg s then Some CatAddress
      else if sg_special sg s then Some CatSpecial
      else None)"

definition key_category :: "signatures \<Rightarrow> string \<Rightarrow> string \<Rightarrow> category option" where
  "key_category sg name region =
     (if sg_email sg name then Some CatEmail
      else if sg_phone sg name region then Some CatPhone
      else if reads_luhn sg name then Some CatFinancial
      else None)"

subsection \<open>The rule\<close>

definition leaf_category :: category where "leaf_category = CatFreeText"

definition leaf_masker :: "category \<Rightarrow> category" where
  "leaf_masker cat =
     (if cat \<in> set [CatEmail, CatPhone, CatAddress, CatGeo, CatNationalID, CatFinancial, CatNetworkID,
           CatOnlineID, CatCredential]
      then cat else leaf_category)"

definition leaf_constraints :: constraints where
  "leaf_constraints = no_constraints\<lparr>co_tag := fam_text\<rparr>"

datatype leaf_verdict = LeafCopied | LeafMasked category

text \<open>The keys from the leaf's own out to the root: the first the map names with a category.\<close>

fun named_category :: "(string \<Rightarrow> category option) \<Rightarrow> string list \<Rightarrow> category option" where
  "named_category keys [] = None"
| "named_category keys (k # ks) =
     (case keys k of
        Some cat \<Rightarrow> if cat \<noteq> CatNone then Some cat else named_category keys ks
      | None \<Rightarrow> named_category keys ks)"

definition leaf_rule :: "signatures \<Rightarrow> leaf_policy \<Rightarrow> string list \<Rightarrow> string \<Rightarrow> bool \<Rightarrow> leaf_verdict" where
  "leaf_rule sg p chain t valued =
     (case lp_keys p of
        None \<Rightarrow>
          (case lp_name p of
             Some cat \<Rightarrow> LeafMasked (leaf_masker cat)
           | None \<Rightarrow> LeafMasked leaf_category)
      | Some keys \<Rightarrow>
          (case named_category keys (rev chain) of
             Some cat \<Rightarrow> LeafMasked (leaf_masker cat)
           | None \<Rightarrow>
               (case (if valued then leaf_value_category sg t (lp_region p) else None) of
                  Some cat \<Rightarrow> LeafMasked (leaf_masker cat)
                | None \<Rightarrow>
                    if chain = [] then LeafMasked leaf_category
                    else if list_ex (\<lambda>k. keys k = None) chain then LeafMasked leaf_category
                    else LeafCopied)))"

subsection \<open>What may be copied\<close>

text \<open>The document has a map, the leaf lies under a key, the samples showed every key around it and none
  of them names a category, and no validator recognises its value.\<close>

definition may_copy :: "signatures \<Rightarrow> leaf_policy \<Rightarrow> string list \<Rightarrow> string option \<Rightarrow> bool" where
  "may_copy sg p chain t \<longleftrightarrow>
     (\<exists>keys. lp_keys p = Some keys \<and> chain \<noteq> [] \<and> (\<forall>k\<in>set chain. keys k = Some CatNone))
     \<and> (\<forall>s. t = Some s \<longrightarrow> leaf_value_category sg s (lp_region p) = None)"

lemma named_category_none:
  "named_category keys ks = None \<longleftrightarrow> (\<forall>k\<in>set ks. keys k \<in> {None, Some CatNone})"
  by (induction ks) (auto split: option.splits)

lemma leaf_rule_copies:
  "leaf_rule sg p chain t valued = LeafCopied \<longleftrightarrow> may_copy sg p chain (if valued then Some t else None)"
proof (cases "lp_keys p")
  case None
  then show ?thesis by (simp add: leaf_rule_def may_copy_def split: option.splits)
next
  case (Some keys)
  show ?thesis
  proof (cases "named_category keys (rev chain)")
    case None
    then have all: "\<forall>k\<in>set chain. keys k \<in> {None, Some CatNone}" by (simp add: named_category_none)
    then have "list_ex (\<lambda>k. keys k = None) chain \<longleftrightarrow> \<not> (\<forall>k\<in>set chain. keys k = Some CatNone)"
      unfolding list_ex_iff by fastforce
    then show ?thesis using Some None by (auto simp: leaf_rule_def may_copy_def split: option.splits)
  next
    case (Some cat)
    then have "\<not> (\<forall>k\<in>set (rev chain). keys k \<in> {None, Some CatNone})"
      unfolding named_category_none [symmetric] by simp
    then have "\<not> (\<forall>k\<in>set chain. keys k = Some CatNone)" by auto
    then show ?thesis using \<open>lp_keys p = Some keys\<close> Some by (auto simp: leaf_rule_def may_copy_def)
  qed
qed

text \<open>The nearest enclosing key that names a category decides, whatever the value is.\<close>

lemma leaf_rule_nearest_key:
  assumes "lp_keys p = Some keys" and "chain = out @ k # inner"
    and "keys k = Some cat" and "cat \<noteq> CatNone" and "\<forall>j\<in>set inner. keys j \<in> {None, Some CatNone}"
  shows "leaf_rule sg p chain t valued = LeafMasked (leaf_masker cat)"
proof -
  have "named_category keys (rev inner @ k # rev out) = Some cat"
    using assms(5)
  proof (induction inner rule: rev_induct)
    case Nil
    then show ?case using assms(3, 4) by simp
  next
    case (snoc j js)
    then show ?case by (auto split: option.splits)
  qed
  then show ?thesis using assms(1, 2) by (simp add: leaf_rule_def)
qed

end
