(* ===== verification/Transform_Cell.thy ===== *)
theory Transform_Cell
  imports Mask_Apply Residual Array_Literal Leaf_Rule
begin

text \<open>
  One cell of \<open>internal/transform/transform.go\<close>, a scalar or an array, and the boundary of \<open>value.go\<close>
  between a scanned value and a mask value. It joins the generator guard, the array literals and the
  residual filter: the filter is the state every masked cell goes through. Values of the driver's own
  types, their text and their scanning back, Go's float formatting and its JSON codec are parameters.
\<close>

subsection \<open>Scanned values\<close>

text \<open>Go's \<open>any\<close>: what the driver scans and what the JSON decoder makes. \<open>GoInt w\<close> is \<open>int16\<close>, \<open>int32\<close>,
  \<open>int64\<close> or \<open>int\<close> by its width, \<open>GoFloat\<close> a \<open>float64\<close> and \<open>GoNumber\<close> a \<open>json.Number\<close>; a \<open>GoMap\<close> lists
  the members of a map, each name once; every kind the code has no case of its own for, the other
  integers among them, is a \<open>GoOther\<close>.\<close>

datatype go_value =
    GoNil
  | GoString string
  | GoBytes bytes
  | GoBool bool
  | GoInt nat int
  | GoFloat nat
  | GoNumber string
  | GoSlice "go_value list"
  | GoMap "(string \<times> go_value) list"
  | GoOther nat

text \<open>\<open>tl_float\<close> and \<open>tl_float_plain\<close> are \<open>FormatFloat\<close> with \<open>'g'\<close> and \<open>'f'\<close>, \<open>tl_json\<close> marshals a value
  to its text, \<open>tl_decode\<close> is the decoder with \<open>UseNumber\<close> and \<open>tl_encode\<close> what the encoder writes.\<close>

record transform_lib =
  tl_apply :: apply_lib
  tl_hmac :: "bytes \<Rightarrow> bytes \<Rightarrow> bytes"
  tl_signs :: signatures
  tl_text :: "nat \<Rightarrow> string"
  tl_scan :: "string \<Rightarrow> nat \<Rightarrow> (go_value option) option"
  tl_float :: "nat \<Rightarrow> string"
  tl_float_plain :: "nat \<Rightarrow> string"
  tl_parse_float :: "string \<Rightarrow> nat option"
  tl_float_zero :: nat
  tl_json :: "go_value \<Rightarrow> string"
  tl_decode :: "string \<Rightarrow> go_value option"
  tl_encode :: "go_value \<Rightarrow> string option"

definition go_text :: "transform_lib \<Rightarrow> go_value \<Rightarrow> string" where
  "go_text lib v =
     (case v of
        GoNil \<Rightarrow> []
      | GoString s \<Rightarrow> s
      | GoBytes b \<Rightarrow> string_of_bytes b
      | GoBool b \<Rightarrow> if b then ''true'' else ''false''
      | GoInt w i \<Rightarrow> itoa i
      | GoFloat x \<Rightarrow> tl_float lib x
      | GoNumber n \<Rightarrow> n
      | GoSlice vs \<Rightarrow> tl_json lib v
      | GoMap ms \<Rightarrow> tl_json lib v
      | GoOther k \<Rightarrow> tl_text lib k)"

definition value_of :: "transform_lib \<Rightarrow> go_value \<Rightarrow> mask_value" where
  "value_of lib v =
     (case v of
        GoNil \<Rightarrow> null_value
      | GoString s \<Rightarrow> text_value s
      | GoBytes b \<Rightarrow> bytes_value b
      | _ \<Rightarrow> text_value (go_text lib v))"

definition parse_bool :: "string \<Rightarrow> bool option" where
  "parse_bool s =
     (if s \<in> set [''1'', ''t'', ''T'', ''true'', ''TRUE'', ''True''] then Some True
      else if s \<in> set [''0'', ''f'', ''F'', ''false'', ''FALSE'', ''False''] then Some False
      else None)"

definition parse_int :: "nat \<Rightarrow> string \<Rightarrow> int option" where
  "parse_int w s =
     (case parse_int64 s of
        Some i \<Rightarrow> if - (2 ^ (w - 1)) \<le> i \<and> i < 2 ^ (w - 1) then Some i else None
      | None \<Rightarrow> None)"

text \<open>\<open>coerce\<close>. A driver type parses back (\<open>Some (Some v)\<close>), fails to (\<open>Some None\<close>, the times and
  uuids) or has no way back and keeps the text (\<open>None\<close>).\<close>

definition coerce :: "transform_lib \<Rightarrow> mask_value \<Rightarrow> go_value \<Rightarrow> go_value option" where
  "coerce lib out original =
     (if mv_null out then Some GoNil
      else case original of
             GoNil \<Rightarrow> Some (GoString (mv_text out))
           | GoString s \<Rightarrow> Some (GoString (mv_text out))
           | GoBytes b \<Rightarrow>
               Some (GoBytes (if mv_bytes out \<noteq> [] then mv_bytes out else bytes_of_string (mv_text out)))
           | GoBool b \<Rightarrow> map_option GoBool (parse_bool (mv_text out))
           | GoInt w i \<Rightarrow> map_option (GoInt w) (parse_int w (mv_text out))
           | GoFloat x \<Rightarrow> map_option GoFloat (tl_parse_float lib (mv_text out))
           | GoNumber n \<Rightarrow> Some (GoString (mv_text out))
           | GoSlice vs \<Rightarrow> Some (GoString (mv_text out))
           | GoMap ms \<Rightarrow> Some (GoString (mv_text out))
           | GoOther k \<Rightarrow>
               (case tl_scan lib (mv_text out) k of
                  None \<Rightarrow> Some (GoString (mv_text out))
                | Some r \<Rightarrow> r))"

subsection \<open>The plan of a column and the errors\<close>

record col_plan =
  cp_col :: column_ref
  cp_mask :: bool
  cp_cat :: string
  cp_id :: string
  cp_constraints :: constraints
  cp_array :: bool
  cp_family :: string
  cp_document :: bool
  cp_emits :: bool
  cp_leaves :: leaf_policy

datatype transform_error =
    MaskerRefused column_ref apply_error
  | NotCoerced column_ref
  | BadLiteral column_ref
  | RowWidth nat nat
  | KeysCollide column_ref string
  | UnknownTable table_ref
  | UnknownColumn table_ref string
  | NoMasker column_ref

text \<open>An error keeps the column it names, not the masker and the wording; \<open>KeysCollide\<close> keeps the path.\<close>

text \<open>A step over the filter, as the code threads it through: the result and the filter, or the error
  that ends the batch.\<close>

type_synonym 'a masking = "bloom \<Rightarrow> transform_error + ('a \<times> bloom)"

definition masking_return :: "'a \<Rightarrow> 'a masking" where
  "masking_return x s = Inr (x, s)"

definition masking_bind :: "'a masking \<Rightarrow> ('a \<Rightarrow> 'b masking) \<Rightarrow> 'b masking" where
  "masking_bind m f s = (case m s of Inl e \<Rightarrow> Inl e | Inr (x, s') \<Rightarrow> f x s')"

fun masking_list :: "('a \<Rightarrow> 'b masking) \<Rightarrow> 'a list \<Rightarrow> 'b list masking" where
  "masking_list f [] = masking_return []"
| "masking_list f (x # xs) =
     masking_bind (f x) (\<lambda>y. masking_bind (masking_list f xs) (\<lambda>ys. masking_return (y # ys)))"

lemma masking_list_cong [fundef_cong]:
  "xs = ys \<Longrightarrow> (\<And>x. x \<in> set ys \<Longrightarrow> f x = g x) \<Longrightarrow> masking_list f xs = masking_list g ys"
proof (induction xs arbitrary: ys)
  case (Cons x xs)
  then show ?case by (cases ys) auto
qed auto

subsection \<open>Cells\<close>

definition column_entry :: "col_plan \<Rightarrow> bytes \<Rightarrow> residual_entry" where
  "column_entry p canonical = \<lparr>re_column = cp_col p, re_path = [], re_canonical = canonical\<rparr>"

definition note_emitted :: "transform_lib \<Rightarrow> col_plan \<Rightarrow> mask_value \<Rightarrow> bloom \<Rightarrow> bloom" where
  "note_emitted lib p out res =
     (if mv_null out \<or> value_empty out then res
      else case al_canonical (tl_apply lib) (cp_cat p) out no_constraints of
             None \<Rightarrow> res
           | Some (canon, tag) \<Rightarrow>
               (let b = value_bytes canon in
                if b = [] then res else add_emitted (tl_hmac lib) (column_entry p b) res))"

definition note_masked :: "transform_lib \<Rightarrow> col_plan \<Rightarrow> mask_result \<Rightarrow> bloom \<Rightarrow> bloom" where
  "note_masked lib p r res =
     (if mr_masked r then
        (let res1 = add_entry (tl_hmac lib) (column_entry p (mr_canonical r)) res in
         if cp_emits p then note_emitted lib p (mr_out r) res1 else res1)
      else res)"

definition mask_scalar :: "transform_lib \<Rightarrow> bytes \<Rightarrow> col_plan \<Rightarrow> go_value \<Rightarrow> go_value masking" where
  "mask_scalar lib key p v res =
     (case apply_mask (tl_apply lib) key (cp_cat p) (cp_id p) (value_of lib v) (cp_constraints p) of
        Inl e \<Rightarrow> Inl (MaskerRefused (cp_col p) e)
      | Inr r \<Rightarrow>
          (case coerce lib (mr_out r) v of
             None \<Rightarrow> Inl (NotCoerced (cp_col p))
           | Some out \<Rightarrow> Inr (out, note_masked lib p r res)))"

definition mask_element :: "transform_lib \<Rightarrow> bytes \<Rightarrow> col_plan \<Rightarrow> go_value \<Rightarrow> go_value masking" where
  "mask_element lib key p e = (if e = GoNil then masking_return GoNil else mask_scalar lib key p e)"

definition mask_array :: "transform_lib \<Rightarrow> bytes \<Rightarrow> col_plan \<Rightarrow> go_value list \<Rightarrow> go_value masking" where
  "mask_array lib key p elems =
     masking_bind (masking_list (mask_element lib key p) elems) (\<lambda>out. masking_return (GoSlice out))"

fun mask_array_node :: "transform_lib \<Rightarrow> bytes \<Rightarrow> col_plan \<Rightarrow> array_node \<Rightarrow> array_node masking" where
  "mask_array_node lib key p (Nested ns) =
     masking_bind (masking_list (mask_array_node lib key p) ns) (\<lambda>ms. masking_return (Nested ms))"
| "mask_array_node lib key p NullElem = masking_return NullElem"
| "mask_array_node lib key p (Elem t) =
     masking_bind (mask_scalar lib key p (GoString t)) (\<lambda>out.
       masking_return (if out = GoNil then NullElem else Elem (go_text lib out)))"

definition mask_array_literal :: "transform_lib \<Rightarrow> bytes \<Rightarrow> col_plan \<Rightarrow> string \<Rightarrow> string masking" where
  "mask_array_literal lib key p s =
     (case parse_array_literal s of
        None \<Rightarrow> (\<lambda>res. Inl (BadLiteral (cp_col p)))
      | Some (prefix, root) \<Rightarrow>
          masking_bind (mask_array_node lib key p root) (\<lambda>root'.
            masking_return (render_array_literal prefix root')))"

subsection \<open>The filter only grows\<close>

definition log_grows :: "transform_lib \<Rightarrow> bloom \<Rightarrow> bloom \<Rightarrow> bool" where
  "log_grows lib a b \<longleftrightarrow>
     bloom_ok a \<longrightarrow> bloom_ok b \<and> (\<forall>e. may_contain (tl_hmac lib) a e \<longrightarrow> may_contain (tl_hmac lib) b e)"

lemma log_grows_refl: "log_grows lib a a"
  by (simp add: log_grows_def)

lemma log_grows_trans: "log_grows lib a b \<Longrightarrow> log_grows lib b c \<Longrightarrow> log_grows lib a c"
  by (auto simp: log_grows_def)

lemma grows_add: "log_grows lib a (add_entry (tl_hmac lib) e a)"
  using bloom.ok_insert bloom.kept by (auto simp: log_grows_def)

lemma grows_emitted: "log_grows lib a (note_emitted lib p out a)"
  using bloom.ok_record bloom.kept_record
  by (auto simp: note_emitted_def Let_def log_grows_def split: option.splits)

lemma grows_masked: "log_grows lib a (note_masked lib p r a)"
  using log_grows_trans [OF grows_add grows_emitted] grows_add
  by (auto simp: note_masked_def Let_def log_grows_refl)

text \<open>What a step establishes of its result and of the filter it leaves, kept as the filter grows.\<close>

definition establishes :: "transform_lib \<Rightarrow> 'a masking \<Rightarrow> ('a \<Rightarrow> bloom \<Rightarrow> bool) \<Rightarrow> bool" where
  "establishes lib m P \<longleftrightarrow>
     (\<forall>s x s'. m s = Inr (x, s') \<longrightarrow> log_grows lib s s' \<and> (bloom_ok s \<longrightarrow> P x s'))"

definition lasting :: "transform_lib \<Rightarrow> (bloom \<Rightarrow> bool) \<Rightarrow> bool" where
  "lasting lib P \<longleftrightarrow> (\<forall>a b. bloom_ok a \<longrightarrow> log_grows lib a b \<longrightarrow> P a \<longrightarrow> P b)"

lemma establishes_return: "(\<And>s. P x s) \<Longrightarrow> establishes lib (masking_return x) P"
  by (simp add: establishes_def masking_return_def log_grows_refl)

lemma establishes_fail: "establishes lib (\<lambda>s. Inl e) P"
  by (simp add: establishes_def)

lemma establishes_weaken:
  "establishes lib m P \<Longrightarrow> (\<And>x s. P x s \<Longrightarrow> Q x s) \<Longrightarrow> establishes lib m Q"
  by (auto simp: establishes_def)

lemma establishes_map:
  assumes "establishes lib m P" and "\<And>x s. P x s \<Longrightarrow> Q (f x) s"
  shows "establishes lib (masking_bind m (\<lambda>x. masking_return (f x))) Q"
  using assms
  by (fastforce simp: establishes_def masking_bind_def masking_return_def split: sum.splits prod.splits)

lemma establishes_bind:
  assumes m: "establishes lib m P" and f: "\<And>x. establishes lib (f x) (Q x)" and keep: "\<And>x. lasting lib (P x)"
  shows "establishes lib (masking_bind m f) (\<lambda>y s. \<exists>x. P x s \<and> Q x y s)"
  unfolding establishes_def
proof (intro allI impI)
  fix s y s2 assume "masking_bind m f s = Inr (y, s2)"
  then obtain x s1 where run: "m s = Inr (x, s1)" "f x s1 = Inr (y, s2)"
    by (auto simp: masking_bind_def split: sum.splits)
  have 1: "log_grows lib s s1" "bloom_ok s \<longrightarrow> P x s1" using m run(1) by (auto simp: establishes_def)
  have 2: "log_grows lib s1 s2" "bloom_ok s1 \<longrightarrow> Q x y s2" using f run(2) by (auto simp: establishes_def)
  have "bloom_ok s \<longrightarrow> bloom_ok s1" using 1(1) by (simp add: log_grows_def)
  moreover have "bloom_ok s1 \<longrightarrow> P x s1 \<longrightarrow> P x s2" using keep 2(1) unfolding lasting_def by blast
  ultimately show "log_grows lib s s2 \<and> (bloom_ok s \<longrightarrow> (\<exists>x. P x s2 \<and> Q x y s2))"
    using log_grows_trans [OF 1(1) 2(1)] 1(2) 2(2) by blast
qed

lemma establishes_list:
  assumes f: "\<And>x. x \<in> set xs \<Longrightarrow> establishes lib (f x) (P x)"
    and lasting: "\<And>x y. lasting lib (P x y)"
  shows "establishes lib (masking_list f xs) (\<lambda>ys s. list_all2 (\<lambda>x y. P x y s) xs ys)"
  using f
proof (induction xs)
  case Nil
  then show ?case by (auto intro: establishes_return)
next
  case (Cons x xs)
  have tail: "establishes lib (masking_list f xs) (\<lambda>ys s. list_all2 (\<lambda>x y. P x y s) xs ys)"
    using Cons by simp
  have head: "establishes lib (f x) (P x)" using Cons.prems by simp
  show ?case
    unfolding establishes_def
  proof (intro allI impI)
    fix s zs s2 assume run: "masking_list f (x # xs) s = Inr (zs, s2)"
    then obtain y s1 ys where y: "f x s = Inr (y, s1)" "masking_list f xs s1 = Inr (ys, s2)" "zs = y # ys"
      by (auto simp: masking_bind_def masking_return_def split: sum.splits prod.splits)
    have 1: "log_grows lib s s1" "bloom_ok s \<longrightarrow> P x y s1" using head y(1) by (auto simp: establishes_def)
    have 2: "log_grows lib s1 s2" "bloom_ok s1 \<longrightarrow> list_all2 (\<lambda>x y. P x y s2) xs ys"
      using tail y(2) by (auto simp: establishes_def)
    have "P x y s2" if "bloom_ok s"
    proof -
      have "bloom_ok s1" using 1(1) that by (simp add: log_grows_def)
      then show ?thesis using lasting [of x y] 1(2) 2(1) that unfolding lasting_def by blast
    qed
    moreover have "bloom_ok s \<longrightarrow> bloom_ok s1" using 1(1) by (simp add: log_grows_def)
    ultimately show "log_grows lib s s2 \<and> (bloom_ok s \<longrightarrow> list_all2 (\<lambda>x y. P x y s2) (x # xs) zs)"
      using log_grows_trans [OF 1(1) 2(1)] 2(2) y(3) by auto
  qed
qed

end
