(* ===== verification/Transform_Document.thy ===== *)
theory Transform_Document
  imports Transform_Cell
begin

unbundle bit_operations_syntax

text \<open>
  \<open>internal/transform/json.go\<close>: a document column's cell. A document is decoded, its leaves are walked
  in the order of the sorted member names and replaced or copied as \<open>Leaf_Rule\<close> says, each replaced
  leaf is recorded under its path in the target, and the result is written back; a document of a
  log-shaped table, an hstore and a text that does not decode are replaced whole.
\<close>

subsection \<open>Recording a leaf\<close>

definition masking_fail :: "transform_error \<Rightarrow> 'a masking" where
  "masking_fail e s = Inl e"

definition masking_add :: "transform_lib \<Rightarrow> residual_entry \<Rightarrow> unit masking" where
  "masking_add lib e s = Inr ((), add_entry (tl_hmac lib) e s)"

definition leaf_entry :: "column_ref \<Rightarrow> string \<Rightarrow> bytes \<Rightarrow> residual_entry" where
  "leaf_entry col path canonical = \<lparr>re_column = col, re_path = path, re_canonical = canonical\<rparr>"

definition add_leaf :: "transform_lib \<Rightarrow> column_ref \<Rightarrow> string \<Rightarrow> string \<Rightarrow> unit masking" where
  "add_leaf lib col path t =
     (if t = [] then masking_return ()
      else case al_canonical (tl_apply lib) (category_name leaf_category) (text_value t) leaf_constraints of
             None \<Rightarrow> masking_fail (MaskerRefused col CanonicalFailed)
           | Some (canon, tag) \<Rightarrow>
               if mv_text canon = [] then masking_return ()
               else masking_add lib (leaf_entry col path (bytes_of_string (mv_text canon))))"

subsection \<open>Leaves and keys\<close>

definition pick_and_apply ::
  "transform_lib \<Rightarrow> bytes \<Rightarrow> category \<Rightarrow> string \<Rightarrow> apply_error + mask_result" where
  "pick_and_apply lib key cat t =
     (case pick_masker (category_name cat) leaf_constraints of
        Inl e \<Rightarrow> Inl (MaskError e)
      | Inr mid \<Rightarrow>
          apply_mask (tl_apply lib) key (category_name cat) mid (text_value t) leaf_constraints)"

text \<open>\<open>maskKey\<close>: the name to write and, where it was masked, its canonical form.\<close>

definition mask_key ::
  "transform_lib \<Rightarrow> bytes \<Rightarrow> column_ref \<Rightarrow> string \<Rightarrow> string \<Rightarrow> (string \<times> bytes option) masking" where
  "mask_key lib key col region name =
     (case key_category (tl_signs lib) name region of
        None \<Rightarrow> masking_return (name, None)
      | Some cat \<Rightarrow>
          (case pick_and_apply lib key cat name of
             Inl e \<Rightarrow> masking_fail (MaskerRefused col e)
           | Inr r \<Rightarrow>
               masking_return (mv_text (mr_out r),
                 if mr_masked r \<and> mr_canonical r \<noteq> [] then Some (mr_canonical r) else None)))"

definition record_leaf ::
  "transform_lib \<Rightarrow> column_ref \<Rightarrow> string \<Rightarrow> mask_result \<Rightarrow> string \<Rightarrow> go_value masking" where
  "record_leaf lib col path r t =
     masking_bind (if mr_masked r then add_leaf lib col path t else masking_return ())
       (\<lambda>u. masking_return (GoString (mv_text (mr_out r))))"

definition mask_leaf_text :: "transform_lib \<Rightarrow> bytes \<Rightarrow> column_ref \<Rightarrow> string \<Rightarrow> string \<Rightarrow> go_value masking" where
  "mask_leaf_text lib key col path t =
     (case pick_and_apply lib key leaf_category t of
        Inl e \<Rightarrow> masking_fail (MaskerRefused col e)
      | Inr r \<Rightarrow> record_leaf lib col path r t)"

definition mask_leaf_string ::
  "transform_lib \<Rightarrow> bytes \<Rightarrow> column_ref \<Rightarrow> string \<Rightarrow> category \<Rightarrow> string \<Rightarrow> go_value masking" where
  "mask_leaf_string lib key col path cat t =
     (if cat \<noteq> leaf_category then
        (case pick_and_apply lib key cat t of
           Inl e \<Rightarrow> mask_leaf_text lib key col path t
         | Inr r \<Rightarrow>
             if mv_null (mr_out r) then mask_leaf_text lib key col path t
             else record_leaf lib col path r t)
      else mask_leaf_text lib key col path t)"

definition leaf_digest :: "transform_lib \<Rightarrow> bytes \<Rightarrow> string \<Rightarrow> string \<Rightarrow> string \<Rightarrow> bytes option" where
  "leaf_digest lib key tag path t =
     cell_digest (al_keys (tl_apply lib)) key (category_name CatSemiStruct) tag
       (encode_fields [bytes_of_string path, bytes_of_string t])"

definition pad2 :: "64 word \<Rightarrow> string" where
  "pad2 n = (if n < 10 then ''0'' @ itoa (uint n) else itoa (uint n))"

definition redrawn_number :: "bytes \<Rightarrow> string \<Rightarrow> string" where
  "redrawn_number h t =
     (let u = get_uint64 (take 8 h) in
      if json_fraction t then itoa (uint (u mod 1000)) @ ''.'' @ pad2 (drop_bit 20 u mod 100)
      else itoa (uint (u mod 1000000)))"

definition mask_leaf_number ::
  "transform_lib \<Rightarrow> bytes \<Rightarrow> column_ref \<Rightarrow> string \<Rightarrow> (string \<Rightarrow> go_value) \<Rightarrow> string \<Rightarrow> go_value masking" where
  "mask_leaf_number lib key col path rebuild t =
     (case leaf_digest lib key ''number'' path t of
        None \<Rightarrow> masking_fail (MaskerRefused col KeyFailed)
      | Some h \<Rightarrow>
          masking_bind (add_leaf lib col path t) (\<lambda>u. masking_return (rebuild (redrawn_number h t))))"

definition redrawn_bool :: "bytes \<Rightarrow> bool" where
  "redrawn_bool h \<longleftrightarrow> (case h of [] \<Rightarrow> False | b # bs \<Rightarrow> b AND 1 = 1)"

definition mask_leaf_bool :: "transform_lib \<Rightarrow> bytes \<Rightarrow> column_ref \<Rightarrow> string \<Rightarrow> bool \<Rightarrow> go_value masking" where
  "mask_leaf_bool lib key col path b =
     (case leaf_digest lib key ''bool'' path (if b then ''true'' else ''false'') of
        None \<Rightarrow> masking_fail (MaskerRefused col KeyFailed)
      | Some h \<Rightarrow> masking_return (GoBool (redrawn_bool h)))"

definition rebuilt_float :: "transform_lib \<Rightarrow> string \<Rightarrow> go_value" where
  "rebuilt_float lib t =
     GoFloat (case tl_parse_float lib t of Some x \<Rightarrow> x | None \<Rightarrow> tl_float_zero lib)"

subsection \<open>The walk\<close>

fun masking_fold :: "('a \<Rightarrow> 'b \<Rightarrow> 'b masking) \<Rightarrow> 'a list \<Rightarrow> 'b \<Rightarrow> 'b masking" where
  "masking_fold f [] out = masking_return out"
| "masking_fold f (x # xs) out = masking_bind (f x out) (masking_fold f xs)"

lemma masking_fold_cong [fundef_cong]:
  "xs = ys \<Longrightarrow> out = out' \<Longrightarrow> (\<And>x o1. x \<in> set ys \<Longrightarrow> f x o1 = g x o1) \<Longrightarrow>
     masking_fold f xs out = masking_fold g ys out'"
proof (induction xs arbitrary: ys out out')
  case (Cons x xs)
  then have "masking_fold f xs = masking_fold g xs" by (intro ext) auto
  then show ?case using Cons.prems by auto
qed auto

definition index_path :: "string \<Rightarrow> nat \<Rightarrow> string" where
  "index_path path i = path @ ''['' @ itoa (int i) @ '']''"

definition member_path :: "string \<Rightarrow> string \<Rightarrow> string" where
  "member_path path name = path @ ''.'' @ name"

lemma size_member:
  "kv \<in> set (sort_key fst ms) \<Longrightarrow> size (snd kv) < Suc (size_list (size_prod (\<lambda>x. 0) size) ms)"
proof -
  assume "kv \<in> set (sort_key fst ms)"
  then have "kv \<in> set ms" by simp
  then have "size_prod (\<lambda>x. 0) size kv \<le> size_list (size_prod (\<lambda>x. 0) size) ms"
    by (rule size_list_estimation') simp
  then show ?thesis by (cases kv) simp
qed

lemma size_item: "ix \<in> set (enumerate 0 xs) \<Longrightarrow> size (snd ix) < Suc (size_list size xs)"
proof -
  assume "ix \<in> set (enumerate 0 xs)"
  then have "snd ix \<in> snd ` set (enumerate 0 xs)" by (rule imageI)
  then have "snd ix \<in> set xs" by (simp only: map_snd_enumerate flip: set_map)
  then have "size (snd ix) \<le> size_list size xs" by (rule size_list_estimation') simp
  then show ?thesis by simp
qed

function walk_document ::
  "transform_lib \<Rightarrow> bytes \<Rightarrow> column_ref \<Rightarrow> leaf_policy \<Rightarrow> string \<Rightarrow> string list \<Rightarrow> go_value \<Rightarrow> go_value masking" where
  "walk_document lib key col lp path chain (GoMap ms) =
     masking_bind
       (masking_fold (\<lambda>kv out.
          masking_bind (mask_key lib key col (lp_region lp) (fst kv)) (\<lambda>mk.
            if fst mk \<in> set (map fst out) then masking_fail (KeysCollide col path)
            else
              masking_bind
                (case snd mk of
                   None \<Rightarrow> masking_return ()
                 | Some c \<Rightarrow> masking_add lib (leaf_entry col (member_path path (fst mk)) c)) (\<lambda>u.
              masking_bind
                (walk_document lib key col lp (member_path path (fst mk)) (chain @ [fst kv]) (snd kv))
                (\<lambda>child. masking_return (out @ [(fst mk, child)])))))
          (sort_key fst ms) [])
       (\<lambda>out. masking_return (GoMap out))"
| "walk_document lib key col lp path chain (GoSlice xs) =
     masking_bind
       (masking_list (\<lambda>ix. walk_document lib key col lp (index_path path (fst ix)) chain (snd ix))
          (enumerate 0 xs))
       (\<lambda>out. masking_return (GoSlice out))"
| "walk_document lib key col lp path chain GoNil = masking_return GoNil"
| "walk_document lib key col lp path chain (GoString t) =
     (case leaf_rule (tl_signs lib) lp chain t True of
        LeafCopied \<Rightarrow> masking_return (GoString t)
      | LeafMasked cat \<Rightarrow> mask_leaf_string lib key col path cat t)"
| "walk_document lib key col lp path chain (GoBool b) =
     (case leaf_rule (tl_signs lib) lp chain [] False of
        LeafCopied \<Rightarrow> masking_return (GoBool b)
      | LeafMasked cat \<Rightarrow> mask_leaf_bool lib key col path b)"
| "walk_document lib key col lp path chain (GoNumber n) =
     (case leaf_rule (tl_signs lib) lp chain n True of
        LeafCopied \<Rightarrow> masking_return (GoNumber n)
      | LeafMasked cat \<Rightarrow> mask_leaf_number lib key col path GoNumber n)"
| "walk_document lib key col lp path chain (GoFloat x) =
     (case leaf_rule (tl_signs lib) lp chain (tl_float_plain lib x) True of
        LeafCopied \<Rightarrow> masking_return (GoFloat x)
      | LeafMasked cat \<Rightarrow> mask_leaf_number lib key col path (rebuilt_float lib) (tl_float lib x))"
| "walk_document lib key col lp path chain (GoBytes b) = masking_return GoNil"
| "walk_document lib key col lp path chain (GoInt w i) = masking_return GoNil"
| "walk_document lib key col lp path chain (GoOther k) = masking_return GoNil"
  by pat_completeness auto

termination
  by (relation "measure (\<lambda>(lib, key, col, lp, path, chain, node). size node)")
    (auto simp del: set_sort simp: size_member size_item)

subsection \<open>A cell\<close>

definition decode_document :: "transform_lib \<Rightarrow> go_value \<Rightarrow> (go_value \<times> bool) option" where
  "decode_document lib v =
     (case v of
        GoString s \<Rightarrow> map_option (\<lambda>doc. (doc, True)) (tl_decode lib s)
      | _ \<Rightarrow> Some (v, False))"

definition trim_newlines :: "string \<Rightarrow> string" where
  "trim_newlines s = rev (dropWhile (\<lambda>c. c = CHR 0x0A) (rev s))"

definition encode_document :: "transform_lib \<Rightarrow> go_value \<Rightarrow> bool \<Rightarrow> go_value option" where
  "encode_document lib doc from_text =
     (if \<not> from_text then Some doc
      else map_option (\<lambda>s. GoString (trim_newlines s)) (tl_encode lib doc))"

definition collapsed_value :: "col_plan \<Rightarrow> go_value \<Rightarrow> go_value" where
  "collapsed_value p v =
     (if cp_family p = fam_hstore then GoString []
      else case v of GoString s \<Rightarrow> GoString empty_document | _ \<Rightarrow> GoMap [])"

definition collapsed_text :: "col_plan \<Rightarrow> string" where
  "collapsed_text p = (if cp_family p = fam_hstore then [] else empty_document)"

definition document_canonical :: "transform_lib \<Rightarrow> col_plan \<Rightarrow> mask_value \<Rightarrow> string option" where
  "document_canonical lib p v =
     map_option (mv_text \<circ> fst)
       (al_canonical (tl_apply lib) (category_name CatSemiStruct) v (cp_constraints p))"

definition collapse_document :: "transform_lib \<Rightarrow> col_plan \<Rightarrow> go_value \<Rightarrow> go_value masking" where
  "collapse_document lib p v =
     (case document_canonical lib p (value_of lib v) of
        None \<Rightarrow> masking_fail (MaskerRefused (cp_col p) CanonicalFailed)
      | Some canon \<Rightarrow>
          (case document_canonical lib p (text_value (collapsed_text p)) of
             None \<Rightarrow> masking_fail (MaskerRefused (cp_col p) CanonicalFailed)
           | Some out \<Rightarrow>
               masking_bind
                 (if canon \<noteq> [] \<and> canon \<noteq> out
                  then masking_add lib (leaf_entry (cp_col p) [] (bytes_of_string canon))
                  else masking_return ())
                 (\<lambda>u. masking_return (collapsed_value p v))))"

definition mask_document :: "transform_lib \<Rightarrow> bytes \<Rightarrow> col_plan \<Rightarrow> go_value \<Rightarrow> go_value masking" where
  "mask_document lib key p v =
     (if cp_family p = fam_hstore \<or> lp_log_shaped (cp_leaves p) then collapse_document lib p v
      else case decode_document lib v of
             None \<Rightarrow> collapse_document lib p v
           | Some (doc, from_text) \<Rightarrow>
               masking_bind (walk_document lib key (cp_col p) (cp_leaves p) ''$'' [] doc) (\<lambda>walked.
                 case encode_document lib walked from_text of
                   None \<Rightarrow> collapse_document lib p v
                 | Some out \<Rightarrow> masking_return out))"

end
