(* ===== verification/Transform_Batch.thy ===== *)
theory Transform_Batch
  imports Transform_Document
begin

text \<open>
  A batch of \<open>internal/transform/transform.go\<close>: what happens to each column is worked out once, from
  the schema and the decisions, and then every row is masked in place.
\<close>

subsection \<open>The plan of a batch\<close>

text \<open>\<open>mask.Emitting\<close> (\<open>mask/vocab.go\<close>).\<close>

definition emitting_masker :: "apply_lib \<Rightarrow> string \<Rightarrow> constraints \<Rightarrow> bool" where
  "emitting_masker lib mid c \<longleftrightarrow>
     \<not> has_prefix mid fixed_prefix \<and> labels c = []
     \<and> (case al_get lib mid of None \<Rightarrow> False | Some m \<Rightarrow> cm_vocabulary m)"

definition decided_constraints :: "document_decision \<Rightarrow> constraints \<Rightarrow> constraints" where
  "decided_constraints d c =
     (if dc_unique_index d then c\<lparr>co_unique := True\<rparr> else c)\<lparr>co_role := dc_role d\<rparr>"

definition copied_plan :: "column_ref \<Rightarrow> column_shape \<Rightarrow> col_plan" where
  "copied_plan col sh =
     \<lparr>cp_col = col, cp_mask = False, cp_cat = [], cp_id = [], cp_constraints = cs_constraints sh,
      cp_array = cs_array sh, cp_family = cs_family sh, cp_document = is_document (cs_family sh),
      cp_emits = False, cp_leaves = no_policy\<rparr>"

definition masked_plan ::
  "transform_lib \<Rightarrow> string \<Rightarrow> document_decision \<Rightarrow> col_plan \<Rightarrow> col_plan" where
  "masked_plan lib region d p =
     (let c = decided_constraints d (cp_constraints p) in
      p\<lparr>cp_mask := True, cp_cat := category_name (dc_category d), cp_id := dc_masker d,
        cp_constraints := c,
        cp_emits := \<not> cp_document p \<and> emitting_masker (tl_apply lib) (dc_masker d) c,
        cp_leaves := policy_of d region\<rparr>)"

definition plan_column ::
  "transform_lib \<Rightarrow> schema \<Rightarrow> (column_ref \<Rightarrow> document_decision option) \<Rightarrow> string \<Rightarrow> table \<Rightarrow> string
    \<Rightarrow> transform_error + col_plan" where
  "plan_column lib s cls region tbl name =
     (case find (\<lambda>c. col_name c = name) (tab_columns tbl) of
        None \<Rightarrow> Inl (UnknownColumn (tab_ref tbl) name)
      | Some c \<Rightarrow>
          (let col = ColumnRef (tab_ref tbl) name; p = copied_plan col (shape_of s tbl c) in
           case cls col of
             None \<Rightarrow> Inr p
           | Some d \<Rightarrow>
               if \<not> dc_masked d then Inr p
               else if dc_masker d = [] then Inl (NoMasker col)
               else Inr (masked_plan lib region d p)))"

fun plan_columns ::
  "transform_lib \<Rightarrow> schema \<Rightarrow> (column_ref \<Rightarrow> document_decision option) \<Rightarrow> string \<Rightarrow> table \<Rightarrow> string list
    \<Rightarrow> transform_error + col_plan list" where
  "plan_columns lib s cls region tbl [] = Inr []"
| "plan_columns lib s cls region tbl (name # names) =
     bind_res (plan_column lib s cls region tbl name) (\<lambda>p.
     bind_res (plan_columns lib s cls region tbl names) (\<lambda>ps. Inr (p # ps)))"

subsection \<open>Cells and rows\<close>

definition mask_batch_cell :: "transform_lib \<Rightarrow> bytes \<Rightarrow> col_plan \<Rightarrow> go_value \<Rightarrow> go_value masking" where
  "mask_batch_cell lib key p v =
     (if cp_document p then mask_document lib key p v
      else if cp_array p then
        (case v of
           GoSlice elems \<Rightarrow> mask_array lib key p elems
         | GoString s \<Rightarrow>
             masking_bind (mask_array_literal lib key p s) (\<lambda>out. masking_return (GoString out))
         | GoBytes b \<Rightarrow>
             masking_bind (mask_array_literal lib key p (string_of_bytes b)) (\<lambda>out.
               masking_return (GoBytes (bytes_of_string out)))
         | _ \<Rightarrow> mask_scalar lib key p v)
      else mask_scalar lib key p v)"

definition mask_row_cell ::
  "transform_lib \<Rightarrow> bytes \<Rightarrow> col_plan \<times> go_value \<Rightarrow> go_value masking" where
  "mask_row_cell lib key pv =
     (if \<not> cp_mask (fst pv) \<or> snd pv = GoNil then masking_return (snd pv)
      else mask_batch_cell lib key (fst pv) (snd pv))"

definition mask_row ::
  "transform_lib \<Rightarrow> bytes \<Rightarrow> col_plan list \<Rightarrow> go_value list \<Rightarrow> go_value list masking" where
  "mask_row lib key plans row =
     (if length row \<noteq> length plans then masking_fail (RowWidth (length row) (length plans))
      else masking_list (mask_row_cell lib key) (zip plans row))"

definition mask_rows ::
  "transform_lib \<Rightarrow> bytes \<Rightarrow> col_plan list \<Rightarrow> go_value list list \<Rightarrow> go_value list list masking" where
  "mask_rows lib key plans = masking_list (mask_row lib key plans)"

definition transformer_tables :: "schema \<Rightarrow> table_ref \<Rightarrow> table option" where
  "transformer_tables s = map_of (rev (map (\<lambda>t. (tab_ref t, t)) (sch_tables s)))"

text \<open>\<open>Transform\<close>, past the checks that it was handed a schema, decisions, a key and a filter.\<close>

definition transform_batch ::
  "transform_lib \<Rightarrow> bytes \<Rightarrow> schema \<Rightarrow> (column_ref \<Rightarrow> document_decision option) \<Rightarrow> string \<Rightarrow> table_ref
    \<Rightarrow> string list \<Rightarrow> go_value list list \<Rightarrow> go_value list list masking" where
  "transform_batch lib key s cls region t cols rows =
     (if rows = [] then masking_return []
      else case transformer_tables s t of
             None \<Rightarrow> masking_fail (UnknownTable t)
           | Some tbl \<Rightarrow>
               (case plan_columns lib s cls region tbl cols of
                  Inl e \<Rightarrow> masking_fail e
                | Inr plans \<Rightarrow> mask_rows lib key plans rows))"

subsection \<open>What a plan says\<close>

text \<open>A column is masked exactly where its decision says so, under the decision's category and masker.\<close>

definition plan_follows ::
  "(column_ref \<Rightarrow> document_decision option) \<Rightarrow> string \<Rightarrow> table_ref \<Rightarrow> string \<Rightarrow> col_plan \<Rightarrow> bool" where
  "plan_follows cls region t name p \<longleftrightarrow>
     cp_col p = ColumnRef t name
     \<and> cp_document p = is_document (cp_family p)
     \<and> (case cls (ColumnRef t name) of
          Some d \<Rightarrow>
            if dc_masked d
            then cp_mask p \<and> dc_masker d \<noteq> [] \<and> cp_id p = dc_masker d
              \<and> cp_cat p = category_name (dc_category d) \<and> cp_leaves p = policy_of d region
            else \<not> cp_mask p
        | None \<Rightarrow> \<not> cp_mask p)"

lemma plan_column_follows:
  assumes "plan_column lib s cls region tbl name = Inr p"
  shows "plan_follows cls region (tab_ref tbl) name p"
  using assms
  by (auto simp: plan_column_def plan_follows_def masked_plan_def copied_plan_def Let_def
      split: option.splits if_splits)

lemma plan_columns_follow:
  "plan_columns lib s cls region tbl names = Inr ps \<Longrightarrow>
     list_all2 (plan_follows cls region (tab_ref tbl)) names ps"
proof (induction names arbitrary: ps)
  case (Cons name names)
  then obtain p qs where "plan_column lib s cls region tbl name = Inr p" "ps = p # qs"
    "plan_columns lib s cls region tbl names = Inr qs"
    by (auto simp: bind_res_def split: sum.splits)
  then show ?case using Cons.IH plan_column_follows by blast
qed simp

lemma transformer_tables_ref: "transformer_tables s t = Some tbl \<Longrightarrow> tab_ref tbl = t"
  by (auto simp: transformer_tables_def dest!: map_of_SomeD)

end
