(* ===== verification/Document_Masked.thy ===== *)
theory Document_Masked
  imports Transform_Batch
begin

text \<open>
  What a masked document is, member by member and leaf by leaf, and that the walk makes one: a leaf is
  copied only where the samples vouch for it, every other leaf is redrawn with its source recorded
  under the leaf's path in the target, and the shape stays.
\<close>

lemma lasting_ex: "(\<And>x. lasting lib (P x)) \<Longrightarrow> lasting lib (\<lambda>s. \<exists>x. P x s)"
  unfolding lasting_def by blast

lemma lasting_conj: "lasting lib P \<Longrightarrow> lasting lib (\<lambda>s. Q \<and> P s)"
  unfolding lasting_def by blast

lemma lasting_both: "lasting lib P \<Longrightarrow> lasting lib R \<Longrightarrow> lasting lib (\<lambda>s. P s \<and> R s)"
  unfolding lasting_def by blast

lemma lasting_fact: "lasting lib (\<lambda>s. Q)"
  by (simp add: lasting_def)

lemma lasting_entry: "lasting lib (\<lambda>s. may_contain (tl_hmac lib) s e)"
  by (auto simp: lasting_def log_grows_def)

lemma lasting_if: "(Q \<Longrightarrow> lasting lib P) \<Longrightarrow> lasting lib (\<lambda>s. Q \<longrightarrow> P s)"
  unfolding lasting_def by blast

lemma establishes_add: "establishes lib (masking_add lib e) (\<lambda>u s. may_contain (tl_hmac lib) s e)"
  using grows_add bloom.inserted by (auto simp: establishes_def masking_add_def)

lemma establishes_failed [simp]: "establishes lib (masking_fail e) P"
  by (simp add: establishes_def masking_fail_def)

subsection \<open>Leaves\<close>

definition leaf_recorded :: "transform_lib \<Rightarrow> bloom \<Rightarrow> column_ref \<Rightarrow> string \<Rightarrow> string \<Rightarrow> bool" where
  "leaf_recorded lib s col path t \<longleftrightarrow>
     t = []
     \<or> (\<exists>canon tag. al_canonical (tl_apply lib) ''free_text'' (text_value t) leaf_constraints = Some (canon, tag)
          \<and> (mv_text canon = []
             \<or> may_contain (tl_hmac lib) s (leaf_entry col path (bytes_of_string (mv_text canon)))))"

lemma leaf_recorded_lasting: "lasting lib (\<lambda>s. leaf_recorded lib s col path t)"
  by (auto simp: lasting_def leaf_recorded_def log_grows_def)

lemma establishes_leaf: "establishes lib (add_leaf lib col path t) (\<lambda>u s. leaf_recorded lib s col path t)"
proof -
  have e: "establishes lib (masking_add lib (leaf_entry col path (bytes_of_string (mv_text canon))))
      (\<lambda>u s. leaf_recorded lib s col path t)"
    if "al_canonical (tl_apply lib) ''free_text'' (text_value t) leaf_constraints = Some (canon, tag)" for canon tag
    by (rule establishes_weaken [OF establishes_add]) (use that in \<open>auto simp: leaf_recorded_def\<close>)
  show ?thesis
    by (auto simp: add_leaf_def leaf_category_def leaf_recorded_def split: option.splits
        intro!: establishes_return establishes_weaken [OF e])
qed

definition text_leaf_masked ::
  "transform_lib \<Rightarrow> bytes \<Rightarrow> column_ref \<Rightarrow> bloom \<Rightarrow> string \<Rightarrow> category \<Rightarrow> string \<Rightarrow> go_value \<Rightarrow> bool" where
  "text_leaf_masked lib key col s path cat t v \<longleftrightarrow>
     (\<exists>cat' r. (cat' = cat \<or> cat' = CatFreeText) \<and> pick_and_apply lib key cat' t = Inr r
        \<and> v = GoString (mv_text (mr_out r)) \<and> (mr_masked r \<longrightarrow> leaf_recorded lib s col path t))"

lemma text_leaf_lasting: "lasting lib (\<lambda>s. text_leaf_masked lib key col s path cat t v)"
  unfolding text_leaf_masked_def
  by (intro lasting_ex lasting_conj lasting_if leaf_recorded_lasting)

lemma establishes_record_leaf:
  assumes "pick_and_apply lib key cat' t = Inr r" and "cat' = cat \<or> cat' = CatFreeText"
  shows "establishes lib (record_leaf lib col path r t) (\<lambda>v s. text_leaf_masked lib key col s path cat t v)"
proof -
  have m: "establishes lib (if mr_masked r then add_leaf lib col path t else masking_return ())
      (\<lambda>u s. mr_masked r \<longrightarrow> leaf_recorded lib s col path t)"
    using establishes_leaf [of lib col path t] by (auto intro: establishes_return)
  show ?thesis
    unfolding record_leaf_def
    by (rule establishes_map [OF m]) (use assms in \<open>auto simp: text_leaf_masked_def\<close>)
qed

lemma establishes_leaf_text:
  "establishes lib (mask_leaf_text lib key col path t) (\<lambda>v s. text_leaf_masked lib key col s path cat t v)"
  by (auto simp: mask_leaf_text_def leaf_category_def split: sum.splits intro: establishes_record_leaf)

lemma establishes_leaf_string:
  "establishes lib (mask_leaf_string lib key col path cat t) (\<lambda>v s. text_leaf_masked lib key col s path cat t v)"
  by (auto simp: mask_leaf_string_def establishes_leaf_text split: sum.splits intro: establishes_record_leaf)

definition number_leaf_masked ::
  "transform_lib \<Rightarrow> bytes \<Rightarrow> column_ref \<Rightarrow> bloom \<Rightarrow> string \<Rightarrow> (string \<Rightarrow> go_value) \<Rightarrow> string \<Rightarrow> go_value \<Rightarrow> bool" where
  "number_leaf_masked lib key col s path rebuild t v \<longleftrightarrow>
     (\<exists>h. leaf_digest lib key ''number'' path t = Some h \<and> v = rebuild (redrawn_number h t))
     \<and> leaf_recorded lib s col path t"

lemma number_leaf_lasting: "lasting lib (\<lambda>s. number_leaf_masked lib key col s path rebuild t v)"
  unfolding number_leaf_masked_def by (intro lasting_conj leaf_recorded_lasting)

lemma establishes_leaf_number:
  "establishes lib (mask_leaf_number lib key col path rebuild t)
     (\<lambda>v s. number_leaf_masked lib key col s path rebuild t v)"
proof (cases "leaf_digest lib key ''number'' path t")
  case (Some h)
  show ?thesis
    unfolding mask_leaf_number_def Some option.case
    by (rule establishes_map [OF establishes_leaf]) (simp add: number_leaf_masked_def Some)
qed (simp add: mask_leaf_number_def)

subsection \<open>Documents\<close>

text \<open>A member's name in the target: itself, or masked where it reads as personal, and then recorded
  under the path it has there.\<close>

definition name_masked ::
  "transform_lib \<Rightarrow> bytes \<Rightarrow> column_ref \<Rightarrow> leaf_policy \<Rightarrow> bloom \<Rightarrow> string \<Rightarrow> string \<Rightarrow> string \<Rightarrow> bool" where
  "name_masked lib key col lp s path name name' \<longleftrightarrow>
     (case key_category (tl_signs lib) name (lp_region lp) of
        None \<Rightarrow> name' = name
      | Some cat \<Rightarrow>
          \<exists>r. pick_and_apply lib key cat name = Inr r \<and> name' = mv_text (mr_out r)
            \<and> (mr_masked r \<and> mr_canonical r \<noteq> [] \<longrightarrow>
                 may_contain (tl_hmac lib) s (leaf_entry col (member_path path name') (mr_canonical r))))"

lemma name_lasting: "lasting lib (\<lambda>s. name_masked lib key col lp s path name name')"
  unfolding name_masked_def
  by (cases "key_category (tl_signs lib) name (lp_region lp)")
    (auto intro!: lasting_ex lasting_conj lasting_fact lasting_if lasting_entry)

inductive document_masked ::
  "transform_lib \<Rightarrow> bytes \<Rightarrow> column_ref \<Rightarrow> leaf_policy \<Rightarrow> bloom \<Rightarrow> string \<Rightarrow> string list \<Rightarrow> go_value \<Rightarrow> go_value \<Rightarrow> bool"
  for lib :: transform_lib and key :: bytes and col :: column_ref and lp :: leaf_policy and s :: bloom where
  null: "document_masked lib key col lp s path chain GoNil GoNil"
| bytes_dropped: "document_masked lib key col lp s path chain (GoBytes b) GoNil"
| int_dropped: "document_masked lib key col lp s path chain (GoInt w i) GoNil"
| other_dropped: "document_masked lib key col lp s path chain (GoOther k) GoNil"
| string_copied: "may_copy (tl_signs lib) lp chain (Some t) \<Longrightarrow>
    document_masked lib key col lp s path chain (GoString t) (GoString t)"
| string_masked: "leaf_rule (tl_signs lib) lp chain t True = LeafMasked cat \<Longrightarrow>
    text_leaf_masked lib key col s path cat t v \<Longrightarrow>
    document_masked lib key col lp s path chain (GoString t) v"
| bool_copied: "may_copy (tl_signs lib) lp chain None \<Longrightarrow>
    document_masked lib key col lp s path chain (GoBool b) (GoBool b)"
| bool_masked: "\<not> may_copy (tl_signs lib) lp chain None \<Longrightarrow>
    leaf_digest lib key ''bool'' path (if b then ''true'' else ''false'') = Some h \<Longrightarrow>
    document_masked lib key col lp s path chain (GoBool b) (GoBool (redrawn_bool h))"
| number_copied: "may_copy (tl_signs lib) lp chain (Some n) \<Longrightarrow>
    document_masked lib key col lp s path chain (GoNumber n) (GoNumber n)"
| number_masked: "\<not> may_copy (tl_signs lib) lp chain (Some n) \<Longrightarrow>
    number_leaf_masked lib key col s path GoNumber n v \<Longrightarrow>
    document_masked lib key col lp s path chain (GoNumber n) v"
| float_copied: "may_copy (tl_signs lib) lp chain (Some (tl_float_plain lib x)) \<Longrightarrow>
    document_masked lib key col lp s path chain (GoFloat x) (GoFloat x)"
| float_masked: "\<not> may_copy (tl_signs lib) lp chain (Some (tl_float_plain lib x)) \<Longrightarrow>
    number_leaf_masked lib key col s path (rebuilt_float lib) (tl_float lib x) v \<Longrightarrow>
    document_masked lib key col lp s path chain (GoFloat x) v"
| items: "list_all2 (\<lambda>ix y. document_masked lib key col lp s (index_path path (fst ix)) chain (snd ix) y)
      (enumerate 0 xs) ys \<Longrightarrow>
    document_masked lib key col lp s path chain (GoSlice xs) (GoSlice ys)"
| members: "list_all2 (\<lambda>kv mv. name_masked lib key col lp s path (fst kv) (fst mv)
        \<and> document_masked lib key col lp s (member_path path (fst mv)) (chain @ [fst kv]) (snd kv) (snd mv))
      (sort_key fst ms) out \<Longrightarrow>
    distinct (map fst out) \<Longrightarrow>
    document_masked lib key col lp s path chain (GoMap ms) (GoMap out)"
monos list_all2_mono

lemma document_lasting: "lasting lib (\<lambda>s. document_masked lib key col lp s path chain v v')"
  unfolding lasting_def
proof (intro allI impI)
  fix a b assume ab: "bloom_ok a" "log_grows lib a b"
    and d: "document_masked lib key col lp a path chain v v'"
  have keep: "P a \<Longrightarrow> P b" if "lasting lib P" for P
    using that ab unfolding lasting_def by blast
  show "document_masked lib key col lp b path chain v v'"
    using d
  proof (induction rule: document_masked.induct)
    case (string_masked path chain t cat v)
    then show ?case using keep [OF text_leaf_lasting] by (blast intro: document_masked.string_masked)
  next
    case (number_masked chain n path v)
    then show ?case using keep [OF number_leaf_lasting] by (blast intro: document_masked.number_masked)
  next
    case (float_masked chain x path v)
    then show ?case using keep [OF number_leaf_lasting] by (blast intro: document_masked.float_masked)
  next
    case (items path chain xs ys)
    then show ?case by (intro document_masked.items) (auto elim: list_all2_mono)
  next
    case (members path chain ms out)
    show ?case
    proof (rule document_masked.members)
      show "list_all2 (\<lambda>kv mv. name_masked lib key col lp b path (fst kv) (fst mv)
          \<and> document_masked lib key col lp b (member_path path (fst mv)) (chain @ [fst kv]) (snd kv) (snd mv))
        (sort_key fst ms) out"
        using members.IH by (rule list_all2_mono) (use keep [OF name_lasting] in blast)
    qed (rule members.hyps)
  qed (auto intro: document_masked.intros)
qed

text \<open>What \<open>maskKey\<close> hands on: with its record made, the name is masked.\<close>

definition key_handed ::
  "transform_lib \<Rightarrow> bytes \<Rightarrow> column_ref \<Rightarrow> leaf_policy \<Rightarrow> string \<Rightarrow> string \<Rightarrow> string \<times> bytes option \<Rightarrow> bool" where
  "key_handed lib key col lp path name mk \<longleftrightarrow>
     (\<forall>s. (\<forall>c. snd mk = Some c \<longrightarrow>
             may_contain (tl_hmac lib) s (leaf_entry col (member_path path (fst mk)) c)) \<longrightarrow>
       name_masked lib key col lp s path name (fst mk))"

lemma establishes_key:
  "establishes lib (mask_key lib key col (lp_region lp) name)
     (\<lambda>mk s. key_handed lib key col lp path name mk)"
  by (auto simp: mask_key_def name_masked_def key_handed_def split: option.splits sum.splits
      intro!: establishes_return)

lemma establishes_key_record:
  "establishes lib
     (case snd mk of None \<Rightarrow> masking_return ()
      | Some c \<Rightarrow> masking_add lib (leaf_entry col (member_path path (fst mk)) c))
     (\<lambda>u s. key_handed lib key col lp path name mk \<longrightarrow> name_masked lib key col lp s path name (fst mk))"
proof (cases "snd mk")
  case None
  then show ?thesis by (auto simp: key_handed_def intro: establishes_return)
next
  case (Some c)
  then show ?thesis
    by (auto simp: key_handed_def intro: establishes_weaken [OF establishes_add])
qed

lemma establishes_fold:
  assumes f: "\<And>x o1. x \<in> set xs \<Longrightarrow>
      establishes lib (f x o1) (\<lambda>o2 s. \<exists>y. o2 = o1 @ [y] \<and> fst y \<notin> set (map fst o1) \<and> P x y s)"
    and keep: "\<And>x y. lasting lib (P x y)"
  shows "establishes lib (masking_fold f xs o1)
      (\<lambda>o2 s. \<exists>ys. o2 = o1 @ ys \<and> list_all2 (\<lambda>x y. P x y s) xs ys
         \<and> (distinct (map fst o1) \<longrightarrow> distinct (map fst o2)))"
  using f
proof (induction xs arbitrary: o1)
  case Nil
  then show ?case by (auto intro: establishes_return)
next
  case (Cons x xs)
  have head: "establishes lib (f x o1) (\<lambda>o2 s. \<exists>y. o2 = o1 @ [y] \<and> fst y \<notin> set (map fst o1) \<and> P x y s)"
    using Cons.prems by simp
  have tail: "establishes lib (masking_fold f xs o2)
      (\<lambda>o3 s. \<exists>ys. o3 = o2 @ ys \<and> list_all2 (\<lambda>x y. P x y s) xs ys
         \<and> (distinct (map fst o2) \<longrightarrow> distinct (map fst o3)))" for o2
    using Cons by simp
  have "establishes lib (masking_fold f (x # xs) o1)
      (\<lambda>o3 s. \<exists>o2. (\<exists>y. o2 = o1 @ [y] \<and> fst y \<notin> set (map fst o1) \<and> P x y s)
         \<and> (\<exists>ys. o3 = o2 @ ys \<and> list_all2 (\<lambda>x y. P x y s) xs ys
              \<and> (distinct (map fst o2) \<longrightarrow> distinct (map fst o3))))"
    unfolding masking_fold.simps
    by (rule establishes_bind [OF head tail]) (intro lasting_ex lasting_conj keep)
  then show ?case by (rule establishes_weaken) force
qed

lemma walk_masks:
  "establishes lib (walk_document lib key col lp path chain v)
     (\<lambda>v' s. document_masked lib key col lp s path chain v v')"
proof (induction lib key col lp path chain v rule: walk_document.induct)
  case (1 lib key col lp path chain ms)
  let ?P = "\<lambda>kv mv s. name_masked lib key col lp s path (fst kv) (fst mv)
        \<and> document_masked lib key col lp s (member_path path (fst mv)) (chain @ [fst kv]) (snd kv) (snd mv)"
  have child: "establishes lib
      (walk_document lib key col lp (member_path path (fst mk)) (chain @ [fst kv]) (snd kv))
      (\<lambda>c s. document_masked lib key col lp s (member_path path (fst mk)) (chain @ [fst kv]) (snd kv) c)"
    if "kv \<in> set (sort_key fst ms)" for kv and mk :: "string \<times> bytes option"
    using 1 [of kv mk "[]"] that by simp
  have step: "establishes lib
      (masking_bind (mask_key lib key col (lp_region lp) (fst kv)) (\<lambda>mk.
         if fst mk \<in> set (map fst out) then masking_fail (KeysCollide col path)
         else masking_bind
           (case snd mk of
              None \<Rightarrow> masking_return ()
            | Some c \<Rightarrow> masking_add lib (leaf_entry col (member_path path (fst mk)) c)) (\<lambda>u.
         masking_bind
           (walk_document lib key col lp (member_path path (fst mk)) (chain @ [fst kv]) (snd kv))
           (\<lambda>child. masking_return (out @ [(fst mk, child)])))))
      (\<lambda>o2 s. \<exists>y. o2 = out @ [y] \<and> fst y \<notin> set (map fst out) \<and> ?P kv y s)"
    if kv: "kv \<in> set (sort_key fst ms)" for kv out
  proof -
    have inner: "establishes lib
        (if fst mk \<in> set (map fst out) then masking_fail (KeysCollide col path)
         else masking_bind
           (case snd mk of
              None \<Rightarrow> masking_return ()
            | Some c \<Rightarrow> masking_add lib (leaf_entry col (member_path path (fst mk)) c)) (\<lambda>u.
         masking_bind
           (walk_document lib key col lp (member_path path (fst mk)) (chain @ [fst kv]) (snd kv))
           (\<lambda>child. masking_return (out @ [(fst mk, child)]))))
        (\<lambda>o2 s. \<exists>u::unit. (key_handed lib key col lp path (fst kv) mk \<longrightarrow>
              name_masked lib key col lp s path (fst kv) (fst mk))
           \<and> (\<exists>c. o2 = out @ [(fst mk, c)] \<and> fst mk \<notin> set (map fst out)
                \<and> document_masked lib key col lp s (member_path path (fst mk)) (chain @ [fst kv]) (snd kv) c))"
      for mk
    proof (cases "fst mk \<in> set (map fst out)")
      case False
      have last: "establishes lib
          (masking_bind
            (walk_document lib key col lp (member_path path (fst mk)) (chain @ [fst kv]) (snd kv))
            (\<lambda>child. masking_return (out @ [(fst mk, child)])))
          (\<lambda>o2 s. \<exists>c. o2 = out @ [(fst mk, c)] \<and> fst mk \<notin> set (map fst out)
                \<and> document_masked lib key col lp s (member_path path (fst mk)) (chain @ [fst kv]) (snd kv) c)"
        by (rule establishes_map [OF child [OF kv]]) (use False in blast)
      show ?thesis
        unfolding if_not_P [OF False]
        by (rule establishes_bind [OF establishes_key_record last]) (intro lasting_if name_lasting)
    qed simp
    show ?thesis
      by (rule establishes_weaken [OF establishes_bind [OF establishes_key inner]])
        (auto simp: lasting_fact)
  qed
  have "establishes lib
      (masking_fold (\<lambda>kv out. masking_bind (mask_key lib key col (lp_region lp) (fst kv)) (\<lambda>mk.
         if fst mk \<in> set (map fst out) then masking_fail (KeysCollide col path)
         else masking_bind
           (case snd mk of
              None \<Rightarrow> masking_return ()
            | Some c \<Rightarrow> masking_add lib (leaf_entry col (member_path path (fst mk)) c)) (\<lambda>u.
         masking_bind
           (walk_document lib key col lp (member_path path (fst mk)) (chain @ [fst kv]) (snd kv))
           (\<lambda>child. masking_return (out @ [(fst mk, child)]))))) (sort_key fst ms) [])
      (\<lambda>o2 s. \<exists>ys. o2 = [] @ ys \<and> list_all2 (\<lambda>kv mv. ?P kv mv s) (sort_key fst ms) ys
         \<and> (distinct (map fst ([] :: (string \<times> go_value) list)) \<longrightarrow> distinct (map fst o2)))"
    by (rule establishes_fold [OF step]) (assumption | intro lasting_both name_lasting document_lasting)+
  then show ?case
    unfolding walk_document.simps
    by (rule establishes_map) (auto intro: document_masked.members)
next
  case (2 lib key col lp path chain xs)
  have "establishes lib
      (masking_list (\<lambda>ix. walk_document lib key col lp (index_path path (fst ix)) chain (snd ix))
         (enumerate 0 xs))
      (\<lambda>ys s. list_all2 (\<lambda>ix y. document_masked lib key col lp s (index_path path (fst ix)) chain (snd ix) y)
         (enumerate 0 xs) ys)"
    by (rule establishes_list) (use 2 document_lasting in blast)+
  then show ?case
    unfolding walk_document.simps by (rule establishes_map) (rule document_masked.items)
next
  case (4 lib key col lp path chain t)
  show ?case
  proof (cases "leaf_rule (tl_signs lib) lp chain t True")
    case LeafCopied
    then have "may_copy (tl_signs lib) lp chain (Some t)" by (simp add: leaf_rule_copies)
    then show ?thesis using LeafCopied by (auto intro!: establishes_return string_copied)
  next
    case (LeafMasked cat)
    then show ?thesis
      by (auto intro: establishes_weaken [OF establishes_leaf_string] string_masked)
  qed
next
  case (5 lib key col lp path chain b)
  have masked: "\<not> may_copy (tl_signs lib) lp chain None"
    if "leaf_rule (tl_signs lib) lp chain [] False = LeafMasked cat" for cat
    using leaf_rule_copies [of "tl_signs lib" lp chain "[]" False] that by simp
  show ?case
    by (auto simp: leaf_rule_copies mask_leaf_bool_def split: leaf_verdict.split option.splits
        intro!: establishes_return bool_copied bool_masked dest: masked)
next
  case (6 lib key col lp path chain n)
  show ?case
  proof (cases "leaf_rule (tl_signs lib) lp chain n True")
    case LeafCopied
    then have "may_copy (tl_signs lib) lp chain (Some n)" by (simp add: leaf_rule_copies)
    then show ?thesis using LeafCopied by (auto intro!: establishes_return number_copied)
  next
    case (LeafMasked cat)
    then have "\<not> may_copy (tl_signs lib) lp chain (Some n)"
      using leaf_rule_copies [of "tl_signs lib" lp chain n True] by simp
    then show ?thesis
      using LeafMasked by (auto intro: establishes_weaken [OF establishes_leaf_number] number_masked)
  qed
next
  case (7 lib key col lp path chain x)
  show ?case
  proof (cases "leaf_rule (tl_signs lib) lp chain (tl_float_plain lib x) True")
    case LeafCopied
    then have "may_copy (tl_signs lib) lp chain (Some (tl_float_plain lib x))" by (simp add: leaf_rule_copies)
    then show ?thesis using LeafCopied by (auto intro!: establishes_return float_copied)
  next
    case (LeafMasked cat)
    then have "\<not> may_copy (tl_signs lib) lp chain (Some (tl_float_plain lib x))"
      using leaf_rule_copies [of "tl_signs lib" lp chain "tl_float_plain lib x" True] by simp
    then show ?thesis
      using LeafMasked by (auto intro: establishes_weaken [OF establishes_leaf_number] float_masked)
  qed
qed (auto intro!: establishes_return document_masked.intros)

subsection \<open>Document cells\<close>

definition replaced_whole :: "transform_lib \<Rightarrow> col_plan \<Rightarrow> bloom \<Rightarrow> go_value \<Rightarrow> go_value \<Rightarrow> bool" where
  "replaced_whole lib p s v v' \<longleftrightarrow>
     v' = collapsed_value p v
     \<and> (\<exists>canon out. document_canonical lib p (value_of lib v) = Some canon
          \<and> document_canonical lib p (text_value (collapsed_text p)) = Some out
          \<and> (canon = [] \<or> canon = out
             \<or> may_contain (tl_hmac lib) s (leaf_entry (cp_col p) [] (bytes_of_string canon))))"

lemma replaced_lasting: "lasting lib (\<lambda>s. replaced_whole lib p s v v')"
  by (auto simp: lasting_def replaced_whole_def log_grows_def)

lemma establishes_collapse:
  "establishes lib (collapse_document lib p v) (\<lambda>v' s. replaced_whole lib p s v v')"
proof -
  have "establishes lib
      (masking_bind
        (if canon \<noteq> [] \<and> canon \<noteq> out
         then masking_add lib (leaf_entry (cp_col p) [] (bytes_of_string canon)) else masking_return ())
        (\<lambda>u. masking_return (collapsed_value p v)))
      (\<lambda>v' s. replaced_whole lib p s v v')"
    if "document_canonical lib p (value_of lib v) = Some canon"
      "document_canonical lib p (text_value (collapsed_text p)) = Some out" for canon out
  proof -
    have "establishes lib
        (if canon \<noteq> [] \<and> canon \<noteq> out
         then masking_add lib (leaf_entry (cp_col p) [] (bytes_of_string canon)) else masking_return ())
        (\<lambda>u s. canon = [] \<or> canon = out
           \<or> may_contain (tl_hmac lib) s (leaf_entry (cp_col p) [] (bytes_of_string canon)))"
      by (auto intro: establishes_return establishes_weaken [OF establishes_add])
    then show ?thesis
      by (rule establishes_map) (use that in \<open>auto simp: replaced_whole_def\<close>)
  qed
  then show ?thesis by (auto simp: collapse_document_def split: option.splits)
qed

text \<open>A document is walked, unless it is an hstore, its table is log-shaped, or its text does not decode
  or the masked one does not encode; then it is replaced whole.\<close>

definition document_cell_masked ::
  "transform_lib \<Rightarrow> bytes \<Rightarrow> col_plan \<Rightarrow> bloom \<Rightarrow> go_value \<Rightarrow> go_value \<Rightarrow> bool" where
  "document_cell_masked lib key p s v v' \<longleftrightarrow>
     (if cp_family p = fam_hstore \<or> lp_log_shaped (cp_leaves p) then replaced_whole lib p s v v'
      else case decode_document lib v of
             None \<Rightarrow> replaced_whole lib p s v v'
           | Some (doc, from_text) \<Rightarrow>
               \<exists>doc'. document_masked lib key (cp_col p) (cp_leaves p) s ''$'' [] doc doc'
                 \<and> (case encode_document lib doc' from_text of
                      None \<Rightarrow> replaced_whole lib p s v v'
                    | Some out \<Rightarrow> v' = out))"

lemma document_cell_lasting: "lasting lib (\<lambda>s. document_cell_masked lib key p s v v')"
proof -
  have wrap: "lasting lib (\<lambda>s. case e of None \<Rightarrow> replaced_whole lib p s v v' | Some out \<Rightarrow> v' = out)" for e
    by (cases e) (auto simp: replaced_lasting lasting_fact)
  show ?thesis
  proof (cases "cp_family p = fam_hstore \<or> lp_log_shaped (cp_leaves p) \<or> decode_document lib v = None")
    case True
    then have "(\<lambda>s. document_cell_masked lib key p s v v') = (\<lambda>s. replaced_whole lib p s v v')"
      by (auto simp: document_cell_masked_def)
    then show ?thesis by (simp add: replaced_lasting)
  next
    case False
    then obtain doc from_text where "decode_document lib v = Some (doc, from_text)" by force
    then show ?thesis
      using False
      by (simp add: document_cell_masked_def)
        (intro lasting_ex lasting_both document_lasting wrap)
  qed
qed

lemma establishes_document:
  "establishes lib (mask_document lib key p v) (\<lambda>v' s. document_cell_masked lib key p s v v')"
proof (cases "cp_family p = fam_hstore \<or> lp_log_shaped (cp_leaves p)")
  case True
  then show ?thesis
    using establishes_collapse [of lib p v] by (simp add: mask_document_def document_cell_masked_def)
next
  case False
  show ?thesis
  proof (cases "decode_document lib v")
    case None
    then show ?thesis
      using establishes_collapse [of lib p v] False
      by (simp add: mask_document_def document_cell_masked_def)
  next
    case (Some dt)
    obtain doc from_text where dt: "dt = (doc, from_text)" by fastforce
    let ?Q = "\<lambda>doc' v' s. case encode_document lib doc' from_text of
                      None \<Rightarrow> replaced_whole lib p s v v' | Some out \<Rightarrow> v' = out"
    have wrap: "establishes lib
        (case encode_document lib doc' from_text of
           None \<Rightarrow> collapse_document lib p v | Some out \<Rightarrow> masking_return out) (?Q doc')" for doc'
      by (cases "encode_document lib doc' from_text")
        (auto simp: establishes_collapse intro: establishes_return)
    have "establishes lib
        (masking_bind (walk_document lib key (cp_col p) (cp_leaves p) ''$'' [] doc) (\<lambda>walked.
           case encode_document lib walked from_text of
             None \<Rightarrow> collapse_document lib p v | Some out \<Rightarrow> masking_return out))
        (\<lambda>v' s. \<exists>doc'. document_masked lib key (cp_col p) (cp_leaves p) s ''$'' [] doc doc' \<and> ?Q doc' v' s)"
      by (rule establishes_bind [OF walk_masks wrap]) (rule document_lasting)
    then show ?thesis
      using False Some dt by (simp add: mask_document_def document_cell_masked_def)
  qed
qed

end
