(* ===== verification/Transform_Properties.thy ===== *)
theory Transform_Properties
  imports Document_Masked
begin

text \<open>
  What a masked batch is: every masked cell is what the guard let through, in the shape the cell had,
  and its source is in the residual filter; every other cell is as it was.
\<close>

subsection \<open>Scalars\<close>

definition scalar_masked ::
  "transform_lib \<Rightarrow> bytes \<Rightarrow> col_plan \<Rightarrow> bloom \<Rightarrow> go_value \<Rightarrow> go_value \<Rightarrow> bool" where
  "scalar_masked lib key p s v v' \<longleftrightarrow>
     (\<exists>r. apply_mask (tl_apply lib) key (cp_cat p) (cp_id p) (value_of lib v) (cp_constraints p) = Inr r
        \<and> coerce lib (mr_out r) v = Some v'
        \<and> (mr_masked r \<longrightarrow> may_contain (tl_hmac lib) s (column_entry p (mr_canonical r))))"

lemma scalar_lasting: "lasting lib (\<lambda>s. scalar_masked lib key p s v v')"
  by (auto simp: lasting_def scalar_masked_def log_grows_def)

lemma note_masked_contains:
  assumes "bloom_ok s" and "mr_masked r"
  shows "may_contain (tl_hmac lib) (note_masked lib p r s) (column_entry p (mr_canonical r))"
proof -
  have in_filter: "may_contain (tl_hmac lib) (add_entry (tl_hmac lib) (column_entry p (mr_canonical r)) s)
      (column_entry p (mr_canonical r))"
    using assms(1) by (rule bloom.inserted)
  moreover have "bloom_ok (add_entry (tl_hmac lib) (column_entry p (mr_canonical r)) s)"
    using assms(1) by (rule bloom.ok_insert)
  ultimately show ?thesis
    using assms(2) grows_emitted [of lib _ p "mr_out r"]
    by (auto simp: note_masked_def Let_def log_grows_def)
qed

lemma establishes_scalar:
  "establishes lib (mask_scalar lib key p v) (\<lambda>v' s. scalar_masked lib key p s v v')"
  using grows_masked note_masked_contains
  by (fastforce simp: establishes_def mask_scalar_def scalar_masked_def split: sum.splits option.splits)

subsection \<open>Arrays\<close>




text \<open>A literal's nodes: nesting and \<open>NULL\<close> stay, an element is masked on its own, and only a masked
  value that is null turns an element into \<open>NULL\<close>.\<close>

inductive node_masked ::
  "transform_lib \<Rightarrow> bytes \<Rightarrow> col_plan \<Rightarrow> bloom \<Rightarrow> array_node \<Rightarrow> array_node \<Rightarrow> bool"
  for lib :: transform_lib and key :: bytes and p :: col_plan and s :: bloom where
  nested: "list_all2 (node_masked lib key p s) ns ms \<Longrightarrow> node_masked lib key p s (Nested ns) (Nested ms)"
| null: "node_masked lib key p s NullElem NullElem"
| elem: "scalar_masked lib key p s (GoString t) out \<Longrightarrow>
     node_masked lib key p s (Elem t) (if out = GoNil then NullElem else Elem (go_text lib out))"
monos list_all2_mono

inductive_cases nested_masked: "node_masked lib key p s (Nested ns) n"

lemma node_lasting: "lasting lib (\<lambda>s. node_masked lib key p s n m)"
  unfolding lasting_def
proof (intro allI impI)
  fix a b assume ab: "bloom_ok a" "log_grows lib a b" and n: "node_masked lib key p a n m"
  show "node_masked lib key p b n m"
    using n
  proof (induction rule: node_masked.induct)
    case (nested ns ms)
    then show ?case by (intro node_masked.nested) (auto elim: list_all2_mono)
  next
    case null
    then show ?case by (rule node_masked.null)
  next
    case (elem t out)
    then show ?case using scalar_lasting ab unfolding lasting_def by (intro node_masked.elem) blast
  qed
qed

lemma establishes_node:
  "establishes lib (mask_array_node lib key p n) (\<lambda>m s. node_masked lib key p s n m)"
proof (induction n)
  case (Nested ns)
  have "establishes lib (masking_list (mask_array_node lib key p) ns)
      (\<lambda>ms s. list_all2 (\<lambda>x y. node_masked lib key p s x y) ns ms)"
    using Nested node_lasting by (intro establishes_list) auto
  then show ?case unfolding mask_array_node.simps by (rule establishes_map) (rule node_masked.nested)
next
  case NullElem
  then show ?case by (auto intro: establishes_return node_masked.null)
next
  case (Elem t)
  show ?case
    unfolding mask_array_node.simps
    by (rule establishes_map [OF establishes_scalar]) (rule node_masked.elem)
qed

lemma parsed_root:
  assumes "parse_array_literal t = Some (prefix, root)"
  shows "is_prefix prefix \<and> (\<exists>ns. root = Nested ns)"
  using assms split_prefix_is_prefix
  by (auto simp: parse_array_literal_def parse_array_def split: option.splits prod.splits if_splits)

definition literal_masked :: "transform_lib \<Rightarrow> bytes \<Rightarrow> col_plan \<Rightarrow> bloom \<Rightarrow> string \<Rightarrow> string \<Rightarrow> bool" where
  "literal_masked lib key p s t t' \<longleftrightarrow>
     (\<exists>prefix root root'. parse_array_literal t = Some (prefix, root)
        \<and> parse_array_literal t' = Some (prefix, root') \<and> node_masked lib key p s root root')"


lemma establishes_literal:
  "establishes lib (mask_array_literal lib key p t) (\<lambda>t' s. literal_masked lib key p s t t')"
proof (cases "parse_array_literal t")
  case None
  then show ?thesis by (simp add: mask_array_literal_def establishes_fail)
next
  case (Some pr)
  obtain prefix root where pr: "pr = (prefix, root)" by fastforce
  then obtain ns where root: "is_prefix prefix" "root = Nested ns" using parsed_root Some by blast
  have "literal_masked lib key p s t (render_array_literal prefix root')"
    if n: "node_masked lib key p s root root'" for root' s
  proof -
    obtain ms where "root' = Nested ms" using n unfolding root(2) by (rule nested_masked)
    then show ?thesis
      using n Some pr literal_reads_back [OF root(1), of ms] unfolding literal_masked_def by blast
  qed
  then have "establishes lib
      (masking_bind (mask_array_node lib key p root) (\<lambda>root'. masking_return (render_array_literal prefix root')))
      (\<lambda>t' s. literal_masked lib key p s t t')"
    by (rule establishes_map [OF establishes_node])
  then show ?thesis using Some pr by (simp add: mask_array_literal_def)
qed

text \<open>C38: An array that arrives as the server's text is masked in place: what is written parses back, under
  the same dimension prefix and with the same nesting, every \<open>NULL\<close> is still \<open>NULL\<close>, and every other
  element is the masked form of the element that stood there -- whatever characters the masked texts
  have -- with its source in the filter.\<close>

theorem array_masked_in_place:
  assumes "bloom_ok s" and "mask_array_literal lib key p t s = Inr (t', s')"
  shows "\<exists>prefix root root'. parse_array_literal t = Some (prefix, root)
    \<and> parse_array_literal t' = Some (prefix, root') \<and> node_masked lib key p s' root root'"
  using establishes_literal [of lib key p t] assms unfolding establishes_def literal_masked_def by blast

subsection \<open>Batches\<close>












subsection \<open>A batch\<close>

definition sample_document :: go_value where
  "sample_document = GoMap [(''tel'', GoString ''b''), (''kind'', GoString ''a''),
     (''seen'', GoSlice [GoNumber ''12'', GoNil, GoBool True])]"

definition shout_lib :: transform_lib where
  "shout_lib = \<lparr>tl_apply =
       \<lparr>al_runes = (\<lambda>r. None), al_json = (\<lambda>b. None), al_canonical = (\<lambda>cat v c. Some (v, ''text'')),
        al_keys = \<lparr>kl_sha = (\<lambda>b. []), kl_hmac = (\<lambda>k b. []), kl_hkdf = (\<lambda>k i. Some [])\<rparr>,
        al_get = (\<lambda>mid. Some \<lparr>cm_mask = (\<lambda>h v c. Returned (text_value ''x, y'')), cm_vocabulary = False\<rparr>)\<rparr>,
     tl_hmac = (\<lambda>k m. []),
     tl_signs =
       \<lparr>sg_candidates = (\<lambda>t. [t]), sg_email = (\<lambda>t. CHR ''@'' \<in> set t), sg_phone = (\<lambda>t r. False),
        sg_iban = (\<lambda>t. False), sg_ip = (\<lambda>t. False), sg_mac = (\<lambda>t. False), sg_id_structured = (\<lambda>t. False),
        sg_id_checksum = (\<lambda>t. False), sg_id_digits = (\<lambda>t. False), sg_url = (\<lambda>t. False),
        sg_secret = (\<lambda>t. False), sg_address = (\<lambda>t. False), sg_special = (\<lambda>t. False)\<rparr>,
     tl_text = (\<lambda>k. []), tl_scan = (\<lambda>t k. None), tl_float = (\<lambda>x. ''0''), tl_float_plain = (\<lambda>x. ''0''),
     tl_parse_float = (\<lambda>t. Some 0), tl_float_zero = 0, tl_json = (\<lambda>v. []),
     tl_decode = (\<lambda>t. if t = ''d'' then Some sample_document else None), tl_encode = (\<lambda>v. Some ''e'')\<rparr>"

definition tags_plan :: col_plan where
  "tags_plan = \<lparr>cp_col = ColumnRef (TableRef ''public'' ''users'') ''tags'', cp_mask = True,
     cp_cat = ''free_text'', cp_id = ''free_text'', cp_constraints = no_constraints, cp_array = True,
     cp_family = ''text'', cp_document = False, cp_emits = False, cp_leaves = no_policy\<rparr>"

definition full_bloom :: bloom where
  "full_bloom = \<lparr>bl_key = [], bl_words = [- 1], bl_bits = 64, bl_cells = 0, bl_emitted = (\<lambda>k. 0)\<rparr>"

lemma array_masked_in_place_witness:
  "\<exists>t' s' root'. mask_array_literal shout_lib [] tags_plan ''{a,NULL}'' full_bloom = Inr (t', s')
     \<and> parse_array_literal t' = Some ([], root')
     \<and> node_masked shout_lib [] tags_plan s' (Nested [Elem ''a'', NullElem]) root'"
proof -
  have "case mask_array_literal shout_lib [] tags_plan ''{a,NULL}'' full_bloom of Inl e \<Rightarrow> False | Inr r \<Rightarrow> True"
    by code_simp
  then obtain t' s' where r: "mask_array_literal shout_lib [] tags_plan ''{a,NULL}'' full_bloom = Inr (t', s')"
    by (auto split: sum.splits)
  have ok: "bloom_ok full_bloom" by (simp add: bloom_ok_def full_bloom_def)
  have input: "parse_array_literal ''{a,NULL}'' = Some ([], Nested [Elem ''a'', NullElem])" by code_simp
  from array_masked_in_place [OF ok r] show ?thesis using r input by auto
qed

end
