(* ===== verification/Transform_Witness.thy ===== *)
theory Transform_Witness
  imports Transform_Properties Example
begin









end
