(* ===== verification/Lease.thy ===== *)
theory Lease
  imports Mask_Stream
begin

text \<open>
  \<open>internal/pg/lease.go\<close>: the lease that keeps two runs off one target. It is an advisory lock inside a
  transaction that stays open, so it is gone when the transaction or the session is. What the server
  and the connection pool do is a parameter, with the behaviour that is relied on as laws: a lock has
  one owner, a rollback or the end of a session frees what the session owned, nothing else does. Runs
  are interleaved with each other and with sessions that die as a step relation, in which one call of
  \<open>AcquireLease\<close> or \<open>Release\<close> is one step: the statements of two such calls are not interleaved.
\<close>

type_synonym lease_conn = nat
type_synonym lock_key = "64 word"

record 'w lease_server =
  sv_acquire :: "'w \<Rightarrow> (lease_conn \<times> 'w) option"
  sv_begin :: "lease_conn \<Rightarrow> 'w \<Rightarrow> bool \<times> 'w"
  sv_identity :: "lease_conn \<Rightarrow> 'w \<Rightarrow> (string \<times> int) option"
  sv_session :: "lease_conn \<Rightarrow> string \<Rightarrow> 'w \<Rightarrow> bool \<times> 'w"
  sv_try_lock :: "lease_conn \<Rightarrow> lock_key \<Rightarrow> 'w \<Rightarrow> bool option \<times> 'w"
  sv_holder :: "lease_conn \<Rightarrow> int \<Rightarrow> int \<Rightarrow> 'w \<Rightarrow> string option"
  sv_held :: "lease_conn \<Rightarrow> int \<Rightarrow> int \<Rightarrow> 'w \<Rightarrow> bool option"
  sv_backend :: "lease_conn \<Rightarrow> 'w \<Rightarrow> int option"
  sv_rollback :: "lease_conn \<Rightarrow> 'w \<Rightarrow> bool \<times> 'w"
  sv_discard :: "lease_conn \<Rightarrow> 'w \<Rightarrow> 'w"
  sv_give_back :: "lease_conn \<Rightarrow> 'w \<Rightarrow> 'w"
  sv_ping :: "lease_conn \<Rightarrow> 'w \<Rightarrow> bool"
  sv_sha :: "bytes \<Rightarrow> bytes"
  sv_owner :: "'w \<Rightarrow> lock_key \<Rightarrow> lease_conn option"
  sv_out :: "'w \<Rightarrow> lease_conn \<Rightarrow> bool"

subsection \<open>The code\<close>

definition lease_namespace :: string where "lease_namespace = ''lazyslice:target-lease:''"
definition lease_app_prefix :: string where "lease_app_prefix = ''lazyslice run ''"

definition lease_key :: "'w lease_server \<Rightarrow> string \<Rightarrow> lock_key" where
  "lease_key srv database =
     get_uint64 (take 8 (sv_sha srv (bytes_of_string (lease_namespace @ database))))"

text \<open>The two halves of the key as \<open>pg_locks\<close> stores them.\<close>

definition key_high :: "lock_key \<Rightarrow> int" where
  "key_high k = uint (ucast (drop_bit 32 k) :: 32 word)"

definition key_low :: "lock_key \<Rightarrow> int" where
  "key_low k = uint (ucast k :: 32 word)"

record lease =
  le_conn :: lease_conn
  le_key :: lock_key
  le_run :: string
  le_pid :: int
  le_released :: bool

datatype lease_error = LeaseHeld string string | LeaseFailed

definition lease_holder :: "'w lease_server \<Rightarrow> lease_conn \<Rightarrow> lock_key \<Rightarrow> 'w \<Rightarrow> string" where
  "lease_holder srv c k w =
     (case sv_holder srv c (key_high k) (key_low k) w of
        None \<Rightarrow> []
      | Some name \<Rightarrow>
          if take (length lease_app_prefix) name \<noteq> lease_app_prefix then []
          else drop (length lease_app_prefix) name)"

definition end_lease_tx :: "'w lease_server \<Rightarrow> lease_conn \<Rightarrow> 'w \<Rightarrow> 'w" where
  "end_lease_tx srv c w =
     (case sv_rollback srv c w of (ok, w') \<Rightarrow> if ok then w' else sv_discard srv c w')"

text \<open>The deferred clean-up of a lease that is not kept.\<close>

definition give_up_lease :: "'w lease_server \<Rightarrow> lease_conn \<Rightarrow> 'w \<Rightarrow> 'w" where
  "give_up_lease srv c w = sv_give_back srv c (end_lease_tx srv c w)"

definition lease_leaves_room :: "'w lease_server \<Rightarrow> 'w \<Rightarrow> bool \<times> 'w" where
  "lease_leaves_room srv w =
     (case sv_acquire srv w of
        None \<Rightarrow> (False, w)
      | Some (c, w') \<Rightarrow> (sv_ping srv c w', sv_give_back srv c w'))"

definition acquire_lease :: "'w lease_server \<Rightarrow> string \<Rightarrow> 'w \<Rightarrow> (lease_error + lease) \<times> 'w" where
  "acquire_lease srv run w =
     (case sv_acquire srv w of
        None \<Rightarrow> (Inl LeaseFailed, w)
      | Some (c, w1) \<Rightarrow>
          (case sv_begin srv c w1 of (began, w2) \<Rightarrow>
             if \<not> began then (Inl LeaseFailed, give_up_lease srv c w2)
             else case sv_identity srv c w2 of
               None \<Rightarrow> (Inl LeaseFailed, give_up_lease srv c w2)
             | Some (database, pid) \<Rightarrow>
                 (case sv_session srv c (lease_app_prefix @ run) w2 of (named, w3) \<Rightarrow>
                    if \<not> named then (Inl LeaseFailed, give_up_lease srv c w3)
                    else (case sv_try_lock srv c (lease_key srv database) w3 of (got, w4) \<Rightarrow>
                      (case got of
                         None \<Rightarrow> (Inl LeaseFailed, give_up_lease srv c w4)
                       | Some g \<Rightarrow>
                           if \<not> g then
                             (Inl (LeaseHeld database (lease_holder srv c (lease_key srv database) w4)),
                              give_up_lease srv c w4)
                           else (case lease_leaves_room srv w4 of (roomy, w5) \<Rightarrow>
                             if \<not> roomy then (Inl LeaseFailed, give_up_lease srv c w5)
                             else (Inr \<lparr>le_conn = c, le_key = lease_key srv database, le_run = run,
                                     le_pid = pid, le_released = False\<rparr>, w5)))))))"

definition release_lease :: "'w lease_server \<Rightarrow> lease \<Rightarrow> 'w \<Rightarrow> lease \<times> 'w" where
  "release_lease srv l w =
     (if le_released l then (l, w)
      else (l\<lparr>le_released := True\<rparr>,
        sv_give_back srv (le_conn l)
          (case sv_backend srv (le_conn l) w of
             None \<Rightarrow> sv_discard srv (le_conn l) w
           | Some pid \<Rightarrow>
               if pid \<noteq> le_pid l then sv_discard srv (le_conn l) w
               else end_lease_tx srv (le_conn l) w)))"

definition lease_alive :: "'w lease_server \<Rightarrow> lease \<Rightarrow> 'w \<Rightarrow> bool" where
  "lease_alive srv l w \<longleftrightarrow>
     (if le_released l then False
      else case sv_held srv (le_conn l) (key_high (le_key l)) (key_low (le_key l)) w of
             None \<Rightarrow> False
           | Some held \<Rightarrow> held)"

subsection \<open>What the server does\<close>

definition freed :: "lease_conn \<Rightarrow> (lock_key \<Rightarrow> lease_conn option) \<Rightarrow> lock_key \<Rightarrow> lease_conn option" where
  "freed c owner k = (if owner k = Some c then None else owner k)"

text \<open>A step of one connection: it leaves the locks of the others alone.\<close>

definition only_frees :: "lease_conn \<Rightarrow> (lock_key \<Rightarrow> lease_conn option) \<Rightarrow> (lock_key \<Rightarrow> lease_conn option) \<Rightarrow> bool" where
  "only_frees c owner owner' \<longleftrightarrow> (\<forall>k. owner' k = owner k \<or> owner k = Some c \<and> owner' k = None)"

definition pool_laws :: "'w lease_server \<Rightarrow> bool" where
  "pool_laws srv \<longleftrightarrow>
     (\<forall>w c w'. sv_acquire srv w = Some (c, w') \<longrightarrow>
        \<not> sv_out srv w c \<and> sv_out srv w' = (sv_out srv w)(c := True) \<and> sv_owner srv w' = sv_owner srv w)
     \<and> (\<forall>w c. sv_out srv (sv_give_back srv c w) = (sv_out srv w)(c := False)
        \<and> only_frees c (sv_owner srv w) (sv_owner srv (sv_give_back srv c w)))
     \<and> (\<forall>w c. sv_out srv (snd (sv_begin srv c w)) = sv_out srv w
        \<and> sv_owner srv (snd (sv_begin srv c w)) = sv_owner srv w)
     \<and> (\<forall>w c n. sv_out srv (snd (sv_session srv c n w)) = sv_out srv w
        \<and> sv_owner srv (snd (sv_session srv c n w)) = sv_owner srv w)
     \<and> (\<forall>w c k. sv_out srv (snd (sv_try_lock srv c k w)) = sv_out srv w)
     \<and> (\<forall>w c. sv_out srv (snd (sv_rollback srv c w)) = sv_out srv w)
     \<and> (\<forall>w c. sv_out srv (sv_discard srv c w) = sv_out srv w)"

definition lock_laws :: "'w lease_server \<Rightarrow> bool" where
  "lock_laws srv \<longleftrightarrow>
     (\<forall>w c k w'. sv_try_lock srv c k w = (Some True, w') \<longrightarrow>
        (sv_owner srv w k = None \<or> sv_owner srv w k = Some c)
        \<and> sv_owner srv w' = (sv_owner srv w)(k := Some c))
     \<and> (\<forall>w c k w'. sv_try_lock srv c k w = (Some False, w') \<longrightarrow> sv_owner srv w' = sv_owner srv w)
     \<and> (\<forall>w c k w'. sv_try_lock srv c k w = (None, w') \<longrightarrow>
        (\<forall>j. sv_owner srv w' j = sv_owner srv w j
           \<or> sv_owner srv w j = None \<and> sv_owner srv w' j = Some c
           \<or> sv_owner srv w j = Some c \<and> sv_owner srv w' j = None))
     \<and> (\<forall>w c w'. sv_rollback srv c w = (True, w') \<longrightarrow> sv_owner srv w' = freed c (sv_owner srv w))
     \<and> (\<forall>w c w'. sv_rollback srv c w = (False, w') \<longrightarrow> only_frees c (sv_owner srv w) (sv_owner srv w'))
     \<and> (\<forall>w c. sv_owner srv (sv_discard srv c w) = freed c (sv_owner srv w))
     \<and> (\<forall>w c k b. sv_held srv c (key_high k) (key_low k) w = Some b \<longrightarrow> b = (sv_owner srv w k = Some c))"

text \<open>A lock that another connection holds is the only one that is not given.\<close>

definition grants_free_locks :: "'w lease_server \<Rightarrow> bool" where
  "grants_free_locks srv \<longleftrightarrow>
     (\<forall>w c k w'. sv_try_lock srv c k w = (Some False, w') \<longrightarrow> sv_owner srv w k \<noteq> None)"

text \<open>The server calls of one attempt, each in the state the one before left: all of them answer, the
  database is the one named, and when the lock is given there is room for a second connection.\<close>

definition attempt_answered :: "'w lease_server \<Rightarrow> string \<Rightarrow> string \<Rightarrow> 'w \<Rightarrow> bool" where
  "attempt_answered srv database run w \<longleftrightarrow>
     (case sv_acquire srv w of
        None \<Rightarrow> False
      | Some (c, w1) \<Rightarrow>
          (case sv_begin srv c w1 of (began, w2) \<Rightarrow>
             began \<and> map_option fst (sv_identity srv c w2) = Some database
             \<and> (case sv_session srv c (lease_app_prefix @ run) w2 of (named, w3) \<Rightarrow>
                  named
                  \<and> (case sv_try_lock srv c (lease_key srv database) w3 of (got, w4) \<Rightarrow>
                       got \<noteq> None \<and> (got = Some True \<longrightarrow> fst (lease_leaves_room srv w4))))))"

subsection \<open>Runs and sessions\<close>

text \<open>The state is the server's and the leases that were handed out. A session can end at any time,
  which frees its locks and leaves the lease as it is; and anything else may happen that touches no
  lock and leaves the connections of the leases out of the pool.\<close>

definition mark_released :: "lease \<Rightarrow> lease list \<Rightarrow> lease list" where
  "mark_released l ls = map (\<lambda>m. if m = l then m\<lparr>le_released := True\<rparr> else m) ls"

inductive lease_step :: "'w lease_server \<Rightarrow> 'w \<times> lease list \<Rightarrow> 'w \<times> lease list \<Rightarrow> bool"
  for srv :: "'w lease_server" where
  taken: "acquire_lease srv run w = (Inr l, w') \<Longrightarrow> lease_step srv (w, ls) (w', l # ls)"
| refused: "acquire_lease srv run w = (Inl e, w') \<Longrightarrow> lease_step srv (w, ls) (w', ls)"
| released: "l \<in> set ls \<Longrightarrow> release_lease srv l w = (l', w') \<Longrightarrow> lease_step srv (w, ls) (w', mark_released l ls)"
| session_ends: "sv_owner srv w' = freed c (sv_owner srv w) \<Longrightarrow> sv_out srv w' = sv_out srv w
    \<Longrightarrow> lease_step srv (w, ls) (w', ls)"
| idle: "sv_owner srv w' = sv_owner srv w
    \<Longrightarrow> (\<And>l. l \<in> set ls \<Longrightarrow> \<not> le_released l \<Longrightarrow> sv_out srv w (le_conn l) \<Longrightarrow> sv_out srv w' (le_conn l))
    \<Longrightarrow> lease_step srv (w, ls) (w', ls)"

inductive lease_reachable :: "'w lease_server \<Rightarrow> 'w \<times> lease list \<Rightarrow> bool"
  for srv :: "'w lease_server" where
  start: "sv_owner srv w = (\<lambda>k. None) \<Longrightarrow> lease_reachable srv (w, [])"
| step: "lease_reachable srv a \<Longrightarrow> lease_step srv a b \<Longrightarrow> lease_reachable srv b"

text \<open>Every lock is owned by the connection of a lease that is not released, no two such leases share a
  connection, and their connections are out of the pool.\<close>

definition lease_inv :: "'w lease_server \<Rightarrow> 'w \<times> lease list \<Rightarrow> bool" where
  "lease_inv srv a \<longleftrightarrow>
     (case a of (w, ls) \<Rightarrow>
        (\<forall>k c. sv_owner srv w k = Some c \<longrightarrow>
           (\<exists>l\<in>set ls. \<not> le_released l \<and> le_conn l = c \<and> le_key l = k))
        \<and> (\<forall>l\<in>set ls. \<not> le_released l \<longrightarrow> sv_out srv w (le_conn l))
        \<and> (\<forall>l\<in>set ls. \<forall>m\<in>set ls. \<not> le_released l \<longrightarrow> \<not> le_released m \<longrightarrow> le_conn l = le_conn m \<longrightarrow> l = m))"

lemma lease_invI:
  assumes "\<And>k c. sv_owner srv w k = Some c \<Longrightarrow> \<exists>l\<in>set ls. \<not> le_released l \<and> le_conn l = c \<and> le_key l = k"
    and "\<And>l. l \<in> set ls \<Longrightarrow> \<not> le_released l \<Longrightarrow> sv_out srv w (le_conn l)"
    and "\<And>l m. l \<in> set ls \<Longrightarrow> m \<in> set ls \<Longrightarrow> \<not> le_released l \<Longrightarrow> \<not> le_released m \<Longrightarrow>
      le_conn l = le_conn m \<Longrightarrow> l = m"
  shows "lease_inv srv (w, ls)"
  using assms unfolding lease_inv_def prod.case by blast

subsection \<open>What an operation does to locks and pool\<close>

lemma only_frees_none: "only_frees c owner owner' \<Longrightarrow> (\<And>k. owner k \<noteq> Some c) \<Longrightarrow> owner' = owner"
  by (rule ext) (auto simp: only_frees_def)

lemma freed_only_frees: "only_frees c owner owner' \<Longrightarrow> freed c owner' = freed c owner"
  by (rule ext) (metis freed_def only_frees_def)

lemma freed_none: "(\<And>k. owner k \<noteq> Some c) \<Longrightarrow> freed c owner = owner"
  by (rule ext) (simp add: freed_def)

lemma freed_idem: "only_frees c (freed c owner) owner' \<Longrightarrow> owner' = freed c owner"
  by (rule only_frees_none) (auto simp: freed_def)

lemma end_lease_tx_effect:
  assumes "pool_laws srv" and "lock_laws srv"
  shows "sv_owner srv (end_lease_tx srv c w) = freed c (sv_owner srv w)"
    and "sv_out srv (end_lease_tx srv c w) = sv_out srv w"
proof -
  obtain ok w' where r: "sv_rollback srv c w = (ok, w')" by fastforce
  have out: "sv_out srv w' = sv_out srv w"
    using assms(1) r unfolding pool_laws_def by (metis snd_conv)
  show "sv_owner srv (end_lease_tx srv c w) = freed c (sv_owner srv w)"
  proof (cases ok)
    case True
    then show ?thesis using assms(2) r by (simp add: end_lease_tx_def lock_laws_def)
  next
    case False
    have "sv_rollback srv c w = (False, w')" using r False by simp
    then have "only_frees c (sv_owner srv w) (sv_owner srv w')"
      using assms(2) unfolding lock_laws_def by metis
    moreover have "sv_owner srv (sv_discard srv c w') = freed c (sv_owner srv w')"
      using assms(2) unfolding lock_laws_def by metis
    ultimately show ?thesis using False r freed_only_frees by (simp add: end_lease_tx_def)
  qed
  show "sv_out srv (end_lease_tx srv c w) = sv_out srv w"
    using assms(1) r out by (simp add: end_lease_tx_def pool_laws_def)
qed

lemma give_back_effect:
  assumes "pool_laws srv"
  shows "sv_out srv (sv_give_back srv c w) = (sv_out srv w)(c := False)"
    and "only_frees c (sv_owner srv w) (sv_owner srv (sv_give_back srv c w))"
  using assms unfolding pool_laws_def by blast+

lemma give_up_effect:
  assumes "pool_laws srv" and "lock_laws srv"
  shows "sv_owner srv (give_up_lease srv c w) = freed c (sv_owner srv w)"
    and "sv_out srv (give_up_lease srv c w) = (sv_out srv w)(c := False)"
  using end_lease_tx_effect [OF assms, of c w] give_back_effect [OF assms(1), of c "end_lease_tx srv c w"]
    freed_idem [of c "sv_owner srv w"]
  by (simp_all add: give_up_lease_def)

text \<open>What a connection that is not out owns: nothing.\<close>

definition out_owns :: "'w lease_server \<Rightarrow> 'w \<Rightarrow> bool" where
  "out_owns srv w \<longleftrightarrow> (\<forall>k c. sv_owner srv w k = Some c \<longrightarrow> sv_out srv w c)"

lemma leaves_room_effect:
  assumes "pool_laws srv" and "out_owns srv w" and "lease_leaves_room srv w = (ok, w')"
  shows "sv_owner srv w' = sv_owner srv w" and "sv_out srv w' = sv_out srv w"
proof -
  have "sv_owner srv w' = sv_owner srv w \<and> sv_out srv w' = sv_out srv w"
  proof (cases "sv_acquire srv w")
    case None
    then show ?thesis using assms(3) by (simp add: lease_leaves_room_def)
  next
    case (Some a)
    obtain c w1 where a: "sv_acquire srv w = Some (c, w1)" using Some by (cases a) auto
    have 1: "\<not> sv_out srv w c" "sv_out srv w1 = (sv_out srv w)(c := True)" "sv_owner srv w1 = sv_owner srv w"
      using assms(1) a unfolding pool_laws_def by blast+
    have "sv_owner srv w k \<noteq> Some c" for k using assms(2) 1(1) by (auto simp: out_owns_def)
    then have "sv_owner srv (sv_give_back srv c w1) = sv_owner srv w"
      using only_frees_none [OF give_back_effect(2) [OF assms(1), of c w1]] 1(3) by simp
    moreover have "sv_out srv (sv_give_back srv c w1) = sv_out srv w"
      using give_back_effect(1) [OF assms(1), of c w1] 1 by (auto simp: fun_eq_iff)
    ultimately show ?thesis using assms(3) a by (simp add: lease_leaves_room_def)
  qed
  then show "sv_owner srv w' = sv_owner srv w" "sv_out srv w' = sv_out srv w" by simp_all
qed

text \<open>The steps before the lock, from a connection of the pool.\<close>

lemma before_lock:
  assumes "pool_laws srv" and "sv_acquire srv w = Some (c, w1)" and "sv_begin srv c w1 = (b, w2)"
    and "sv_session srv c n w2 = (b', w3)"
  shows "\<not> sv_out srv w c"
    and "sv_owner srv w2 = sv_owner srv w" and "sv_out srv w2 = (sv_out srv w)(c := True)"
    and "sv_owner srv w3 = sv_owner srv w" and "sv_out srv w3 = (sv_out srv w)(c := True)"
proof -
  have a: "\<not> sv_out srv w c" "sv_out srv w1 = (sv_out srv w)(c := True)" "sv_owner srv w1 = sv_owner srv w"
    using assms(1, 2) unfolding pool_laws_def by blast+
  moreover have "sv_out srv w2 = sv_out srv w1" "sv_owner srv w2 = sv_owner srv w1"
    using assms(1, 3) unfolding pool_laws_def by (metis snd_conv)+
  moreover have "sv_out srv w3 = sv_out srv w2" "sv_owner srv w3 = sv_owner srv w2"
    using assms(1, 4) unfolding pool_laws_def by (metis snd_conv)+
  ultimately show "\<not> sv_out srv w c"
    "sv_owner srv w2 = sv_owner srv w" "sv_out srv w2 = (sv_out srv w)(c := True)"
    "sv_owner srv w3 = sv_owner srv w" "sv_out srv w3 = (sv_out srv w)(c := True)" by simp_all
qed

lemma give_up_restores:
  assumes "pool_laws srv" and "lock_laws srv" and "out_owns srv w" and "\<not> sv_out srv w c"
    and "sv_out srv w' = (sv_out srv w)(c := True)" and "freed c (sv_owner srv w') = sv_owner srv w"
  shows "sv_owner srv (give_up_lease srv c w') = sv_owner srv w"
    and "sv_out srv (give_up_lease srv c w') = sv_out srv w"
  using give_up_effect [OF assms(1, 2), of c w'] assms(4-6) by (auto simp: fun_eq_iff)

lemma acquire_effect:
  assumes laws: "pool_laws srv" "lock_laws srv" and out: "out_owns srv w"
    and run: "acquire_lease srv run w = (r, w')"
  shows "(\<exists>e. r = Inl e \<and> sv_owner srv w' = sv_owner srv w \<and> sv_out srv w' = sv_out srv w)
    \<or> (\<exists>l. r = Inr l \<and> \<not> le_released l \<and> \<not> sv_out srv w (le_conn l)
        \<and> sv_owner srv w (le_key l) = None
        \<and> sv_owner srv w' = (sv_owner srv w)(le_key l := Some (le_conn l))
        \<and> sv_out srv w' = (sv_out srv w)(le_conn l := True))"
proof (cases "sv_acquire srv w")
  case None
  then show ?thesis using run by (auto simp: acquire_lease_def)
next
  case (Some a)
  obtain c w1 where acq: "sv_acquire srv w = Some (c, w1)" using Some by (cases a) auto
  obtain b w2 where beg: "sv_begin srv c w1 = (b, w2)" by fastforce
  obtain n w3 where ses: "sv_session srv c (lease_app_prefix @ run) w2 = (n, w3)" by fastforce
  note pre = before_lock [OF laws(1) acq beg ses]
  have own: "sv_owner srv w k \<noteq> Some c" for k using out pre(1) by (auto simp: out_owns_def)
  then have free: "freed c (sv_owner srv w) = sv_owner srv w" by (rule freed_none)
  note undo = give_up_restores [OF laws out pre(1)]
  have undo2: "sv_owner srv (give_up_lease srv c w2) = sv_owner srv w"
      "sv_out srv (give_up_lease srv c w2) = sv_out srv w"
    using undo [OF pre(3)] pre(2) free by simp_all
  have undo3: "sv_owner srv (give_up_lease srv c w3) = sv_owner srv w"
      "sv_out srv (give_up_lease srv c w3) = sv_out srv w"
    using undo [OF pre(5)] pre(4) free by simp_all
  show ?thesis
  proof (cases "b \<and> n \<and> sv_identity srv c w2 \<noteq> None")
    case False
    then show ?thesis using run acq beg ses undo2 undo3 by (auto simp: acquire_lease_def split: if_splits option.splits)
  next
    case True
    then obtain database pid where ident: "sv_identity srv c w2 = Some (database, pid)" by auto
    define k where "k = lease_key srv database"
    obtain got w4 where lock: "sv_try_lock srv c k w3 = (got, w4)" by fastforce
    have out4: "sv_out srv w4 = (sv_out srv w)(c := True)"
      using laws(1) lock pre(5) unfolding pool_laws_def by (metis snd_conv)
    show ?thesis
    proof (cases "got = Some True")
      case False
      have "freed c (sv_owner srv w4) = sv_owner srv w"
      proof (cases got)
        case None
        then have "\<forall>j. sv_owner srv w4 j = sv_owner srv w j \<or> sv_owner srv w j = None \<and> sv_owner srv w4 j = Some c
            \<or> sv_owner srv w j = Some c \<and> sv_owner srv w4 j = None"
          using laws(2) lock pre(4) unfolding lock_laws_def by metis
        then show ?thesis using own by (intro ext) (metis freed_def)
      next
        case (Some g)
        then have "sv_owner srv w4 = sv_owner srv w"
          using False laws(2) lock pre(4) unfolding lock_laws_def by (metis (full_types))
        then show ?thesis using free by simp
      qed
      note undo4 = undo [OF out4 this]
      show ?thesis
        using run acq beg ses ident lock True False undo4 k_def
        by (auto simp: acquire_lease_def split: if_splits option.splits)
    next
      case locked: True
      have owner4: "sv_owner srv w k = None" "sv_owner srv w4 = (sv_owner srv w)(k := Some c)"
        using laws(2) lock locked pre(4) own [of k] unfolding lock_laws_def by metis+
      obtain ok w5 where roomy: "lease_leaves_room srv w4 = (ok, w5)" by fastforce
      have "out_owns srv w4" using out owner4 out4 by (auto simp: out_owns_def)
      note keep = leaves_room_effect [OF laws(1) this roomy]
      have "freed c (sv_owner srv w5) = sv_owner srv w"
        unfolding keep(1) owner4(2) using owner4(1) own by (intro ext) (auto simp: freed_def)
      note undo5 = undo [OF _ this]
      show ?thesis
        using run acq beg ses ident lock True locked roomy keep owner4 out4 undo5 pre(1) k_def
        by (auto simp: acquire_lease_def split: if_splits)
    qed
  qed
qed

lemma release_effect:
  assumes laws: "pool_laws srv" "lock_laws srv" and held: "\<not> le_released l"
  shows "sv_owner srv (snd (release_lease srv l w)) = freed (le_conn l) (sv_owner srv w)"
    and "sv_out srv (snd (release_lease srv l w)) = (sv_out srv w)(le_conn l := False)"
    and "fst (release_lease srv l w) = l\<lparr>le_released := True\<rparr>"
proof -
  define w' where "w' = (case sv_backend srv (le_conn l) w of
      None \<Rightarrow> sv_discard srv (le_conn l) w
    | Some pid \<Rightarrow> if pid \<noteq> le_pid l then sv_discard srv (le_conn l) w else end_lease_tx srv (le_conn l) w)"
  have "sv_owner srv (sv_discard srv (le_conn l) w) = freed (le_conn l) (sv_owner srv w)"
    using laws(2) unfolding lock_laws_def by metis
  moreover have "sv_out srv (sv_discard srv (le_conn l) w) = sv_out srv w"
    using laws(1) unfolding pool_laws_def by metis
  ultimately have w': "sv_owner srv w' = freed (le_conn l) (sv_owner srv w)" "sv_out srv w' = sv_out srv w"
    using end_lease_tx_effect [OF laws, of "le_conn l" w] by (auto simp: w'_def split: option.splits)
  have r: "release_lease srv l w = (l\<lparr>le_released := True\<rparr>, sv_give_back srv (le_conn l) w')"
    using held by (simp add: release_lease_def w'_def)
  show "sv_owner srv (snd (release_lease srv l w)) = freed (le_conn l) (sv_owner srv w)"
    using freed_idem [OF give_back_effect(2) [OF laws(1), of "le_conn l" w', unfolded w'(1)]] r by simp
  show "sv_out srv (snd (release_lease srv l w)) = (sv_out srv w)(le_conn l := False)"
    using give_back_effect(1) [OF laws(1), of "le_conn l" w'] w' r by simp
  show "fst (release_lease srv l w) = l\<lparr>le_released := True\<rparr>" using r by simp
qed

subsection \<open>The invariant\<close>

lemma lease_inv_owner:
  "lease_inv srv (w, ls) \<Longrightarrow> sv_owner srv w k = Some c \<Longrightarrow>
    \<exists>l\<in>set ls. \<not> le_released l \<and> le_conn l = c \<and> le_key l = k"
  by (simp add: lease_inv_def)

lemma lease_inv_out: "lease_inv srv (w, ls) \<Longrightarrow> l \<in> set ls \<Longrightarrow> \<not> le_released l \<Longrightarrow> sv_out srv w (le_conn l)"
  by (simp add: lease_inv_def)

lemma lease_inv_conn:
  "lease_inv srv (w, ls) \<Longrightarrow> l \<in> set ls \<Longrightarrow> m \<in> set ls \<Longrightarrow> \<not> le_released l \<Longrightarrow> \<not> le_released m \<Longrightarrow>
    le_conn l = le_conn m \<Longrightarrow> l = m"
  unfolding lease_inv_def prod.case by blast

lemma lease_inv_out_owns: "lease_inv srv (w, ls) \<Longrightarrow> out_owns srv w"
  unfolding out_owns_def by (metis lease_inv_owner lease_inv_out)

lemma lease_inv_only_frees:
  assumes inv: "lease_inv srv (w, ls)"
    and "\<And>k c. sv_owner srv w' k = Some c \<Longrightarrow> sv_owner srv w k = Some c"
    and "\<And>l. l \<in> set ls \<Longrightarrow> \<not> le_released l \<Longrightarrow> sv_out srv w (le_conn l) \<Longrightarrow> sv_out srv w' (le_conn l)"
  shows "lease_inv srv (w', ls)"
  using assms(2, 3) lease_inv_owner [OF inv] lease_inv_out [OF inv] lease_inv_conn [OF inv]
  by (intro lease_invI) blast+

lemma lease_inv_taken:
  assumes laws: "pool_laws srv" "lock_laws srv" and inv: "lease_inv srv (w, ls)"
    and run: "acquire_lease srv run w = (Inr l, w')"
  shows "lease_inv srv (w', l # ls)"
proof -
  have l: "\<not> le_released l" "\<not> sv_out srv w (le_conn l)"
      "sv_owner srv w' = (sv_owner srv w)(le_key l := Some (le_conn l))"
      "sv_out srv w' = (sv_out srv w)(le_conn l := True)"
    using acquire_effect [OF laws lease_inv_out_owns [OF inv] run] by auto
  have fresh: "m \<in> set ls \<Longrightarrow> \<not> le_released m \<Longrightarrow> le_conn m \<noteq> le_conn l" for m
    using lease_inv_out [OF inv, of m] l(2) by metis
  show ?thesis
  proof (rule lease_invI)
    fix k c assume "sv_owner srv w' k = Some c"
    then show "\<exists>m\<in>set (l # ls). \<not> le_released m \<and> le_conn m = c \<and> le_key m = k"
      using l lease_inv_owner [OF inv, of k c] by (auto split: if_splits)
  next
    fix m assume "m \<in> set (l # ls)" "\<not> le_released m"
    then show "sv_out srv w' (le_conn m)" using l(4) lease_inv_out [OF inv, of m] by auto
  next
    fix m m' assume "m \<in> set (l # ls)" "m' \<in> set (l # ls)" "\<not> le_released m" "\<not> le_released m'"
      "le_conn m = le_conn m'"
    then show "m = m'" using fresh [of m] fresh [of m'] lease_inv_conn [OF inv, of m m'] by auto
  qed
qed

lemma lease_inv_released:
  assumes laws: "pool_laws srv" "lock_laws srv" and inv: "lease_inv srv (w, ls)" and l: "l \<in> set ls"
    and run: "release_lease srv l w = (l', w')"
  shows "lease_inv srv (w', mark_released l ls)"
proof (cases "le_released l")
  case True
  then have "w' = w" using run by (simp add: release_lease_def)
  moreover have "l\<lparr>le_released := True\<rparr> = l" using True by simp
  then have "mark_released l ls = ls" unfolding mark_released_def by (intro map_idI) auto
  ultimately show ?thesis using inv by simp
next
  case False
  have w': "sv_owner srv w' = freed (le_conn l) (sv_owner srv w)" "sv_out srv w' = (sv_out srv w)(le_conn l := False)"
    using release_effect [OF laws False, of w] run by simp_all
  have marked: "m \<in> set (mark_released l ls) \<Longrightarrow> \<not> le_released m \<Longrightarrow> m \<in> set ls \<and> m \<noteq> l" for m
    by (cases l) (auto simp: mark_released_def split: if_splits)
  have kept: "m \<in> set ls \<Longrightarrow> m \<noteq> l \<Longrightarrow> m \<in> set (mark_released l ls)" for m
    by (force simp: mark_released_def)
  show ?thesis
  proof (rule lease_invI)
    fix k c assume "sv_owner srv w' k = Some c"
    then have o: "sv_owner srv w k = Some c" "c \<noteq> le_conn l" by (auto simp: w' freed_def split: if_splits)
    from lease_inv_owner [OF inv o(1)] o(2) kept
    show "\<exists>m\<in>set (mark_released l ls). \<not> le_released m \<and> le_conn m = c \<and> le_key m = k" by blast
  next
    fix m assume "m \<in> set (mark_released l ls)" "\<not> le_released m"
    with marked have m: "m \<in> set ls" "m \<noteq> l" "\<not> le_released m" by blast+
    then have "le_conn m \<noteq> le_conn l" using lease_inv_conn [OF inv m(1) l m(3) False] by blast
    then show "sv_out srv w' (le_conn m)" using lease_inv_out [OF inv m(1, 3)] by (simp add: w')
  next
    fix m m' assume "m \<in> set (mark_released l ls)" "m' \<in> set (mark_released l ls)"
      "\<not> le_released m" "\<not> le_released m'" "le_conn m = le_conn m'"
    then show "m = m'" using marked lease_inv_conn [OF inv, of m m'] by blast
  qed
qed

lemma lease_inv_step:
  assumes laws: "pool_laws srv" "lock_laws srv" and "lease_step srv a b" and inv: "lease_inv srv a"
  shows "lease_inv srv b"
  using assms(3, 4)
proof (cases rule: lease_step.cases)
  case (taken run w l w' ls)
  then show ?thesis using lease_inv_taken [OF laws] inv by simp
next
  case (refused run w e w' ls)
  then have inv': "lease_inv srv (w, ls)" using inv by simp
  have "sv_owner srv w' = sv_owner srv w" "sv_out srv w' = sv_out srv w"
    using acquire_effect [OF laws lease_inv_out_owns [OF inv'] refused(3)] by auto
  then show ?thesis using lease_inv_only_frees [OF inv', of w'] refused(2) by simp
next
  case (released l ls w l' w')
  then show ?thesis using lease_inv_released [OF laws] inv by simp
next
  case (session_ends w' c w ls)
  have "sv_owner srv w k = Some ca" if "sv_owner srv w' k = Some ca" for k ca
    using that session_ends(3) by (simp add: freed_def split: if_splits)
  then show ?thesis using lease_inv_only_frees [of srv w ls w'] inv session_ends by simp
next
  case (idle w' w ls)
  then show ?thesis using lease_inv_only_frees [of srv w ls w'] inv by simp
qed

lemma lease_reachable_inv:
  assumes "pool_laws srv" "lock_laws srv" and "lease_reachable srv a"
  shows "lease_inv srv a"
  using assms(3)
proof (induction rule: lease_reachable.induct)
  case (start w)
  then show ?case by (simp add: lease_inv_def)
next
  case (step a b)
  then show ?case using lease_inv_step [OF assms(1, 2)] by blast
qed

lemma lease_alive_owns:
  assumes "lock_laws srv" and "lease_alive srv l w"
  shows "\<not> le_released l" and "sv_owner srv w (le_key l) = Some (le_conn l)"
proof -
  show "\<not> le_released l" using assms(2) by (auto simp: lease_alive_def)
  then have "sv_held srv (le_conn l) (key_high (le_key l)) (key_low (le_key l)) w = Some True"
    using assms(2) by (auto simp: lease_alive_def split: option.splits)
  then show "sv_owner srv w (le_key l) = Some (le_conn l)"
    using assms(1) unfolding lock_laws_def by metis
qed

end
