(* ===== verification/Lease_Properties.thy ===== *)
theory Lease_Properties
  imports Lease
begin

text \<open>
  The run lease: two runs never both hold a live lease of one database, and a lease that was released or
  whose session has ended is not in the way of the next run.
\<close>

lemma free_lock_taken:
  assumes laws: "pool_laws srv" "grants_free_locks srv"
    and ans: "attempt_answered srv database run w" and free: "sv_owner srv w (lease_key srv database) = None"
  shows "\<exists>l w'. acquire_lease srv run w = (Inr l, w') \<and> le_key l = lease_key srv database
    \<and> le_run l = run \<and> \<not> le_released l"
proof -
  obtain c w1 where acq: "sv_acquire srv w = Some (c, w1)"
    using ans by (auto simp: attempt_answered_def split: option.splits)
  obtain b w2 where beg: "sv_begin srv c w1 = (b, w2)" by fastforce
  obtain n w3 where ses: "sv_session srv c (lease_app_prefix @ run) w2 = (n, w3)" by fastforce
  obtain got w4 where lock: "sv_try_lock srv c (lease_key srv database) w3 = (got, w4)" by fastforce
  obtain pid where ok: "b" "n" "got \<noteq> None" "got = Some True \<longrightarrow> fst (lease_leaves_room srv w4)"
    "sv_identity srv c w2 = Some (database, pid)"
    using ans by (auto simp: attempt_answered_def acq beg ses lock)
  have "sv_owner srv w3 (lease_key srv database) = None"
    using before_lock(4) [OF laws(1) acq beg ses] free by simp
  then have "got \<noteq> Some False" using laws(2) lock unfolding grants_free_locks_def by metis
  then have got: "got = Some True" using ok(3) by auto
  obtain w5 where roomy: "lease_leaves_room srv w4 = (True, w5)"
    using ok(4) got by (cases "lease_leaves_room srv w4") auto
  show ?thesis by (simp add: acquire_lease_def acq beg ses ok(1, 2, 5) lock got roomy)
qed

text \<open>
  C36: two leases of the same database are never both alive. In every state that runs taking, being refused
  and releasing leases, and sessions that end, can reach, two live leases with one key are the same
  lease; and while a lease is alive no attempt of another run gets its key or takes the lock from it.
\<close>
theorem lease_exclusive:
  assumes "pool_laws srv" and "lock_laws srv" and "lease_reachable srv (w, ls)"
    and "l \<in> set ls" and "m \<in> set ls" and "lease_alive srv l w" and "lease_alive srv m w"
    and "le_key l = le_key m" and "acquire_lease srv run w = (r, w')"
  shows "l = m \<and> (\<forall>new. r = Inr new \<longrightarrow> le_key new \<noteq> le_key l)
    \<and> sv_owner srv w' (le_key l) = Some (le_conn l)"
proof -
  note inv = lease_reachable_inv [OF assms(1-3)]
  note l = lease_alive_owns [OF assms(2, 6)] and m = lease_alive_owns [OF assms(2, 7)]
  have "l = m" using lease_inv_conn [OF inv assms(4, 5) l(1) m(1)] l(2) m(2) assms(8) by simp
  then show ?thesis
    using acquire_effect [OF assms(1, 2) lease_inv_out_owns [OF inv] assms(9)] l(2) by auto
qed

text \<open>
  C37: a target is never locked out, however the server answers. In every reachable state each lock
  that is held has a holder, an unreleased lease of that key on that connection, and its release frees
  the lock, whether its statements succeed or fail. An attempt that fails, at any of its calls, leaves
  every lock and the pool as they were: in particular one that had the lock and then found no room
  for a second connection. An attempt that succeeds took a lock nobody held, and took no other. And
  an attempt whose own calls are all answered, on a database whose lock nobody holds, succeeds.
\<close>
theorem lease_never_orphaned:
  assumes "pool_laws srv" and "lock_laws srv" and "grants_free_locks srv"
    and "lease_reachable srv (w, ls)" and "acquire_lease srv run w = (r, w')"
  shows "(\<forall>k c. sv_owner srv w k = Some c \<longrightarrow>
        (\<exists>l\<in>set ls. \<not> le_released l \<and> le_conn l = c \<and> le_key l = k
          \<and> sv_owner srv (snd (release_lease srv l w)) k = None))
    \<and> (case r of
         Inl e \<Rightarrow> sv_owner srv w' = sv_owner srv w \<and> sv_out srv w' = sv_out srv w
       | Inr l \<Rightarrow> sv_owner srv w (le_key l) = None
           \<and> sv_owner srv w' = (sv_owner srv w)(le_key l := Some (le_conn l)))
    \<and> (attempt_answered srv database run w \<longrightarrow> sv_owner srv w (lease_key srv database) = None \<longrightarrow>
         (\<exists>l. r = Inr l \<and> le_key l = lease_key srv database \<and> le_run l = run \<and> \<not> le_released l))"
proof (intro conjI allI impI)
  note inv = lease_reachable_inv [OF assms(1, 2, 4)]
  fix k c assume held: "sv_owner srv w k = Some c"
  from lease_inv_owner [OF inv held] obtain l where l: "l \<in> set ls" "\<not> le_released l" "le_conn l = c"
      "le_key l = k" by blast
  have "sv_owner srv (snd (release_lease srv l w)) k = None"
    using release_effect(1) [OF assms(1, 2) l(2), of w] held l(3) by (simp add: freed_def)
  then show "\<exists>l\<in>set ls. \<not> le_released l \<and> le_conn l = c \<and> le_key l = k
      \<and> sv_owner srv (snd (release_lease srv l w)) k = None" using l by blast
next
  note inv = lease_reachable_inv [OF assms(1, 2, 4)]
  show "case r of
      Inl e \<Rightarrow> sv_owner srv w' = sv_owner srv w \<and> sv_out srv w' = sv_out srv w
    | Inr l \<Rightarrow> sv_owner srv w (le_key l) = None
        \<and> sv_owner srv w' = (sv_owner srv w)(le_key l := Some (le_conn l))"
    using acquire_effect [OF assms(1, 2) lease_inv_out_owns [OF inv] assms(5)] by auto
next
  assume "attempt_answered srv database run w" "sv_owner srv w (lease_key srv database) = None"
  from free_lock_taken [OF assms(1, 3) this] show "\<exists>l. r = Inr l \<and> le_key l = lease_key srv database
      \<and> le_run l = run \<and> \<not> le_released l" using assms(5) by auto
qed

subsection \<open>A server\<close>

text \<open>The laws can hold: a server whose state is the owner of each lock and the connections that are out.\<close>

type_synonym demo_state = "(lock_key \<Rightarrow> lease_conn option) \<times> lease_conn list"

definition demo_key :: "int \<Rightarrow> int \<Rightarrow> lock_key" where
  "demo_key hi lo = word_of_int (hi * 2 ^ 32 + lo)"

definition demo_free :: "lease_conn \<Rightarrow> demo_state \<Rightarrow> demo_state" where
  "demo_free c w = (freed c (fst w), snd w)"

definition demo_try :: "lease_conn \<Rightarrow> lock_key \<Rightarrow> demo_state \<Rightarrow> bool option \<times> demo_state" where
  "demo_try c k w =
     (if fst w k = None \<or> fst w k = Some c then (Some True, ((fst w)(k := Some c), snd w)) else (Some False, w))"

definition demo_server :: "demo_state lease_server" where
  "demo_server = \<lparr>
     sv_acquire = \<lambda>w. (let c = Suc (foldr max (snd w) 0) in Some (c, (fst w, c # snd w))),
     sv_begin = \<lambda>c w. (True, w),
     sv_identity = \<lambda>c w. Some (''shop'', int c),
     sv_session = \<lambda>c n w. (True, w),
     sv_try_lock = demo_try,
     sv_holder = \<lambda>c hi lo w. None,
     sv_held = \<lambda>c hi lo w. Some (fst w (demo_key hi lo) = Some c),
     sv_backend = \<lambda>c w. Some (int c),
     sv_rollback = \<lambda>c w. (True, demo_free c w),
     sv_discard = demo_free,
     sv_give_back = \<lambda>c w. (fst w, removeAll c (snd w)),
     sv_ping = \<lambda>c w. True,
     sv_sha = rev,
     sv_owner = fst,
     sv_out = \<lambda>w c. c \<in> set (snd w)\<rparr>"

lemma key_halves: "demo_key (key_high k) (key_low k) = k"
proof -
  have "uint (ucast (drop_bit 32 k) :: 32 word) = uint k div 2 ^ 32"
    using uint_lt2p [of k] zdiv_mono1 [of "uint k" "2 ^ 64 - 1" "2 ^ 32"]
    by (simp add: unsigned_ucast_eq unsigned_drop_bit_eq take_bit_eq_mod drop_bit_eq_div uint_div
        pos_imp_zdiv_nonneg_iff mod_pos_pos_trivial)
  moreover have "uint (ucast k :: 32 word) = uint k mod 2 ^ 32"
    by (simp add: unsigned_ucast_eq take_bit_eq_mod)
  ultimately have "key_high k * 2 ^ 32 + key_low k = uint k"
    unfolding key_high_def key_low_def by presburger
  then show ?thesis by (simp add: demo_key_def)
qed

lemma fresh_conn: "c \<in> set cs \<Longrightarrow> c \<le> foldr max cs (0::nat)"
  by (induction cs) auto

lemma demo_pool: "pool_laws demo_server"
  unfolding pool_laws_def
proof (intro conjI)
  have "Suc (foldr max cs 0) \<notin> set cs" for cs using fresh_conn [of "Suc (foldr max cs 0)" cs] by auto
  then show "\<forall>w c w'. sv_acquire demo_server w = Some (c, w') \<longrightarrow>
      \<not> sv_out demo_server w c \<and> sv_out demo_server w' = (sv_out demo_server w)(c := True)
      \<and> sv_owner demo_server w' = sv_owner demo_server w"
    by (auto simp: demo_server_def Let_def fun_eq_iff)
qed (auto simp: demo_server_def demo_try_def demo_free_def only_frees_def fun_eq_iff)

lemma demo_locks: "lock_laws demo_server"
  unfolding lock_laws_def
proof (intro conjI)
  show "\<forall>w c k b. sv_held demo_server c (key_high k) (key_low k) w = Some b \<longrightarrow>
      b = (sv_owner demo_server w k = Some c)"
    by (simp add: demo_server_def key_halves)
qed (auto simp: demo_server_def demo_try_def demo_free_def only_frees_def split: if_splits)

lemma demo_grants: "grants_free_locks demo_server"
  unfolding grants_free_locks_def by (auto simp: demo_server_def demo_try_def split: if_splits)

text \<open>The same server behind a pooler that has one connection.\<close>

definition pooled_server :: "demo_state lease_server" where
  "pooled_server = demo_server\<lparr>sv_acquire := \<lambda>w. if snd w = [] then sv_acquire demo_server w else None\<rparr>"

lemma pooled_laws: "pool_laws pooled_server" "lock_laws pooled_server" "grants_free_locks pooled_server"
proof -
  show "pool_laws pooled_server"
    using demo_pool unfolding pool_laws_def pooled_server_def by simp
  show "lock_laws pooled_server" using demo_locks unfolding lock_laws_def pooled_server_def by simp
  show "grants_free_locks pooled_server"
    using demo_grants unfolding grants_free_locks_def pooled_server_def by simp
qed

lemma demo_start: "lease_reachable demo_server ((\<lambda>k. None, []), [])"
  by (rule lease_reachable.start) (simp add: demo_server_def)

text \<open>One run holds the lease; the lock's key is not evaluated.\<close>

definition demo_lease :: lease where
  "demo_lease = \<lparr>le_conn = 1, le_key = lease_key demo_server ''shop'', le_run = ''one'', le_pid = 1,
     le_released = False\<rparr>"

definition demo_held :: demo_state where
  "demo_held = ((\<lambda>k. None)(lease_key demo_server ''shop'' := Some 1), [1])"

lemma demo_acquire: "acquire_lease demo_server ''one'' (\<lambda>k. None, []) = (Inr demo_lease, demo_held)"
  by (simp add: acquire_lease_def demo_server_def demo_try_def lease_leaves_room_def Let_def
      demo_lease_def demo_held_def lease_key_def)

lemma demo_refused:
  "acquire_lease demo_server ''two'' demo_held = (Inl (LeaseHeld ''shop'' []), demo_held)"
  by (simp add: acquire_lease_def demo_server_def demo_try_def give_up_lease_def end_lease_tx_def
      lease_holder_def demo_free_def Let_def demo_held_def lease_key_def freed_def fun_eq_iff)

lemma demo_reachable: "lease_reachable demo_server (demo_held, [demo_lease])"
  by (rule lease_reachable.step [OF demo_start lease_step.taken [OF demo_acquire]])

lemma demo_alive: "lease_alive demo_server demo_lease demo_held"
  by (simp add: lease_alive_def demo_lease_def demo_server_def key_halves demo_held_def)

lemma lease_exclusive_witness:
  "lease_alive demo_server demo_lease demo_held
    \<and> fst (acquire_lease demo_server ''two'' demo_held) = Inl (LeaseHeld ''shop'' [])
    \<and> sv_owner demo_server demo_held (le_key demo_lease) = Some (le_conn demo_lease)"
  using lease_exclusive [OF demo_pool demo_locks demo_reachable _ _ demo_alive demo_alive refl demo_refused]
  by (simp add: demo_alive demo_refused)

lemma pooled_start: "lease_reachable pooled_server ((\<lambda>k. None, []), [])"
  by (rule lease_reachable.start) (simp add: demo_server_def pooled_server_def)

lemma pooled_refused: "fst (acquire_lease pooled_server ''one'' (\<lambda>k. None, [])) = Inl LeaseFailed"
  by (simp add: acquire_lease_def pooled_server_def demo_server_def demo_try_def lease_leaves_room_def Let_def)

text \<open>Behind one connection the attempt has the lock, finds no room, and leaves nothing behind; with a
  holder the lock has an owner, and without one the next attempt is given it.\<close>

lemma lease_never_orphaned_witness:
  "sv_owner pooled_server (snd (acquire_lease pooled_server ''one'' (\<lambda>k. None, []))) = (\<lambda>k. None)
    \<and> sv_owner demo_server (snd (release_lease demo_server demo_lease demo_held)) (le_key demo_lease) = None
    \<and> (\<exists>l. fst (acquire_lease demo_server ''one'' (\<lambda>k. None, [])) = Inr l \<and> le_run l = ''one'')"
proof -
  obtain r w' where a: "acquire_lease pooled_server ''one'' (\<lambda>k. None, []) = (r, w')"
    by (rule prod.exhaust)
  have "sv_owner pooled_server w' = sv_owner pooled_server (\<lambda>k. None, [])"
    using lease_never_orphaned [OF pooled_laws pooled_start a] a pooled_refused by simp
  then have 1: "sv_owner pooled_server (snd (acquire_lease pooled_server ''one'' (\<lambda>k. None, []))) = (\<lambda>k. None)"
    using a by (simp add: pooled_server_def demo_server_def)
  have "sv_owner demo_server demo_held (le_key demo_lease) = Some 1"
    by (simp add: demo_server_def demo_held_def demo_lease_def)
  then have 2: "sv_owner demo_server (snd (release_lease demo_server demo_lease demo_held)) (le_key demo_lease) = None"
    using lease_never_orphaned [OF demo_pool demo_locks demo_grants demo_reachable demo_refused, THEN conjunct1,
        rule_format, of "le_key demo_lease" 1]
    by (simp only: list.set insert_iff empty_iff bex_simps) blast
  have "attempt_answered demo_server ''shop'' ''one'' (\<lambda>k. None, [])"
    by (auto simp: attempt_answered_def demo_server_def demo_try_def lease_leaves_room_def Let_def)
  moreover have "sv_owner demo_server (\<lambda>k. None, []) (lease_key demo_server ''shop'') = None"
    by (simp add: demo_server_def)
  ultimately have 3: "\<exists>l. fst (acquire_lease demo_server ''one'' (\<lambda>k. None, [])) = Inr l \<and> le_run l = ''one''"
    using lease_never_orphaned [OF demo_pool demo_locks demo_grants demo_start demo_acquire,
        where database = "''shop''", THEN conjunct2, THEN conjunct2]
    by (auto simp: demo_acquire)
  show ?thesis using 1 2 3 by blast
qed

end
