(* ===== verification/Write_Back.thy ===== *)
theory Write_Back
  imports Column_Shape
begin

text \<open>
  The two checks of the plan that need no row: \<open>internal/plan/writeback.go\<close>, that every masked column
  can hold what its masker emits, and \<open>internal/plan/fkpair.go\<close>, that no foreign-key pair is masked at
  one end alone. The text of a refusal is left out.
\<close>

definition refuse_column :: "plan_code \<Rightarrow> table_ref \<Rightarrow> string \<Rightarrow> refusal" where
  "refuse_column code t col = (refuse code exit_plan t)\<lparr>rf_column := col\<rparr>"

text \<open>A column's decision, when it is masked and has a category.\<close>

definition masked_decision :: "classification \<Rightarrow> column_ref \<Rightarrow> decision option" where
  "masked_decision cls cref =
     (case cls cref of
        None \<Rightarrow> None
      | Some d \<Rightarrow> if \<not> dc_masked d \<or> dc_category d = CatNone then None else Some d)"

definition unwritable :: "schema \<Rightarrow> classification \<Rightarrow> table_ref \<Rightarrow> column \<Rightarrow> bool" where
  "unwritable s cls t col \<longleftrightarrow>
     (case masked_decision cls (ColumnRef t (col_name col)) of
        None \<Rightarrow> False
      | Some d \<Rightarrow>
          if composite_type s col \<noteq> None then True
          else case constraints_of s col of
                 None \<Rightarrow> False
               | Some c \<Rightarrow> \<not> writable (category_name (dc_category d)) (dc_masker d) c)"

definition write_back_column :: "classification \<Rightarrow> table_ref \<Rightarrow> column \<Rightarrow> run \<Rightarrow> run" where
  "write_back_column cls t col p =
     (if unwritable (rn_schema p) cls t col then collect p (refuse_column CodeUnwritable t (col_name col)) else p)"

definition write_back_table :: "classification \<Rightarrow> table \<Rightarrow> run \<Rightarrow> run" where
  "write_back_table cls t p =
     (if tab_ref t \<notin> rn_in_scope p then p
      else fold (write_back_column cls (tab_ref t)) (tab_columns t) p)"

definition check_write_back :: "run \<Rightarrow> run" where
  "check_write_back p =
     (case rn_cls p of None \<Rightarrow> p | Some cls \<Rightarrow> fold (write_back_table cls) (rn_tables p) p)"

subsection \<open>Foreign-key pairs\<close>

definition unmasked_by_operator :: "decision \<Rightarrow> bool" where
  "unmasked_by_operator d \<longleftrightarrow> dc_source d = ByFlagUnmask \<or> dc_source d = ByYmlUnmask"

definition reconciled :: "decision \<Rightarrow> decision \<Rightarrow> bool" where
  "reconciled d partner \<longleftrightarrow>
     dc_category d \<noteq> CatNone \<and> dc_category d = dc_category partner \<and> dc_masked d \<and> dc_masked partner"

definition decision_at :: "classification \<Rightarrow> column_ref \<Rightarrow> decision" where
  "decision_at cls cref = (case cls cref of Some d \<Rightarrow> d | None \<Rightarrow> decision_zero)"

definition fk_pair_refused :: "classification \<Rightarrow> column_ref \<Rightarrow> bool" where
  "fk_pair_refused cls cref \<longleftrightarrow>
     (case cls cref of
        None \<Rightarrow> False
      | Some d \<Rightarrow>
          (let partner = decision_at cls (dc_refused_partner d) in
           dc_refused d \<noteq> [] \<and> \<not> (unmasked_by_operator d \<and> unmasked_by_operator partner)
           \<and> \<not> reconciled d partner))"

definition table_columns :: "table \<Rightarrow> column_ref list" where
  "table_columns t = map (\<lambda>c. ColumnRef (tab_ref t) (col_name c)) (tab_columns t)"

definition check_fk_pair :: "run \<Rightarrow> refusal option" where
  "check_fk_pair p =
     (case rn_cls p of
        None \<Rightarrow> None
      | Some cls \<Rightarrow>
          map_option (\<lambda>c. refuse_column CodeFKPair (ref_table c) (ref_column c))
            (find (fk_pair_refused cls)
               (concat (map table_columns (filter (\<lambda>t. tab_ref t \<in> rn_in_scope p) (rn_tables p))))))"

subsection \<open>What the checks leave\<close>

text \<open>\<open>checkWriteBack\<close> only collects: one refusal for each unwritable column, in order.\<close>

lemma write_back_columns:
  "fold (write_back_column cls t) cols p =
     p\<lparr>rn_refusals := rn_refusals p @ map (\<lambda>c. refuse_column CodeUnwritable t (col_name c))
        (filter (unwritable (rn_schema p) cls t) cols)\<rparr>"
  by (induction cols arbitrary: p) (simp_all add: write_back_column_def collect_def)

definition unwritable_columns :: "run \<Rightarrow> classification \<Rightarrow> refusal list" where
  "unwritable_columns p cls =
     concat (map (\<lambda>t. map (\<lambda>c. refuse_column CodeUnwritable (tab_ref t) (col_name c))
         (filter (unwritable (rn_schema p) cls (tab_ref t)) (tab_columns t)))
       (filter (\<lambda>t. tab_ref t \<in> rn_in_scope p) (rn_tables p)))"

lemma write_back_tables:
  "fold (write_back_table cls) ts p =
     p\<lparr>rn_refusals := rn_refusals p @
       concat (map (\<lambda>t. map (\<lambda>c. refuse_column CodeUnwritable (tab_ref t) (col_name c))
           (filter (unwritable (rn_schema p) cls (tab_ref t)) (tab_columns t)))
         (filter (\<lambda>t. tab_ref t \<in> rn_in_scope p) ts))\<rparr>"
  by (induction ts arbitrary: p) (simp_all add: write_back_table_def write_back_columns)

lemma check_write_back_collects:
  "check_write_back p =
     (case rn_cls p of
        None \<Rightarrow> p
      | Some cls \<Rightarrow> p\<lparr>rn_refusals := rn_refusals p @ unwritable_columns p cls\<rparr>)"
  by (simp add: check_write_back_def write_back_tables unwritable_columns_def split: option.splits)

lemma check_write_back_passed:
  assumes "rn_refusals (check_write_back p) = rn_refusals p" and "rn_cls p = Some cls"
    and "t \<in> set (rn_tables p)" and "tab_ref t \<in> rn_in_scope p" and "col \<in> set (tab_columns t)"
    and "masked_decision cls (ColumnRef (tab_ref t) (col_name col)) = Some d"
  shows "composite_type (rn_schema p) col = None"
    and "constraints_of (rn_schema p) col = Some c \<Longrightarrow>
      writable (category_name (dc_category d)) (dc_masker d) c"
proof -
  have "unwritable_columns p cls = []"
    using assms(1, 2) by (simp add: check_write_back_collects)
  then have "\<not> unwritable (rn_schema p) cls (tab_ref t) col"
    using assms(3-5) by (fastforce simp: unwritable_columns_def filter_empty_conv)
  then show "composite_type (rn_schema p) col = None"
    "constraints_of (rn_schema p) col = Some c \<Longrightarrow>
      writable (category_name (dc_category d)) (dc_masker d) c"
    using assms(6) by (auto simp: unwritable_def split: if_splits)
qed

lemma check_fk_pair_passed:
  assumes "check_fk_pair p = None" and "rn_cls p = Some cls"
    and "t \<in> set (rn_tables p)" and "tab_ref t \<in> rn_in_scope p" and "c \<in> set (table_columns t)"
  shows "\<not> fk_pair_refused cls c"
  using assms by (auto simp: check_fk_pair_def find_None_iff)

end
