(* ===== verification/Equality.thy ===== *)
theory Equality
  imports Write_Back
begin

text \<open>
  \<open>internal/plan/equality.go\<close> and \<open>unique.go\<close>: the columns a run masks are put into groups joined by
  foreign keys, each group is given one masker that is wide enough and fits every member, and the
  decisions are rewritten to it. The text of a refusal is left out; which refusal it is, and on which
  column, is not.
\<close>

record group_member =
  gm_cref :: column_ref
  gm_tbl :: table_ref
  gm_col :: string
  gm_cat :: string
  gm_cur :: string
  gm_cons :: constraints

subsection \<open>The members\<close>

definition planned_rows :: "run \<Rightarrow> table_ref \<Rightarrow> int" where
  "planned_rows p t =
     (if t \<in> rn_lookups p then rn_lookup_rows p t
      else case rn_selected p t of Some ks \<Rightarrow> int (keys_len ks) | None \<Rightarrow> 0)"

definition member_of :: "run \<Rightarrow> classification \<Rightarrow> table_ref \<Rightarrow> int \<Rightarrow> column \<Rightarrow> group_member option" where
  "member_of p cls t rows col =
     (let cref = ColumnRef t (col_name col) in
      case masked_decision cls cref of
        None \<Rightarrow> None
      | Some d \<Rightarrow>
          (case constraints_of (rn_schema p) col of
             None \<Rightarrow> None
           | Some c \<Rightarrow>
               Some \<lparr>gm_cref = cref, gm_tbl = t, gm_col = col_name col,
                 gm_cat = category_name (dc_category d), gm_cur = dc_masker d,
                 gm_cons = c\<lparr>co_unique := dc_unique_index d, co_rows := rows, co_role := dc_role d\<rparr>\<rparr>))"

definition table_members :: "run \<Rightarrow> classification \<Rightarrow> table \<Rightarrow> group_member list" where
  "table_members p cls t =
     (let rows = planned_rows p (tab_ref t) in
      if rows \<le> 0 then [] else List.map_filter (member_of p cls (tab_ref t) rows) (tab_columns t))"

definition masked_members :: "run \<Rightarrow> classification \<Rightarrow> group_member list" where
  "masked_members p cls = concat (map (table_members p cls) (rn_tables p))"

subsection \<open>Groups\<close>

text \<open>\<open>find\<close> with its path compression, and \<open>union\<close>: the smaller reference is the root.\<close>

type_synonym forest = "column_ref \<Rightarrow> column_ref option"

partial_function (option) uf_find :: "column_ref \<Rightarrow> forest \<Rightarrow> (column_ref \<times> forest) option" where
  "uf_find c f =
     (case f c of
        None \<Rightarrow> Some (c, f)
      | Some up \<Rightarrow>
          if up = c then Some (c, f)
          else Option.bind (uf_find up f) (\<lambda>r. Some (fst r, (snd r)(c \<mapsto> fst r))))"

declare uf_find.simps [code]

definition uf_union :: "column_ref \<times> column_ref \<Rightarrow> forest \<Rightarrow> forest option" where
  "uf_union e f =
     (case uf_find (fst e) f of
        None \<Rightarrow> None
      | Some (ra, f1) \<Rightarrow>
          (case uf_find (snd e) f1 of
             None \<Rightarrow> None
           | Some (rb, f2) \<Rightarrow>
               Some (if ra = rb then f2
                     else if rb < ra then f2(ra \<mapsto> rb)
                     else f2(rb \<mapsto> ra))))"

definition fk_edges :: "foreign_key \<Rightarrow> (column_ref \<times> column_ref) list" where
  "fk_edges fk =
     map (\<lambda>(a, b). (ColumnRef (fk_child fk) a, ColumnRef (fk_parent fk) b))
       (zip (fk_child_cols fk) (fk_parent_cols fk))"

fun uf_unions :: "(column_ref \<times> column_ref) list \<Rightarrow> forest \<Rightarrow> forest option" where
  "uf_unions [] f = Some f"
| "uf_unions (e # es) f = (case uf_union e f of None \<Rightarrow> None | Some f' \<Rightarrow> uf_unions es f')"

text \<open>The loop over the members: \<open>at\<close> is the group of a root and a category.\<close>

record group_state =
  gs_forest :: forest
  gs_at :: "column_ref \<times> string \<Rightarrow> nat option"
  gs_groups :: "group_member list list"

definition group_member_step :: "group_member \<Rightarrow> group_state \<Rightarrow> group_state option" where
  "group_member_step m s =
     (case uf_find (gm_cref m) (gs_forest s) of
        None \<Rightarrow> None
      | Some (root, f) \<Rightarrow>
          Some (case gs_at s (root, gm_cat m) of
                  Some i \<Rightarrow> s\<lparr>gs_forest := f, gs_groups := (gs_groups s)[i := gs_groups s ! i @ [m]]\<rparr>
                | None \<Rightarrow>
                    s\<lparr>gs_forest := f, gs_at := (gs_at s)((root, gm_cat m) \<mapsto> length (gs_groups s)),
                      gs_groups := gs_groups s @ [[m]]\<rparr>))"

fun group_members :: "group_member list \<Rightarrow> group_state \<Rightarrow> group_state option" where
  "group_members [] s = Some s"
| "group_members (m # ms) s =
     (case group_member_step m s of None \<Rightarrow> None | Some s' \<Rightarrow> group_members ms s')"

definition equality_groups :: "foreign_key list \<Rightarrow> group_member list \<Rightarrow> group_member list list option" where
  "equality_groups fks ms =
     (case uf_unions (concat (map fk_edges fks)) Map.empty of
        None \<Rightarrow> None
      | Some f \<Rightarrow>
          map_option gs_groups
            (group_members ms \<lparr>gs_forest = f, gs_at = Map.empty, gs_groups = []\<rparr>))"

subsection \<open>The widest masker\<close>

definition group_width :: "string \<Rightarrow> group_member list \<Rightarrow> int" where
  "group_width mid g =
     fold (\<lambda>m w. let d = admissible mid (gm_cons m) in if d < w then d else w) g max_int64"

definition widest_step :: "group_member list \<Rightarrow> string \<Rightarrow> string \<times> int \<times> string set \<Rightarrow> string \<times> int \<times> string set" where
  "widest_step g mid acc =
     (case acc of (best, bw, seen) \<Rightarrow>
        if mid \<in> seen then acc
        else let w = group_width mid g in
          if bw < w \<or> w = bw \<and> mid < best then (mid, w, insert mid seen) else (best, bw, insert mid seen))"

definition widest :: "group_member list \<Rightarrow> string list \<Rightarrow> string" where
  "widest g needed = fst (fold (widest_step g) needed ([], -1, {}))"

subsection \<open>Fitting the group\<close>

definition refuse_equality :: "group_member list \<Rightarrow> refusal" where
  "refuse_equality g =
     (let anchor = (case find (\<lambda>m. co_unique (gm_cons m)) g of Some m \<Rightarrow> m | None \<Rightarrow> hd g);
          code = (if 1 < length g then CodeEqualityGroup else CodeUniqueDomain)
      in refuse_column code (gm_tbl anchor) (gm_col anchor))"

definition closed_column :: "constraints \<Rightarrow> bool" where
  "closed_column c \<longleftrightarrow> column_domain c \<noteq> column_domain (c\<lparr>co_enum_labels := [], co_checks := []\<rparr>)"

definition same_closed_set :: "constraints \<Rightarrow> constraints \<Rightarrow> bool" where
  "same_closed_set a b \<longleftrightarrow> co_enum_labels a = co_enum_labels b \<and> co_checks a = co_checks b"

definition member_fits :: "string \<Rightarrow> string \<Rightarrow> group_member \<Rightarrow> bool" where
  "member_fits cat best m \<longleftrightarrow>
     writable cat best (gm_cons m)
     \<and> (co_unique (gm_cons m) \<longrightarrow> required (co_rows (gm_cons m)) \<le> admissible best (gm_cons m))"

definition members_agree :: "constraints \<Rightarrow> group_member \<Rightarrow> bool" where
  "members_agree c m \<longleftrightarrow>
     \<not> closed_column c \<and> \<not> closed_column (gm_cons m) \<or> same_closed_set c (gm_cons m)"

definition fits_group :: "group_member list \<Rightarrow> string \<Rightarrow> refusal option" where
  "fits_group g best =
     (if \<not> list_all (member_fits (gm_cat (hd g)) best) g then Some (refuse_equality g)
      else if length g < 2 then None
      else if \<not> list_all (members_agree (gm_cons (hd g))) (tl g) then Some (refuse_equality g)
      else case get_masker best of
             None \<Rightarrow> None
           | Some m \<Rightarrow>
               if list_all (\<lambda>x. masker_domain m (gm_cons x) = masker_domain m (gm_cons (hd g))) (tl g)
               then None else Some (refuse_equality g))"

subsection \<open>Choosing\<close>

text \<open>\<open>agreeOnRole\<close> on the members and on their decisions.\<close>

definition set_decision :: "(decision \<Rightarrow> decision) \<Rightarrow> column_ref \<Rightarrow> classification \<Rightarrow> classification" where
  "set_decision upd cref cls = cls(cref \<mapsto> upd (decision_at cls cref))"

definition roles_agree :: "group_member list \<Rightarrow> bool" where
  "roles_agree g \<longleftrightarrow> list_all (\<lambda>m. co_role (gm_cons m) = co_role (gm_cons (hd g))) (tl g)"

definition agree_on_role :: "group_member list \<Rightarrow> classification \<Rightarrow> group_member list \<times> classification" where
  "agree_on_role g cls =
     (if roles_agree g then (g, cls)
      else (map (\<lambda>m. m\<lparr>gm_cons := (gm_cons m)\<lparr>co_role := role_full\<rparr>\<rparr>) g,
            fold (\<lambda>m. set_decision (\<lambda>d. d\<lparr>dc_role := role_full\<rparr>) (gm_cref m)) g cls))"

text \<open>The loop over \<open>mask.Pick\<close>: the maskers needed, or the group is left alone, or refused.\<close>

datatype needed = Needed "string list" | LeftAlone | NeedRefused refusal

fun needed_maskers :: "string \<Rightarrow> group_member list \<Rightarrow> needed" where
  "needed_maskers cat [] = Needed []"
| "needed_maskers cat (m # ms) =
     (case pick_masker cat (gm_cons m) of
        Inr mid \<Rightarrow>
          (case needed_maskers cat ms of Needed ids \<Rightarrow> Needed (mid # ids) | r \<Rightarrow> r)
      | Inl (NoRoomError r) \<Rightarrow> LeftAlone
      | Inl ErrNoRoom \<Rightarrow> LeftAlone
      | Inl ErrNoCategory \<Rightarrow> LeftAlone
      | Inl e \<Rightarrow> NeedRefused (refuse CodeUniqueDomain exit_plan (gm_tbl m)))"

definition set_maskers :: "string \<Rightarrow> group_member list \<Rightarrow> classification \<Rightarrow> classification" where
  "set_maskers best g =
     fold (\<lambda>m cls. if gm_cur m = best then cls
             else set_decision (\<lambda>d. d\<lparr>dc_masker := best\<rparr>) (gm_cref m) cls) g"

definition choose_group_masker :: "group_member list \<Rightarrow> classification \<Rightarrow> refusal option \<times> classification" where
  "choose_group_masker g cls =
     (case agree_on_role g cls of (g', cls') \<Rightarrow>
        (case needed_maskers (gm_cat (hd g)) g' of
           LeftAlone \<Rightarrow> (None, cls')
         | NeedRefused r \<Rightarrow> (Some r, cls')
         | Needed ids \<Rightarrow>
             (let best = widest g' ids in
              if best = [] then (None, cls')
              else case fits_group g' best of
                     Some r \<Rightarrow> (Some r, cls')
                   | None \<Rightarrow> (None, set_maskers best g' cls'))))"

definition unique_domain_step :: "group_member list \<Rightarrow> classification \<times> refusal list \<Rightarrow> classification \<times> refusal list" where
  "unique_domain_step g acc =
     (case choose_group_masker g (fst acc) of
        (r, cls) \<Rightarrow> (cls, snd acc @ (case r of None \<Rightarrow> [] | Some x \<Rightarrow> [x])))"

definition check_unique_domain :: "run \<Rightarrow> run option" where
  "check_unique_domain p =
     (case rn_cls p of
        None \<Rightarrow> Some p
      | Some cls \<Rightarrow>
          map_option
            (\<lambda>gs. case fold unique_domain_step gs (cls, rn_refusals p) of
                    (cls', rs) \<Rightarrow> p\<lparr>rn_cls := Some cls', rn_refusals := rs\<rparr>)
            (equality_groups (rn_fks p) (masked_members p cls)))"

end
