(* ===== verification/Equality_Correct.thy ===== *)
theory Equality_Correct
  imports Equality
begin

text \<open>
  Why the groups of \<open>equality.go\<close> are the right ones, and what \<open>unique.go\<close> makes of them: the
  union-find terminates and its classes are the connected components of the foreign keys' columns, the
  groups are the members by class and category, and a group that is not refused has one masker.
\<close>

subsection \<open>The forest\<close>

text \<open>A parent is smaller than its child, and there are finitely many: every chain ends in a root.\<close>

definition uf_ok :: "forest \<Rightarrow> bool" where
  "uf_ok f \<longleftrightarrow> finite (dom f) \<and> (\<forall>c up. f c = Some up \<longrightarrow> up < c)"

inductive uf_root :: "forest \<Rightarrow> column_ref \<Rightarrow> column_ref \<Rightarrow> bool" for f where
  here: "f c = None \<Longrightarrow> uf_root f c c"
| up: "f c = Some u \<Longrightarrow> uf_root f u r \<Longrightarrow> uf_root f c r"

inductive_simps uf_root_unfold: "uf_root f c r"

definition chain_below :: "forest \<Rightarrow> column_ref \<Rightarrow> nat" where
  "chain_below f c = card {x \<in> dom f. x \<le> c}"

lemma chain_below_up:
  assumes "uf_ok f" and "f c = Some u"
  shows "chain_below f u < chain_below f c"
proof -
  have "u < c" using assms by (simp add: uf_ok_def)
  then have "{x \<in> dom f. x \<le> u} \<subseteq> {x \<in> dom f. x \<le> c}" "c \<in> {x \<in> dom f. x \<le> c}"
    "c \<notin> {x \<in> dom f. x \<le> u}" using assms(2) by (auto intro: order_trans less_imp_le)
  then have "{x \<in> dom f. x \<le> u} \<subset> {x \<in> dom f. x \<le> c}" by blast
  then show ?thesis using assms(1) by (simp add: chain_below_def psubset_card_mono uf_ok_def)
qed

lemma uf_induct [consumes 1, case_names root up]:
  assumes "uf_ok f"
    and "\<And>c. f c = None \<Longrightarrow> P c"
    and "\<And>c u. f c = Some u \<Longrightarrow> u < c \<Longrightarrow> P u \<Longrightarrow> P c"
  shows "P c"
proof (induction c rule: measure_induct_rule [of "chain_below f"])
  case (less c)
  show ?case
  proof (cases "f c")
    case (Some u)
    then have "u < c" using assms(1) by (simp add: uf_ok_def)
    then show ?thesis using assms(3) [OF Some] less [of u] chain_below_up [OF assms(1) Some] by blast
  qed (use assms(2) in blast)
qed

lemma uf_root_ex: "uf_ok f \<Longrightarrow> \<exists>r. uf_root f c r"
  by (induction c rule: uf_induct) (blast intro: uf_root.intros)+

lemma uf_root_unique: "uf_root f c r \<Longrightarrow> uf_root f c s \<Longrightarrow> r = s"
proof (induction arbitrary: s rule: uf_root.induct)
  case (here c)
  then show ?case by (auto elim: uf_root.cases)
next
  case (up c u r)
  from up.prems up.hyps(1) have "uf_root f u s" by (cases rule: uf_root.cases) auto
  then show ?case by (rule up.IH)
qed

lemma uf_root_top: "uf_root f c r \<Longrightarrow> f r = None"
  by (induction rule: uf_root.induct) auto

definition rep :: "forest \<Rightarrow> column_ref \<Rightarrow> column_ref" where
  "rep f c = (THE r. uf_root f c r)"

lemma rep_eq: "uf_root f c r \<Longrightarrow> rep f c = r"
  unfolding rep_def by (rule the_equality) (auto dest: uf_root_unique)

lemma rep_root: "uf_ok f \<Longrightarrow> uf_root f c (rep f c)"
  using uf_root_ex [of f c] rep_eq by auto

lemma rep_none: "f c = None \<Longrightarrow> rep f c = c"
  by (rule rep_eq) (rule uf_root.here)

lemma rep_up: "uf_ok f \<Longrightarrow> f c = Some u \<Longrightarrow> rep f c = rep f u"
  by (rule rep_eq) (blast intro: uf_root.up rep_root)

lemma rep_top: "uf_ok f \<Longrightarrow> f (rep f c) = None"
  by (rule uf_root_top [OF rep_root])

lemma rep_le:
  assumes "uf_ok f"
  shows "rep f c \<le> c"
  using assms
proof (induction c rule: uf_induct)
  case (root c)
  then show ?case by (simp add: rep_none)
next
  case (up c u)
  then show ?case using rep_up [OF assms up(1)] by (simp add: order_trans [OF _ less_imp_le])
qed

lemma rep_below:
  assumes "uf_ok f" and "f c = Some u"
  shows "rep f c < c"
proof -
  have "u < c" using assms by (simp add: uf_ok_def)
  moreover have "rep f c \<le> u" using rep_le [OF assms(1), of u] rep_up [OF assms] by simp
  ultimately show ?thesis by (rule order.strict_trans1 [rotated])
qed

text \<open>Path compression changes no root; a link merges two.\<close>

lemma rep_compress:
  assumes ok: "uf_ok f" and c: "f c = Some u"
  shows "uf_ok (f(c \<mapsto> rep f c))" and "rep (f(c \<mapsto> rep f c)) = rep f"
proof -
  let ?f = "f(c \<mapsto> rep f c)"
  show ok': "uf_ok ?f" using ok rep_below [OF ok c] by (auto simp: uf_ok_def)
  have top: "?f (rep f c) = None"
    using rep_top [OF ok, of c] rep_below [OF ok c] by simp
  have "uf_root f x r \<Longrightarrow> uf_root ?f x r" for x r
  proof (induction rule: uf_root.induct)
    case (here x)
    then have "?f x = None" using c by (cases "x = c") simp_all
    then show ?case by (rule uf_root.here)
  next
    case (up x v r)
    show ?case
    proof (cases "x = c")
      case True
      have "uf_root f c r" using uf_root.up [of f x v r] up.hyps True by simp
      then have "r = rep f c" using rep_eq by simp
      then show ?thesis using True top uf_root.up [of ?f x "rep f c" r] uf_root.here [of ?f "rep f c"]
        by (simp only: fun_upd_same)
    next
      case False
      then have "?f x = Some v" using up.hyps by simp
      then show ?thesis using up.IH by (rule uf_root.up)
    qed
  qed
  then show "rep ?f = rep f" using rep_root [OF ok] rep_eq by (intro ext) blast
qed

lemma rep_link:
  assumes ok: "uf_ok f" and a: "f a = None" and b: "f b = None" and "a < b"
  shows "uf_ok (f(b \<mapsto> a))" and "rep (f(b \<mapsto> a)) x = (if rep f x = b then a else rep f x)"
proof -
  let ?f = "f(b \<mapsto> a)"
  show "uf_ok ?f" using ok assms(4) by (auto simp: uf_ok_def)
  have "uf_root f x r \<Longrightarrow> uf_root ?f x (if r = b then a else r)" for x r
  proof (induction rule: uf_root.induct)
    case (here x)
    show ?case
    proof (cases "x = b")
      case True
      have "?f a = None" "?f b = Some a" using a assms(4) by simp_all
      then have "uf_root ?f b a" by (blast intro: uf_root.intros)
      then have "uf_root ?f b (if b = b then a else b)" by (simp only: refl if_True)
      then show ?thesis by (simp only: True)
    next
      case False
      then have "?f x = None" using here by simp
      then have "uf_root ?f x x" by (rule uf_root.here)
      then show ?thesis using False by (simp only: if_False)
    qed
  next
    case (up x v r)
    then have "?f x = Some v" using b by auto
    then show ?case using up.IH by (rule uf_root.up)
  qed
  then show "rep ?f x = (if rep f x = b then a else rep f x)" using rep_root [OF ok, of x] rep_eq by blast
qed

lemma uf_find_rep:
  assumes "uf_ok f"
  shows "\<exists>f'. uf_find c f = Some (rep f c, f') \<and> uf_ok f' \<and> rep f' = rep f
    \<and> (\<forall>x. f' x = None \<longleftrightarrow> f x = None)"
  using assms
proof (induction c rule: uf_induct)
  case (root c)
  then show ?case using assms by (simp add: uf_find.simps rep_none)
next
  case (up c u)
  then obtain f1 where f1: "uf_find u f = Some (rep f u, f1)" "uf_ok f1" "rep f1 = rep f"
    "\<forall>x. f1 x = None \<longleftrightarrow> f x = None" by blast
  have r: "rep f c = rep f u" using rep_up [OF assms up(1)] .
  have "c \<noteq> u" using up(2) by simp
  then have find: "uf_find c f = Some (rep f c, f1(c \<mapsto> rep f c))"
    by (subst uf_find.simps) (simp add: up(1) f1(1) r)
  have "f1 c \<noteq> None" using f1(4) up(1) by simp
  then obtain v where v: "f1 c = Some v" by auto
  have c: "rep f1 c = rep f c" by (simp add: f1(3))
  note new = rep_compress [OF f1(2) v, unfolded c]
  have "\<forall>x. (f1(c \<mapsto> rep f c)) x = None \<longleftrightarrow> f x = None"
    using f1(4) up(1) by simp
  moreover have "rep (f1(c \<mapsto> rep f c)) = rep f" by (rule trans [OF new(2) f1(3)])
  ultimately show ?case using find new(1) by blast
qed

subsection \<open>Connected columns\<close>

definition joined :: "(column_ref \<times> column_ref) set \<Rightarrow> (column_ref \<times> column_ref) set" where
  "joined E = (E \<union> E\<inverse>)\<^sup>*"

definition same_root :: "forest \<Rightarrow> (column_ref \<times> column_ref) set" where
  "same_root f = {(a, b). rep f a = rep f b}"

lemma joined_mono: "A \<subseteq> B \<Longrightarrow> joined A \<subseteq> joined B"
  unfolding joined_def by (rule rtrancl_mono) auto

lemma joined_sub: "A \<subseteq> joined A"
  unfolding joined_def by auto

lemma joined_sym: "(a, b) \<in> joined A \<Longrightarrow> (b, a) \<in> joined A"
proof -
  have "sym (A \<union> A\<inverse>)" by (auto simp: sym_def)
  then show "(a, b) \<in> joined A \<Longrightarrow> (b, a) \<in> joined A"
    unfolding joined_def by (metis sym_rtrancl symD)
qed

lemma joined_trans: "(a, b) \<in> joined A \<Longrightarrow> (b, c) \<in> joined A \<Longrightarrow> (a, c) \<in> joined A"
  unfolding joined_def by (rule rtrancl_trans)

lemma joined_refl: "(a, a) \<in> joined A"
  unfolding joined_def by simp

lemma joined_least:
  assumes "A \<subseteq> R" and "\<And>a. (a, a) \<in> R" and "\<And>a b. (a, b) \<in> R \<Longrightarrow> (b, a) \<in> R"
    and "\<And>a b c. (a, b) \<in> R \<Longrightarrow> (b, c) \<in> R \<Longrightarrow> (a, c) \<in> R"
  shows "joined A \<subseteq> R"
proof
  fix p assume "p \<in> joined A"
  then have "(fst p, snd p) \<in> (A \<union> A\<inverse>)\<^sup>*" by (simp add: joined_def)
  then have "(fst p, snd p) \<in> R"
    by (induction rule: rtrancl_induct) (use assms in blast)+
  then show "p \<in> R" by simp
qed

lemma joined_joined: "joined (joined A \<union> B) = joined (A \<union> B)"
proof
  show "joined (joined A \<union> B) \<subseteq> joined (A \<union> B)"
  proof (rule joined_least)
    show "joined A \<union> B \<subseteq> joined (A \<union> B)"
      using joined_mono [of A "A \<union> B"] joined_sub [of "A \<union> B"] by blast
  qed (blast intro: joined_refl joined_sym joined_trans)+
  show "joined (A \<union> B) \<subseteq> joined (joined A \<union> B)"
    by (rule joined_mono) (use joined_sub [of A] in blast)
qed

lemma same_root_equiv:
  "(a, a) \<in> same_root f" "(a, b) \<in> same_root f \<Longrightarrow> (b, a) \<in> same_root f"
  "(a, b) \<in> same_root f \<Longrightarrow> (b, c) \<in> same_root f \<Longrightarrow> (a, c) \<in> same_root f"
  by (simp_all add: same_root_def)

lemma same_root_merge:
  assumes "\<And>x. rep f' x = (if rep f x = s then t else rep f x)"
    and "{s, t} = {rep f a, rep f b}"
  shows "same_root f' = joined (same_root f \<union> {(a, b)})"
proof
  show "joined (same_root f \<union> {(a, b)}) \<subseteq> same_root f'"
    by (rule joined_least) (use assms in \<open>auto simp: same_root_def doubleton_eq_iff\<close>)
  show "same_root f' \<subseteq> joined (same_root f \<union> {(a, b)})"
  proof
    fix p assume "p \<in> same_root f'"
    then obtain x y where p: "p = (x, y)" "rep f' x = rep f' y" by (auto simp: same_root_def)
    let ?J = "joined (same_root f \<union> {(a, b)})"
    have keep: "(u, v) \<in> ?J" if "rep f u = rep f v" for u v
      using that joined_sub [of "same_root f \<union> {(a, b)}"] by (auto simp: same_root_def)
    have ab: "(a, b) \<in> ?J" "(b, a) \<in> ?J"
      using joined_sub [of "same_root f \<union> {(a, b)}"] joined_sym by auto
    consider "rep f x = rep f y" | "rep f x = rep f a" "rep f y = rep f b"
      | "rep f x = rep f b" "rep f y = rep f a"
      using p(2) assms by (auto simp: doubleton_eq_iff split: if_splits)
    then have "(x, y) \<in> ?J"
    proof cases
      case 2
      then show ?thesis using keep [of x a] ab(1) keep [of b y] joined_trans by metis
    next
      case 3
      then show ?thesis using keep [of x b] ab(2) keep [of a y] joined_trans by metis
    qed (rule keep)
    then show "p \<in> ?J" by (simp add: p)
  qed
qed

lemma uf_union_joins:
  assumes "uf_ok f"
  shows "\<exists>f'. uf_union e f = Some f' \<and> uf_ok f' \<and> same_root f' = joined (same_root f \<union> {e})"
proof -
  obtain a b where e: "e = (a, b)" by fastforce
  obtain f1 where f1: "uf_find a f = Some (rep f a, f1)" "uf_ok f1" "rep f1 = rep f"
    using uf_find_rep [OF assms, of a] by blast
  obtain f2 where f2: "uf_find b f1 = Some (rep f b, f2)" "uf_ok f2" "rep f2 = rep f"
    using uf_find_rep [OF f1(2), of b] f1(3) by auto
  have top: "f2 (rep f a) = None" "f2 (rep f b) = None"
    using rep_top [OF f2(2), of a] rep_top [OF f2(2), of b] by (simp_all add: f2(3))
  consider (same) "rep f a = rep f b" | (below) "rep f b < rep f a" | (above) "rep f a < rep f b"
    by (meson linorder_less_linear)
  then show ?thesis
  proof cases
    case same
    then have u: "uf_union e f = Some f2" by (simp add: uf_union_def e f1(1) f2(1))
    have "same_root f2 = joined (same_root f \<union> {e})" unfolding e
      by (rule same_root_merge [of f2 f "rep f a" "rep f b"]) (simp_all add: f2(3) same)
    then show ?thesis using u f2(2) by blast
  next
    case below
    then have u: "uf_union e f = Some (f2(rep f a \<mapsto> rep f b))" by (auto simp: uf_union_def e f1(1) f2(1))
    have "same_root (f2(rep f a \<mapsto> rep f b)) = joined (same_root f \<union> {e})" unfolding e
      by (rule same_root_merge) (use rep_link(2) [OF f2(2) top(2) top(1) below] in \<open>simp_all add: f2(3) insert_commute\<close>)
    then show ?thesis using u rep_link(1) [OF f2(2) top(2) top(1) below] by blast
  next
    case above
    then have u: "uf_union e f = Some (f2(rep f b \<mapsto> rep f a))" by (auto simp: uf_union_def e f1(1) f2(1))
    have "same_root (f2(rep f b \<mapsto> rep f a)) = joined (same_root f \<union> {e})" unfolding e
      by (rule same_root_merge [where s = "rep f b" and t = "rep f a"])
        (simp_all add: rep_link(2) [OF f2(2) top above] f2(3) insert_commute del: fun_upd_apply)
    then show ?thesis using u rep_link(1) [OF f2(2) top above] by blast
  qed
qed

lemma uf_unions_join:
  assumes "uf_ok f"
  shows "\<exists>f'. uf_unions es f = Some f' \<and> uf_ok f' \<and> same_root f' = joined (same_root f \<union> set es)"
  using assms
proof (induction es arbitrary: f)
  case Nil
  have "joined (same_root f) = same_root f"
    using joined_least [of "same_root f" "same_root f"] joined_sub [of "same_root f"] same_root_equiv by blast
  then show ?case using Nil by simp
next
  case (Cons e es)
  obtain f1 where f1: "uf_union e f = Some f1" "uf_ok f1" "same_root f1 = joined (same_root f \<union> {e})"
    using uf_union_joins [OF Cons.prems] by blast
  obtain f2 where "uf_unions es f1 = Some f2" "uf_ok f2" "same_root f2 = joined (same_root f1 \<union> set es)"
    using Cons.IH [OF f1(2)] by blast
  then show ?case using f1 joined_joined [of "same_root f \<union> {e}" "set es"] by (simp add: Un_assoc)
qed

definition fk_joined :: "foreign_key list \<Rightarrow> (column_ref \<times> column_ref) set" where
  "fk_joined fks = joined (set (concat (map fk_edges fks)))"

lemma foreign_key_forest:
  "\<exists>f. uf_unions (concat (map fk_edges fks)) Map.empty = Some f \<and> uf_ok f
    \<and> (\<forall>a b. rep f a = rep f b \<longleftrightarrow> (a, b) \<in> fk_joined fks)"
proof -
  have "uf_ok Map.empty" by (simp add: uf_ok_def)
  from uf_unions_join [OF this, of "concat (map fk_edges fks)"] obtain f where f:
    "uf_unions (concat (map fk_edges fks)) Map.empty = Some f" "uf_ok f"
    "same_root f = joined (same_root Map.empty \<union> set (concat (map fk_edges fks)))" by blast
  have "same_root Map.empty = Id" by (auto simp: same_root_def rep_none)
  moreover have "joined (Id \<union> B) = joined B" for B
    using joined_joined [of "{}" B] by (simp add: joined_def Id_def)
  ultimately have "same_root f = fk_joined fks" using f(3) by (simp add: fk_joined_def)
  then show ?thesis using f by (auto simp: same_root_def)
qed

subsection \<open>The groups\<close>

text \<open>What the loop over the members keeps: the groups are the members by key, in the order seen.\<close>

definition member_key :: "(column_ref \<Rightarrow> column_ref) \<Rightarrow> group_member \<Rightarrow> column_ref \<times> string" where
  "member_key R m = (R (gm_cref m), gm_cat m)"

definition grouped ::
  "(column_ref \<Rightarrow> column_ref) \<Rightarrow> (column_ref \<times> string) list \<Rightarrow> group_member list \<Rightarrow> group_state \<Rightarrow> bool" where
  "grouped R ks ms s \<longleftrightarrow>
     uf_ok (gs_forest s) \<and> rep (gs_forest s) = R \<and> distinct ks \<and> set ks = member_key R ` set ms
     \<and> (\<forall>k i. gs_at s k = Some i \<longleftrightarrow> i < length ks \<and> ks ! i = k)
     \<and> gs_groups s = map (\<lambda>k. filter (\<lambda>m. member_key R m = k) ms) ks"

lemma grouped_step:
  assumes "grouped R ks ms s"
  shows "\<exists>ks' s'. group_member_step m s = Some s' \<and> grouped R ks' (ms @ [m]) s'"
proof -
  have ok: "uf_ok (gs_forest s)" and R: "rep (gs_forest s) = R" and dist: "distinct ks"
    and ks: "set ks = member_key R ` set ms"
    and at: "\<And>k i. gs_at s k = Some i \<longleftrightarrow> i < length ks \<and> ks ! i = k"
    and gs: "gs_groups s = map (\<lambda>k. filter (\<lambda>m. member_key R m = k) ms) ks"
    using assms by (auto simp: grouped_def)
  obtain f where f: "uf_find (gm_cref m) (gs_forest s) = Some (R (gm_cref m), f)" "uf_ok f" "rep f = R"
    using uf_find_rep [OF ok, of "gm_cref m"] R by blast
  let ?k = "member_key R m"
  show ?thesis
  proof (cases "gs_at s ?k")
    case (Some i)
    then have i: "i < length ks" "ks ! i = ?k" using at by auto
    let ?s = "s\<lparr>gs_forest := f, gs_groups := (gs_groups s)[i := gs_groups s ! i @ [m]]\<rparr>"
    have "group_member_step m s = Some ?s"
      using f(1) Some by (simp add: group_member_step_def member_key_def)
    moreover have "(gs_groups s)[i := gs_groups s ! i @ [m]]
        = map (\<lambda>k. filter (\<lambda>m. member_key R m = k) (ms @ [m])) ks"
      using i dist by (intro nth_equalityI) (auto simp: gs nth_list_update nth_eq_iff_index_eq)
    moreover have "?k \<in> set ks" using i nth_mem by metis
    ultimately have "grouped R ks (ms @ [m]) ?s" using f dist ks at by (auto simp: grouped_def)
    then show ?thesis using \<open>group_member_step m s = Some ?s\<close> by blast
  next
    case None
    have new: "?k \<notin> set ks"
    proof
      assume "?k \<in> set ks"
      then obtain i where "i < length ks" "ks ! i = ?k" by (auto simp: in_set_conv_nth)
      then have "gs_at s ?k = Some i" using at by blast
      then show False using None by simp
    qed
    let ?s = "s\<lparr>gs_forest := f, gs_at := (gs_at s)(?k \<mapsto> length (gs_groups s)),
                gs_groups := gs_groups s @ [[m]]\<rparr>"
    have step: "group_member_step m s = Some ?s"
      using f(1) None by (simp add: group_member_step_def member_key_def)
    have none: "filter (\<lambda>x. member_key R x = ?k) ms = []"
      using new ks by (auto simp: filter_empty_conv image_iff)
    have "map (\<lambda>k. filter (\<lambda>x. member_key R x = k) (ms @ [m])) ks
        = map (\<lambda>k. filter (\<lambda>x. member_key R x = k) ms) ks"
      using new by (intro map_cong) auto
    then have groups: "gs_groups s @ [[m]] = map (\<lambda>k. filter (\<lambda>x. member_key R x = k) (ms @ [m])) (ks @ [?k])"
      using none by (simp add: gs)
    have "\<forall>k i. gs_at ?s k = Some i \<longleftrightarrow> i < length (ks @ [?k]) \<and> (ks @ [?k]) ! i = k"
    proof (intro allI)
      fix k i
      show "gs_at ?s k = Some i \<longleftrightarrow> i < length (ks @ [?k]) \<and> (ks @ [?k]) ! i = k"
        using at [of k i] new by (cases "i < length ks") (auto simp: gs nth_append dest: nth_mem)
    qed
    moreover have "set (ks @ [?k]) = member_key R ` set (ms @ [m])" using ks by simp
    moreover have "distinct (ks @ [?k])" using dist new by simp
    ultimately have "grouped R (ks @ [?k]) (ms @ [m]) ?s"
      unfolding grouped_def using f(2,3) groups by (simp del: fun_upd_apply)
    then show ?thesis using step by blast
  qed
qed

lemma grouped_members:
  "grouped R ks ms s \<Longrightarrow> \<exists>ks' s'. group_members xs s = Some s' \<and> grouped R ks' (ms @ xs) s'"
proof (induction xs arbitrary: ks ms s)
  case (Cons m xs)
  obtain ks1 s1 where s1: "group_member_step m s = Some s1" "grouped R ks1 (ms @ [m]) s1"
    using grouped_step [OF Cons.prems] by blast
  show ?case using Cons.IH [OF s1(2)] s1(1) by simp
qed auto

lemma equality_groups_by_key:
  "\<exists>R ks. equality_groups fks ms = Some (map (\<lambda>k. filter (\<lambda>m. member_key R m = k) ms) ks)
     \<and> distinct ks \<and> set ks = member_key R ` set ms
     \<and> (\<forall>a b. R a = R b \<longleftrightarrow> (a, b) \<in> fk_joined fks)"
proof -
  obtain f where f: "uf_unions (concat (map fk_edges fks)) Map.empty = Some f" "uf_ok f"
    "\<forall>a b. rep f a = rep f b \<longleftrightarrow> (a, b) \<in> fk_joined fks"
    using foreign_key_forest by blast
  let ?s = "\<lparr>gs_forest = f, gs_at = Map.empty, gs_groups = []\<rparr>"
  have "grouped (rep f) [] [] ?s" using f(2) by (simp add: grouped_def)
  from grouped_members [OF this, of ms] obtain ks s where
    "group_members ms ?s = Some s" "grouped (rep f) ks ms s" by auto
  then show ?thesis using f(1,3)
    by (intro exI [of _ "rep f"] exI [of _ ks]) (simp add: equality_groups_def grouped_def)
qed

definition alike_group :: "foreign_key list \<Rightarrow> group_member list \<Rightarrow> group_member \<Rightarrow> group_member list" where
  "alike_group fks ms m =
     filter (\<lambda>m'. (gm_cref m, gm_cref m') \<in> fk_joined fks \<and> gm_cat m' = gm_cat m) ms"

text \<open>A list of groups, each the members of one class, and no member in two.\<close>

lemma equality_groups_classes:
  "\<exists>gs. equality_groups fks ms = Some gs \<and> distinct gs
     \<and> set gs = alike_group fks ms ` set ms"
proof -
  obtain R ks where R: "equality_groups fks ms = Some (map (\<lambda>k. filter (\<lambda>m. member_key R m = k) ms) ks)"
    "distinct ks" "set ks = member_key R ` set ms" "\<And>a b. R a = R b \<longleftrightarrow> (a, b) \<in> fk_joined fks"
    using equality_groups_by_key [of fks ms] by blast
  let ?g = "\<lambda>k. filter (\<lambda>m. member_key R m = k) ms"
  have cls: "?g (member_key R m) = alike_group fks ms m" for m
    unfolding alike_group_def R(4) [symmetric] by (rule filter_cong) (auto simp: member_key_def)
  have "inj_on ?g (set ks)"
  proof (rule inj_onI)
    fix j k assume "j \<in> set ks" "k \<in> set ks" and eq: "?g j = ?g k"
    then obtain m where "m \<in> set ms" "member_key R m = j" using R(3) by auto
    then have "m \<in> set (?g j)" by simp
    then show "j = k" unfolding eq using \<open>member_key R m = j\<close> by simp
  qed
  then have "distinct (map ?g ks)" using R(2) by (simp add: distinct_map)
  moreover have "set (map ?g ks) = alike_group fks ms ` set ms"
    using R(3) by (auto simp: cls image_iff)
  ultimately show ?thesis using R(1) by blast
qed

lemma alike_group_disjoint:
  assumes "x \<in> set (alike_group fks ms m)" and "x \<in> set (alike_group fks ms n)"
  shows "alike_group fks ms m = alike_group fks ms n"
proof -
  have mx: "(gm_cref m, gm_cref x) \<in> fk_joined fks" "(gm_cref n, gm_cref x) \<in> fk_joined fks"
    using assms by (auto simp: alike_group_def)
  have "(gm_cref m, c) \<in> fk_joined fks \<longleftrightarrow> (gm_cref n, c) \<in> fk_joined fks" for c
    using mx unfolding fk_joined_def by (blast intro: joined_sym joined_trans)
  moreover have "gm_cat m = gm_cat n" using assms by (simp add: alike_group_def)
  ultimately show ?thesis by (simp add: alike_group_def)
qed

end
