(* ===== verification/Group_Masker.thy ===== *)
theory Group_Masker
  imports Equality_Correct
begin

text \<open>
  What \<open>unique.go\<close> makes of a group: no width is negative, so a group whose members all have room is
  given a masker; a decision outside the group is not touched; and the groups, being disjoint, are
  settled one by one.
\<close>

subsection \<open>Widths\<close>

lemma column_domain_nonneg: "0 \<le> column_domain c"
  by (simp add: column_domain_def max_int64_def sat_pow_pos less_imp_le)

lemma with_label_domain_nonneg: "0 \<le> d \<Longrightarrow> 0 \<le> with_label_domain c d"
  by (simp add: with_label_domain_def label_domain_def)

lemma sat_pow_nonneg: "0 < b \<Longrightarrow> 0 \<le> sat_pow b n"
  by (rule less_imp_le [OF sat_pow_pos])

lemma sat_add_nonneg: "0 \<le> a \<Longrightarrow> 0 \<le> b \<Longrightarrow> 0 \<le> sat_add a b"
  by (simp add: sat_add_def max_int64_def)

lemma sat_fold_nonneg:
  "0 \<le> a \<Longrightarrow> (\<And>x. 0 \<le> f x) \<Longrightarrow> 0 \<le> fold (\<lambda>x total. sat_add total (f x)) xs a"
  by (induction xs arbitrary: a) (auto intro: sat_add_nonneg)

lemmas count_nonneg =
  word_count_range(1) [OF given_names_ok] word_count_range(1) [OF surnames_ok]
  word_count_range(1) [OF fillers_ok] pair_count_bound(1) [OF given_names_ok surnames_ok]
  pair_count_bound(1) [OF streets_ok suffixes_ok]

lemmas domain_nonneg =
  with_label_domain_nonneg sat_mul_nonneg sat_pow_nonneg sat_add_nonneg sat_fold_nonneg count_nonneg

lemma email_domain_nonneg: "0 \<le> email_domain c"
  unfolding email_domain_def Let_def
  by (intro with_label_domain_nonneg) (simp add: sat_mul_nonneg)

lemma name_floor_nonneg:
  "word_list_ok w \<Longrightarrow> 0 \<le> snd (snd (name_floor c w))"
  by (simp add: name_floor_def Let_def word_count_range(1))

lemma person_name_domain_nonneg: "0 \<le> person_name_domain c"
  unfolding person_name_domain_def person_name_form_def Let_def
  by (intro with_label_domain_nonneg)
    (simp add: name_floor_nonneg [OF given_names_ok] name_floor_nonneg [OF surnames_ok] count_nonneg)

lemma filler_range_domain_nonneg: "0 \<le> filler_range_domain c"
  unfolding filler_range_domain_def Let_def
  by (intro with_label_domain_nonneg) (auto intro!: sat_fold_nonneg simp del: upt_Suc)

lemma person_date_domain_nonneg: "0 \<le> person_date_domain c"
  unfolding person_date_domain_def
  by (intro with_label_domain_nonneg) (simp add: sat_mul_nonneg date_days_def)

lemma network_domain_nonneg: "0 \<le> network_domain c"
  unfolding network_domain_def
  by (intro with_label_domain_nonneg) (simp add: mac_domain_def v4_domain_def)

lemma online_domain_nonneg: "0 \<le> online_domain c"
  unfolding online_domain_def Let_def
  by (intro with_label_domain_nonneg) (simp add: sat_mul_nonneg sat_pow_nonneg b32_alphabet_def)

lemma semi_structured_domain_nonneg: "0 \<le> semi_structured_domain c"
  unfolding semi_structured_domain_def
  by (intro with_label_domain_nonneg) (simp add: filler_range_domain_nonneg)

lemma free_text_domain_nonneg: "0 \<le> free_text_domain c"
  unfolding free_text_domain_def Let_def
  by (intro with_label_domain_nonneg) (simp add: filler_initials_def le_max_iff_disj)

lemma geo_domain_nonneg: "0 \<le> geo_domain c"
  unfolding geo_domain_def Let_def
  by (intro with_label_domain_nonneg) (simp add: add_nonneg_nonneg sat_mul_nonneg)

lemma generic_domain_nonneg: "0 \<le> generic_domain c"
  by (simp add: generic_domain_def Let_def sat_mul_nonneg sat_pow_nonneg filler_range_domain_nonneg
      person_date_domain_nonneg)

lemma masker_domain_nonneg: "0 \<le> masker_domain m c"
  by (cases m)
    (auto simp: email_domain_nonneg person_name_domain_nonneg person_date_domain_nonneg
      network_domain_nonneg online_domain_nonneg semi_structured_domain_nonneg free_text_domain_nonneg
      geo_domain_nonneg generic_domain_nonneg special_domain_def phone_domain_def phone_unique_domain_def
      address_domain_def national_id_domain_def financial_domain_def ip_unique_domain_def
      credential_unique_domain_def derived_text_domain_def nanp_domain_def Let_def
      addr_code_alphabet_def b32_alphabet_def
      intro!: with_label_domain_nonneg sat_mul_nonneg sat_pow_nonneg)

lemma admissible_nonneg: "0 \<le> admissible mid c"
  by (simp add: admissible_def column_domain_nonneg masker_domain_nonneg split: option.splits)

lemma group_width_nonneg: "0 \<le> group_width mid g"
proof -
  have "0 \<le> w \<Longrightarrow>
    0 \<le> fold (\<lambda>m w. let d = admissible mid (gm_cons m) in if d < w then d else w) g w" for w
    by (induction g arbitrary: w) (simp_all add: Let_def admissible_nonneg)
  then show ?thesis by (simp add: group_width_def max_int64_def)
qed

text \<open>The widest of the maskers needed is one of them, and none is wider.\<close>

lemma widest_in:
  assumes "ids \<noteq> []"
  shows "widest g ids \<in> set ids" and "\<forall>mid\<in>set ids. group_width mid g \<le> group_width (widest g ids) g"
proof -
  define inv where "inv xs acc \<longleftrightarrow>
    (case acc of (best, bw, seen) \<Rightarrow> seen = set xs \<and>
       (xs = [] \<and> bw = -1 \<or> best \<in> set xs \<and> bw = group_width best g
          \<and> (\<forall>mid\<in>set xs. group_width mid g \<le> bw)))" for xs :: "string list" and acc :: "string \<times> int \<times> string set"
  have step: "inv (xs @ [mid]) (widest_step g mid acc)" if "inv xs acc" for xs mid acc
    using that group_width_nonneg [of mid g]
    by (cases acc) (auto simp: inv_def widest_step_def Let_def)
  have "inv (xs @ ids) (fold (widest_step g) ids acc)" if "inv xs acc" for xs ids acc
    using that
  proof (induction ids arbitrary: xs acc)
    case (Cons mid ids)
    from Cons.IH [OF step [OF Cons.prems, of mid]] show ?case by simp
  qed simp
  from this [of "[]" "([], -1, {})" ids] have "inv ids (fold (widest_step g) ids ([], -1, {}))"
    by (simp add: inv_def)
  then show "widest g ids \<in> set ids" "\<forall>mid\<in>set ids. group_width mid g \<le> group_width (widest g ids) g"
    using assms by (auto simp: inv_def widest_def)
qed

subsection \<open>Decisions\<close>

lemma decision_at_set:
  "decision_at (set_decision upd k cls) c = (if c = k then upd (decision_at cls c) else decision_at cls c)"
  by (simp add: set_decision_def decision_at_def)

definition group_crefs :: "group_member list \<Rightarrow> column_ref set" where
  "group_crefs g = gm_cref ` set g"

lemma group_crefs_simps [simp]:
  "group_crefs [] = {}" "group_crefs (m # g) = insert (gm_cref m) (group_crefs g)"
  by (simp_all add: group_crefs_def)

lemma fold_set_role:
  "decision_at (fold (\<lambda>m. set_decision (\<lambda>d. d\<lparr>dc_role := r\<rparr>) (gm_cref m)) g cls) c =
     (if c \<in> group_crefs g then (decision_at cls c)\<lparr>dc_role := r\<rparr> else decision_at cls c)"
  by (induction g arbitrary: cls) (simp_all add: decision_at_set)

definition role_after :: "group_member list \<Rightarrow> decision \<Rightarrow> decision" where
  "role_after g d = (if roles_agree g then d else d\<lparr>dc_role := role_full\<rparr>)"

definition agreed_group :: "group_member list \<Rightarrow> group_member list" where
  "agreed_group g =
     (if roles_agree g then g
      else map (\<lambda>m. m\<lparr>gm_cons := (gm_cons m)\<lparr>co_role := role_full\<rparr>\<rparr>) g)"

lemma agree_on_role_at:
  "fst (agree_on_role g cls) = agreed_group g"
  "decision_at (snd (agree_on_role g cls)) c =
     (if c \<in> group_crefs g then role_after g (decision_at cls c) else decision_at cls c)"
  by (simp_all add: agree_on_role_def agreed_group_def role_after_def fold_set_role)

lemma agreed_group_members:
  "map gm_cref (agreed_group g) = map gm_cref g" "map gm_cur (agreed_group g) = map gm_cur g"
  "map gm_cat (agreed_group g) = map gm_cat g" "length (agreed_group g) = length g"
  "group_crefs (agreed_group g) = group_crefs g"
  by (auto simp: agreed_group_def group_crefs_def image_iff)

lemma agreed_group_role:
  "m \<in> set (agreed_group g) \<Longrightarrow> n \<in> set (agreed_group g) \<Longrightarrow> co_role (gm_cons m) = co_role (gm_cons n)"
proof (cases "roles_agree g")
  case True
  moreover assume "m \<in> set (agreed_group g)" "n \<in> set (agreed_group g)"
  ultimately show ?thesis
    by (cases g) (auto simp: agreed_group_def roles_agree_def list_all_iff)
qed (auto simp: agreed_group_def)

lemma set_maskers_at:
  assumes "\<forall>m\<in>set g. gm_cur m = dc_masker (decision_at cls (gm_cref m)) \<or> dc_masker (decision_at cls (gm_cref m)) = best"
  shows "decision_at (set_maskers best g cls) c =
     (if c \<in> group_crefs g then (decision_at cls c)\<lparr>dc_masker := best\<rparr> else decision_at cls c)"
  using assms
proof (induction g arbitrary: cls)
  case (Cons m g)
  let ?cls = "if gm_cur m = best then cls else set_decision (\<lambda>d. d\<lparr>dc_masker := best\<rparr>) (gm_cref m) cls"
  have at: "decision_at ?cls k = (if k = gm_cref m then (decision_at cls k)\<lparr>dc_masker := best\<rparr> else decision_at cls k)"
    for k using Cons.prems by (auto simp: decision_at_set)
  have "\<forall>x\<in>set g. gm_cur x = dc_masker (decision_at ?cls (gm_cref x))
      \<or> dc_masker (decision_at ?cls (gm_cref x)) = best"
    using Cons.prems unfolding at by auto
  from Cons.IH [OF this] show ?case unfolding at by (simp add: set_maskers_def)
qed (simp add: set_maskers_def)

subsection \<open>A group's choice\<close>

text \<open>The masker a group is given, and the refusal: neither looks at the classification.\<close>

definition group_choice :: "group_member list \<Rightarrow> refusal option \<times> string option" where
  "group_choice g =
     (case needed_maskers (gm_cat (hd g)) (agreed_group g) of
        LeftAlone \<Rightarrow> (None, None)
      | NeedRefused r \<Rightarrow> (Some r, None)
      | Needed ids \<Rightarrow>
          (let best = widest (agreed_group g) ids in
           if best = [] then (None, None)
           else case fits_group (agreed_group g) best of
                  Some r \<Rightarrow> (Some r, None)
                | None \<Rightarrow> (None, Some best)))"

definition choice_after :: "group_member list \<Rightarrow> decision \<Rightarrow> decision" where
  "choice_after g d =
     (case snd (group_choice g) of
        None \<Rightarrow> role_after g d
      | Some best \<Rightarrow> (role_after g d)\<lparr>dc_masker := best\<rparr>)"

definition current :: "group_member list \<Rightarrow> classification \<Rightarrow> bool" where
  "current g cls \<longleftrightarrow> (\<forall>m\<in>set g. gm_cur m = dc_masker (decision_at cls (gm_cref m)))"

lemma current_agreed:
  assumes "current g cls"
  shows "\<forall>m\<in>set (agreed_group g). gm_cur m = dc_masker (decision_at (snd (agree_on_role g cls)) (gm_cref m))"
proof
  fix m assume "m \<in> set (agreed_group g)"
  then obtain n where n: "n \<in> set g" "gm_cur m = gm_cur n" "gm_cref m = gm_cref n"
    by (auto simp: agreed_group_def split: if_splits)
  then have "gm_cref m \<in> group_crefs g" by (simp add: group_crefs_def)
  then show "gm_cur m = dc_masker (decision_at (snd (agree_on_role g cls)) (gm_cref m))"
    using assms n by (simp add: agree_on_role_at current_def role_after_def)
qed

lemma choose_group_masker_at:
  assumes "current g cls"
  shows "fst (choose_group_masker g cls) = fst (group_choice g)"
    and "decision_at (snd (choose_group_masker g cls)) c =
      (if c \<in> group_crefs g then choice_after g (decision_at cls c) else decision_at cls c)"
proof -
  obtain g' cls' where a: "agree_on_role g cls = (g', cls')" by fastforce
  then have g': "g' = agreed_group g" using agree_on_role_at(1) [of g cls] by simp
  have cur: "\<forall>m\<in>set g'. gm_cur m = dc_masker (decision_at cls' (gm_cref m))
      \<or> dc_masker (decision_at cls' (gm_cref m)) = best" for best
    using current_agreed [OF assms] a by (simp add: g')
  note at = agree_on_role_at(2) [of g cls, unfolded a snd_conv] set_maskers_at [OF cur, unfolded g']
    agreed_group_members(5) [of g]
  show "fst (choose_group_masker g cls) = fst (group_choice g)"
    by (simp add: choose_group_masker_def group_choice_def a g' Let_def split: needed.splits option.splits)
  show "decision_at (snd (choose_group_masker g cls)) c =
      (if c \<in> group_crefs g then choice_after g (decision_at cls c) else decision_at cls c)"
    by (simp add: choose_group_masker_def group_choice_def choice_after_def a Let_def at g'
        split: needed.splits option.splits)
qed

subsection \<open>All the groups\<close>

text \<open>Groups that share no column do not see each other's decisions.\<close>

lemma unique_domain_steps:
  assumes "distinct gs" and "\<forall>g\<in>set gs. current g cls"
    and "\<forall>g\<in>set gs. \<forall>h\<in>set gs. g \<noteq> h \<longrightarrow> group_crefs g \<inter> group_crefs h = {}"
  shows "snd (fold unique_domain_step gs (cls, rs)) = rs @ List.map_filter (\<lambda>g. fst (group_choice g)) gs"
    and "g \<in> set gs \<Longrightarrow> c \<in> group_crefs g \<Longrightarrow>
      decision_at (fst (fold unique_domain_step gs (cls, rs))) c = choice_after g (decision_at cls c)"
    and "\<forall>g\<in>set gs. c \<notin> group_crefs g \<Longrightarrow>
      decision_at (fst (fold unique_domain_step gs (cls, rs))) c = decision_at cls c"
proof -
  have "snd (fold unique_domain_step gs (cls, rs)) = rs @ List.map_filter (\<lambda>g. fst (group_choice g)) gs
    \<and> (\<forall>c. (\<forall>g\<in>set gs. c \<in> group_crefs g \<longrightarrow>
          decision_at (fst (fold unique_domain_step gs (cls, rs))) c = choice_after g (decision_at cls c))
      \<and> ((\<forall>g\<in>set gs. c \<notin> group_crefs g) \<longrightarrow>
          decision_at (fst (fold unique_domain_step gs (cls, rs))) c = decision_at cls c))"
    using assms
  proof (induction gs arbitrary: cls rs)
    case (Cons g gs)
    obtain r cls1 where c1: "choose_group_masker g cls = (r, cls1)" by fastforce
    have cur: "current g cls" using Cons.prems(2) by simp
    have r: "r = fst (group_choice g)" using choose_group_masker_at(1) [OF cur] c1 by simp
    have at: "decision_at cls1 c =
        (if c \<in> group_crefs g then choice_after g (decision_at cls c) else decision_at cls c)" for c
      using choose_group_masker_at(2) [OF cur, of c] c1 by simp
    have apart: "group_crefs h \<inter> group_crefs g = {}" if "h \<in> set gs" for h
      using Cons.prems(1, 3) that by (metis distinct.simps(2) list.set_intros)
    have same: "decision_at cls1 c = decision_at cls c" if "h \<in> set gs" "c \<in> group_crefs h" for h c
      using apart [OF that(1)] that(2) at by auto
    have cur1: "\<forall>h\<in>set gs. current h cls1"
    proof
      fix h assume h: "h \<in> set gs"
      then have "current h cls" using Cons.prems(2) by simp
      moreover have "decision_at cls1 (gm_cref m) = decision_at cls (gm_cref m)" if "m \<in> set h" for m
        using same [OF h] that by (simp add: group_crefs_def)
      ultimately show "current h cls1" by (simp add: current_def)
    qed
    let ?rs = "rs @ (case r of None \<Rightarrow> [] | Some x \<Rightarrow> [x])"
    have step: "unique_domain_step g (cls, rs) = (cls1, ?rs)" by (simp add: unique_domain_step_def c1)
    have IH: "snd (fold unique_domain_step gs (cls1, ?rs)) = ?rs @ List.map_filter (\<lambda>g. fst (group_choice g)) gs"
      "\<And>c h. h \<in> set gs \<Longrightarrow> c \<in> group_crefs h \<Longrightarrow>
          decision_at (fst (fold unique_domain_step gs (cls1, ?rs))) c = choice_after h (decision_at cls1 c)"
      "\<And>c. \<forall>h\<in>set gs. c \<notin> group_crefs h \<Longrightarrow>
          decision_at (fst (fold unique_domain_step gs (cls1, ?rs))) c = decision_at cls1 c"
      using Cons.IH [OF _ cur1, of ?rs] Cons.prems(1, 3) by auto
    have "snd (fold unique_domain_step (g # gs) (cls, rs)) = rs @ List.map_filter (\<lambda>g. fst (group_choice g)) (g # gs)"
      using IH(1) by (simp add: step r List.map_filter_simps split: option.splits)
    moreover have "decision_at (fst (fold unique_domain_step (g # gs) (cls, rs))) c = choice_after h (decision_at cls c)"
      if h: "h \<in> set (g # gs)" and c: "c \<in> group_crefs h" for h c
    proof (cases "h \<in> set gs")
      case True
      then show ?thesis using IH(2) [OF True c] same [OF True c] by (simp add: step)
    next
      case False
      then have "h = g" using h by simp
      moreover have "\<forall>k\<in>set gs. c \<notin> group_crefs k" using apart c \<open>h = g\<close> by blast
      ultimately show ?thesis using IH(3) [of c] at [of c] c by (simp add: step)
    qed
    moreover have "decision_at (fst (fold unique_domain_step (g # gs) (cls, rs))) c = decision_at cls c"
      if "\<forall>h\<in>set (g # gs). c \<notin> group_crefs h" for c
      using IH(3) [of c] at [of c] that by (simp add: step)
    ultimately show ?case by blast
  qed simp
  then show "snd (fold unique_domain_step gs (cls, rs)) = rs @ List.map_filter (\<lambda>g. fst (group_choice g)) gs"
    "g \<in> set gs \<Longrightarrow> c \<in> group_crefs g \<Longrightarrow>
      decision_at (fst (fold unique_domain_step gs (cls, rs))) c = choice_after g (decision_at cls c)"
    "\<forall>g\<in>set gs. c \<notin> group_crefs g \<Longrightarrow>
      decision_at (fst (fold unique_domain_step gs (cls, rs))) c = decision_at cls c"
    by blast+
qed

end
