(* ===== verification/Unique_Properties.thy ===== *)
theory Unique_Properties
  imports Group_Masker
begin

text \<open>
  What \<open>checkUniqueDomain\<close> leaves behind: it always ends, and when it refused nothing, two masked
  columns that foreign keys connect are given one masker that both can hold, under one role, counting
  the same values.
\<close>

subsection \<open>The members of a run\<close>






subsection \<open>Room\<close>










subsection \<open>The members afterwards\<close>










end
