(* ===== verification/Unique_Witness.thy ===== *)
theory Unique_Witness
  imports Unique_Properties Example
begin















end
