(* ===== verification/Spec2Isabelle.thy ===== *)
theory Spec2Isabelle
  imports Plan_Properties Key_Properties Polymorphic_Properties Order_Properties Trace_Properties
    Mask_Properties Card_Properties Apply_Properties Residual_Properties Transform_Witness
    Lease_Properties Unique_Witness
begin

text \<open>
  A verification library for lazyslice: which rows of a PostgreSQL source a slice takes
  (\<open>internal/plan\<close>), what may be asked of the source meanwhile (\<open>internal/pg\<close>), how the values of the
  rows are masked (the \<open>mask\<close> module and \<open>internal/transform\<close>) and how one run keeps another off its
  target (\<open>internal/pg/lease.go\<close>).

  The planner reads a schema and a request, ranks the tables and picks a root, drops the
  tables the request skips or the role cannot read, finds a row identity for every table,
  sets small lookup tables aside, and walks the foreign keys from the root's rows: every
  parent of a selected row is selected (no depth, no cap), children only from rows reached
  from the root by child steps, capped and to a depth. Before the walk it checks that every masked
  column can hold what its masker emits, and after it, when the number of rows is known, that the
  columns a foreign key joins are masked by one masker with values enough for each unique one.

  Masking takes a batch of the rows read: each column the classifier marked goes cell by cell, array
  element by array element and document leaf by document leaf, through one function of the module,
  which derives a digest of the value under the run's key, has a generator draw the replacement from
  it and refuses a generator that follows its input; the canonical value is recorded in a filter the
  target is later tested against.

  Theories, in the order of the code:
  \<^item> \<open>Prelude\<close>, \<open>Strings\<close>: errors as sums, folds that stop at an error, Go's byte strings and
    number formatting.
  \<^item> \<open>Refs\<close>: \<open>internal/ref\<close> and the records of \<open>internal/pipeline/introspect.go\<close>.
  \<^item> \<open>Key_Encoding\<close>, \<open>Keyset\<close>, \<open>Key_Properties\<close>: \<open>keyset.go\<close>. The locale \<open>order_codec\<close> (an encoding
    that preserves order) is interpreted for values and tuples, the locale \<open>key_store\<close> (what
    the walk relies on) for the key sets.
  \<^item> \<open>Sql\<close>: \<open>sql.go\<close>; the datatype \<open>stmt\<close> is the statements, \<open>stmt_sql\<close> their text.
  \<^item> \<open>Root\<close>, \<open>Identity\<close>, \<open>Planner\<close>: \<open>root.go\<close>, \<open>identity.go\<close>, and the stages of \<open>plan.go\<close>.
  \<^item> \<open>Run\<close>, \<open>Walk\<close>: the run's state and the walk of \<open>plan.go\<close> and \<open>polymorphic.go\<close>.
  \<^item> \<open>Source\<close>: what is assumed of the source. The source is a parameter, a \<open>reader\<close>; the locale
    \<open>snapshot\<close> says what the planner's statements mean over one snapshot, and is interpreted
    for a reader that evaluates them over a database. \<open>answers\<close> is the same as a predicate.
  \<^item> \<open>Walk_Invariant\<close>, \<open>Walk_Correct\<close>, \<open>Walk_Returns\<close>, \<open>Walk_Snapshot\<close>, \<open>Walk_Theorems\<close>: why the
    walk is right; \<open>Reach\<close> and \<open>Skip\<close>: why the static walk covers it; \<open>Plan_Start\<close>: the run
    it starts from; \<open>Plan_Properties\<close>: the stages around it.
  \<^item> \<open>Polymorphic\<close>, \<open>Polymorphic_Correct\<close>, \<open>Polymorphic_Properties\<close>: \<open>polymorphic.go\<close>, the edges a
    type column and an id column stand for, and that the walk follows them.
  \<^item> \<open>Order\<close>, \<open>Order_Correct\<close>, \<open>Order_Load\<close>, \<open>Order_Properties\<close>: \<open>order.go\<close>, Tarjan's components
    and the topological sort. Both recursions carry fuel, the number of tables and of
    components; \<open>Order_Correct\<close> and \<open>Order_Load\<close> show that it never runs out.
  \<^item> \<open>Regex\<close>, \<open>Tracer\<close>, \<open>Trace_Log\<close>: \<open>internal/pg/tracer.go\<close>, the allowlist every statement sent to
    the source passes; \<open>Shapes\<close>, \<open>Where\<close>: \<open>shapes.go\<close> and \<open>where.go\<close>; \<open>Admitted\<close>: every statement of
    \<open>Sql\<close> matches its shape; \<open>Type_Spelling\<close>: the type names that statement may hold, without the
    allowlist's own expression; \<open>Trace_Literals\<close>: statements as text and literals in turn;
    \<open>Trace_Properties\<close>: what the tracer promises.
  \<^item> \<open>Example\<close>: customers and orders, the source the properties are applied to.
  \<^item> \<open>Stable_Sort\<close>: Go's stable and unstable sorts as insertion, for orders that are weak.
  \<^item> \<open>Mask_Base\<close>, \<open>Mask_Stream\<close>, \<open>Mask_Corpus\<close>, \<open>Mask_Words\<close>: the values, constraints and domains of
    \<open>mask/mask.go\<close> and \<open>domain.go\<close>, the stream of \<open>stream.go\<close> a generator draws from, and the word lists.
    A draw is a function of the stream that may not return (\<open>None\<close>): \<open>intn\<close> rejects and draws again.
  \<^item> \<open>Mask_Gen\<close>, \<open>Mask_Text\<close>, \<open>Mask_Registry\<close>: the generators of \<open>gen_*.go\<close>, then \<open>registry.go\<close>,
    \<open>register.go\<close> and \<open>writable.go\<close>. \<open>Mask_Fit\<close>, \<open>Mask_Accepts\<close>, \<open>Mask_Properties\<close>: what a generator emits
    fits the column it was picked for.
  \<^item> \<open>Mask_Key\<close>, \<open>Fold\<close>, \<open>Mask_Apply\<close>, \<open>Apply_Properties\<close>: \<open>key.go\<close>, the comparison of \<open>mask.go\<close> over
    UTF-8 bytes, and \<open>Apply\<close> with its guard.
  \<^item> \<open>Residual\<close>, \<open>Residual_Properties\<close>: \<open>internal/transform/bloom.go\<close>; the locale \<open>residual_filter\<close> is
    what its users rely on, interpreted for the filter.
  \<^item> \<open>Type_Names\<close>, \<open>Column_Shape\<close>: \<open>mask/typetag.go\<close>, and a column as \<open>internal/plan/writeback.go\<close> and
    \<open>internal/transform/constraints.go\<close> reduce it to what a generator reads.
  \<^item> \<open>Write_Back\<close>: the checks of \<open>writeback.go\<close> and \<open>fkpair.go\<close>. \<open>Equality\<close>: \<open>equality.go\<close> and
    \<open>unique.go\<close>; \<open>Equality_Correct\<close>: its union-find returns and its groups are the classes of the
    edges; \<open>Group_Masker\<close>, \<open>Unique_Properties\<close>, \<open>Unique_Witness\<close>: what the choice leaves.
  \<^item> \<open>Array_Literal\<close>, \<open>Leaf_Rule\<close>, \<open>Transform_Cell\<close>, \<open>Transform_Document\<close>, \<open>Transform_Batch\<close>: \<open>array.go\<close>,
    \<open>value.go\<close>, \<open>json.go\<close> and \<open>transform.go\<close>, steps over the filter that may end in an error;
    \<open>Document_Masked\<close>, \<open>Transform_Properties\<close>, \<open>Transform_Witness\<close>: what a masked batch is.
  \<^item> \<open>Card\<close>, \<open>Card_Properties\<close>: the card checks of \<open>internal/textsig\<close>, against the generator's digit.
  \<^item> \<open>Lease\<close>, \<open>Lease_Properties\<close>: \<open>internal/pg/lease.go\<close>, runs and sessions as a step relation whose
    steps are whole calls. Every call of the server may fail; only its locks are assumed to behave.

  The walk's loop is a \<open>partial_function (option)\<close>: not returning is the value \<open>None\<close>, and it is
  proved not to happen. Go's maps are partial functions, or total ones where a missing key is
  read as the zero value; counters are integers. Messages and arguments of refusals are not
  modelled: nothing branches on them. The spans of a key set are natural numbers where the code has
  \<open>int32\<close>; \<open>span_fits_int32\<close> gives the bound below which the two agree.

  Parameters stand for what is not in the repository or is not a program in it: SHA-256, HMAC and
  HKDF, the random source, Unicode tables, phone number parsing, the JSON codec, values of the
  driver's own types, Go's float formatting, the server and the connection pool. \<open>mask/canonical.go\<close>, which is made of such
  calls, is a parameter of \<open>Apply\<close> with them.

  Not modelled: two checks of the plan over parsed DDL (\<open>ddlliteral.go\<close>, \<open>compositedoc.go\<close>), the
  classifier and most of \<open>internal/textsig\<close> (rules over Unicode text and floating-point scores, which
  the leaf rule takes as parameters), and what is input and output: introspection, extraction,
  loading, discovery, commands, configuration, rendering. Locks and pools of Go values are left out:
  the code they protect runs as if alone.
\<close>

section \<open>The walk\<close>

text \<open>
  C1: the slice is referentially complete. When the reader answers as one snapshot does and
  \<open>walk\<close> returns a run without an error, then for every foreign key the walk follows (validated, not
  virtual, its parent table in scope and not a lookup table) and every selected row of the
  child table, each parent row it references that has an identity is selected too.
\<close>

theorem walk_complete:
  assumes "answers rd db eq" and "ready p root" and "walk rd p root = Some (Inr p')"
    and "fk \<in> set (rn_fks p)" and "follows_as_parent fk" and "enters p fk"
    and "k \<in> sel p' (fk_child fk)" and "r \<in> set (db (fk_child fk))" and "has_key eq p (fk_child fk) k r"
    and "r' \<in> set (db (fk_parent fk))" and "references eq p fk r r'"
    and "has_identity p (fk_parent fk) r'"
  shows "\<exists>k' \<in> sel p' (fk_parent fk). has_key eq p (fk_parent fk) k' r'"
proof -
  have "(fk_parent fk, r') \<in> fk_wants db eq p fk k"
    using assms(8-12) by (auto simp: fk_wants_def)
  then have "(fk_parent fk, r') \<in> key_wants db eq p (fk_child fk) k"
    using assms(4-6) by (auto simp: key_wants_def outgoing_def)
  then have "(fk_parent fk, r') \<in> wants db eq p (sel p')"
    using assms(7) by (auto simp: wants_def)
  then show ?thesis using walk_facts [OF assms(1-3)] by metis
qed

lemma walk_complete_witness:
  "\<exists>k' \<in> sel ex_done ex_customers. has_key exact_eq ex_run ex_customers k' ex_customer"
proof -
  have "ex_key 1 \<in> sel ex_done ex_orders"
    using ex_done_sel walk_facts [OF ex_answers ex_ready ex_walked] by (metis singletonI)
  moreover have "has_key exact_eq ex_run ex_orders (ex_key 1) ex_order"
    "has_identity ex_run ex_customers ex_customer"
    using ex_id_key by (auto simp: has_key_def has_identity_def exact_eq_def)
  ultimately show ?thesis
    using walk_complete [OF ex_answers ex_ready ex_walked ex_edge(1-3),
        of "ex_key 1" ex_order ex_customer] ex_rows ex_references
    by (simp add: ex_fk_def)
qed

text \<open>
  C2: the walk returns, a run or an error, whatever the reader answers: no cycle of foreign
  keys and no sequence of answers keeps it going.
\<close>

theorem walk_returns:
  assumes "ready p root"
  shows "\<exists>r. walk rd p root = Some r"
proof -
  have "\<exists>r. walk_loop rd (p\<lparr>rn_why := w, rn_root_seed_count := c\<rparr>)
      [\<lparr>it_table = root, it_keys = seed, it_mode = ChildOK, it_depth = 0\<rparr>] = Some r"
    if "seed_keys rd p root = Inr seed" for seed w c
  proof (rule walk_loop_returns)
    let ?p = "p\<lparr>rn_why := w, rn_root_seed_count := c\<rparr>"
    have same: "same_plan p ?p" by (simp add: same_plan_def)
    show "run_ok ?p"
      using assms plan_ok_same [OF same] by (simp add: ready_def run_ok_def)
    have "keys_ok seed" "ks_types seed = id_types (rn_ids p root)"
      using that read_keys_answer by (auto simp: seed_keys_def Let_def)
    then show "queue_ok ?p [\<lparr>it_table = root, it_keys = seed, it_mode = ChildOK, it_depth = 0\<rparr>]"
      using assms by (simp add: queue_ok_def item_ok_def ready_def)
  qed
  then show ?thesis by (auto simp: walk_def split: sum.splits)
qed

lemma walk_returns_witness: "\<exists>r. walk ex_reader ex_run ex_orders = Some r"
  by (rule walk_returns [OF ex_ready])

text \<open>
  C3: nothing is in the slice without a reason. Every selected key is a seed key of the root, or the
  parent of a selected key along a followed edge, or the child, at one depth more and at most
  \<open>--depth\<close>, of a key reached from the root by child steps alone.
\<close>

theorem walk_provenance:
  assumes "answers rd db eq" and "ready p root" and "walk rd p root = Some (Inr p')"
    and "k \<in> sel p' t"
  shows "\<exists>seed m d. seed_keys rd p root = Inr seed
    \<and> included db eq p root (keys_set seed) t k m d"
  using walk_facts [OF assms(1-3)] assms(4) by metis

lemma walk_provenance_witness:
  "\<exists>seed m d. seed_keys ex_reader ex_run ex_orders = Inr seed
    \<and> included ex_db exact_eq ex_run ex_orders (keys_set seed) ex_customers (ex_key 7) m d"
proof (rule walk_provenance [OF ex_answers ex_ready ex_walked])
  show "ex_key 7 \<in> sel ex_done ex_customers"
    using ex_done_sel(2) walk_facts [OF ex_answers ex_ready ex_walked] by (metis singletonI)
qed

text \<open>
  C4: the row count the budget is checked against is the number of distinct rows selected, and a slice
  that is returned with rows in it is within the row budget and the memory budget.
\<close>

theorem walk_within_budget:
  assumes "answers rd db eq" and "ready p root" and "walk rd p root = Some (Inr p')"
  shows "rn_selected_row p' = int (\<Sum>t \<in> dom (rn_selected p'). card (sel p' t))
    \<and> (rn_selected p' = Map.empty
       \<or> rn_selected_row p' \<le> rq_row_budget (rn_req p)
         \<and> key_memory p' + filter_memory p' + emitted_memory p' \<le> rq_memory_budget (rn_req p))"
proof -
  obtain "run_ok p'" "same_plan p p'" "within_budget p' \<or> rn_selected p' = Map.empty"
    using walk_facts [OF assms] by metis
  then show ?thesis by (auto simp: run_ok_def within_budget_def same_planD)
qed

lemma walk_within_budget_witness:
  "rn_selected_row ex_done = int (\<Sum>t \<in> dom (rn_selected ex_done). card (sel ex_done t))
    \<and> (rn_selected ex_done = Map.empty
       \<or> rn_selected_row ex_done \<le> rq_row_budget (rn_req ex_run)
         \<and> key_memory ex_done + filter_memory ex_done + emitted_memory ex_done
           \<le> rq_memory_budget (rn_req ex_run))"
  by (rule walk_within_budget [OF ex_answers ex_ready ex_walked])

text \<open>
  C5: the slice starts where it was asked to. The rows the root's read names are all selected, there are at most
  \<open>--take\<close> of them, and each is the key of a row of the root table.
\<close>

theorem walk_keeps_seed:
  assumes "answers rd db eq" and "ready p root" and "walk rd p root = Some (Inr p')"
  shows "\<exists>seed. seed_keys rd p root = Inr seed \<and> keys_set seed \<subseteq> sel p' root
    \<and> int (card (keys_set seed)) \<le> rq_take (rn_req p)
    \<and> (\<forall>k \<in> keys_set seed. \<exists>r \<in> set (db root). has_key eq p root k r)"
proof -
  obtain seed where seed: "seed_keys rd p root = Inr seed" "keys_set seed \<subseteq> sel p' root"
    using walk_facts [OF assms] by metis
  then show ?thesis using seed_keys_rows [OF assms(1) seed(1)] by blast
qed

lemma walk_keeps_seed_witness:
  "\<exists>seed. seed_keys ex_reader ex_run ex_orders = Inr seed
    \<and> keys_set seed \<subseteq> sel ex_done ex_orders
    \<and> int (card (keys_set seed)) \<le> rq_take (rn_req ex_run)"
  using walk_keeps_seed [OF ex_answers ex_ready ex_walked] by blast

text \<open>
  C6: a table left out of scope (skipped, unreadable, without an identity, or a leaf partition)
  or set aside as a lookup table contributes no row to the walk's selection, unless it is the root.
\<close>

theorem walk_stays_in_scope:
  assumes "answers rd db eq" and "ready p root" and "walk rd p root = Some (Inr p')"
    and "t \<noteq> root" and "t \<notin> rn_in_scope p \<or> t \<in> rn_lookups p"
  shows "sel p' t = {}"
  using walk_facts [OF assms(1-3)] included_table assms(4,5) by (metis equals0I)

lemma walk_stays_in_scope_witness: "sel ex_done (TableRef ''audit'' ''log'') = {}"
proof (rule walk_stays_in_scope [OF ex_answers ex_ready ex_walked])
  show "TableRef ''audit'' ''log'' \<noteq> ex_orders" by (simp add: ex_orders_def)
  have "TableRef ''audit'' ''log'' \<notin> rn_in_scope ex_run" by code_simp
  then show "TableRef ''audit'' ''log'' \<notin> rn_in_scope ex_run
      \<or> TableRef ''audit'' ''log'' \<in> rn_lookups ex_run" ..
qed

text \<open>
  C7: what \<open>build\<close> and \<open>resolveIdentities\<close> make of a schema with distinct table names and
  foreign keys that have columns is a run the walk can start from: every table in scope has an
  identity whose columns are its own and whose types are theirs, nothing is selected, and the
  count is zero; and only tables that are not leaf partitions are in scope.
\<close>

theorem planner_start_ready:
  assumes "resolve_identities rd (build cells emitting s cls req) = Inr p" and "schema_ok s"
    and "root \<in> rn_in_scope p"
  shows "ready p root \<and> (\<forall>t \<in> rn_in_scope p. \<exists>tbl \<in> set (sch_tables s).
    tab_ref tbl = t \<and> tab_parent tbl = None \<and> identity_fits tbl (rn_ids p t))"
proof -
  have "\<exists>tbl \<in> set (sch_tables s). tab_ref tbl = t \<and> tab_parent tbl = None
      \<and> identity_fits tbl (rn_ids p t)" if "t \<in> rn_in_scope p" for t
    using resolved_fits [OF assms(1,2) that] .
  then show ?thesis using resolved_ready [OF assms] by blast
qed

lemma planner_start_ready_witness: "ready ex_run ex_orders"
  using planner_start_ready [OF ex_resolved ex_schema_ok ex_root] by (rule conjunct1)

section \<open>Static reach\<close>

text \<open>
  C8: \<open>staticReach\<close> returns, and what it returns covers the walk over the declared foreign keys: every
  table that is the parent of a followed edge whose child table can be reached within
  \<open>--depth\<close> is in it, so \<open>--skip-table\<close> refuses each of them.
\<close>

theorem static_reach_sound:
  assumes "0 \<le> rq_depth (rn_req p)"
  shows "\<exists>reached. static_reach p root = Some reached
    \<and> (\<forall>fk m d. table_reach p root (fk_child fk) m d \<and> fk \<in> set (rn_fks p)
        \<and> follows_as_parent fk \<longrightarrow> fk_parent fk \<in> reached)"
  by (rule static_reach_covers [OF assms])

lemma static_reach_sound_witness:
  "\<exists>reached. static_reach ex_run ex_orders = Some reached \<and> ex_customers \<in> reached"
proof -
  have "0 \<le> rq_depth (rn_req ex_run)" by code_simp
  then obtain reached where r: "static_reach ex_run ex_orders = Some reached"
    "\<And>fk m d. table_reach ex_run ex_orders (fk_child fk) m d \<Longrightarrow> fk \<in> set (rn_fks ex_run) \<Longrightarrow>
      follows_as_parent fk \<Longrightarrow> fk_parent fk \<in> reached"
    using static_reach_sound by metis
  have "table_reach ex_run ex_orders (fk_child ex_fk) ChildOK 0"
    using table_reach.root [of ex_run ex_orders] by (simp add: ex_fk_def)
  from r(2) [OF this ex_edge(1,2)] show ?thesis using r(1) by (simp add: ex_fk_def)
qed

end
